(* ===== verification/Js_Values.thy ===== *)
theory Js_Values
  imports Complex_Main "HOL-Library.Sublist"
begin

text \<open>
  The shared prelude: the part of JavaScript that the modelled TypeScript uses.

  \<^item> \<open>jsnum\<close>: a number. The finite ones are rationals (no rounding is modelled), and the three
    non-finite values keep their IEEE behaviour, so every \<open>Number.isFinite\<close> guard of the code is
    a real branch of the model.
  \<^item> \<open>jsval\<close>: a dynamically typed value, for the places where the code inspects an \<open>unknown\<close>.
  \<^item> strings: a \<open>string\<close> is the list of its UTF-16 code units in the Latin-1 range, on which
    \<open>trim\<close> and \<open>toLowerCase\<close> are exact.
  \<^item> results: a raised error is \<open>Inl\<close>, a returned value \<open>Inr\<close>.
\<close>

named_theorems js_simps \<open>unfolding rules of the JavaScript operations\<close>
named_theorems policy_defs \<open>the policy constants that proofs unfold together\<close>

section \<open>Numbers\<close>

datatype jsnum = Fin rat | PosInf | NegInf | NaN

instantiation jsnum :: "{ord, plus, minus, uminus, times, zero}"
begin

definition zero_jsnum :: jsnum where
  "zero_jsnum = Fin 0"

fun plus_jsnum :: "jsnum \<Rightarrow> jsnum \<Rightarrow> jsnum" where
  "plus_jsnum NaN _ = NaN"
| "plus_jsnum _ NaN = NaN"
| "plus_jsnum (Fin a) (Fin b) = Fin (a + b)"
| "plus_jsnum PosInf NegInf = NaN"
| "plus_jsnum NegInf PosInf = NaN"
| "plus_jsnum PosInf _ = PosInf"
| "plus_jsnum _ PosInf = PosInf"
| "plus_jsnum NegInf _ = NegInf"
| "plus_jsnum _ NegInf = NegInf"

fun uminus_jsnum :: "jsnum \<Rightarrow> jsnum" where
  "uminus_jsnum (Fin a) = Fin (- a)"
| "uminus_jsnum PosInf = NegInf"
| "uminus_jsnum NegInf = PosInf"
| "uminus_jsnum NaN = NaN"

definition minus_jsnum :: "jsnum \<Rightarrow> jsnum \<Rightarrow> jsnum" where
  "minus_jsnum x y = x + (- y)"

definition inf_of_sign :: "rat \<Rightarrow> jsnum" where
  "inf_of_sign s = (if s = 0 then NaN else if 0 < s then PosInf else NegInf)"

definition sign_of :: "jsnum \<Rightarrow> rat" where
  "sign_of x = (case x of Fin a \<Rightarrow> sgn a | PosInf \<Rightarrow> 1 | NegInf \<Rightarrow> -1 | NaN \<Rightarrow> 0)"

definition times_jsnum :: "jsnum \<Rightarrow> jsnum \<Rightarrow> jsnum" where
  "times_jsnum x y = (case (x, y) of
     (NaN, _) \<Rightarrow> NaN
   | (_, NaN) \<Rightarrow> NaN
   | (Fin a, Fin b) \<Rightarrow> Fin (a * b)
   | _ \<Rightarrow> inf_of_sign (sign_of x * sign_of y))"

text \<open>Every comparison with \<open>NaN\<close> is false, so this order is not reflexive.\<close>

fun less_eq_jsnum :: "jsnum \<Rightarrow> jsnum \<Rightarrow> bool" where
  "less_eq_jsnum NaN _ = False"
| "less_eq_jsnum _ NaN = False"
| "less_eq_jsnum (Fin a) (Fin b) = (a \<le> b)"
| "less_eq_jsnum NegInf _ = True"
| "less_eq_jsnum _ PosInf = True"
| "less_eq_jsnum _ _ = False"

fun less_jsnum :: "jsnum \<Rightarrow> jsnum \<Rightarrow> bool" where
  "less_jsnum NaN _ = False"
| "less_jsnum _ NaN = False"
| "less_jsnum (Fin a) (Fin b) = (a < b)"
| "less_jsnum NegInf NegInf = False"
| "less_jsnum NegInf _ = True"
| "less_jsnum PosInf _ = False"
| "less_jsnum _ PosInf = True"
| "less_jsnum _ _ = False"

instance ..

end

lemma times_Fin [simp]: "Fin a * Fin b = Fin (a * b)"
  by (simp add: times_jsnum_def)

lemma minus_Fin [simp]: "Fin a - Fin b = Fin (a - b)"
  by (simp add: minus_jsnum_def)

lemma times_finite: "x * Fin b = Fin c \<Longrightarrow> \<exists>a. x = Fin a"
  by (cases x) (auto simp: times_jsnum_def inf_of_sign_def split: if_splits)

text \<open>\<open>Number.isFinite\<close>, \<open>Number.isInteger\<close>, \<open>Number.isSafeInteger\<close> and \<open>Math.min\<close>.\<close>

definition is_finite :: "jsnum \<Rightarrow> bool" where
  "is_finite x = (case x of Fin _ \<Rightarrow> True | _ \<Rightarrow> False)"

lemma is_finite_simps [simp]:
  "is_finite (Fin a)" "\<not> is_finite PosInf" "\<not> is_finite NegInf" "\<not> is_finite NaN"
  by (simp_all add: is_finite_def)

lemma is_finite_iff: "is_finite x \<longleftrightarrow> (\<exists>a. x = Fin a)"
  by (cases x) auto

lemma is_finiteE [elim]: "is_finite x \<Longrightarrow> (\<And>a. x = Fin a \<Longrightarrow> P) \<Longrightarrow> P"
  by (auto simp: is_finite_iff)

definition is_integer :: "jsnum \<Rightarrow> bool" where
  "is_integer x = (case x of Fin a \<Rightarrow> a = of_int \<lfloor>a\<rfloor> | _ \<Rightarrow> False)"

definition max_safe_integer :: int where
  "max_safe_integer = 9007199254740991"

definition is_safe_integer :: "jsnum \<Rightarrow> bool" where
  "is_safe_integer x = (case x of
     Fin a \<Rightarrow> a = of_int \<lfloor>a\<rfloor> \<and> \<bar>\<lfloor>a\<rfloor>\<bar> \<le> max_safe_integer | _ \<Rightarrow> False)"

definition math_min :: "jsnum \<Rightarrow> jsnum \<Rightarrow> jsnum" where
  "math_min x y = (if x = NaN \<or> y = NaN then NaN else if y \<le> x then y else x)"

lemma math_min_Fin [simp]: "math_min (Fin a) (Fin b) = Fin (min a b)"
  by (auto simp: math_min_def min_def)

section \<open>Dynamic values\<close>

datatype jsval =
    JUndef
  | JNull
  | JBool bool
  | JNum jsnum
  | JStr string
  | JArr "jsval list"
  | JObj "(string \<times> jsval) list"

text \<open>Reading a property: absent, or read off something that is not an object, is \<open>undefined\<close>.\<close>

definition jget :: "jsval \<Rightarrow> string \<Rightarrow> jsval" where
  "jget v k = (case v of JObj kvs \<Rightarrow> (case map_of kvs k of None \<Rightarrow> JUndef | Some x \<Rightarrow> x) | _ \<Rightarrow> JUndef)"

lemma jget_simps [simp]:
  "jget JUndef k = JUndef" "jget JNull k = JUndef" "jget (JBool b) k = JUndef"
  "jget (JNum n) k = JUndef" "jget (JStr s) k = JUndef" "jget (JArr xs) k = JUndef"
  "jget (JObj []) k = JUndef"
  "jget (JObj ((k', x) # kvs)) k = (if k = k' then x else jget (JObj kvs) k)"
  by (simp_all add: jget_def)

definition is_obj :: "jsval \<Rightarrow> bool" where
  "is_obj v = (case v of JObj _ \<Rightarrow> True | _ \<Rightarrow> False)"

definition is_str :: "jsval \<Rightarrow> bool" where
  "is_str v = (case v of JStr _ \<Rightarrow> True | _ \<Rightarrow> False)"

definition is_bool :: "jsval \<Rightarrow> bool" where
  "is_bool v = (case v of JBool _ \<Rightarrow> True | _ \<Rightarrow> False)"

text \<open>Typed views of a property: what a typed reader sees of a value of the right type.\<close>

definition str_of :: "jsval \<Rightarrow> string option" where
  "str_of v = (case v of JStr s \<Rightarrow> Some s | _ \<Rightarrow> None)"

definition bool_of :: "jsval \<Rightarrow> bool option" where
  "bool_of v = (case v of JBool b \<Rightarrow> Some b | _ \<Rightarrow> None)"

definition strs_of :: "jsval \<Rightarrow> string list option" where
  "strs_of v = (case v of JArr xs \<Rightarrow> Some (List.map_filter str_of xs) | _ \<Rightarrow> None)"

lemma kind_simps [simp]:
  "is_obj (JObj kvs)" "is_str (JStr s)" "is_bool (JBool b)"
  "\<not> is_obj JUndef" "\<not> is_obj JNull" "\<not> is_obj (JStr s)" "\<not> is_obj (JBool b)" "\<not> is_obj (JNum n)"
  "\<not> is_obj (JArr xs)" "\<not> is_str JUndef" "\<not> is_str JNull" "\<not> is_bool JUndef" "\<not> is_bool JNull"
  "str_of (JStr s) = Some s" "str_of JUndef = None" "bool_of (JBool b) = Some b" "bool_of JUndef = None"
  by (simp_all add: is_obj_def is_str_def is_bool_def str_of_def bool_of_def)

section \<open>Strings\<close>

text \<open>\<open>String.prototype.trim\<close> and \<open>toLowerCase\<close> on Latin-1 code units.\<close>

definition js_space :: "char \<Rightarrow> bool" where
  "js_space c = (of_char c \<in> {9, 10, 11, 12, 13, 32, 160 :: nat})"

definition js_trim :: "string \<Rightarrow> string" where
  "js_trim s = rev (dropWhile js_space (rev (dropWhile js_space s)))"

definition lower_char :: "char \<Rightarrow> char" where
  "lower_char c = (let n = of_char c :: nat in
     if 65 \<le> n \<and> n \<le> 90 \<or> 192 \<le> n \<and> n \<le> 222 \<and> n \<noteq> 215 then char_of (n + 32) else c)"

definition js_lower :: "string \<Rightarrow> string" where
  "js_lower s = map lower_char s"

text \<open>\<open>s.trim().toLowerCase()\<close>, the canonical form of every configured name.\<close>

definition canon :: "string \<Rightarrow> string" where
  "canon s = js_lower (js_trim s)"

text \<open>\<open>Buffer.byteLength\<close> in UTF-8: a Latin-1 character above 127 takes two bytes.\<close>

definition byte_length :: "string \<Rightarrow> nat" where
  "byte_length s = sum_list (map (\<lambda>c. if (of_char c :: nat) < 128 then 1 else 2) s)"

lemma of_char_less_256: "(of_char c :: nat) < 256"
  by simp

lemma lower_char_idem: "lower_char (lower_char c) = lower_char c"
proof -
  define n where "n = (of_char c :: nat)"
  have "n < 256" by (simp add: n_def)
  show ?thesis
  proof (cases "65 \<le> n \<and> n \<le> 90 \<or> 192 \<le> n \<and> n \<le> 222 \<and> n \<noteq> 215")
    case True
    then have l: "lower_char c = char_of (n + 32)" and "n + 32 < 256"
      by (auto simp: lower_char_def n_def)
    then have "of_char (lower_char c) = n + 32" by simp
    with True show ?thesis by (auto simp: lower_char_def [of "lower_char c"] Let_def)
  next
    case False
    then have "lower_char c = c" by (auto simp: lower_char_def n_def Let_def)
    then show ?thesis by simp
  qed
qed

text \<open>Splitting at separator characters; used with the empty pieces filtered away.\<close>

fun split_on :: "(char \<Rightarrow> bool) \<Rightarrow> string \<Rightarrow> string list" where
  "split_on P [] = [[]]"
| "split_on P (c # cs) =
     (if P c then [] # split_on P cs
      else (case split_on P cs of [] \<Rightarrow> [[c]] | w # ws \<Rightarrow> (c # w) # ws))"

lemma split_on_not_Nil [simp]: "split_on P s \<noteq> []"
  by (induction s) (auto split: list.splits)

section \<open>Maps in insertion order\<close>

text \<open>
  A JavaScript \<open>Map\<close> is the list of its entries in insertion order: \<open>set\<close> replaces the value of a
  present key in place and appends a new key, \<open>delete\<close> removes the entry, \<open>get\<close> is \<open>map_of\<close>.
\<close>

definition map_set :: "'k \<Rightarrow> 'v \<Rightarrow> ('k \<times> 'v) list \<Rightarrow> ('k \<times> 'v) list" where
  "map_set k v m = (if k \<in> fst ` set m then map (\<lambda>e. if fst e = k then (k, v) else e) m else m @ [(k, v)])"

definition map_delete :: "'k \<Rightarrow> ('k \<times> 'v) list \<Rightarrow> ('k \<times> 'v) list" where
  "map_delete k m = filter (\<lambda>e. fst e \<noteq> k) m"

lemma map_set_lookup: "map_of (map_set k v m) = (map_of m)(k \<mapsto> v)"
proof (cases "k \<in> fst ` set m")
  case True
  have "k \<in> fst ` set m \<Longrightarrow>
      map_of (map (\<lambda>e. if fst e = k then (k, v) else e) m) = (map_of m)(k \<mapsto> v)" for m :: "('a \<times> 'b) list"
  proof (induction m)
    case (Cons e m)
    have "k \<notin> fst ` set m \<Longrightarrow> map (\<lambda>e. if fst e = k then (k, v) else e) m = m"
      by (rule map_idI) auto
    with Cons show ?case by (cases e; cases "k \<in> fst ` set m") auto
  qed simp
  with True show ?thesis by (simp add: map_set_def)
next
  case False
  then have "map_of m k = None" by (simp add: map_of_eq_None_iff)
  with False show ?thesis by (auto simp: map_set_def map_add_def fun_eq_iff split: option.split)
qed

lemma map_delete_lookup: "map_of (map_delete k m) = (map_of m)(k := None)"
  by (induction m) (auto simp: map_delete_def)

lemma map_set_keys: "map fst (map_set k v m) = (if k \<in> fst ` set m then map fst m else map fst m @ [k])"
  by (simp add: map_set_def o_def cong: if_cong)

lemma map_set_distinct: "distinct (map fst m) \<Longrightarrow> distinct (map fst (map_set k v m))"
  unfolding map_set_keys by simp

lemma map_set_entries: "set (map_set k v m) \<subseteq> insert (k, v) (set m)"
  by (auto simp: map_set_def)

lemma map_delete_distinct: "distinct (map fst m) \<Longrightarrow> distinct (map fst (map_delete k m))"
  by (simp add: map_delete_def distinct_map_filter)

lemma map_delete_entries: "set (map_delete k m) = {e \<in> set m. fst e \<noteq> k}"
  by (auto simp: map_delete_def)

section \<open>Results and lists\<close>

type_synonym ('e, 'a) result = "'e + 'a"

text \<open>\<open>Array.prototype.find\<close> is the library's \<open>List.find\<close>; the two facts used of it.\<close>

lemma find_SomeD: "List.find P xs = Some x \<Longrightarrow> x \<in> set xs \<and> P x"
  by (induction xs) (auto split: if_splits)

lemma find_None_iff': "List.find P xs = None \<longleftrightarrow> (\<forall>x\<in>set xs. \<not> P x)"
  by (induction xs) auto

end
