(* ===== verification/Policy_Capabilities.thy ===== *)
theory Policy_Capabilities
  imports Js_Values
begin

text \<open>
  The capability taxonomy: \<^verbatim>\<open>packages/core/src/policy/effects.ts\<close> and
  \<^verbatim>\<open>packages/core/src/policy/capabilities.ts\<close>. The effect vocabulary with its rank, the mappings of
  foreign declarations onto it, the scopes, risks and default numbers, and the data table of all
  capabilities. The lemmas show what the rest of the policy relies on: the rank orders effects, a
  declaration can only raise an effect, the table has no duplicate id, and a never capability has no
  ceiling, no deciding surface and cannot be lowered.
\<close>

section \<open>Effects\<close>

datatype effect = EffRead | EffLocalWrite | EffLocalDestructive | EffExternal | EffNetworkA2a | EffMoney

definition EFFECTS :: "(string \<times> effect) list" where
  "EFFECTS = [(''read'', EffRead), (''local-write'', EffLocalWrite),
     (''local-destructive'', EffLocalDestructive), (''external'', EffExternal),
     (''network.a2a'', EffNetworkA2a), (''money'', EffMoney)]"

fun effectRank :: "effect \<Rightarrow> nat" where
  "effectRank EffRead = 0"
| "effectRank EffLocalWrite = 1"
| "effectRank EffLocalDestructive = 2"
| "effectRank EffExternal = 3"
| "effectRank EffNetworkA2a = 3"
| "effectRank EffMoney = 4"

definition maxEffect :: "effect \<Rightarrow> effect \<Rightarrow> effect" where
  "maxEffect a b = (if effectRank b \<le> effectRank a then a else b)"

text \<open>\<open>isEffect\<close> of the code, with the effect it recognises.\<close>

definition isEffect :: "jsval \<Rightarrow> effect option" where
  "isEffect v = (case v of JStr s \<Rightarrow> map_of EFFECTS s | _ \<Rightarrow> None)"

definition fromSideEffects :: "string \<Rightarrow> bool \<Rightarrow> effect" where
  "fromSideEffects side irreversible =
    (if side = ''none'' then EffRead
     else if side = ''local'' then (if irreversible then EffLocalDestructive else EffLocalWrite)
     else if side = ''external'' then EffExternal
     else if side = ''money'' then EffMoney
     else EffExternal)"

definition fromExtensionEffect :: "string \<Rightarrow> string option \<Rightarrow> effect" where
  "fromExtensionEffect eff network =
    (if eff = ''read'' then EffRead
     else if eff \<noteq> ''write'' \<and> eff \<noteq> ''destructive'' then EffExternal
     else if eff = ''destructive'' then
       (if network = Some ''none'' then EffLocalDestructive else EffExternal)
     else if network = Some ''none'' then EffLocalWrite else EffExternal)"

record mcp_annotations =
  readOnlyHint :: "bool option"
  destructiveHint :: "bool option"
  openWorldHint :: "bool option"

definition fromMcp :: "jsval \<Rightarrow> mcp_annotations \<Rightarrow> effect" where
  "fromMcp declared ann =
    (let e0 = (case isEffect declared of Some e \<Rightarrow> e | None \<Rightarrow> EffExternal);
         e1 = (if destructiveHint ann = Some True then maxEffect e0 EffLocalDestructive else e0);
         e2 = (if openWorldHint ann = Some True then maxEffect e1 EffExternal else e1)
     in e2)"

lemma effectRank_maxEffect: "effectRank (maxEffect a b) = max (effectRank a) (effectRank b)"
  by (simp add: maxEffect_def max_def)

lemma effectRank_le_4: "effectRank e \<le> 4"
  by (cases e) simp_all

lemma maxEffect_id_left: "effectRank b \<le> effectRank a \<Longrightarrow> maxEffect a b = a"
  by (simp add: maxEffect_def)

section \<open>Classes, scopes, risks\<close>

datatype policy_class = Allowed | Approval | Never

fun class_strictness :: "policy_class \<Rightarrow> nat" where
  "class_strictness Allowed = 0"
| "class_strictness Approval = 1"
| "class_strictness Never = 2"

definition stricterClass :: "policy_class \<Rightarrow> policy_class \<Rightarrow> policy_class" where
  "stricterClass a b = (if class_strictness b \<le> class_strictness a then a else b)"

lemma stricterClass_not_Allowed [simp]: "stricterClass c Approval \<noteq> Allowed"
  by (cases c) (simp_all add: stricterClass_def)

text \<open>A scope read back from a store may be any string: \<open>Scope_other\<close>, whose index is -1.\<close>

datatype grant_scope = Once | Task | Session | Always | Scope_other string

definition GRANT_SCOPES :: "grant_scope list" where
  "GRANT_SCOPES = [Once, Task, Session, Always]"

fun scopeRank :: "grant_scope \<Rightarrow> int" where
  "scopeRank Once = 0"
| "scopeRank Task = 1"
| "scopeRank Session = 2"
| "scopeRank Always = 3"
| "scopeRank (Scope_other _) = -1"

datatype risk = Low | Medium | High | Critical

definition RISKS :: "risk list" where
  "RISKS = [Low, Medium, High, Critical]"

fun riskRank :: "risk \<Rightarrow> nat" where
  "riskRank Low = 0"
| "riskRank Medium = 1"
| "riskRank High = 2"
| "riskRank Critical = 3"

lemma RISKS_riskRank: "RISKS ! riskRank r = r"
  by (cases r) (simp_all add: RISKS_def)

lemma riskRank_RISKS: "n \<le> 3 \<Longrightarrow> riskRank (RISKS ! n) = n"
  by (auto simp: RISKS_def nth_Cons' le_Suc_eq numeral_3_eq_3)

lemma scopeRank_inj: "scopeRank s = scopeRank t \<Longrightarrow> s \<in> set GRANT_SCOPES \<Longrightarrow> s = t"
  by (cases s; cases t) (simp_all add: GRANT_SCOPES_def)

section \<open>Default numbers\<close>

definition MIN_ms :: rat where "MIN_ms = 60000"
definition HOUR_ms :: rat where "HOUR_ms = 60 * MIN_ms"
definition DAY_ms :: rat where "DAY_ms = 24 * HOUR_ms"

definition onceUnusedMs :: rat where "onceUnusedMs = 10 * MIN_ms"
definition taskMs :: rat where "taskMs = 24 * HOUR_ms"
definition sessionIdleMs :: rat where "sessionIdleMs = 7 * DAY_ms"
definition alwaysUnusedMs :: rat where "alwaysUnusedMs = 90 * DAY_ms"
definition reviewNudgeAgeMs :: rat where "reviewNudgeAgeMs = 90 * DAY_ms"
definition maxPromptsPerTaskPerHour :: rat where "maxPromptsPerTaskPerHour = 10"
definition batchTargetsOver :: nat where "batchTargetsOver = 20"

fun surfaceByRisk :: "risk \<Rightarrow> nat" where
  "surfaceByRisk Low = 1"
| "surfaceByRisk Medium = 2"
| "surfaceByRisk High = 2"
| "surfaceByRisk Critical = 3"

lemmas default_ms = MIN_ms_def HOUR_ms_def DAY_ms_def onceUnusedMs_def taskMs_def sessionIdleMs_def
  alwaysUnusedMs_def reviewNudgeAgeMs_def

section \<open>The table\<close>

record capability_def =
  cap_id :: string
  cap_covers :: string
  intrinsicEffect :: effect
  base_inside :: policy_class
  base_outside :: policy_class
  ceiling :: "grant_scope option"
  minSurface :: "nat option"
  baseRisk :: risk
  lowerable :: bool
  taintSensitive :: bool

definition cap_def :: "string \<Rightarrow> string \<Rightarrow> effect \<Rightarrow> policy_class \<Rightarrow> policy_class \<Rightarrow>
    grant_scope option \<Rightarrow> nat option \<Rightarrow> risk \<Rightarrow> bool \<Rightarrow> capability_def" where
  "cap_def i cov e inside outside ceil surf r taint =
    \<lparr>cap_id = i, cap_covers = cov, intrinsicEffect = e, base_inside = inside, base_outside = outside,
     ceiling = ceil, minSurface = surf, baseRisk = r,
     lowerable = (ceil \<noteq> Some Once \<and> surf \<noteq> Some 3 \<and> inside \<noteq> Never), taintSensitive = taint\<rparr>"

definition TABLE :: "capability_def list" where
  "TABLE =
  [cap_def ''apps.launch'' ''apps.open/focus, hostctl.app.open'' EffLocalWrite Approval Approval (Some Once) (Some 2) Medium False,
   cap_def ''fs.read'' ''fs.list/stat/read/search'' EffRead Allowed Approval (Some Always) (Some 1) Low False,
   cap_def ''fs.write'' ''fs.write/edit/mkdir/copy/move, fs.trash inside roots'' EffLocalWrite Allowed Approval (Some Always) (Some 1) Low False,
   cap_def ''memory.read'' ''memory.recall within the admitted caller and agent'' EffRead Allowed Allowed None None Low False,
   cap_def ''memory.write'' ''memory.capture within the admitted caller and session'' EffLocalWrite Allowed Allowed (Some Always) (Some 2) Low False,
   cap_def ''fs.delete'' ''fs.delete, fs.trash outside roots'' EffLocalDestructive Approval Approval (Some Task) (Some 2) High False,
   cap_def ''shell.exec'' ''shell.*, skill scripts'' EffLocalWrite Approval Approval (Some Always) (Some 2) Medium False,
   cap_def ''proc.signal'' ''proc.signal/kill, apps.quit with unsaved state'' EffLocalDestructive Approval Approval (Some Session) (Some 2) Medium False,
   cap_def ''pkg.change'' ''pkg.install/upgrade/remove'' EffLocalDestructive Approval Approval (Some Once) (Some 2) High False,
   cap_def ''sys.read'' ''sys.*, proc.list'' EffRead Allowed Allowed None None Low False,
   cap_def ''clipboard.read'' ''clipboard.read'' EffRead Approval Approval (Some Session) (Some 1) Low False,
   cap_def ''net.fetch'' ''web.fetch, browser.navigate/read'' EffRead Allowed Allowed None None Low False,
   cap_def ''net.submit'' ''form submission, downloads, external MCP tools, non-read-only webmcp'' EffExternal Approval Approval (Some Session) (Some 2) Medium True,
   cap_def ''network.a2a'' ''outbound A2A card discovery and messages'' EffNetworkA2a Approval Approval (Some Session) (Some 2) Medium True,
   cap_def ''mcp.tool.read'' ''MCP tools declared read by an installed extension'' EffRead Allowed Allowed None None Low False,
   cap_def ''mcp.tool.write'' ''MCP tools declared local write by an installed extension'' EffLocalWrite Approval Approval (Some Session) (Some 2) Medium False,
   cap_def ''mcp.tool.destructive'' ''MCP tools declared destructive or raised by server annotations'' EffLocalDestructive Approval Approval (Some Once) (Some 2) High False,
   cap_def ''comm.send'' ''mail/messages/posts as the person'' EffExternal Approval Approval (Some Session) (Some 2) High True,
   cap_def ''net.publish'' ''tailnet / public publishing'' EffExternal Approval Approval (Some Always) (Some 2) High True,
   cap_def ''money.spend'' ''purchases, paid top-ups, money tools'' EffMoney Approval Approval (Some Once) (Some 3) Critical False,
   cap_def ''os.privilege'' ''sudo, doas, pkexec, polkit, UAC, runas'' EffLocalDestructive Approval Approval (Some Once) (Some 3) Critical False,
   cap_def ''os.grant'' ''TCC / privacy toggles / portals'' EffLocalWrite Approval Approval (Some Always) (Some 3) High False,
   cap_def ''os.script'' ''os.shortcuts.run, os.script.run'' EffLocalWrite Approval Approval (Some Session) (Some 2) Medium False,
   cap_def ''screen.capture'' ''screen.capture'' EffRead Approval Approval (Some Session) (Some 2) Medium False,
   cap_def ''ui.control'' ''ui.*'' EffLocalWrite Approval Approval (Some Session) (Some 2) High False,
   cap_def ''secrets.use'' ''leasing a secret slot into a tool or script'' EffRead Allowed Allowed None None Low False,
   cap_def ''agent.delegate'' ''delegate/handoff, MoA'' EffRead Allowed Allowed None None Low False,
   cap_def ''remote.control'' ''D108 session start'' EffExternal Approval Approval (Some Always) (Some 3) Critical False,
   cap_def ''hostctl.fs.trash'' ''hostctl.fs.trash inside roots, native Trash only'' EffLocalDestructive Approval Approval (Some Task) (Some 2) Medium False,
   cap_def ''hostctl.proc.session.read'' ''owned process-session list/output'' EffRead Allowed Allowed (Some Session) (Some 1) Low False,
   cap_def ''hostctl.proc.session.write'' ''stdin of an owned process session'' EffLocalWrite Approval Approval (Some Session) (Some 2) Medium False,
   cap_def ''hostctl.proc.kill_foreign'' ''signal foreign PID, separate approval'' EffLocalDestructive Approval Approval (Some Once) (Some 2) High False,
   cap_def ''harness.admin'' ''config writes, extension install/enable, grants and approvals themselves'' EffLocalWrite Never Never None None Critical False,
   cap_def ''credential.entry'' ''typing passwords or OTPs into any UI'' EffExternal Never Never None None Critical False,
   cap_def ''captcha.solve'' ''solving CAPTCHAs'' EffExternal Never Never None None Critical False,
   cap_def ''input.monitor'' ''keystroke capture'' EffRead Never Never None None Critical False,
   cap_def ''policy.bypass'' ''disabling the sandbox, editing the policy or the store'' EffLocalWrite Never Never None None Critical False]"

definition CAPABILITIES :: "string \<rightharpoonup> capability_def" where
  "CAPABILITIES = map_of (map (\<lambda>d. (cap_id d, d)) TABLE)"

definition NEVER_CAPABILITIES :: "string list" where
  "NEVER_CAPABILITIES = map cap_id (filter (\<lambda>d. base_inside d = Never) TABLE)"

definition capabilityOf :: "string \<Rightarrow> capability_def option" where
  "capabilityOf i = CAPABILITIES i"

subsection \<open>Facts about the table\<close>

text \<open>
  \<open>new Map(entries)\<close> keeps the last entry of a duplicated key and \<open>map_of\<close> the first; the ids
  are distinct, so both give the same map.
\<close>

lemma TABLE_ids_distinct: "distinct (map cap_id TABLE)"
  by (simp add: TABLE_def cap_def_def)

text \<open>A property of every row, checked on the 37 rows once.\<close>

definition row_ok :: "capability_def \<Rightarrow> bool" where
  "row_ok d \<longleftrightarrow>
     (base_inside d = Never \<longleftrightarrow> base_outside d = Never) \<and>
     (base_inside d = Never \<longrightarrow> ceiling d = None \<and> minSurface d = None \<and> \<not> lowerable d) \<and>
     class_strictness (base_inside d) \<le> class_strictness (base_outside d) \<and>
     (\<forall>c. ceiling d = Some c \<longrightarrow> c \<in> set GRANT_SCOPES) \<and>
     (case minSurface d of None \<Rightarrow> True | Some s \<Rightarrow> 1 \<le> s \<and> s \<le> 3) \<and>
     canon (cap_id d) = cap_id d \<and> cap_id d \<noteq> []"

lemma TABLE_rows_ok: "list_all row_ok TABLE"
  unfolding TABLE_def cap_def_def
  by (simp add: row_ok_def GRANT_SCOPES_def canon_def js_trim_def js_lower_def lower_char_def js_space_def)

lemma CAPABILITIES_in_TABLE: "CAPABILITIES i = Some d \<Longrightarrow> d \<in> set TABLE \<and> cap_id d = i"
  by (auto simp: CAPABILITIES_def dest!: map_of_SomeD)

lemma CAPABILITIES_row_ok: "CAPABILITIES i = Some d \<Longrightarrow> row_ok d"
  using TABLE_rows_ok CAPABILITIES_in_TABLE by (auto simp: list_all_iff)

lemma CAPABILITIES_id [simp]: "CAPABILITIES i = Some d \<Longrightarrow> cap_id d = i"
  using CAPABILITIES_in_TABLE by blast

lemma NEVER_CAPABILITIES_iff:
  "i \<in> set NEVER_CAPABILITIES \<longleftrightarrow> (\<exists>d. CAPABILITIES i = Some d \<and> base_inside d = Never)"
proof
  assume "i \<in> set NEVER_CAPABILITIES"
  then obtain d where d: "d \<in> set TABLE" "cap_id d = i" "base_inside d = Never"
    by (auto simp: NEVER_CAPABILITIES_def)
  have "distinct (map fst (map (\<lambda>d. (cap_id d, d)) TABLE))"
    using TABLE_ids_distinct by (simp add: comp_def)
  moreover have "(i, d) \<in> set (map (\<lambda>d. (cap_id d, d)) TABLE)"
    using d by auto
  ultimately have "CAPABILITIES i = Some d"
    unfolding CAPABILITIES_def by (rule map_of_is_SomeI)
  with d show "\<exists>d. CAPABILITIES i = Some d \<and> base_inside d = Never" by blast
next
  assume "\<exists>d. CAPABILITIES i = Some d \<and> base_inside d = Never"
  then show "i \<in> set NEVER_CAPABILITIES"
    by (auto simp: NEVER_CAPABILITIES_def dest!: CAPABILITIES_in_TABLE)
qed

end
