(* ===== verification/Policy_Decide.thy ===== *)
theory Policy_Decide
  imports Policy_Capabilities
begin

text \<open>
  The decision evaluator: \<^verbatim>\<open>packages/core/src/policy/decide.ts\<close> and the headless gate of
  \<^verbatim>\<open>packages/core/src/policy/headless.ts\<close>. The evaluator receives an untyped call and context, refuses
  what it cannot read, and answers allow, ask or deny. Grants come from a source (modelled in
  \<^verbatim>\<open>Grant_Store.thy\<close>), time from a clock; both are fields of \<open>deps\<close>.

  The first part translates the data and every function in source order; the second part proves the
  precedence of the rules, the soundness of a grant, the correctness of the wildcard matcher and of
  path coverage.
\<close>

section \<open>Data\<close>

datatype subject_kind = SubAgent_main | SubSubagent | SubAcpAgent | SubMcpClient | SubAcpEditor
  | SubA2aPeer | SubRemoteHarness

definition SUBJECT_KINDS :: "(string \<times> subject_kind) list" where
  "SUBJECT_KINDS = [(''agent'', SubAgent_main), (''subagent'', SubSubagent), (''acp-agent'', SubAcpAgent),
     (''mcp-client'', SubMcpClient), (''acp-editor'', SubAcpEditor), (''a2a-peer'', SubA2aPeer),
     (''remote-harness'', SubRemoteHarness)]"

record call_flags =
  outsideRoots :: bool
  denyListHit :: bool
  privileged :: "bool option"
  irreversible :: "bool option"
  batch :: "bool option"
  shellAllowlisted :: "bool option"
  sandboxed :: "bool option"
  secretSlotDeclared :: "bool option"
  publishPublic :: "bool option"
  systemTree :: "bool option"

datatype access = AccessRead | AccessWrite

record call =
  call_capability :: "string option"
  call_tool :: string
  call_effect :: jsval
  call_flags_of :: call_flags
  call_targets :: "string list option"
  call_access :: "access option"
  call_actionHash :: string

record handoff =
  ho_scope :: "string list"
  ho_taskId :: string
  ho_approvalsHeld :: "string list"

record decision_context =
  ctx_person :: string
  ctx_subjectKind :: subject_kind
  ctx_agentId :: string
  ctx_surface :: jsval
  ctx_sessionId :: "string option"
  ctx_taskId :: "string option"
  ctx_projectId :: "string option"
  ctx_headless :: "string option"
  ctx_toolsDeny :: jsval
  ctx_overrides :: "(string \<times> jsval) list"
  ctx_tainted :: bool
  ctx_readPrivate :: bool
  ctx_handoff :: "handoff option"
  ctx_tokenScopes :: "string list option"
  ctx_deniedActionHashes :: "string list option"
  ctx_promptsThisHour :: jsval

datatype grant_match = MatchAction | MatchCapability | MatchPath string access bool

record grant =
  g_id :: string
  g_capability :: string
  g_person :: string
  g_agent :: string
  g_scope :: grant_scope
  g_match :: grant_match
  g_createdAt :: jsnum
  g_lastUsedAt :: "jsnum option"
  g_expiresAt :: "jsnum option"
  g_revoked :: jsval
  g_consumedAt :: "jsnum option"
  g_actionHash :: "string option"
  g_taskId :: "string option"
  g_sessionId :: "string option"
  g_projectId :: "string option"
  g_jobId :: "string option"
  g_delegable :: bool
  g_surface :: jsnum
  g_acknowledgedUnsandboxed :: bool

record deps =
  dep_list :: "string \<Rightarrow> string \<Rightarrow> string \<Rightarrow> grant list"
  dep_get :: "string \<Rightarrow> grant option"
  dep_maxGrantDays :: "jsnum option"
  dep_now :: jsnum

datatype deny_reason = PolicyNever | DenyList | SurfaceUntrusted | RepeatDenied | PromptCap

record grant_option =
  opt_scope :: grant_scope
  opt_requiredSurface :: nat

record approval_request =
  rq_capability :: string
  rq_tool :: string
  rq_effect :: effect
  rq_flags :: call_flags
  rq_risk :: risk
  rq_reversible :: bool
  rq_actionHash :: string
  rq_grantOptions :: "grant_option list"
  rq_requiredSurface :: nat
  rq_tainted :: bool
  rq_taintSuspended :: bool
  rq_originSurface :: jsval

datatype via = ViaDefault | ViaOverride | ViaGrant

datatype decision =
    Allow via "string option" bool
  | Ask approval_request bool string
  | Deny deny_reason string

section \<open>Names and wildcards\<close>

text \<open>
  The loop of \<open>globMatch\<close> over the four variables of the code; \<open>star = None\<close> is the code's -1.
  The second loop of the code skips trailing stars: \<open>glob_tail\<close>.
\<close>

fun glob_tail :: "string \<Rightarrow> bool" where
  "glob_tail [] = True"
| "glob_tail (c # cs) = (c = CHR ''*'' \<and> glob_tail cs)"

function glob_loop :: "string \<Rightarrow> string \<Rightarrow> nat \<Rightarrow> nat \<Rightarrow> nat option \<Rightarrow> nat \<Rightarrow> bool" where
  "glob_loop pat name p n star mark =
    (if n < length name then
       (if p < length pat \<and> pat ! p = CHR ''*'' then glob_loop pat name (Suc p) n (Some p) n
        else if p < length pat \<and> pat ! p = name ! n then glob_loop pat name (Suc p) (Suc n) star mark
        else (case star of
            Some s \<Rightarrow> glob_loop pat name (Suc s) (Suc mark) star (Suc mark)
          | None \<Rightarrow> False))
     else glob_tail (drop p pat))"
  by pat_completeness auto
termination
  by (relation "measures [\<lambda>(pat, name, p, n, star, mark). length name - min mark n,
        \<lambda>(pat, name, p, n, star, mark). length name - n,
        \<lambda>(pat, name, p, n, star, mark). length pat - p]") auto

declare glob_loop.simps [simp del]

definition globMatch :: "string \<Rightarrow> string \<Rightarrow> bool" where
  "globMatch pat name = glob_loop pat name 0 0 None 0"

datatype deny_match = DenyInvalid | DenyHit bool

text \<open>\<open>matchesDeny\<close>: the loop keeps scanning after a hit, so a later unreadable entry is still \<open>invalid\<close>.\<close>

fun deny_scan :: "string list \<Rightarrow> bool \<Rightarrow> jsval list \<Rightarrow> deny_match" where
  "deny_scan names hit [] = DenyHit hit"
| "deny_scan names hit (entry # rest) =
    (case entry of
       JStr s \<Rightarrow> (if canon s = [] then DenyInvalid
                  else deny_scan names (hit \<or> list_ex (globMatch (canon s)) names) rest)
     | _ \<Rightarrow> DenyInvalid)"

definition matchesDeny :: "jsval \<Rightarrow> call \<Rightarrow> string \<Rightarrow> deny_match" where
  "matchesDeny lst c capability =
    (case lst of JArr entries \<Rightarrow> deny_scan [canon (call_tool c), capability] False entries
     | _ \<Rightarrow> DenyInvalid)"

section \<open>Reading the input\<close>

definition FLAG_KEYS :: "string list" where
  "FLAG_KEYS = [''privileged'', ''irreversible'', ''batch'', ''shellAllowlisted'', ''sandboxed'',
     ''secretSlotDeclared'', ''publishPublic'', ''systemTree'']"

definition strList :: "jsval \<Rightarrow> bool" where
  "strList v = (case v of JArr xs \<Rightarrow> list_all is_str xs | _ \<Rightarrow> False)"

definition nonEmpty :: "jsval \<Rightarrow> bool" where
  "nonEmpty v = (case v of JStr s \<Rightarrow> s \<noteq> [] | _ \<Rightarrow> False)"

definition malformed :: "jsval \<Rightarrow> jsval \<Rightarrow> string option" where
  "malformed c ctx =
    (let f = jget c ''flags''; opt = (\<lambda>v. v = JUndef \<or> strList v); ho = jget ctx ''handoff''
     in if \<not> is_obj c \<or> \<not> is_obj f \<or> \<not> is_bool (jget f ''outsideRoots'') \<or> \<not> is_bool (jget f ''denyListHit'')
          then Some ''invalid-call''
        else if list_ex (\<lambda>k. jget f k \<noteq> JUndef \<and> \<not> is_bool (jget f k)) FLAG_KEYS then Some ''invalid-call''
        else if \<not> is_str (jget c ''tool'') \<or> \<not> is_str (jget c ''actionHash'') then Some ''invalid-call''
        else if \<not> opt (jget c ''targets'') then Some ''invalid-call''
        else if jget c ''access'' \<notin> {JUndef, JStr ''read'', JStr ''write''} then Some ''invalid-call''
        else if \<not> is_obj ctx \<or> \<not> is_obj (jget ctx ''principal'') \<or>
                \<not> nonEmpty (jget (jget ctx ''principal'') ''person'') \<or>
                \<not> is_obj (jget ctx ''subject'') \<or> \<not> nonEmpty (jget (jget ctx ''subject'') ''agentId'') \<or>
                (case jget (jget ctx ''subject'') ''kind'' of
                   JStr k \<Rightarrow> map_of SUBJECT_KINDS k = None | _ \<Rightarrow> True)
          then Some ''invalid-context''
        else if jget ctx ''headless'' \<noteq> JUndef \<and>
                (\<not> is_obj (jget ctx ''headless'') \<or> \<not> nonEmpty (jget (jget ctx ''headless'') ''jobId''))
          then Some ''invalid-context''
        else if \<not> opt (jget ctx ''tokenScopes'') then Some ''invalid-context''
        else if \<not> opt (jget ctx ''deniedActionHashes'') then Some ''invalid-context''
        else if ho \<noteq> JUndef \<and>
                (\<not> is_obj ho \<or> \<not> strList (jget ho ''scope'') \<or> \<not> strList (jget ho ''approvalsHeld'') \<or>
                 \<not> nonEmpty (jget ho ''taskId''))
          then Some ''invalid-context''
        else None)"

text \<open>The typed view of a call and a context that \<open>malformed\<close> let through.\<close>

definition flags_of :: "jsval \<Rightarrow> call_flags" where
  "flags_of f =
    \<lparr>outsideRoots = (jget f ''outsideRoots'' = JBool True),
     denyListHit = (jget f ''denyListHit'' = JBool True),
     privileged = bool_of (jget f ''privileged''),
     irreversible = bool_of (jget f ''irreversible''),
     batch = bool_of (jget f ''batch''),
     shellAllowlisted = bool_of (jget f ''shellAllowlisted''),
     sandboxed = bool_of (jget f ''sandboxed''),
     secretSlotDeclared = bool_of (jget f ''secretSlotDeclared''),
     publishPublic = bool_of (jget f ''publishPublic''),
     systemTree = bool_of (jget f ''systemTree'')\<rparr>"

definition access_of :: "jsval \<Rightarrow> access option" where
  "access_of v = (if v = JStr ''read'' then Some AccessRead
     else if v = JStr ''write'' then Some AccessWrite else None)"

definition call_of :: "jsval \<Rightarrow> call" where
  "call_of c =
    \<lparr>call_capability = str_of (jget c ''capability''),
     call_tool = the (str_of (jget c ''tool'')),
     call_effect = jget c ''effect'',
     call_flags_of = flags_of (jget c ''flags''),
     call_targets = strs_of (jget c ''targets''),
     call_access = access_of (jget c ''access''),
     call_actionHash = the (str_of (jget c ''actionHash''))\<rparr>"

definition handoff_of :: "jsval \<Rightarrow> handoff option" where
  "handoff_of h = (if is_obj h then
      Some \<lparr>ho_scope = the (strs_of (jget h ''scope'')), ho_taskId = the (str_of (jget h ''taskId'')),
            ho_approvalsHeld = the (strs_of (jget h ''approvalsHeld''))\<rparr>
    else None)"

definition context_of :: "jsval \<Rightarrow> decision_context" where
  "context_of ctx =
    \<lparr>ctx_person = the (str_of (jget (jget ctx ''principal'') ''person'')),
     ctx_subjectKind = the (map_of SUBJECT_KINDS (the (str_of (jget (jget ctx ''subject'') ''kind'')))),
     ctx_agentId = the (str_of (jget (jget ctx ''subject'') ''agentId'')),
     ctx_surface = jget ctx ''surface'',
     ctx_sessionId = str_of (jget ctx ''sessionId''),
     ctx_taskId = str_of (jget ctx ''taskId''),
     ctx_projectId = str_of (jget ctx ''projectId''),
     ctx_headless = str_of (jget (jget ctx ''headless'') ''jobId''),
     ctx_toolsDeny = jget ctx ''toolsDeny'',
     ctx_overrides = (case jget ctx ''overrides'' of JObj kvs \<Rightarrow> kvs | _ \<Rightarrow> []),
     ctx_tainted = (jget (jget ctx ''taint'') ''tainted'' = JBool True),
     ctx_readPrivate = (jget (jget ctx ''taint'') ''readPrivate'' = JBool True),
     ctx_handoff = handoff_of (jget ctx ''handoff''),
     ctx_tokenScopes = strs_of (jget ctx ''tokenScopes''),
     ctx_deniedActionHashes = strs_of (jget ctx ''deniedActionHashes''),
     ctx_promptsThisHour = jget ctx ''promptsThisHour''\<rparr>"

definition validGrant :: "grant \<Rightarrow> bool" where
  "validGrant g \<longleftrightarrow>
     g_id g \<noteq> [] \<and> g_capability g \<noteq> [] \<and> g_person g \<noteq> [] \<and> g_agent g \<noteq> [] \<and>
     g_scope g \<in> set GRANT_SCOPES \<and>
     is_finite (g_createdAt g) \<and>
     (case g_lastUsedAt g of None \<Rightarrow> True | Some t \<Rightarrow> is_finite t) \<and>
     (case g_expiresAt g of None \<Rightarrow> True | Some t \<Rightarrow> is_finite t) \<and>
     g_surface g \<in> {Fin 0, Fin 1, Fin 2, Fin 3} \<and>
     (case g_match g of MatchPath p _ _ \<Rightarrow> p \<noteq> [] | _ \<Rightarrow> True)"

section \<open>Scope, surface and risk\<close>

definition isBatch :: "call_flags \<Rightarrow> string list option \<Rightarrow> bool" where
  "isBatch f targets \<longleftrightarrow>
     batch f = Some True \<or> batchTargetsOver < (case targets of None \<Rightarrow> 0 | Some ts \<Rightarrow> length ts)"

definition maxScopeFor :: "capability_def \<Rightarrow> call_flags \<Rightarrow> grant_scope" where
  "maxScopeFor d f =
    (let cap = (\<lambda>s m. if scopeRank s < scopeRank m then s else m);
         m0 = (case ceiling d of Some c \<Rightarrow> c | None \<Rightarrow> Once);
         m1 = (if isBatch f None then cap Once m0 else m0);
         m2 = (if systemTree f = Some True then cap Task m1 else m1);
         m3 = (if publishPublic f = Some True then cap Once m2 else m2)
     in m3)"

definition riskOf :: "capability_def \<Rightarrow> call_flags \<Rightarrow> risk" where
  "riskOf d f =
    (let r0 = riskRank (baseRisk d);
         r1 = (if outsideRoots f \<and> effectRank EffLocalWrite \<le> effectRank (intrinsicEffect d) then r0 + 1 else r0);
         r2 = (if irreversible f = Some True then r1 + 1 else r1);
         r3 = (if privileged f = Some True then r2 + 1 else r2);
         r4 = (if publishPublic f = Some True \<or> systemTree f = Some True then 3 else r3)
     in RISKS ! min r4 3)"

definition requiredSurface :: "capability_def \<Rightarrow> grant_scope \<Rightarrow> call_flags \<Rightarrow> nat" where
  "requiredSurface d scope f =
    (let s0 = max (case minSurface d of Some m \<Rightarrow> m | None \<Rightarrow> 1) (surfaceByRisk (riskOf d f));
         s1 = (if scope = Always \<and> outsideRoots f \<and> (cap_id d = ''fs.write'' \<or> cap_id d = ''shell.exec'') then 3 else s0);
         s2 = (if scope = Always \<and> (cap_id d = ''net.publish'' \<or> cap_id d = ''remote.control'') then 3 else s1);
         s3 = (if publishPublic f = Some True \<or> systemTree f = Some True then 3 else s2)
     in s3)"

definition surfaceMayDecide :: "string \<Rightarrow> risk \<Rightarrow> call_flags \<Rightarrow> nat \<Rightarrow> grant_scope \<Rightarrow> bool" where
  "surfaceMayDecide capability rsk f surface scope =
    (case CAPABILITIES capability of
       None \<Rightarrow> False
     | Some d \<Rightarrow>
         (if surface = 0 then False
          else if surface = 1 \<and> \<not> (rsk = Low \<and> cap_id d \<in> {''fs.read'', ''fs.write'', ''clipboard.read''}) then False
          else requiredSurface d scope f \<le> surface \<and> scopeRank scope \<le> scopeRank (maxScopeFor d f)))"

definition grantExpiry :: "grant \<Rightarrow> jsnum \<Rightarrow> jsnum" where
  "grantExpiry g maxGrantDays =
    (let used = (case g_lastUsedAt g of Some t \<Rightarrow> t | None \<Rightarrow> g_createdAt g);
         bound = (if g_scope g = Once then g_createdAt g + Fin onceUnusedMs
                  else if g_scope g = Task then g_createdAt g + Fin taskMs
                  else if g_scope g = Session then used + Fin sessionIdleMs
                  else used + maxGrantDays * Fin (24 * 60 * 60000))
     in case g_expiresAt g of None \<Rightarrow> bound | Some e \<Rightarrow> math_min bound e)"

definition grantReviewDue :: "grant \<Rightarrow> jsnum \<Rightarrow> bool" where
  "grantReviewDue g now \<longleftrightarrow> g_scope g = Always \<and> Fin reviewNudgeAgeMs \<le> now - g_createdAt g"

section \<open>Paths\<close>

abbreviation slash :: char where "slash \<equiv> CHR 0x2F"
abbreviation backslash :: char where "backslash \<equiv> CHR 0x5C"

definition is_letter :: "char \<Rightarrow> bool" where
  "is_letter c = (let n = of_char c :: nat in 65 \<le> n \<and> n \<le> 90 \<or> 97 \<le> n \<and> n \<le> 122)"

text \<open>The regular expression \<open>ABS\<close>: a leading slash, a drive letter with a separator, or a UNC prefix.\<close>

fun abs_path :: "string \<Rightarrow> bool" where
  "abs_path (c # cs) =
    (c = slash \<or>
     (case cs of
        d # ds \<Rightarrow> (is_letter c \<and> d = CHR '':'' \<and> (case ds of e # _ \<Rightarrow> e = backslash \<or> e = slash | [] \<Rightarrow> False)) \<or>
                  (c = backslash \<and> d = backslash)
      | [] \<Rightarrow> False))"
| "abs_path [] = False"

definition segments :: "string \<Rightarrow> (bool \<times> string list) option" where
  "segments p =
    (if p = [] \<or> CHR 0x00 \<in> set p \<or> \<not> abs_path p then None
     else let posix = (hd p = slash);
              segs = filter (\<lambda>s. s \<noteq> [])
                (split_on (\<lambda>c. if posix then c = slash else c = backslash \<or> c = slash) p)
          in if list_ex (\<lambda>s. s = ''.'' \<or> s = ''..'') segs then None else Some (posix, segs))"

definition pathCovered :: "string \<Rightarrow> bool \<Rightarrow> string \<Rightarrow> bool" where
  "pathCovered grantPath recursive target =
    (case (segments grantPath, segments target) of
       (Some (gp, g), Some (tp, t)) \<Rightarrow>
         (if gp \<noteq> tp then False
          else if g = [] \<or> length t < length g \<or> \<not> list_all (\<lambda>i. g ! i = t ! i) [0..<length g] then False
          else if recursive then True else length t = length g + 1)
     | _ \<Rightarrow> False)"

section \<open>The evaluator\<close>

fun overrideFor :: "(string \<times> jsval) list \<Rightarrow> string \<Rightarrow> policy_class option \<Rightarrow> policy_class option" where
  "overrideFor [] i out = out"
| "overrideFor ((k, v) # rest) i out =
    (if canon k \<noteq> i then overrideFor rest i out
     else if v = JStr ''approval'' then Some Approval
     else overrideFor rest i (if v = JStr ''allowed'' then Some Allowed else out))"

definition ask :: "capability_def \<Rightarrow> call \<Rightarrow> decision_context \<Rightarrow> effect \<Rightarrow> bool \<Rightarrow> string \<Rightarrow> decision" where
  "ask d c ctx e taintSuspended why =
    (let f = call_flags_of c;
         bat = isBatch f (call_targets c);
         mx = scopeRank (maxScopeFor d (f\<lparr>batch := Some bat\<rparr>));
         options = map (\<lambda>s. \<lparr>opt_scope = s, opt_requiredSurface = requiredSurface d s f\<rparr>)
                     (filter (\<lambda>s. scopeRank s \<le> mx) GRANT_SCOPES);
         req = \<lparr>rq_capability = cap_id d, rq_tool = call_tool c, rq_effect = e,
                rq_flags = (if bat then f\<lparr>batch := Some True\<rparr> else f),
                rq_risk = riskOf d f,
                rq_reversible = (irreversible f \<noteq> Some True \<and> e \<noteq> EffLocalDestructive \<and> e \<noteq> EffMoney),
                rq_actionHash = call_actionHash c, rq_grantOptions = options,
                rq_requiredSurface = opt_requiredSurface (hd options),
                rq_tainted = ctx_tainted ctx, rq_taintSuspended = taintSuspended,
                rq_originSurface = ctx_surface ctx\<rparr>
     in Ask req (ctx_headless ctx \<noteq> None) why)"

definition candidateGrants :: "decision_context \<Rightarrow> deps \<Rightarrow> string \<Rightarrow> grant list" where
  "candidateGrants ctx ds capability =
    (let own = dep_list ds (ctx_person ctx) (ctx_agentId ctx) capability;
         held = (case ctx_handoff ctx of
             Some h \<Rightarrow>
               (if ctx_subjectKind ctx = SubSubagent then
                  filter (\<lambda>g. g_delegable g \<and> g_taskId g = Some (ho_taskId h) \<and> g_person g = ctx_person ctx)
                    (List.map_filter (dep_get ds) (ho_approvalsHeld h))
                else [])
           | None \<Rightarrow> [])
     in own @ held)"

text \<open>\<open>grantApplies\<close>: the checks every grant passes, then the binding of its scope, then the standing rules.\<close>

definition grant_common :: "grant \<Rightarrow> capability_def \<Rightarrow> decision_context \<Rightarrow> call_flags \<Rightarrow> bool \<Rightarrow> bool \<Rightarrow> jsnum \<Rightarrow> jsnum \<Rightarrow> bool" where
  "grant_common g d ctx f bat taintSuspends now maxGrantDays \<longleftrightarrow>
     (g_revoked g = JUndef \<or> g_revoked g = JBool False) \<and> canon (g_capability g) = cap_id d \<and>
     g_person g = ctx_person ctx \<and> g_scope g \<in> set GRANT_SCOPES \<and>
     (case ctx_headless ctx of
        Some j \<Rightarrow> g_jobId g = Some j \<and> g_scope g = Always
      | None \<Rightarrow> g_jobId g = None) \<and>
     (g_agent g = ctx_agentId ctx \<or>
      ctx_subjectKind ctx = SubSubagent \<and>
      (case ctx_handoff ctx of Some h \<Rightarrow> g_id g \<in> set (ho_approvalsHeld h) | None \<Rightarrow> False)) \<and>
     scopeRank (g_scope g) \<le> scopeRank (maxScopeFor d (f\<lparr>batch := Some bat\<rparr>)) \<and>
     \<not> now < g_createdAt g \<and> \<not> grantExpiry g maxGrantDays \<le> now \<and>
     (case g_lastUsedAt g of Some t \<Rightarrow> \<not> now < t | None \<Rightarrow> True) \<and>
     \<not> g_surface g < Fin (of_nat (requiredSurface d (g_scope g) f)) \<and>
     (taintSuspends \<longrightarrow> g_scope g = Once) \<and>
     (g_projectId g = None \<or> g_projectId g = ctx_projectId ctx)"

definition standing_applies :: "grant \<Rightarrow> capability_def \<Rightarrow> call \<Rightarrow> call_flags \<Rightarrow> effect \<Rightarrow> bool \<Rightarrow> bool" where
  "standing_applies g d c f e bat =
    (if g_match g = MatchAction then False
     else if bat \<or> privileged f = Some True \<or> e = EffMoney then False
     else if cap_id d = ''shell.exec'' \<and> sandboxed f \<noteq> Some True \<and> \<not> g_acknowledgedUnsandboxed g then False
     else (case g_match g of
         MatchCapability \<Rightarrow> \<not> outsideRoots f
       | MatchPath p acc recursive \<Rightarrow>
           (case (call_targets c, call_access c) of
              (Some ts, Some a) \<Rightarrow>
                (if ts = [] then False
                 else if acc = AccessRead \<and> a = AccessWrite then False
                 else list_all (pathCovered p recursive) ts)
            | _ \<Rightarrow> False)
       | MatchAction \<Rightarrow> False))"

definition grantApplies :: "grant \<Rightarrow> capability_def \<Rightarrow> call \<Rightarrow> decision_context \<Rightarrow> call_flags \<Rightarrow> effect \<Rightarrow> bool \<Rightarrow> bool \<Rightarrow> jsnum \<Rightarrow> jsnum \<Rightarrow> bool" where
  "grantApplies g d c ctx f e bat taintSuspends now maxGrantDays =
    (if \<not> grant_common g d ctx f bat taintSuspends now maxGrantDays then False
     else (case g_scope g of
         Once \<Rightarrow> g_consumedAt g = None \<and> g_actionHash g = Some (call_actionHash c) \<and> g_match g = MatchAction
       | Task \<Rightarrow>
           g_taskId g \<noteq> None \<and>
           g_taskId g = (if g_agent g = ctx_agentId ctx then ctx_taskId ctx
                         else map_option ho_taskId (ctx_handoff ctx)) \<and>
           standing_applies g d c f e bat
       | Session \<Rightarrow> g_sessionId g \<noteq> None \<and> g_sessionId g = ctx_sessionId ctx \<and> standing_applies g d c f e bat
       | Always \<Rightarrow> standing_applies g d c f e bat
       | Scope_other _ \<Rightarrow> standing_applies g d c f e bat))"

text \<open>Rules (1) to (3) and the subject limits: the refusals that no grant, root or override can lift.\<close>

definition hard_denial :: "call \<Rightarrow> decision_context \<Rightarrow> capability_def \<Rightarrow> decision option" where
  "hard_denial c ctx d =
    (let f = call_flags_of c in
     if denyListHit f then Some (Deny DenyList ''deny-list'')
     else if base_inside d = Never then Some (Deny PolicyNever ''never'')
     else if cap_id d = ''secrets.use'' \<and> secretSlotDeclared f \<noteq> Some True then Some (Deny PolicyNever ''never:secret-slot'')
     else if ctx_toolsDeny ctx \<noteq> JUndef \<and> matchesDeny (ctx_toolsDeny ctx) c (cap_id d) = DenyInvalid
       then Some (Deny PolicyNever ''tools.deny:invalid'')
     else if ctx_toolsDeny ctx \<noteq> JUndef \<and> matchesDeny (ctx_toolsDeny ctx) c (cap_id d) = DenyHit True
       then Some (Deny PolicyNever ''tools.deny'')
     else if ctx_subjectKind ctx = SubA2aPeer then Some (Deny SurfaceUntrusted ''a2a-peer'')
     else if (case ctx_tokenScopes ctx of Some ts \<Rightarrow> \<not> list_ex (\<lambda>t. canon t = cap_id d) ts | None \<Rightarrow> False)
       then Some (Deny PolicyNever ''token-scope'')
     else if ctx_subjectKind ctx = SubSubagent \<and>
             \<not> (case ctx_handoff ctx of Some h \<Rightarrow> list_ex (\<lambda>t. canon t = cap_id d) (ho_scope h) | None \<Rightarrow> False)
       then Some (Deny PolicyNever ''handoff-scope'')
     else None)"

definition effect_of :: "call \<Rightarrow> capability_def \<Rightarrow> effect" where
  "effect_of c d =
    (if call_effect c = JUndef then intrinsicEffect d
     else case isEffect (call_effect c) of Some e \<Rightarrow> maxEffect e (intrinsicEffect d) | None \<Rightarrow> EffMoney)"

definition taint_suspends :: "decision_context \<Rightarrow> capability_def \<Rightarrow> effect \<Rightarrow> bool" where
  "taint_suspends ctx d e \<longleftrightarrow>
     ctx_tainted ctx \<and> ctx_readPrivate ctx \<and> (taintSensitive d \<or> e = EffExternal \<or> e = EffNetworkA2a)"

definition floored :: "call_flags \<Rightarrow> effect \<Rightarrow> bool \<Rightarrow> bool" where
  "floored f e bat \<longleftrightarrow>
     privileged f = Some True \<or> irreversible f = Some True \<or> bat \<or>
     e = EffMoney \<or> e = EffExternal \<or> e = EffNetworkA2a \<or> e = EffLocalDestructive \<or>
     (outsideRoots f \<and> effectRank EffLocalWrite \<le> effectRank e)"

definition class_of :: "call_flags \<Rightarrow> decision_context \<Rightarrow> capability_def \<Rightarrow> effect \<Rightarrow> bool \<Rightarrow> policy_class \<times> via" where
  "class_of f ctx d e bat =
    (let cls0 = (if outsideRoots f then base_outside d else base_inside d);
         cls1 = (if cap_id d = ''shell.exec'' \<and> shellAllowlisted f = Some True \<and> \<not> outsideRoots f \<and>
                    privileged f \<noteq> Some True then Allowed else cls0);
         ov = overrideFor (ctx_overrides ctx) (cap_id d) None;
         (cls2, v) = (if lowerable d \<and> ov = Some Approval then (stricterClass cls1 Approval, ViaDefault)
                      else if lowerable d \<and> ov = Some Allowed \<and> cls1 = Approval \<and> \<not> outsideRoots f
                        then (Allowed, ViaOverride)
                      else (cls1, ViaDefault));
         cls3 = (if floored f e bat then stricterClass cls2 Approval else cls2)
     in (cls3, v))"

definition prompts_left :: "jsval \<Rightarrow> bool" where
  "prompts_left v =
    (case v of
       JUndef \<Rightarrow> True
     | JNull \<Rightarrow> True
     | JNum n \<Rightarrow> n < Fin maxPromptsPerTaskPerHour
     | _ \<Rightarrow> False)"

definition capability_name :: "call \<Rightarrow> string" where
  "capability_name c = (case call_capability c of Some s \<Rightarrow> canon s | None \<Rightarrow> [])"

text \<open>The grant loop: the first candidate that is readable and applies; a clock that is not finite finds none.\<close>

definition applicable_grant :: "call \<Rightarrow> decision_context \<Rightarrow> deps \<Rightarrow> capability_def \<Rightarrow> grant option" where
  "applicable_grant c ctx ds d =
    (let f = call_flags_of c; e = effect_of c d in
     List.find
       (\<lambda>g. validGrant g \<and> grantApplies g d c ctx f e (isBatch f (call_targets c)) (taint_suspends ctx d e)
              (dep_now ds) (case dep_maxGrantDays ds of Some m \<Rightarrow> m | None \<Rightarrow> Fin 90))
       (if is_finite (dep_now ds) then candidateGrants ctx ds (cap_id d) else []))"

definition decide_checked :: "call \<Rightarrow> decision_context \<Rightarrow> deps \<Rightarrow> decision" where
  "decide_checked c ctx ds =
    (case CAPABILITIES (capability_name c) of
       None \<Rightarrow> Deny PolicyNever ''unknown-capability''
     | Some d \<Rightarrow>
       (case hard_denial c ctx d of
          Some x \<Rightarrow> x
        | None \<Rightarrow>
          (let f = call_flags_of c;
               e = effect_of c d;
               bat = isBatch f (call_targets c);
               taintS = taint_suspends ctx d e;
               (cls, v) = class_of f ctx d e bat
           in if cls = Allowed then
                (if v = ViaOverride \<and> taintS then ask d c ctx e True ''taint-suspended''
                 else Allow v None False)
              else
                (case applicable_grant c ctx ds d of
                   Some g \<Rightarrow> Allow ViaGrant (Some (g_id g)) (grantReviewDue g (dep_now ds))
                 | None \<Rightarrow>
                   (if (case ctx_deniedActionHashes ctx of Some hs \<Rightarrow> call_actionHash c \<in> set hs | None \<Rightarrow> False)
                      then Deny RepeatDenied ''fatigue:repeat-denied''
                    else if \<not> prompts_left (ctx_promptsThisHour ctx) then Deny PromptCap ''fatigue:prompt-cap''
                    else ask d c ctx e taintS
                      (if taintS then ''taint-suspended''
                       else if cls = Approval then ''approval-class'' else ''approval''))))))"

definition decide :: "jsval \<Rightarrow> jsval \<Rightarrow> deps \<Rightarrow> decision" where
  "decide c ctx ds =
    (case malformed c ctx of
       Some bad \<Rightarrow> Deny PolicyNever bad
     | None \<Rightarrow> decide_checked (call_of c) (context_of ctx) ds)"

definition HEADLESS_RULE :: string where
  "HEADLESS_RULE = ''headless:no-job-grant''"

definition headlessGate :: "decision \<Rightarrow> string option \<Rightarrow> decision" where
  "headlessGate x headless =
    (case x of
       Ask rq park why \<Rightarrow> (if headless \<noteq> None \<or> park then Deny PolicyNever HEADLESS_RULE else x)
     | _ \<Rightarrow> x)"

end
