(* ===== verification/Policy_Theorems.thy ===== *)
theory Policy_Theorems
  imports Policy_Decide
begin

text \<open>
  Correctness of the decision evaluator of \<^verbatim>\<open>Policy_Decide.thy\<close>: the wildcard matcher equals its
  declarative meaning, path coverage is prefix order on canonical segments, an allow implies every
  narrowing rule was passed, floors are lifted by grants only, and a grant that lifts one is live,
  bound and given on a sufficient surface.
\<close>

section \<open>The wildcard matcher\<close>

text \<open>The declarative meaning: a star matches any run, everything else itself.\<close>

fun glob_ref :: "string \<Rightarrow> string \<Rightarrow> bool" where
  "glob_ref [] ns = (ns = [])"
| "glob_ref (c # ps) ns =
    (if c = CHR ''*'' then list_ex (\<lambda>k. glob_ref ps (drop k ns)) [0..<Suc (length ns)]
     else (case ns of [] \<Rightarrow> False | d # ds \<Rightarrow> c = d \<and> glob_ref ps ds))"

lemma glob_ref_star: "glob_ref (CHR ''*'' # ps) ns \<longleftrightarrow> (\<exists>k\<le>length ns. glob_ref ps (drop k ns))"
  by (auto simp: list_ex_iff less_Suc_eq_le simp del: upt_Suc)

lemma glob_tail_ref: "glob_tail ps \<longleftrightarrow> glob_ref ps []"
  by (induction ps) auto

text \<open>A star-free stretch of the pattern matches exactly its own characters.\<close>

lemma glob_ref_literal:
  "CHR ''*'' \<notin> set ls \<Longrightarrow>
   glob_ref (ls @ ps) ns \<longleftrightarrow> take (length ls) ns = ls \<and> glob_ref ps (drop (length ls) ns)"
proof (induction ls arbitrary: ns)
  case (Cons c ls)
  then show ?case by (cases ns) auto
qed simp

text \<open>
  The value of a loop state: without a star the rest must match here; with a star at \<open>s\<close> the rest
  after it must match at some position from \<open>mark\<close> on, and the pattern between the star and \<open>p\<close>
  has just matched the name between \<open>mark\<close> and \<open>n\<close>.
\<close>

definition glob_state :: "string \<Rightarrow> string \<Rightarrow> nat \<Rightarrow> nat \<Rightarrow> nat option \<Rightarrow> nat \<Rightarrow> bool" where
  "glob_state pat name p n star mark \<longleftrightarrow> p \<le> length pat \<and> n \<le> length name \<and>
    (case star of None \<Rightarrow> True
     | Some s \<Rightarrow> s < p \<and> mark \<le> n \<and> (\<exists>ls. CHR ''*'' \<notin> set ls \<and> length ls = n - mark \<and>
         drop (Suc s) pat = ls @ drop p pat \<and> drop mark name = ls @ drop n name))"

definition glob_value :: "string \<Rightarrow> string \<Rightarrow> nat \<Rightarrow> nat \<Rightarrow> nat option \<Rightarrow> nat \<Rightarrow> bool" where
  "glob_value pat name p n star mark =
    (case star of None \<Rightarrow> glob_ref (drop p pat) (drop n name)
     | Some s \<Rightarrow> \<exists>k. mark \<le> k \<and> k \<le> length name \<and> glob_ref (drop (Suc s) pat) (drop k name))"

lemma glob_value_here:
  assumes "glob_state pat name p n star mark" and "glob_ref (drop p pat) (drop n name)"
  shows "glob_value pat name p n star mark"
proof (cases star)
  case None
  with assms show ?thesis by (simp add: glob_value_def)
next
  case (Some s)
  with assms(1) obtain ls where ls: "CHR ''*'' \<notin> set ls" "drop (Suc s) pat = ls @ drop p pat"
      "drop mark name = ls @ drop n name" and le: "mark \<le> n" "n \<le> length name"
    by (auto simp: glob_state_def)
  have "glob_ref (drop (Suc s) pat) (drop mark name)"
    using assms(2) by (simp add: ls glob_ref_literal)
  with le Some show ?thesis unfolding glob_value_def by auto
qed

lemma glob_value_elsewhere:
  assumes "glob_state pat name p n (Some s) mark" and "mark \<le> k" "k \<le> length name"
    and "glob_ref (drop (Suc s) pat) (drop k name)"
  shows "n - mark + k \<le> length name \<and> glob_ref (drop p pat) (drop (n - mark + k) name)"
proof -
  from assms(1) obtain ls where ls: "CHR ''*'' \<notin> set ls" "length ls = n - mark"
      "drop (Suc s) pat = ls @ drop p pat"
    by (auto simp: glob_state_def)
  with assms(4) have *: "take (length ls) (drop k name) = ls" "glob_ref (drop p pat) (drop (length ls) (drop k name))"
    by (simp_all add: glob_ref_literal)
  from *(1) have "length (take (length ls) (drop k name)) = length ls" by simp
  then have "length ls + k \<le> length name" using assms(3) by (auto simp: min_def split: if_splits)
  with *(2) ls(2) show ?thesis by (simp add: add.commute)
qed

text \<open>How the value changes in each branch of the loop body.\<close>

lemma glob_value_position:
  assumes "glob_state pat name p n star mark" and "glob_value pat name p n star mark"
  shows "\<exists>m\<ge>n. m \<le> length name \<and> glob_ref (drop p pat) (drop m name)"
proof (cases star)
  case None
  with assms show ?thesis by (auto simp: glob_value_def glob_state_def)
next
  case (Some s)
  with assms(2) obtain k where k: "mark \<le> k" "k \<le> length name" "glob_ref (drop (Suc s) pat) (drop k name)"
    by (auto simp: glob_value_def)
  have "mark \<le> n" using assms(1) Some by (simp add: glob_state_def)
  with k glob_value_elsewhere [of pat name p n s mark k] assms(1) Some show ?thesis
    by (intro exI [of _ "n - mark + k"]) auto
qed

lemma glob_value_end:
  assumes "glob_state pat name p n star mark" and "\<not> n < length name"
  shows "glob_value pat name p n star mark \<longleftrightarrow> glob_tail (drop p pat)"
proof
  have n: "n = length name" using assms by (simp add: glob_state_def)
  show "glob_tail (drop p pat)" if "glob_value pat name p n star mark"
    using glob_value_position [OF assms(1) that] by (auto simp: n glob_tail_ref)
  show "glob_value pat name p n star mark" if "glob_tail (drop p pat)"
    using glob_value_here [OF assms(1)] that by (simp add: n glob_tail_ref)
qed

lemma glob_value_star:
  assumes st: "glob_state pat name p n star mark" and p: "p < length pat" "pat ! p = CHR ''*''"
  shows "glob_value pat name p n star mark \<longleftrightarrow> glob_value pat name (Suc p) n (Some p) n"
proof
  have dp: "drop p pat = CHR ''*'' # drop (Suc p) pat"
    using p by (metis Cons_nth_drop_Suc)
  show "glob_value pat name p n star mark" if v: "glob_value pat name (Suc p) n (Some p) n"
  proof (rule glob_value_here [OF st])
    from v obtain k where "n \<le> k" "k \<le> length name" "glob_ref (drop (Suc p) pat) (drop k name)"
      by (auto simp: glob_value_def)
    then show "glob_ref (drop p pat) (drop n name)"
      unfolding dp glob_ref_star by (intro exI [of _ "k - n"]) auto
  qed
  show "glob_value pat name (Suc p) n (Some p) n" if v: "glob_value pat name p n star mark"
  proof -
    obtain m j where "n \<le> m" "m \<le> length name" "j \<le> length name - m"
        "glob_ref (drop (Suc p) pat) (drop (j + m) name)"
      using glob_value_position [OF st v] unfolding dp glob_ref_star by (auto simp: drop_drop)
    then show ?thesis unfolding glob_value_def by (auto intro!: exI [of _ "j + m"])
  qed
qed

lemma glob_state_literal:
  assumes st: "glob_state pat name p n star mark" and n: "n < length name" and p: "p < length pat"
    and eq: "pat ! p \<noteq> CHR ''*''" "pat ! p = name ! n"
  shows "glob_state pat name (Suc p) (Suc n) star mark"
proof (cases star)
  case None
  with n p show ?thesis by (simp add: glob_state_def)
next
  case (Some s)
  with st obtain ls where ls: "CHR ''*'' \<notin> set ls" "length ls = n - mark" "s < p" "mark \<le> n"
      "drop (Suc s) pat = ls @ drop p pat" "drop mark name = ls @ drop n name"
    by (auto simp: glob_state_def)
  have "drop p pat = pat ! p # drop (Suc p) pat" "drop n name = pat ! p # drop (Suc n) name"
    using n p eq(2) by (metis Cons_nth_drop_Suc)+
  with ls eq n p Some show ?thesis
    by (auto simp: glob_state_def intro!: exI [of _ "ls @ [pat ! p]"])
qed

lemma glob_value_literal:
  assumes "n < length name" "p < length pat" "pat ! p \<noteq> CHR ''*''" "pat ! p = name ! n"
  shows "glob_value pat name p n star mark \<longleftrightarrow> glob_value pat name (Suc p) (Suc n) star mark"
proof -
  have "glob_ref (drop p pat) (drop n name) \<longleftrightarrow> glob_ref (drop (Suc p) pat) (drop (Suc n) name)"
    using assms by (simp flip: Cons_nth_drop_Suc)
  then show ?thesis by (simp add: glob_value_def split: option.split)
qed

lemma glob_mismatch:
  assumes "n < length name" "\<not> (p < length pat \<and> pat ! p = CHR ''*'')" "\<not> (p < length pat \<and> pat ! p = name ! n)"
  shows "\<not> glob_ref (drop p pat) (drop n name)"
proof (cases "p < length pat")
  case True
  with assms show ?thesis by (simp flip: Cons_nth_drop_Suc)
qed (use assms in simp)

lemma glob_value_back:
  assumes st: "glob_state pat name p n (Some s) mark" and n: "n < length name"
    and no: "\<not> glob_ref (drop p pat) (drop n name)"
  shows "glob_value pat name p n (Some s) mark \<longleftrightarrow> glob_value pat name (Suc s) (Suc mark) (Some s) (Suc mark)"
proof -
  have "\<not> glob_ref (drop (Suc s) pat) (drop mark name)"
    using glob_value_elsewhere [OF st, of mark] no st n by (auto simp: glob_state_def)
  then have "mark \<le> k \<and> glob_ref (drop (Suc s) pat) (drop k name) \<longleftrightarrow>
      Suc mark \<le> k \<and> glob_ref (drop (Suc s) pat) (drop k name)" for k
    by (cases "k = mark") auto
  then show ?thesis by (auto simp: glob_value_def)
qed

lemma glob_loop_value:
  "glob_state pat name p n star mark \<Longrightarrow> glob_loop pat name p n star mark = glob_value pat name p n star mark"
proof (induction pat name p n star mark rule: glob_loop.induct)
  case (1 pat name p n star mark)
  note st = "1.prems" and step = glob_loop.simps [of pat name p n star mark]
  consider (fin) "\<not> n < length name"
    | (star) "n < length name" "p < length pat" "pat ! p = CHR ''*''"
    | (lit) "n < length name" "p < length pat" "pat ! p \<noteq> CHR ''*''" "pat ! p = name ! n"
    | (retry) "n < length name" "\<not> (p < length pat \<and> pat ! p = CHR ''*'')" "\<not> (p < length pat \<and> pat ! p = name ! n)"
    by blast
  then show ?case
  proof cases
    case fin
    with glob_value_end [OF st] show ?thesis by (simp add: step)
  next
    case star
    then have "glob_state pat name (Suc p) n (Some p) n" by (simp add: glob_state_def)
    with "1.IH"(1) star glob_value_star [OF st star(2,3)] show ?thesis by (simp add: step)
  next
    case lit
    with "1.IH"(2) glob_state_literal [OF st lit] glob_value_literal [OF lit, of star mark]
    show ?thesis by (simp add: step)
  next
    case retry
    have no: "\<not> glob_ref (drop p pat) (drop n name)" using retry by (rule glob_mismatch)
    show ?thesis
    proof (cases star)
      case None
      with retry no show ?thesis unfolding step by (auto simp: glob_value_def)
    next
      case (Some s)
      then have "glob_state pat name (Suc s) (Suc mark) (Some s) (Suc mark)"
        using st retry(1) by (auto simp: glob_state_def)
      with "1.IH"(3) retry Some glob_value_back [OF st [unfolded Some] retry(1) no] show ?thesis
        unfolding step by auto
    qed
  qed
qed

text \<open>
  The wildcard matcher decides the declarative meaning: its single-star backtracking loop
  terminates on every input and never misses or invents a match.
\<close>

theorem globMatch_correct: "globMatch pat name \<longleftrightarrow> glob_ref pat name"
proof -
  have "glob_state pat name 0 0 None 0" by (simp add: glob_state_def)
  then have "glob_loop pat name 0 0 None 0 = glob_value pat name 0 0 None 0" by (rule glob_loop_value)
  then show ?thesis by (simp add: globMatch_def glob_value_def)
qed

section \<open>Path coverage\<close>

lemma list_all_nth_prefix:
  "length g \<le> length t \<Longrightarrow> list_all (\<lambda>i. g ! i = t ! i) [0..<length g] \<longleftrightarrow> prefix g t"
proof -
  assume le: "length g \<le> length t"
  have "list_all (\<lambda>i. g ! i = t ! i) [0..<length g] \<longleftrightarrow> (\<forall>i<length g. g ! i = t ! i)"
    by (auto simp: list_all_iff)
  also have "\<dots> \<longleftrightarrow> g = take (length g) t"
    using le list_eq_iff_nth_eq [of g "take (length g) t"] by simp
  also have "\<dots> \<longleftrightarrow> prefix g t" by (metis append_eq_conv_conj prefix_def)
  finally show ?thesis .
qed

lemma pathCovered_iff:
  "pathCovered gp r t \<longleftrightarrow> (\<exists>px g u. segments gp = Some (px, g) \<and> segments t = Some (px, g @ u) \<and> g \<noteq> [] \<and>
     (r \<or> length u = 1))"
proof (cases "segments gp")
  case (Some a)
  obtain px g where a: "a = (px, g)" by force
  show ?thesis
  proof (cases "segments t")
    case Some2: (Some b)
    obtain py ts where b: "b = (py, ts)" by force
    show ?thesis
    proof (cases "length g \<le> length ts")
      case True
      with Some Some2 a b list_all_nth_prefix [OF True] show ?thesis
        by (auto simp: pathCovered_def prefix_def)
    next
      case False
      with Some Some2 a b show ?thesis by (auto simp: pathCovered_def)
    qed
  qed (simp add: pathCovered_def Some a)
qed (simp add: pathCovered_def)

text \<open>
  Path coverage is exactly the prefix order on canonical segments of one spelling family: a
  covered target lies strictly below or at the granted path, a non-recursive grant covers one level
  only, and coverage composes.
\<close>

theorem pathCovered_prefix:
  "(pathCovered gp r t \<longrightarrow>
      (\<exists>px g u. segments gp = Some (px, g) \<and> segments t = Some (px, g @ u) \<and> g \<noteq> [] \<and>
         (\<not> r \<longrightarrow> length u = 1) \<and> ''..'' \<notin> set (g @ u) \<and> ''.'' \<notin> set (g @ u))) \<and>
   (pathCovered gp True t \<and> pathCovered t r u \<longrightarrow> pathCovered gp True u)"
  (is "?sound \<and> ?trans")
proof
  have nodots: "''..'' \<notin> set sg \<and> ''.'' \<notin> set sg" if "segments p = Some (px, sg)" for p px sg
    using that by (auto simp: segments_def Let_def list_ex_iff split: if_splits)
  show ?sound
    using nodots by (fastforce simp: pathCovered_iff)
  show ?trans
    by (auto simp: pathCovered_iff)
qed

theorem pathCovered_prefix_witness:
  "pathCovered ''/srv/data'' True ''/srv/data/a/b'' \<and>
   (\<exists>px g u. segments ''/srv/data'' = Some (px, g) \<and> segments ''/srv/data/a/b'' = Some (px, g @ u) \<and> g \<noteq> [])"
proof -
  have c: "pathCovered ''/srv/data'' True ''/srv/data/a/b''" by code_simp
  show ?thesis using c pathCovered_prefix [of "''/srv/data''" True "''/srv/data/a/b''"] by blast
qed

section \<open>The shape of an answer\<close>

lemma class_of_floored: "floored f e bat \<Longrightarrow> fst (class_of f ctx d e bat) \<noteq> Allowed"
  by (auto simp: class_of_def Let_def split: prod.splits)

lemma class_of_via: "snd (class_of f ctx d e bat) \<noteq> ViaGrant"
  by (auto simp: class_of_def Let_def split: prod.splits if_splits)

lemma ask_not_Allow [simp]: "ask d c ctx e t w \<noteq> Allow v gid rd" "ask d c ctx e t w \<noteq> Deny r s"
  by (simp_all add: ask_def Let_def)

lemma hard_denial_Deny: "hard_denial c ctx d = Some x \<Longrightarrow> \<exists>r s. x = Deny r s"
  by (auto simp: hard_denial_def Let_def split: if_splits)

text \<open>The two ways to an allow: the class is allowed, or a grant applies.\<close>

lemma decide_checked_AllowE:
  assumes "decide_checked c ctx ds = Allow v gid rd"
  obtains (by_class) d where "CAPABILITIES (capability_name c) = Some d" "hard_denial c ctx d = None"
      "class_of (call_flags_of c) ctx d (effect_of c d) (isBatch (call_flags_of c) (call_targets c)) = (Allowed, v)"
      "\<not> (v = ViaOverride \<and> taint_suspends ctx d (effect_of c d))" "gid = None" "\<not> rd"
  | (by_grant) d g where "CAPABILITIES (capability_name c) = Some d" "hard_denial c ctx d = None"
      "applicable_grant c ctx ds d = Some g" "v = ViaGrant" "gid = Some (g_id g)"
      "rd = grantReviewDue g (dep_now ds)"
      "fst (class_of (call_flags_of c) ctx d (effect_of c d) (isBatch (call_flags_of c) (call_targets c))) \<noteq> Allowed"
  using assms
  by (auto simp: decide_checked_def Let_def split: option.splits prod.splits if_splits
      dest: hard_denial_Deny)

lemma applicable_grantD:
  assumes "applicable_grant c ctx ds d = Some g"
  shows "is_finite (dep_now ds) \<and> g \<in> set (candidateGrants ctx ds (cap_id d)) \<and> validGrant g \<and>
    grantApplies g d c ctx (call_flags_of c) (effect_of c d) (isBatch (call_flags_of c) (call_targets c))
      (taint_suspends ctx d (effect_of c d)) (dep_now ds)
      (case dep_maxGrantDays ds of Some m \<Rightarrow> m | None \<Rightarrow> Fin 90)"
  using find_SomeD [OF assms [unfolded applicable_grant_def Let_def]]
  by (auto split: if_splits)

lemma grantApplies_common: "grantApplies g d c ctx f e bat ts now m \<Longrightarrow> grant_common g d ctx f bat ts now m"
  by (auto simp: grantApplies_def split: if_splits)

lemma grantApplies_standing:
  "grantApplies g d c ctx f e bat ts now m \<Longrightarrow> g_scope g \<noteq> Once \<Longrightarrow> standing_applies g d c f e bat"
  by (auto simp: grantApplies_def split: if_splits grant_scope.splits)

section \<open>What an allow implies\<close>

text \<open>A name that no hard rule refuses.\<close>

lemma hard_denial_NoneD:
  assumes "hard_denial c ctx d = None"
  shows "\<not> denyListHit (call_flags_of c) \<and> base_inside d \<noteq> Never \<and>
    (cap_id d = ''secrets.use'' \<longrightarrow> secretSlotDeclared (call_flags_of c) = Some True) \<and>
    (ctx_toolsDeny ctx \<noteq> JUndef \<longrightarrow> matchesDeny (ctx_toolsDeny ctx) c (cap_id d) = DenyHit False) \<and>
    ctx_subjectKind ctx \<noteq> SubA2aPeer \<and>
    (\<forall>ts. ctx_tokenScopes ctx = Some ts \<longrightarrow> (\<exists>t\<in>set ts. canon t = cap_id d)) \<and>
    (ctx_subjectKind ctx = SubSubagent \<longrightarrow>
       (\<exists>h. ctx_handoff ctx = Some h \<and> (\<exists>t\<in>set (ho_scope h). canon t = cap_id d)))"
proof -
  have hit: "m = DenyHit False" if "m \<noteq> DenyInvalid" "m \<noteq> DenyHit True" for m
    using that by (cases m) auto
  show ?thesis
    using assms hit by (auto simp: hard_denial_def Let_def list_ex_iff split: if_splits option.splits)
qed

text \<open>The deny list of the behaviour layer: an entry that cannot be read refuses, a match refuses.\<close>

lemma deny_scan_DenyHit_False:
  "deny_scan names hit entries = DenyHit False \<longleftrightarrow>
     \<not> hit \<and> (\<forall>x\<in>set entries. \<exists>s. x = JStr s \<and> canon s \<noteq> [] \<and> (\<forall>n\<in>set names. \<not> glob_ref (canon s) n))"
proof (induction entries arbitrary: hit)
  case (Cons x entries)
  then show ?case
    by (cases x) (auto simp: list_ex_iff globMatch_correct)
qed simp

lemma matchesDeny_DenyHit_False:
  "matchesDeny l c cap = DenyHit False \<longleftrightarrow>
     (\<exists>entries. l = JArr entries \<and>
        (\<forall>x\<in>set entries. \<exists>s. x = JStr s \<and> canon s \<noteq> [] \<and>
           \<not> glob_ref (canon s) (canon (call_tool c)) \<and> \<not> glob_ref (canon s) cap))"
  by (cases l) (auto simp: matchesDeny_def deny_scan_DenyHit_False)

text \<open>
  (C1) Everything that stands above grants and roots: an allowed call is well formed and names a
  known capability that is not a never capability; it is not on the credential deny-list; a used
  secret slot is declared; no readable or unreadable entry of \<open>tools.deny\<close> stands against it; the
  subject is not an A2A peer; token scopes and, for a sub-agent, the hand-off scope name the
  capability. This holds for every grant source, every override and every root.
\<close>

theorem decide_allow_sound:
  assumes "decide c ctx ds = Allow v gid rd"
  shows "malformed c ctx = None \<and>
    (\<exists>d. CAPABILITIES (capability_name (call_of c)) = Some d \<and> cap_id d \<notin> set NEVER_CAPABILITIES \<and>
      jget (jget c ''flags'') ''denyListHit'' \<noteq> JBool True \<and>
      (cap_id d = ''secrets.use'' \<longrightarrow> jget (jget c ''flags'') ''secretSlotDeclared'' = JBool True) \<and>
      (jget ctx ''toolsDeny'' \<noteq> JUndef \<longrightarrow>
        (\<exists>entries. jget ctx ''toolsDeny'' = JArr entries \<and>
          (\<forall>x\<in>set entries. \<exists>s. x = JStr s \<and> canon s \<noteq> [] \<and>
             \<not> glob_ref (canon s) (canon (call_tool (call_of c))) \<and> \<not> glob_ref (canon s) (cap_id d)))) \<and>
      ctx_subjectKind (context_of ctx) \<noteq> SubA2aPeer \<and>
      (\<forall>ts. ctx_tokenScopes (context_of ctx) = Some ts \<longrightarrow> (\<exists>t\<in>set ts. canon t = cap_id d)) \<and>
      (ctx_subjectKind (context_of ctx) = SubSubagent \<longrightarrow>
        (\<exists>h. ctx_handoff (context_of ctx) = Some h \<and> (\<exists>t\<in>set (ho_scope h). canon t = cap_id d))))"
proof -
  from assms have wf: "malformed c ctx = None"
    and dc: "decide_checked (call_of c) (context_of ctx) ds = Allow v gid rd"
    by (auto simp: decide_def split: option.splits)
  from dc obtain d where d: "CAPABILITIES (capability_name (call_of c)) = Some d"
    and hd: "hard_denial (call_of c) (context_of ctx) d = None"
    by (elim decide_checked_AllowE)
  have slot: "secretSlotDeclared (flags_of f) = Some True \<Longrightarrow> jget f ''secretSlotDeclared'' = JBool True" for f
    by (auto simp: flags_of_def bool_of_def split: jsval.splits)
  have views: "denyListHit (flags_of f) = (jget f ''denyListHit'' = JBool True)"
      "call_flags_of (call_of c) = flags_of (jget c ''flags'')" "ctx_toolsDeny (context_of ctx) = jget ctx ''toolsDeny''" for f
    by (simp_all add: call_of_def flags_of_def context_of_def)
  show ?thesis
    using wf d hard_denial_NoneD [OF hd] slot d
    by (auto simp: views matchesDeny_DenyHit_False NEVER_CAPABILITIES_iff)
qed

text \<open>
  The approval floors: a call that is privileged, irreversible, a batch, of money, external,
  A2A or destructive effect, or a write outside the roots is never allowed by its class or by a
  per-agent override, only by a grant.
\<close>

theorem decide_floor_needs_grant:
  assumes "decide_checked c ctx ds = Allow v gid rd"
    and "CAPABILITIES (capability_name c) = Some d"
    and "floored (call_flags_of c) (effect_of c d) (isBatch (call_flags_of c) (call_targets c))"
  shows "v = ViaGrant \<and> (\<exists>g\<in>set (candidateGrants ctx ds (cap_id d)). gid = Some (g_id g))"
  using assms(1)
proof (cases rule: decide_checked_AllowE)
  case (by_class d')
  with assms(2) class_of_floored [OF assms(3), of ctx d] show ?thesis by simp
next
  case (by_grant d' g)
  with assms(2) applicable_grantD [OF by_grant(3)] show ?thesis by auto
qed

lemma grantExpiry_le_expiresAt:
  "g_expiresAt g = Some (Fin e) \<Longrightarrow> \<not> grantExpiry g m \<le> Fin t \<Longrightarrow> is_finite (grantExpiry g m) \<Longrightarrow> t < e"
  by (auto simp: grantExpiry_def Let_def math_min_def split: if_splits elim!: is_finiteE)

text \<open>
  (C2) A grant that lifts a floor vouches for exactly this call: it comes from the grant source, it
  belongs to the calling person, it is not revoked, it was created before now and has not reached
  its expiry, it was decided on a surface at least as trusted as its scope requires, its scope stays
  below the ceiling of the capability, its project matches, and in a headless run it is the standing
  grant of that very job.
\<close>

theorem decide_grant_sound:
  assumes "decide_checked c ctx ds = Allow ViaGrant gid rd"
  shows "\<exists>d g. CAPABILITIES (capability_name c) = Some d \<and> gid = Some (g_id g) \<and>
    g \<in> set (candidateGrants ctx ds (cap_id d)) \<and> validGrant g \<and>
    canon (g_capability g) = cap_id d \<and> g_person g = ctx_person ctx \<and>
    (g_revoked g = JUndef \<or> g_revoked g = JBool False) \<and>
    g_createdAt g \<le> dep_now ds \<and>
    \<not> grantExpiry g (case dep_maxGrantDays ds of Some m \<Rightarrow> m | None \<Rightarrow> Fin 90) \<le> dep_now ds \<and>
    Fin (of_nat (requiredSurface d (g_scope g) (call_flags_of c))) \<le> g_surface g \<and>
    scopeRank (g_scope g) \<le> scopeRank (maxScopeFor d (call_flags_of c)) \<and>
    (g_projectId g = None \<or> g_projectId g = ctx_projectId ctx) \<and>
    (case ctx_headless ctx of Some j \<Rightarrow> g_jobId g = Some j \<and> g_scope g = Always | None \<Rightarrow> g_jobId g = None)"
proof -
  from assms obtain d g where d: "CAPABILITIES (capability_name c) = Some d"
    and g: "applicable_grant c ctx ds d = Some g" "gid = Some (g_id g)"
    using class_of_via by (elim decide_checked_AllowE) (metis snd_conv, blast)
  note app = applicable_grantD [OF g(1)]
  obtain now where now: "dep_now ds = Fin now" using app by auto
  obtain cr where cr: "g_createdAt g = Fin cr" using app by (auto simp: validGrant_def)
  obtain s where s: "g_surface g = Fin s" using app by (auto simp: validGrant_def)
  from app have com: "grant_common g d ctx (call_flags_of c) (isBatch (call_flags_of c) (call_targets c))
      (taint_suspends ctx d (effect_of c d)) (dep_now ds) (case dep_maxGrantDays ds of Some m \<Rightarrow> m | None \<Rightarrow> Fin 90)"
    by (blast intro: grantApplies_common)
  have "scopeRank (maxScopeFor d (f\<lparr>batch := Some bat\<rparr>)) \<le> scopeRank (maxScopeFor d f)"
    if "bat = isBatch f ts" for bat f ts
    using that by (auto simp: maxScopeFor_def isBatch_def Let_def)
  with com have "scopeRank (g_scope g) \<le> scopeRank (maxScopeFor d (call_flags_of c))"
    unfolding grant_common_def using order_trans by blast
  with com app d g now cr s show ?thesis
    unfolding grant_common_def by (intro exI [of _ d] exI [of _ g]) auto
qed


text \<open>
  Token scopes only narrow: whatever a caller with a restricted token is allowed, the same caller
  without the restriction is allowed with the same answer.
\<close>

theorem decide_token_scopes_narrow:
  assumes "decide_checked c ctx ds = Allow v gid rd"
  shows "decide_checked c (ctx\<lparr>ctx_tokenScopes := None\<rparr>) ds = Allow v gid rd"
proof -
  let ?ctx = "ctx\<lparr>ctx_tokenScopes := None\<rparr>"
  have hd: "hard_denial c ?ctx d = None" if "hard_denial c ctx d = None" for d
    using that by (auto simp: hard_denial_def Let_def split: if_splits)
  have gc: "grant_common g d ?ctx f bat ts now m = grant_common g d ctx f bat ts now m" for g d f bat ts now m
    by (simp add: grant_common_def)
  have ga: "grantApplies g d c ?ctx f e bat ts now m = grantApplies g d c ctx f e bat ts now m" for g d f e bat ts now m
    by (cases "g_scope g") (simp_all add: grantApplies_def gc)
  have cg: "candidateGrants ?ctx ds i = candidateGrants ctx ds i" for i
    by (cases "ctx_handoff ctx") (simp_all add: candidateGrants_def)
  have ta: "taint_suspends ?ctx d e = taint_suspends ctx d e" for d e
    by (simp add: taint_suspends_def)
  have ag: "applicable_grant c ?ctx ds d = applicable_grant c ctx ds d" for d
    by (simp add: applicable_grant_def Let_def ga ta cg)
  have cl: "class_of f ?ctx d e bat = class_of f ctx d e bat" for f d e bat
    by (simp add: class_of_def)
  from assms show ?thesis
  proof (cases rule: decide_checked_AllowE)
    case (by_class d)
    with hd show ?thesis by (simp add: decide_checked_def Let_def cl ta)
  next
    case (by_grant d g)
    obtain cls w where "class_of (call_flags_of c) ctx d (effect_of c d) (isBatch (call_flags_of c) (call_targets c)) = (cls, w)"
      by fastforce
    with by_grant hd show ?thesis
      by (simp add: decide_checked_def Let_def cl ta ag)
  qed
qed

text \<open>
  A headless run never asks: after the gate the answer is allow or deny, and a headless allow
  that needed a grant used the standing grant of that job.
\<close>

theorem headless_never_asks:
  assumes "ctx_headless ctx = Some job"
  shows "(\<exists>v gid rd. headlessGate (decide_checked c ctx ds) (ctx_headless ctx) = Allow v gid rd \<and>
            (v = ViaGrant \<longrightarrow> (\<exists>d. CAPABILITIES (capability_name c) = Some d \<and> (\<exists>g\<in>set (candidateGrants ctx ds (cap_id d)).
               gid = Some (g_id g) \<and> g_jobId g = Some job \<and> g_scope g = Always)))) \<or>
         (\<exists>r s. headlessGate (decide_checked c ctx ds) (ctx_headless ctx) = Deny r s)"
proof (cases "decide_checked c ctx ds")
  case (Allow v gid rd)
  have "\<exists>d. CAPABILITIES (capability_name c) = Some d \<and> (\<exists>g\<in>set (candidateGrants ctx ds (cap_id d)).
      gid = Some (g_id g) \<and> g_jobId g = Some job \<and> g_scope g = Always)"
    if "v = ViaGrant"
    using Allow that assms
  proof (cases rule: decide_checked_AllowE)
    case (by_class d)
    with that class_of_via show ?thesis by (metis snd_conv)
  next
    case (by_grant d g)
    note app = applicable_grantD [OF by_grant(3)]
    with grantApplies_common assms have "g_jobId g = Some job \<and> g_scope g = Always"
      unfolding grant_common_def by fastforce
    with app by_grant(1,5) show ?thesis by blast
  qed
  with Allow show ?thesis by (simp add: headlessGate_def)
next
  case (Ask rq park why)
  with assms show ?thesis by (simp add: headlessGate_def)
next
  case (Deny r s)
  then show ?thesis by (simp add: headlessGate_def)
qed

section \<open>What an ask offers\<close>

lemma requiredSurface_batch [simp]: "requiredSurface d s (f\<lparr>batch := b\<rparr>) = requiredSurface d s f"
  by (simp add: requiredSurface_def riskOf_def)

lemma riskOf_batch [simp]: "riskOf d (f\<lparr>batch := b\<rparr>) = riskOf d f"
  by (simp add: riskOf_def)

lemma surfaceByRisk_bounds: "1 \<le> surfaceByRisk r \<and> surfaceByRisk r \<le> 3"
  by (cases r) simp_all

lemma row_minSurface: "row_ok d \<Longrightarrow> minSurface d = Some m \<Longrightarrow> m \<le> 3"
  by (simp add: row_ok_def)

lemma requiredSurface_bounds:
  assumes "row_ok d"
  shows "1 \<le> requiredSurface d s f \<and> requiredSurface d s f \<le> 3"
proof -
  have "(case minSurface d of Some m \<Rightarrow> m | None \<Rightarrow> 1) \<le> 3"
    using assms by (auto simp: row_ok_def split: option.splits)
  then show ?thesis
    using surfaceByRisk_bounds [of "riskOf d f"]
    by (auto simp: requiredSurface_def Let_def le_max_iff_disj)
qed

lemma requiredSurface_Once_least: "requiredSurface d Once f \<le> 3 \<Longrightarrow> requiredSurface d Once f \<le> requiredSurface d s f"
  by (auto simp: requiredSurface_def Let_def)

lemma maxScopeFor_rank:
  assumes "row_ok d"
  shows "0 \<le> scopeRank (maxScopeFor d f)"
proof -
  have "0 \<le> scopeRank (case ceiling d of Some c \<Rightarrow> c | None \<Rightarrow> Once)"
    using assms by (auto simp: row_ok_def GRANT_SCOPES_def split: option.splits)
  then show ?thesis by (simp add: maxScopeFor_def Let_def)
qed

lemma maxScopeFor_batch:
  "maxScopeFor d (f\<lparr>batch := Some (isBatch f ts)\<rparr>) = maxScopeFor d (if isBatch f ts then f\<lparr>batch := Some True\<rparr> else f)"
  by (auto simp: maxScopeFor_def isBatch_def Let_def)

text \<open>
  What an ask puts in front of a person: there is always at least one option, the narrowest
  (\<open>once\<close>) first, the surface asked for is the one that option needs and no other option needs less,
  and every offered option is one that the most trusted surface may decide, so no question is
  unanswerable. No option is offered to the untrusted surface T0.
\<close>

theorem ask_options_decidable:
  assumes "decide_checked c ctx ds = Ask rq park why"
  shows "rq_grantOptions rq \<noteq> [] \<and> opt_scope (hd (rq_grantOptions rq)) = Once \<and>
    park = (ctx_headless ctx \<noteq> None) \<and>
    (\<forall>opt\<in>set (rq_grantOptions rq).
       rq_requiredSurface rq \<le> opt_requiredSurface opt \<and>
       surfaceMayDecide (rq_capability rq) (rq_risk rq) (rq_flags rq) 3 (opt_scope opt) \<and>
       \<not> surfaceMayDecide (rq_capability rq) (rq_risk rq) (rq_flags rq) 0 (opt_scope opt))"
proof -
  from assms obtain d e t w where d: "CAPABILITIES (capability_name c) = Some d"
    and rq: "ask d c ctx e t w = Ask rq park why"
    by (auto simp: decide_checked_def Let_def split: option.splits prod.splits if_splits
        dest: hard_denial_Deny)
  let ?f = "call_flags_of c" and ?b = "isBatch (call_flags_of c) (call_targets c)"
  let ?sc = "filter (\<lambda>s. scopeRank s \<le> scopeRank (maxScopeFor d (?f\<lparr>batch := Some ?b\<rparr>))) GRANT_SCOPES"
  note row = CAPABILITIES_row_ok [OF d]
  have first: "?sc = Once # tl ?sc"
    using maxScopeFor_rank [OF row, of "?f\<lparr>batch := Some ?b\<rparr>"] by (simp add: GRANT_SCOPES_def)
  have req: "rq_grantOptions rq = map (\<lambda>s. \<lparr>opt_scope = s, opt_requiredSurface = requiredSurface d s ?f\<rparr>) ?sc"
    "rq_capability rq = cap_id d" "rq_flags rq = (if ?b then ?f\<lparr>batch := Some True\<rparr> else ?f)"
    "park = (ctx_headless ctx \<noteq> None)"
    "rq_requiredSurface rq = opt_requiredSurface (hd (rq_grantOptions rq))"
    using rq by (auto simp: ask_def Let_def)
  have head: "hd (rq_grantOptions rq) = \<lparr>opt_scope = Once, opt_requiredSurface = requiredSurface d Once ?f\<rparr>"
    by (subst req(1), subst first) simp
  then have rs: "rq_requiredSurface rq = requiredSurface d Once ?f" by (simp add: req(5))
  have le3: "requiredSurface d s ?f \<le> 3" for s using requiredSurface_bounds [OF row] by simp
  have "rq_requiredSurface rq \<le> opt_requiredSurface opt \<and>
       surfaceMayDecide (rq_capability rq) (rq_risk rq) (rq_flags rq) 3 (opt_scope opt) \<and>
       \<not> surfaceMayDecide (rq_capability rq) (rq_risk rq) (rq_flags rq) 0 (opt_scope opt)"
    if "opt \<in> set (rq_grantOptions rq)" for opt
    using that d le3 requiredSurface_Once_least [OF le3]
    by (auto simp: rs req(1,2,3) surfaceMayDecide_def maxScopeFor_batch)
  moreover have "rq_grantOptions rq \<noteq> []" by (subst req(1), subst first) simp
  ultimately show ?thesis using req(4) head by simp
qed

text \<open>
  The unattested surface T1 decides low-risk reads and writes only: for every capability, every
  flag and every scope, an accepted T1 decision is for \<open>fs.read\<close>, \<open>fs.write\<close> or
  \<open>clipboard.read\<close>, at low risk, inside the surface the scope requires and below the ceiling.
\<close>

theorem t1_decides_low_risk_only:
  assumes "surfaceMayDecide cap rsk f 1 scope"
  shows "rsk = Low \<and> cap \<in> {''fs.read'', ''fs.write'', ''clipboard.read''} \<and>
    (\<exists>d. CAPABILITIES cap = Some d \<and> requiredSurface d scope f = 1 \<and>
         scopeRank scope \<le> scopeRank (maxScopeFor d f) \<and> surfaceByRisk (riskOf d f) = 1 \<and>
         systemTree f \<noteq> Some True \<and> publishPublic f \<noteq> Some True)"
proof -
  from assms obtain d where d: "CAPABILITIES cap = Some d" and s: "requiredSurface d scope f \<le> 1"
      "scopeRank scope \<le> scopeRank (maxScopeFor d f)"
      and low: "rsk = Low" "cap \<in> {''fs.read'', ''fs.write'', ''clipboard.read''}"
    by (auto simp: surfaceMayDecide_def split: option.splits if_splits)
  from s(1) surfaceByRisk_bounds [of "riskOf d f"]
  have "surfaceByRisk (riskOf d f) = 1" "systemTree f \<noteq> Some True" "publishPublic f \<noteq> Some True"
    by (auto simp: requiredSurface_def Let_def split: if_splits)
  moreover have "requiredSurface d scope f = 1"
    using s(1) requiredSurface_bounds [OF CAPABILITIES_row_ok [OF d], of scope f] by simp
  ultimately show ?thesis using d s low by blast
qed

text \<open>
  Declarations can only raise an effect: whatever a tool, an extension manifest or an MCP server
  declares, the effect the evaluator uses is at least the capability's own; an unreadable declaration
  counts as money; and MCP annotations never lower a declared effect.
\<close>

theorem declared_effect_never_lowers:
  "effectRank (intrinsicEffect d) \<le> effectRank (effect_of c d) \<and>
   (call_effect c \<noteq> JUndef \<and> isEffect (call_effect c) = None \<longrightarrow> effect_of c d = EffMoney) \<and>
   (\<forall>e. isEffect decl = Some e \<longrightarrow> effectRank e \<le> effectRank (fromMcp decl ann)) \<and>
   (isEffect decl = None \<longrightarrow> effectRank EffExternal \<le> effectRank (fromMcp decl ann))"
  using effectRank_le_4 [of "intrinsicEffect d"]
  by (auto simp: effect_of_def fromMcp_def Let_def effectRank_maxEffect split: option.splits)

section \<open>Witnesses\<close>

text \<open>A shell command of an agent in its project, allowed by a standing grant of the same person.\<close>

definition sample_call :: jsval where
  "sample_call = JObj [(''capability'', JStr ''shell.exec''), (''tool'', JStr ''shell.run''),
     (''actionHash'', JStr ''h1''),
     (''flags'', JObj [(''outsideRoots'', JBool False), (''denyListHit'', JBool False), (''sandboxed'', JBool True)])]"

definition sample_ctx :: jsval where
  "sample_ctx = JObj [(''principal'', JObj [(''person'', JStr ''p1'')]),
     (''subject'', JObj [(''kind'', JStr ''agent''), (''agentId'', JStr ''a1'')]),
     (''tokenScopes'', JArr [JStr ''shell.exec''])]"

definition sample_grant :: grant where
  "sample_grant = \<lparr>g_id = ''g1'', g_capability = ''shell.exec'', g_person = ''p1'', g_agent = ''a1'',
     g_scope = Always, g_match = MatchCapability, g_createdAt = Fin 0, g_lastUsedAt = None, g_expiresAt = None,
     g_revoked = JUndef, g_consumedAt = None, g_actionHash = None, g_taskId = None, g_sessionId = None,
     g_projectId = None, g_jobId = None, g_delegable = False, g_surface = Fin 2,
     g_acknowledgedUnsandboxed = False\<rparr>"

definition sample_deps :: deps where
  "sample_deps = \<lparr>dep_list = (\<lambda>p a c. [sample_grant]), dep_get = (\<lambda>i. None), dep_maxGrantDays = None, dep_now = Fin 1000\<rparr>"

lemmas sample_defs = sample_call_def sample_ctx_def sample_grant_def sample_deps_def

lemma sample_allowed: "decide sample_call sample_ctx sample_deps = Allow ViaGrant (Some ''g1'') False"
  by code_simp

lemma sample_wf: "malformed sample_call sample_ctx = None"
  by code_simp

lemma sample_checked:
  "decide_checked (call_of sample_call) (context_of sample_ctx) sample_deps = Allow ViaGrant (Some ''g1'') False"
  using sample_allowed by (simp add: decide_def sample_wf)

theorem decide_allow_sound_witness:
  "decide sample_call sample_ctx sample_deps = Allow ViaGrant (Some ''g1'') False \<and>
   (\<exists>d. CAPABILITIES (capability_name (call_of sample_call)) = Some d \<and> cap_id d \<notin> set NEVER_CAPABILITIES)"
  using sample_allowed decide_allow_sound [OF sample_allowed] by blast

theorem decide_grant_sound_witness:
  "\<exists>d g. CAPABILITIES (capability_name (call_of sample_call)) = Some d \<and> Some ''g1'' = Some (g_id g) \<and>
     validGrant g \<and> g_person g = ctx_person (context_of sample_ctx)"
  using decide_grant_sound [OF sample_checked] by blast

theorem decide_token_scopes_narrow_witness:
  "decide_checked (call_of sample_call) (context_of sample_ctx\<lparr>ctx_tokenScopes := None\<rparr>) sample_deps
     = Allow ViaGrant (Some ''g1'') False"
  by (rule decide_token_scopes_narrow [OF sample_checked])

text \<open>The same command privileged: only a \<open>once\<close> grant for this action hash, decided on T3, lifts it.\<close>

definition sample_call_priv :: call where
  "sample_call_priv = (call_of sample_call)\<lparr>call_flags_of := (call_flags_of (call_of sample_call))\<lparr>privileged := Some True\<rparr>\<rparr>"

definition sample_deps_once :: deps where
  "sample_deps_once = sample_deps\<lparr>dep_list := (\<lambda>p a c. [sample_grant,
     sample_grant\<lparr>g_id := ''g2'', g_scope := Once, g_match := MatchAction, g_actionHash := Some ''h1''\<rparr>])\<rparr>"

lemma sample_priv_allowed:
  "decide_checked sample_call_priv (context_of sample_ctx) sample_deps_once = Allow ViaGrant (Some ''g2'') False"
  by code_simp

lemma sample_priv_cap:
  "\<exists>d. CAPABILITIES (capability_name sample_call_priv) = Some d \<and>
     privileged (call_flags_of sample_call_priv) = Some True"
proof -
  have "\<not> Option.is_none (CAPABILITIES (capability_name sample_call_priv))" by code_simp
  moreover have "privileged (call_flags_of sample_call_priv) = Some True" by code_simp
  ultimately show ?thesis by (auto simp: Option.is_none_def)
qed

theorem decide_floor_needs_grant_witness:
  "\<exists>d. CAPABILITIES (capability_name sample_call_priv) = Some d \<and>
     floored (call_flags_of sample_call_priv) (effect_of sample_call_priv d)
       (isBatch (call_flags_of sample_call_priv) (call_targets sample_call_priv)) \<and>
     (\<exists>g\<in>set (candidateGrants (context_of sample_ctx) sample_deps_once (cap_id d)). Some ''g2'' = Some (g_id g))"
proof -
  obtain d where d: "CAPABILITIES (capability_name sample_call_priv) = Some d"
      "privileged (call_flags_of sample_call_priv) = Some True"
    using sample_priv_cap by blast
  then have f: "floored (call_flags_of sample_call_priv) (effect_of sample_call_priv d)
      (isBatch (call_flags_of sample_call_priv) (call_targets sample_call_priv))"
    by (simp add: floored_def)
  show ?thesis using d f decide_floor_needs_grant [OF sample_priv_allowed d(1) f] by blast
qed


text \<open>A headless run without a job grant is refused; with none at all the question is asked elsewhere.\<close>

definition sample_headless :: decision_context where
  "sample_headless = (context_of sample_ctx)\<lparr>ctx_headless := Some ''job1''\<rparr>"

theorem headless_never_asks_witness:
  "ctx_headless sample_headless = Some ''job1'' \<and>
   \<not> (\<exists>rq p w. headlessGate (decide_checked (call_of sample_call) sample_headless sample_deps)
        (ctx_headless sample_headless) = Ask rq p w)"
proof -
  have h: "ctx_headless sample_headless = Some ''job1''" by (simp add: sample_headless_def)
  show ?thesis using h headless_never_asks [OF h, of "call_of sample_call" sample_deps] by auto
qed

lemma sample_asks:
  "\<exists>rq p w. decide_checked (call_of sample_call) (context_of sample_ctx) (sample_deps\<lparr>dep_list := (\<lambda>p a c. [])\<rparr>) = Ask rq p w"
proof -
  have "case decide_checked (call_of sample_call) (context_of sample_ctx) (sample_deps\<lparr>dep_list := (\<lambda>p a c. [])\<rparr>) of
      Ask rq p w \<Rightarrow> True | _ \<Rightarrow> False"
    by code_simp
  then show ?thesis by (auto split: decision.splits)
qed

theorem ask_options_decidable_witness:
  "\<exists>rq p w. decide_checked (call_of sample_call) (context_of sample_ctx) (sample_deps\<lparr>dep_list := (\<lambda>p a c. [])\<rparr>) = Ask rq p w \<and>
     rq_grantOptions rq \<noteq> [] \<and> opt_scope (hd (rq_grantOptions rq)) = Once"
  using sample_asks ask_options_decidable by blast

theorem t1_decides_low_risk_only_witness:
  "surfaceMayDecide ''fs.read'' Low (flags_of (JObj [])) 1 Once \<and> ''fs.read'' \<in> {''fs.read'', ''fs.write'', ''clipboard.read''}"
proof -
  have m: "surfaceMayDecide ''fs.read'' Low (flags_of (JObj [])) 1 Once" by code_simp
  show ?thesis using m t1_decides_low_risk_only [OF m] by blast
qed

theorem declared_effect_never_lowers_witness:
  "isEffect (JStr ''read'') = Some EffRead \<and>
   effectRank EffRead \<le> effectRank (fromMcp (JStr ''read'') \<lparr>readOnlyHint = Some True, destructiveHint = Some True, openWorldHint = None\<rparr>)"
proof -
  have e: "isEffect (JStr ''read'') = Some EffRead" by code_simp
  show ?thesis
    using e declared_effect_never_lowers [of undefined undefined "JStr ''read''"
        "\<lparr>readOnlyHint = Some True, destructiveHint = Some True, openWorldHint = None\<rparr>"] by blast
qed

end
