(* ===== verification/Surface_Trust.thy ===== *)
theory Surface_Trust
  imports Js_Values
begin

text \<open>
  The trust level of the surface a decision arrives on: \<^verbatim>\<open>packages/core/src/rbac/surface.ts\<close> and
  \<^verbatim>\<open>rbac/connection-surface.ts\<close>. Both functions read untyped facts and answer 0 (nothing) to 3
  (attested). The lemmas characterise exactly which facts reach which level.
\<close>

definition STEP_UP_WINDOW_MS :: rat where
  "STEP_UP_WINDOW_MS = 5 * 60000"

text \<open>The numeric tests of the web case: \<open>typeof x === "number" && Number.isFinite(x)\<close>.\<close>

definition finite_of :: "jsval \<Rightarrow> rat option" where
  "finite_of v = (case v of JNum (Fin q) \<Rightarrow> Some q | _ \<Rightarrow> None)"

definition surfaceTrust :: "jsval \<Rightarrow> nat" where
  "surfaceTrust facts =
    (if \<not> is_obj facts then 0
     else let get = jget facts in
       if get ''kind'' = JStr ''desktop-app'' then 3
       else if get ''kind'' = JStr ''cli'' then
         (if get ''tty'' = JBool True \<and> get ''osUserIsOwner'' = JBool True then 3 else 0)
       else if get ''kind'' = JStr ''web'' then
         (if get ''authenticated'' \<noteq> JBool True then 0
          else case finite_of (get ''now'') of
            None \<Rightarrow> 0
          | Some now \<Rightarrow>
              (case finite_of (get ''stepUpAt'') of
                 Some up \<Rightarrow> (if up \<le> now \<and> now - up \<le> STEP_UP_WINDOW_MS then 3 else 2)
               | None \<Rightarrow> 2))
       else if get ''kind'' = JStr ''channel'' then
         (if (get ''firstParty'' = JBool True \<or> get ''optedIntoT2'' = JBool True) \<and>
             get ''chat'' = JStr ''private'' \<and> get ''identityLinked'' = JBool True \<and> get ''nonceValid'' = JBool True
          then 2 else 0)
       else if get ''kind'' = JStr ''acp-editor'' then (if get ''startedSession'' = JBool True then 1 else 0)
       else 0)"

definition surfaceSatisfies :: "nat \<Rightarrow> nat option \<Rightarrow> bool" where
  "surfaceSatisfies have_level required =
    (case required of
       None \<Rightarrow> False
     | Some r \<Rightarrow> (if have_level \<notin> {1, 2, 3} \<or> r \<notin> {0, 1, 2, 3} then False else r \<le> have_level))"

definition UNATTESTED_LOCAL_SURFACE :: nat where
  "UNATTESTED_LOCAL_SURFACE = 1"

definition attested_level :: "jsval \<Rightarrow> rat \<Rightarrow> nat" where
  "attested_level att now =
    (let kind = jget att ''kind'' in
     if kind = JStr ''desktop-app'' then surfaceTrust (JObj [(''kind'', JStr ''desktop-app'')])
     else if kind = JStr ''cli'' then
       surfaceTrust (JObj [(''kind'', JStr ''cli''), (''tty'', JBool (jget att ''tty'' = JBool True)),
         (''osUserIsOwner'', JBool (jget att ''osUserIsOwner'' = JBool True))])
     else if kind = JStr ''web-step-up'' then
       surfaceTrust (JObj ([(''kind'', JStr ''web''), (''authenticated'', JBool True), (''now'', JNum (Fin now))] @
         (case jget att ''stepUpAt'' of JNum up \<Rightarrow> [(''stepUpAt'', JNum up)] | _ \<Rightarrow> [])))
     else 0)"

definition connectionSurface :: "jsval \<Rightarrow> nat" where
  "connectionSurface facts =
    (if \<not> is_obj facts then 0
     else if \<not> is_obj (jget facts ''principal'') \<or> jget (jget facts ''principal'') ''kind'' \<noteq> JStr ''person'' then 0
     else case finite_of (jget facts ''now'') of
       None \<Rightarrow> 0
     | Some now \<Rightarrow>
         (if is_obj (jget facts ''attestation'') \<and> attested_level (jget facts ''attestation'') now = 3 then 3
          else UNATTESTED_LOCAL_SURFACE))"

section \<open>Which facts reach which level\<close>

lemma finite_of_Fin [simp]: "finite_of (JNum (Fin q)) = Some q"
  by (simp add: finite_of_def)

lemma finite_of_iff: "finite_of v = Some q \<longleftrightarrow> v = JNum (Fin q)"
  by (auto simp: finite_of_def split: jsval.splits jsnum.splits)

text \<open>The full trust of T3: desktop app, a terminal of the owning OS user, a fresh step-up of a live session.\<close>

definition t3_facts :: "jsval \<Rightarrow> bool" where
  "t3_facts f \<longleftrightarrow> is_obj f \<and>
     (jget f ''kind'' = JStr ''desktop-app'' \<or>
      jget f ''kind'' = JStr ''cli'' \<and> jget f ''tty'' = JBool True \<and> jget f ''osUserIsOwner'' = JBool True \<or>
      jget f ''kind'' = JStr ''web'' \<and> jget f ''authenticated'' = JBool True \<and>
        (\<exists>now up. jget f ''now'' = JNum (Fin now) \<and> jget f ''stepUpAt'' = JNum (Fin up) \<and>
           up \<le> now \<and> now - up \<le> STEP_UP_WINDOW_MS))"

definition t2_facts :: "jsval \<Rightarrow> bool" where
  "t2_facts f \<longleftrightarrow> is_obj f \<and>
     (jget f ''kind'' = JStr ''web'' \<and> jget f ''authenticated'' = JBool True \<and> (\<exists>now. jget f ''now'' = JNum (Fin now)) \<or>
      jget f ''kind'' = JStr ''channel'' \<and> (jget f ''firstParty'' = JBool True \<or> jget f ''optedIntoT2'' = JBool True) \<and>
        jget f ''chat'' = JStr ''private'' \<and> jget f ''identityLinked'' = JBool True \<and> jget f ''nonceValid'' = JBool True)"

lemma surfaceTrust_T3: "surfaceTrust f = 3 \<longleftrightarrow> t3_facts f"
  by (auto simp: surfaceTrust_def t3_facts_def finite_of_iff Let_def split: option.splits if_splits)

lemma surfaceTrust_T2: "surfaceTrust f = 2 \<longleftrightarrow> t2_facts f \<and> \<not> t3_facts f"
  by (auto simp: surfaceTrust_def t2_facts_def t3_facts_def finite_of_iff Let_def split: option.splits if_splits)

lemma surfaceTrust_T1:
  "surfaceTrust f = 1 \<longleftrightarrow> is_obj f \<and> jget f ''kind'' = JStr ''acp-editor'' \<and> jget f ''startedSession'' = JBool True"
  by (auto simp: surfaceTrust_def Let_def split: option.splits if_splits)

lemma surfaceTrust_range: "surfaceTrust f \<in> {0, 1, 2, 3}"
  by (auto simp: surfaceTrust_def Let_def split: option.splits)

text \<open>
  The trust table is exact: a surface is T3 precisely for the desktop app, the terminal of the
  owning user or a live web session whose step-up lies in the last five minutes and not in the future;
  T2 precisely for the other live web sessions and the linked private chats with a valid nonce; T1
  precisely for the editor that started the session; everything else, and every malformed input, is T0,
  which satisfies no requirement.
\<close>

theorem surfaceTrust_exact:
  "(surfaceTrust f = 3 \<longleftrightarrow> t3_facts f) \<and>
   (surfaceTrust f = 2 \<longleftrightarrow> t2_facts f \<and> \<not> t3_facts f) \<and>
   (surfaceTrust f = 1 \<longleftrightarrow> is_obj f \<and> jget f ''kind'' = JStr ''acp-editor'' \<and> jget f ''startedSession'' = JBool True) \<and>
   surfaceTrust f \<in> {0, 1, 2, 3} \<and>
   (surfaceSatisfies (surfaceTrust f) r \<longleftrightarrow>
      (\<exists>n. r = Some n \<and> n \<le> surfaceTrust f \<and> surfaceTrust f \<noteq> 0))"
proof -
  have "surfaceSatisfies (surfaceTrust f) r \<longleftrightarrow> (\<exists>n. r = Some n \<and> n \<le> surfaceTrust f \<and> surfaceTrust f \<noteq> 0)"
    using surfaceTrust_range [of f] by (auto simp: surfaceSatisfies_def split: option.splits)
  then show ?thesis using surfaceTrust_T3 surfaceTrust_T2 surfaceTrust_T1 surfaceTrust_range by auto
qed

text \<open>
  A connection reaches T0, T1 or T3 and nothing else: T0 without a person, T1 for a person
  without attestation, T3 only for a person whose attestation the trust table rates T3; so no
  connection decides medium-risk requests on the strength of the token file alone.
\<close>

theorem connectionSurface_exact:
  "connectionSurface facts \<in> {0, 1, 3} \<and>
   (connectionSurface facts \<noteq> 0 \<longrightarrow>
      jget (jget facts ''principal'') ''kind'' = JStr ''person'' \<and> (\<exists>now. jget facts ''now'' = JNum (Fin now))) \<and>
   (connectionSurface facts = 3 \<longrightarrow>
      (let att = jget facts ''attestation'' in
        jget att ''kind'' = JStr ''desktop-app'' \<or>
        jget att ''kind'' = JStr ''cli'' \<and> jget att ''tty'' = JBool True \<and> jget att ''osUserIsOwner'' = JBool True \<or>
        jget att ''kind'' = JStr ''web-step-up'' \<and>
          (\<exists>now up. jget facts ''now'' = JNum (Fin now) \<and> jget att ''stepUpAt'' = JNum (Fin up) \<and>
             up \<le> now \<and> now - up \<le> STEP_UP_WINDOW_MS)))"
proof -
  have lvl: "jget att ''kind'' = JStr ''desktop-app'' \<or>
        jget att ''kind'' = JStr ''cli'' \<and> jget att ''tty'' = JBool True \<and> jget att ''osUserIsOwner'' = JBool True \<or>
        jget att ''kind'' = JStr ''web-step-up'' \<and>
          (\<exists>up. jget att ''stepUpAt'' = JNum (Fin up) \<and> up \<le> now \<and> now - up \<le> STEP_UP_WINDOW_MS)"
    if "attested_level att now = 3" for att now
    using that by (auto simp: attested_level_def surfaceTrust_T3 t3_facts_def Let_def split: if_splits jsval.splits)
  show ?thesis
    using lvl
    by (auto simp: connectionSurface_def UNATTESTED_LOCAL_SURFACE_def Let_def finite_of_iff
        split: option.splits if_splits)
qed

theorem connectionSurface_exact_witness:
  "connectionSurface (JObj [(''principal'', JObj [(''kind'', JStr ''person'')]), (''now'', JNum (Fin 700000)),
      (''attestation'', JObj [(''kind'', JStr ''web-step-up''), (''stepUpAt'', JNum (Fin 500000))])]) = 3 \<and>
   (\<exists>up. JNum (Fin 500000) = JNum (Fin up) \<and> up \<le> 700000 \<and> 700000 - up \<le> STEP_UP_WINDOW_MS)"
proof -
  let ?f = "JObj [(''principal'', JObj [(''kind'', JStr ''person'')]), (''now'', JNum (Fin 700000)),
      (''attestation'', JObj [(''kind'', JStr ''web-step-up''), (''stepUpAt'', JNum (Fin 500000))])]"
  have c: "connectionSurface ?f = 3"
    by (simp add: connectionSurface_def attested_level_def surfaceTrust_def finite_of_def STEP_UP_WINDOW_MS_def)
  show ?thesis using c connectionSurface_exact [of ?f] by (auto simp: Let_def)
qed

end
