(* ===== verification/Rbac_Policy.thy ===== *)
theory Rbac_Policy
  imports Js_Values
begin

text \<open>
  Role-based access control of people: \<^verbatim>\<open>packages/core/src/rbac/types.ts\<close>,
  \<^verbatim>\<open>rbac/policy.ts\<close> and \<^verbatim>\<open>rbac/authorize.ts\<close>. The policy is one table of actions; a role without an
  entry is denied. The lemmas show what every allow rests on, that human-only actions are closed to
  agents, that token scopes only narrow, and that another user's cards are reachable through a live
  break-glass grant only, for reading only.
\<close>

section \<open>Types\<close>

datatype role = Owner | Admin | Operator | Member | Viewer

definition ROLES :: "(string \<times> role) list" where
  "ROLES = [(''owner'', Owner), (''admin'', Admin), (''operator'', Operator), (''member'', Member), (''viewer'', Viewer)]"

record break_glass_grant =
  bg_id :: string
  bg_holderUserId :: string
  bg_targetUserId :: string
  bg_reason :: string
  bg_issuedAt :: jsnum
  bg_expiresAt :: jsnum
  bg_revokedAt :: "jsnum option"

definition PRINCIPAL_KINDS :: "string list" where
  "PRINCIPAL_KINDS = [''person'', ''agent'']"

text \<open>The identity fields are read from outside, so they are dynamic values; the rest is typed.\<close>

record principal =
  p_userId :: jsval
  p_kind :: jsval
  p_role :: jsval
  p_agentRights :: "(string \<times> string) list option"
  p_projectRights :: "(string \<times> string) list option"
  p_tokenScopes :: "string list option"
  p_binding_agentId :: "string option"
  p_breakGlass :: "break_glass_grant list option"

datatype memory_agent_scope = AgentPrivate | Workspace

datatype resource =
    RSystem
  | RUser jsval
  | RAgent jsval
  | RProject jsval
  | RMemoryUser jsval
  | RMemoryAgent memory_agent_scope jsval
  | RInvalid

datatype resource_shape = ShSystem | ShUser | ShAgent | ShProject | ShMemoryUser
  | ShMemoryAgentPrivate | ShMemoryWorkspace

datatype rbac_grant = GAllow | GOwn | GObject | GBreakGlass

record action_spec =
  as_action :: string
  as_resource :: resource_shape
  as_needs :: "string option"
  as_humanOnly :: bool
  as_grants :: "(role \<times> rbac_grant list) list"

datatype allow_reason = ByRole | ByOwn | ByObjectRight | ByBreakGlass string

datatype rbac_deny = Unauthenticated | InvalidPrincipal | UnknownAction | ResourceMismatch | TokenScope
  | RoleDenied | NotOwner | ObjectRightRequired | BreakGlassRequired | AuditFailed | AgentPrincipal

datatype rbac_decision = RAllow allow_reason | RDeny rbac_deny

section \<open>The policy table\<close>

definition gA :: "rbac_grant list" where "gA = [GAllow]"
definition gO :: "rbac_grant list" where "gO = [GOwn]"
definition gU :: "rbac_grant list" where "gU = [GObject]"
definition gOB :: "rbac_grant list" where "gOB = [GOwn, GBreakGlass]"

definition spec :: "string \<Rightarrow> resource_shape \<Rightarrow> (role \<times> rbac_grant list) list \<Rightarrow> string option \<Rightarrow> action_spec" where
  "spec a r gs needs = \<lparr>as_action = a, as_resource = r, as_needs = needs, as_humanOnly = False, as_grants = gs\<rparr>"

definition humanOnly :: "action_spec \<Rightarrow> action_spec" where
  "humanOnly s = s\<lparr>as_humanOnly := True\<rparr>"

definition OA :: "(role \<times> rbac_grant list) list" where
  "OA = [(Owner, gA), (Admin, gA)]"

definition READERS :: "(role \<times> rbac_grant list) list" where
  "READERS = [(Owner, gA), (Admin, gA), (Operator, gA), (Viewer, gA)]"

definition catalogue :: "string \<Rightarrow> action_spec list" where
  "catalogue area = [spec (area @ ''.read'') ShSystem READERS None, spec (area @ ''.write'') ShSystem OA None]"

definition POLICY :: "action_spec list" where
  "POLICY =
   [humanOnly (spec ''a2a.peers.manage'' ShSystem [(Owner, gA)] None),
    spec ''chat:read'' ShSystem [(Owner, gA), (Admin, gA), (Operator, gA), (Member, gA), (Viewer, gA)] None,
    spec ''chat:write'' ShSystem [(Owner, gA), (Admin, gA), (Operator, gA), (Member, gA)] None,
    spec ''chat:delete'' ShSystem [(Owner, gA), (Admin, gA), (Operator, gA), (Member, gA)] None,
    humanOnly (spec ''inbox.read'' ShSystem [(Owner, gA), (Admin, gA), (Operator, gA), (Member, gA), (Viewer, gA)] None),
    humanOnly (spec ''inbox.write'' ShSystem [(Owner, gA), (Admin, gA), (Operator, gA), (Member, gA), (Viewer, gA)] None),
    spec ''project.board.read'' ShSystem [(Owner, gA), (Admin, gA), (Operator, gA), (Member, gA), (Viewer, gA)] None,
    spec ''project.board.move'' ShSystem [(Owner, gA), (Admin, gA), (Operator, gA), (Member, gA)] None,
    spec ''project.board.comment'' ShSystem [(Owner, gA), (Admin, gA), (Operator, gA), (Member, gA)] None,
    humanOnly (spec ''project.board.write'' ShSystem [(Owner, gA), (Admin, gA), (Operator, gA), (Member, gA)] None),
    humanOnly (spec ''project.board.manage'' ShSystem [(Owner, gA), (Admin, gA), (Operator, gA), (Member, gA)] None),
    spec ''memory.user.read'' ShMemoryUser [(Owner, gOB), (Admin, gOB), (Operator, gO), (Member, gO), (Viewer, gO)] None,
    spec ''memory.user.write'' ShMemoryUser [(Owner, gO), (Admin, gO), (Operator, gO), (Member, gO)] None,
    spec ''memory.agent-private.read'' ShMemoryAgentPrivate [(Owner, gA), (Admin, gA), (Member, gU)] (Some ''manage''),
    spec ''memory.agent-private.write'' ShMemoryAgentPrivate [(Owner, gA), (Admin, gA), (Member, gU)] (Some ''manage''),
    spec ''memory.workspace.read'' ShMemoryWorkspace [(Owner, gA), (Admin, gA), (Operator, gU), (Member, gU), (Viewer, gU)] (Some ''use''),
    spec ''memory.workspace.write'' ShMemoryWorkspace [(Owner, gA), (Admin, gA), (Operator, gU), (Member, gU)] (Some ''use''),
    spec ''memory.forget'' ShAgent [(Owner, gA), (Admin, gA), (Operator, gU), (Member, gU)] (Some ''use''),
    spec ''memory.sensitivity.read'' ShAgent [(Owner, gA), (Admin, gA), (Operator, gU), (Member, gU), (Viewer, gU)] (Some ''use''),
    spec ''memory.sensitivity.write'' ShAgent [(Owner, gA), (Admin, gA), (Operator, gU), (Member, gU)] (Some ''manage''),
    spec ''agent.list'' ShSystem [(Owner, gA), (Admin, gA), (Operator, gA), (Member, gA), (Viewer, gA)] None,
    spec ''agent.read'' ShAgent [(Owner, gA), (Admin, gA), (Operator, gA), (Member, gU), (Viewer, gU)] (Some ''use''),
    spec ''agent.use'' ShAgent [(Owner, gA), (Admin, gA), (Operator, gU), (Member, gU)] (Some ''use''),
    spec ''agent.operate'' ShAgent [(Owner, gA), (Admin, gA), (Operator, gA)] None,
    spec ''agent.manage'' ShAgent [(Owner, gA), (Admin, gA), (Member, gU)] (Some ''manage''),
    spec ''agent.create'' ShSystem OA None,
    spec ''agent.delete'' ShAgent OA None,
    spec ''dreaming.read'' ShSystem READERS None,
    spec ''dreaming.operate'' ShSystem [(Owner, gA), (Admin, gA), (Operator, gA)] None,
    spec ''cron.read'' ShSystem READERS None,
    spec ''cron.operate'' ShSystem [(Owner, gA), (Admin, gA), (Operator, gA)] None,
    spec ''jobs.run'' ShSystem [(Owner, gA), (Admin, gA), (Operator, gA)] None,
    spec ''sessions.read'' ShSystem READERS None,
    spec ''logs.read'' ShSystem READERS None,
    spec ''audit.read'' ShSystem OA None,
    spec ''logs.query'' ShSystem OA None] @
   concat (map catalogue [''models'', ''providers'', ''channels'', ''plugins'', ''mcp'']) @
   [humanOnly (spec ''extensions.read'' ShSystem OA None),
    humanOnly (spec ''extensions.manage'' ShSystem OA None),
    humanOnly (spec ''imports.read'' ShSystem OA None),
    humanOnly (spec ''imports.manage'' ShSystem OA None),
    spec ''users.read'' ShSystem OA None,
    spec ''users.manage'' ShSystem OA None,
    spec ''users.delete'' ShUser [(Owner, gA)] None,
    spec ''ownership.transfer'' ShSystem [(Owner, gA)] None,
    spec ''breakglass.request'' ShUser OA None,
    spec ''breakglass.log.read'' ShSystem OA None,
    spec ''licence.confirm'' ShSystem [(Owner, gA)] None,
    humanOnly (spec ''media.read'' ShSystem [(Owner, gA), (Admin, gA), (Operator, gA), (Member, gA), (Viewer, gA)] None),
    humanOnly (spec ''media.write'' ShSystem [(Owner, gA), (Admin, gA), (Operator, gA), (Member, gA)] None),
    spec ''media.index.read'' ShSystem [(Owner, gA), (Admin, gA), (Operator, gA), (Member, gA), (Viewer, gA)] None,
    humanOnly (spec ''media.index.operate'' ShSystem OA None),
    humanOnly (spec ''media.caption.write'' ShSystem [(Owner, gA), (Admin, gA), (Operator, gA), (Member, gA)] None),
    humanOnly (spec ''project.surface.read'' ShSystem [(Owner, gA), (Admin, gA), (Operator, gA), (Member, gA), (Viewer, gA)] None),
    humanOnly (spec ''project.surface.write'' ShSystem [(Owner, gA), (Admin, gA), (Operator, gA), (Member, gA)] None),
    humanOnly (spec ''project.create'' ShSystem OA None),
    humanOnly (spec ''identity.self.read'' ShSystem [(Owner, gA), (Admin, gA), (Operator, gA), (Member, gA), (Viewer, gA)] None),
    humanOnly (spec ''identity.self.write'' ShSystem [(Owner, gA), (Admin, gA), (Operator, gA), (Member, gA)] None),
    humanOnly (spec ''auth.credentials.read'' ShSystem [(Owner, gA)] None),
    humanOnly (spec ''auth.credentials.write'' ShSystem [(Owner, gA)] None),
    humanOnly (spec ''channel.read'' ShSystem OA None),
    humanOnly (spec ''channel.write'' ShSystem OA None),
    humanOnly (spec ''admin.agent.operate'' ShAgent [(Owner, gA), (Admin, gA), (Operator, gA)] None),
    humanOnly (spec ''admin.agent.manage'' ShAgent OA None),
    humanOnly (spec ''admin.agent.delete'' ShAgent OA None),
    humanOnly (spec ''admin.agent.rights'' ShAgent OA None),
    humanOnly (spec ''admin.users.read'' ShSystem OA None),
    humanOnly (spec ''admin.users.write'' ShSystem OA None),
    humanOnly (spec ''admin.breakglass.read'' ShSystem OA None),
    humanOnly (spec ''admin.breakglass.write'' ShSystem OA None),
    humanOnly (spec ''admin.sessions.write'' ShSystem [(Owner, gA), (Admin, gA), (Operator, gA), (Member, gA)] None),
    humanOnly (spec ''admin.sessions.read'' ShSystem [(Owner, gA), (Admin, gA), (Operator, gA), (Member, gA), (Viewer, gA)] None),
    humanOnly (spec ''admin.pairing.read'' ShSystem OA None),
    humanOnly (spec ''remote.device.write'' ShSystem [(Owner, gA), (Admin, gA), (Operator, gA), (Member, gA)] None)] @
   map (\<lambda>a. humanOnly (spec a ShSystem [(Owner, gA), (Admin, gA), (Operator, gA), (Member, gA), (Viewer, gA)] None)) [''device.list'', ''device.revoke'', ''device.rename''] @
   [humanOnly (spec ''admin.notices.read'' ShSystem [(Owner, gA), (Admin, gA), (Operator, gA), (Member, gA), (Viewer, gA)] None),
    humanOnly (spec ''admin.sessions.transcript'' ShSystem [(Owner, gA), (Admin, gA), (Operator, gA), (Member, gA), (Viewer, gA)] None),
    humanOnly (spec ''admin.memory.read'' ShSystem [(Owner, gA), (Admin, gA), (Operator, gA), (Member, gA), (Viewer, gA)] None),
    spec ''my.read'' ShUser [(Owner, gO), (Admin, gO), (Operator, gO), (Member, gO), (Viewer, gO)] None,
    spec ''my.write'' ShUser [(Owner, gO), (Admin, gO), (Operator, gO), (Member, gO)] None,
    spec ''project.read'' ShProject [(Owner, gA), (Admin, gA), (Operator, gA), (Member, gA), (Viewer, gA)] None,
    spec ''project.write'' ShProject [(Owner, gA), (Admin, gA), (Operator, gU), (Member, gU)] (Some ''member''),
    spec ''project.manage'' ShProject [(Owner, gA), (Admin, gA), (Operator, gU), (Member, gU)] (Some ''lead''),
    spec ''settings.read'' ShSystem OA None,
    spec ''settings.write'' ShSystem OA None,
    spec ''secrets.list'' ShSystem OA None,
    spec ''secrets.reveal'' ShSystem [(Owner, gA)] None,
    spec ''secrets.write'' ShSystem [(Owner, gA)] None,
    spec ''egress.read'' ShSystem OA None,
    spec ''import.run'' ShSystem OA None,
    spec ''doctor.read'' ShSystem [(Owner, gA), (Admin, gA), (Operator, gA)] None,
    spec ''doctor.run'' ShSystem [(Owner, gA), (Admin, gA), (Operator, gA)] None,
    humanOnly (spec ''grant.read'' ShSystem OA None),
    humanOnly (spec ''grant.write'' ShSystem OA None),
    humanOnly (spec ''approval.read'' ShSystem [(Owner, gA), (Admin, gA), (Operator, gA)] None),
    humanOnly (spec ''approval.decide'' ShSystem OA None)] @
   map (\<lambda>a. spec a ShSystem OA None) [''admin.obsidian.detect'', ''admin.obsidian.prepare'', ''admin.obsidian.confirm'', ''admin.migrate'', ''admin.embedding.probe'', ''admin.embedding.serve'', ''admin.embedding.check'', ''admin.reembed.plan'', ''admin.reembed.run'', ''admin.reembed.status'', ''admin.reembed.abort'', ''admin.backup.snapshot'']"

text \<open>\<open>new Map(entries)\<close>: a later entry of the same key wins, hence the reversal.\<close>

definition policyFor :: "string \<Rightarrow> action_spec option" where
  "policyFor a = map_of (rev (map (\<lambda>s. (as_action s, s)) POLICY)) a"

section \<open>The evaluator\<close>

fun AGENT_RANK :: "string \<Rightarrow> nat option" where
  "AGENT_RANK s = (if s = ''use'' then Some 1 else if s = ''manage'' then Some 2 else None)"

fun PROJECT_RANK :: "string \<Rightarrow> nat option" where
  "PROJECT_RANK s = (if s = ''member'' then Some 1 else if s = ''lead'' then Some 2 else None)"

definition right :: "(string \<times> string) list option \<Rightarrow> string \<Rightarrow> string option" where
  "right table i = (case table of None \<Rightarrow> None | Some t \<Rightarrow> map_of t i)"

definition shapeOf :: "resource \<Rightarrow> resource_shape option" where
  "shapeOf r = (case r of
     RSystem \<Rightarrow> Some ShSystem | RUser _ \<Rightarrow> Some ShUser | RAgent _ \<Rightarrow> Some ShAgent | RProject _ \<Rightarrow> Some ShProject
   | RMemoryUser _ \<Rightarrow> Some ShMemoryUser
   | RMemoryAgent AgentPrivate _ \<Rightarrow> Some ShMemoryAgentPrivate
   | RMemoryAgent Workspace _ \<Rightarrow> Some ShMemoryWorkspace
   | RInvalid \<Rightarrow> None)"

definition idOf :: "resource \<Rightarrow> jsval" where
  "idOf r = (case r of RSystem \<Rightarrow> JStr [] | RUser i \<Rightarrow> i | RAgent i \<Rightarrow> i | RProject i \<Rightarrow> i
     | RMemoryUser i \<Rightarrow> i | RMemoryAgent _ i \<Rightarrow> i | RInvalid \<Rightarrow> JUndef)"

definition ends_with :: "string \<Rightarrow> string \<Rightarrow> bool" where
  "ends_with s t = suffix t s"

definition scopeMatches :: "string list \<Rightarrow> string \<Rightarrow> bool" where
  "scopeMatches scopes action = list_ex (\<lambda>s. s = action \<or> (ends_with s ''.*'' \<and> prefix (butlast s) action)) scopes"

definition holdsObjectRight :: "principal \<Rightarrow> action_spec \<Rightarrow> resource \<Rightarrow> string \<Rightarrow> bool" where
  "holdsObjectRight p s r i =
    (case as_needs s of
       None \<Rightarrow> False
     | Some needs \<Rightarrow>
       (case r of
          RProject _ \<Rightarrow>
            (case (right (p_projectRights p) i, PROJECT_RANK needs) of
               (Some have, Some n) \<Rightarrow> n \<le> (case PROJECT_RANK have of Some h \<Rightarrow> h | None \<Rightarrow> 0)
             | _ \<Rightarrow> False)
        | _ \<Rightarrow>
            (case (right (p_agentRights p) i, AGENT_RANK needs) of
               (Some have, Some n) \<Rightarrow> n \<le> (case AGENT_RANK have of Some h \<Rightarrow> h | None \<Rightarrow> 0)
             | _ \<Rightarrow> False)))"

definition liveBreakGlass :: "principal \<Rightarrow> string \<Rightarrow> jsnum option \<Rightarrow> break_glass_grant option" where
  "liveBreakGlass p target now =
    (case now of
       None \<Rightarrow> None
     | Some t \<Rightarrow>
       (if \<not> is_finite t then None
        else case p_breakGlass p of
          None \<Rightarrow> None
        | Some gs \<Rightarrow> List.find (\<lambda>g. JStr (bg_holderUserId g) = p_userId p \<and> bg_targetUserId g = target \<and>
              bg_revokedAt g = None \<and> bg_issuedAt g \<le> t \<and> t < bg_expiresAt g) gs))"

definition evaluate :: "rbac_grant \<Rightarrow> principal \<Rightarrow> action_spec \<Rightarrow> resource \<Rightarrow> string \<Rightarrow> jsnum option \<Rightarrow> rbac_decision option" where
  "evaluate g p s r i now =
    (case g of
       GAllow \<Rightarrow> Some (RAllow ByRole)
     | GOwn \<Rightarrow> (if i \<noteq> [] \<and> JStr i = p_userId p then Some (RAllow ByOwn) else None)
     | GObject \<Rightarrow> (if holdsObjectRight p s r i then Some (RAllow ByObjectRight) else None)
     | GBreakGlass \<Rightarrow>
         (case (if i \<noteq> [] \<and> JStr i \<noteq> p_userId p then liveBreakGlass p i now else None) of
            Some live \<Rightarrow> Some (RAllow (ByBreakGlass (bg_id live)))
          | None \<Rightarrow> None))"

fun first_grant :: "rbac_grant list \<Rightarrow> principal \<Rightarrow> action_spec \<Rightarrow> resource \<Rightarrow> string \<Rightarrow> jsnum option \<Rightarrow> rbac_decision option" where
  "first_grant [] p s r i now = None"
| "first_grant (g # gs) p s r i now =
    (case evaluate g p s r i now of Some d \<Rightarrow> Some d | None \<Rightarrow> first_grant gs p s r i now)"

definition role_of :: "jsval \<Rightarrow> role option" where
  "role_of v = (case v of JStr s \<Rightarrow> map_of ROLES s | _ \<Rightarrow> None)"

definition valid_principal :: "principal \<Rightarrow> bool" where
  "valid_principal p \<longleftrightarrow>
     (case p_userId p of JStr u \<Rightarrow> u \<noteq> [] | _ \<Rightarrow> False) \<and> role_of (p_role p) \<noteq> None \<and>
     (case p_kind p of JUndef \<Rightarrow> True | JStr k \<Rightarrow> k \<in> set PRINCIPAL_KINDS | _ \<Rightarrow> False)"

definition authorize :: "principal option \<Rightarrow> string \<Rightarrow> resource \<Rightarrow> jsnum option \<Rightarrow> rbac_decision" where
  "authorize po action r now =
    (case po of
       None \<Rightarrow> RDeny Unauthenticated
     | Some p \<Rightarrow>
       (if \<not> valid_principal p then RDeny InvalidPrincipal
        else case policyFor action of
          None \<Rightarrow> RDeny UnknownAction
        | Some s \<Rightarrow>
          (if as_humanOnly s \<and> p_kind p \<noteq> JStr ''person'' then RDeny AgentPrincipal
           else if shapeOf r \<noteq> Some (as_resource s) then RDeny ResourceMismatch
           else case idOf r of
             JStr i \<Rightarrow>
               (if r \<noteq> RSystem \<and> i = [] then RDeny ResourceMismatch
                else if (case p_tokenScopes p of Some ts \<Rightarrow> \<not> scopeMatches ts action | None \<Rightarrow> False)
                  then RDeny TokenScope
                else
                  (let gs = (case map_of (as_grants s) (the (role_of (p_role p))) of Some gs \<Rightarrow> gs | None \<Rightarrow> [])
                   in case first_grant gs p s r i now of
                        Some d \<Rightarrow> d
                      | None \<Rightarrow>
                        (if gs = [] then RDeny RoleDenied
                         else if GBreakGlass \<in> set gs then RDeny BreakGlassRequired
                         else if GOwn \<in> set gs then RDeny NotOwner
                         else RDeny ObjectRightRequired)))
           | _ \<Rightarrow> RDeny ResourceMismatch)))"

definition canSee :: "principal option \<Rightarrow> string \<Rightarrow> resource list \<Rightarrow> jsnum option \<Rightarrow> resource list" where
  "canSee po action rs now = filter (\<lambda>r. case authorize po action r now of RAllow _ \<Rightarrow> True | RDeny _ \<Rightarrow> False) rs"

section \<open>The table is well formed\<close>

lemmas policy_table_defs = POLICY_def catalogue_def spec_def humanOnly_def OA_def READERS_def gA_def gO_def gU_def gOB_def

text \<open>
  The facts about rows that the theorems below use: break-glass and ownership entries occur on the
  user-card actions only, break-glass only for reading and only for owner and admin, an object entry
  names the right it needs, and only owner and admin hold an unconditional entry on secrets.
\<close>

definition policy_row_ok :: "action_spec \<Rightarrow> bool" where
  "policy_row_ok s \<longleftrightarrow>
     list_all (\<lambda>(r, gs). gs \<noteq> [] \<and>
       (GBreakGlass \<in> set gs \<longrightarrow> as_action s = ''memory.user.read'' \<and> as_resource s = ShMemoryUser \<and> (r = Owner \<or> r = Admin)) \<and>
       (GObject \<in> set gs \<longrightarrow> as_needs s \<noteq> None) \<and>
       (GOwn \<in> set gs \<longrightarrow> as_resource s = ShMemoryUser \<or> as_resource s = ShUser)) (as_grants s) \<and>
     (as_resource s = ShMemoryUser \<longrightarrow>
        (as_action s = ''memory.user.read'' \<or> as_action s = ''memory.user.write'') \<and>
        list_all (\<lambda>(r, gs). GAllow \<notin> set gs \<and> GObject \<notin> set gs) (as_grants s))"

lemma POLICY_rows_ok: "list_all policy_row_ok POLICY"
  by (simp add: policy_table_defs policy_row_ok_def)

lemma policyForD: "policyFor a = Some s \<Longrightarrow> s \<in> set POLICY \<and> as_action s = a"
  by (auto simp: policyFor_def dest!: map_of_SomeD)

lemma policyFor_row_ok: "policyFor a = Some s \<Longrightarrow> policy_row_ok s"
  using POLICY_rows_ok policyForD by (auto simp: list_all_iff)

section \<open>What an allow rests on\<close>

lemma first_grant_Some:
  "first_grant gs p s r i now = Some d \<Longrightarrow> \<exists>g\<in>set gs. evaluate g p s r i now = Some d"
  by (induction gs) (auto split: option.splits)

lemma evaluate_Some_RAllow: "evaluate g p s r i now = Some d \<Longrightarrow> \<exists>why. d = RAllow why"
  by (auto simp: evaluate_def split: rbac_grant.splits if_splits option.splits)

lemma authorize_RAllowE:
  assumes "authorize po action r now = RAllow why"
  obtains p s i gs g where "po = Some p" "valid_principal p" "policyFor action = Some s"
    "as_humanOnly s \<longrightarrow> p_kind p = JStr ''person''" "shapeOf r = Some (as_resource s)" "idOf r = JStr i"
    "r = RSystem \<or> i \<noteq> []" "\<forall>ts. p_tokenScopes p = Some ts \<longrightarrow> scopeMatches ts action"
    "map_of (as_grants s) (the (role_of (p_role p))) = Some gs" "g \<in> set gs"
    "evaluate g p s r i now = Some (RAllow why)"
proof -
  from assms obtain p s i where ps: "po = Some p" "valid_principal p" "policyFor action = Some s"
      "as_humanOnly s \<longrightarrow> p_kind p = JStr ''person''" "shapeOf r = Some (as_resource s)" "idOf r = JStr i"
      "r = RSystem \<or> i \<noteq> []" "\<forall>ts. p_tokenScopes p = Some ts \<longrightarrow> scopeMatches ts action"
    and fg: "first_grant (case map_of (as_grants s) (the (role_of (p_role p))) of Some gs \<Rightarrow> gs | None \<Rightarrow> []) p s r i now
        = Some (RAllow why)"
    by (auto simp: authorize_def Let_def split: option.splits if_splits jsval.splits)
  from fg obtain gs where gs: "map_of (as_grants s) (the (role_of (p_role p))) = Some gs"
      "first_grant gs p s r i now = Some (RAllow why)"
    by (auto split: option.splits)
  with first_grant_Some [OF gs(2)] ps that show thesis by blast
qed

lemma scopeMatches_iff:
  "scopeMatches ts action \<longleftrightarrow>
     (\<exists>t\<in>set ts. t = action \<or> (\<exists>pre. t = pre @ ''.*'' \<and> prefix (pre @ ''.'') action))"
proof -
  have "ends_with t ''.*'' \<and> prefix (butlast t) action \<longleftrightarrow> (\<exists>pre. t = pre @ ''.*'' \<and> prefix (pre @ ''.'') action)" for t
  proof -
    have "ends_with t ''.*'' \<longleftrightarrow> (\<exists>pre. t = pre @ ''.*'')" by (simp add: ends_with_def suffix_def)
    moreover have "butlast (pre @ ''.*'') = pre @ ''.''" for pre by (simp add: butlast_append)
    ultimately show ?thesis by metis
  qed
  then show ?thesis by (simp add: scopeMatches_def list_ex_iff)
qed

lemma liveBreakGlassD:
  assumes "liveBreakGlass p u now = Some g"
  shows "\<exists>t gs. now = Some (Fin t) \<and> p_breakGlass p = Some gs \<and> g \<in> set gs \<and>
     JStr (bg_holderUserId g) = p_userId p \<and> bg_targetUserId g = u \<and> bg_revokedAt g = None \<and>
     bg_issuedAt g \<le> Fin t \<and> Fin t < bg_expiresAt g"
proof -
  obtain x where x: "now = Some x" using assms by (cases now) (simp_all add: liveBreakGlass_def)
  obtain t where t: "x = Fin t" using assms x by (cases x) (simp_all add: liveBreakGlass_def)
  obtain gs where gs: "p_breakGlass p = Some gs"
    using assms x t by (cases "p_breakGlass p") (simp_all add: liveBreakGlass_def)
  have "List.find (\<lambda>g. JStr (bg_holderUserId g) = p_userId p \<and> bg_targetUserId g = u \<and>
      bg_revokedAt g = None \<and> bg_issuedAt g \<le> Fin t \<and> Fin t < bg_expiresAt g) gs = Some g"
    using assms by (simp add: liveBreakGlass_def x t gs)
  from find_SomeD [OF this] x t gs show ?thesis by blast
qed

text \<open>
  (C4) Deny by default: an allow needs an authenticated, well-formed principal, an action of the policy
  table, a resource of the shape that action takes, a token (if any) whose scopes name the action, and
  an entry of the table for the caller's role that holds; a human-only action needs a principal that is
  explicitly a person, so no agent reaches it with any role, right, token or break-glass grant.
\<close>

theorem authorize_allow_sound:
  assumes "authorize po action r now = RAllow why"
  shows "\<exists>p s. po = Some p \<and> valid_principal p \<and> s \<in> set POLICY \<and> as_action s = action \<and>
    (as_humanOnly s \<longrightarrow> p_kind p = JStr ''person'') \<and> shapeOf r = Some (as_resource s) \<and>
    (\<forall>ts. p_tokenScopes p = Some ts \<longrightarrow>
       (\<exists>t\<in>set ts. t = action \<or> (\<exists>pre. t = pre @ ''.*'' \<and> prefix (pre @ ''.'') action))) \<and>
    (\<exists>rl gs g. role_of (p_role p) = Some rl \<and> (rl, gs) \<in> set (as_grants s) \<and> g \<in> set gs \<and>
       (g = GAllow \<or> g = GOwn \<and> idOf r = p_userId p \<or> g = GObject \<and> (\<exists>i. idOf r = JStr i \<and> holdsObjectRight p s r i)
        \<or> g = GBreakGlass \<and> action = ''memory.user.read'' \<and> (rl = Owner \<or> rl = Admin)))"
proof -
  from assms obtain p s i gs g where a: "po = Some p" "valid_principal p" "policyFor action = Some s"
    "as_humanOnly s \<longrightarrow> p_kind p = JStr ''person''" "shapeOf r = Some (as_resource s)" "idOf r = JStr i"
    "\<forall>ts. p_tokenScopes p = Some ts \<longrightarrow> scopeMatches ts action"
    "map_of (as_grants s) (the (role_of (p_role p))) = Some gs" "g \<in> set gs"
    "evaluate g p s r i now = Some (RAllow why)"
    by (elim authorize_RAllowE)
  obtain rl where rl: "role_of (p_role p) = Some rl" using a(2) by (auto simp: valid_principal_def)
  have mem: "(rl, gs) \<in> set (as_grants s)" using a(8) rl by (auto dest: map_of_SomeD)
  note sp = policyForD [OF a(3)]
  have bg: "g = GBreakGlass \<Longrightarrow> action = ''memory.user.read'' \<and> (rl = Owner \<or> rl = Admin)"
    using policyFor_row_ok [OF a(3)] mem a(9) sp by (auto simp: policy_row_ok_def list_all_iff)
  have tok: "\<exists>t\<in>set ts. t = action \<or> (\<exists>pre. t = pre @ ''.*'' \<and> prefix (pre @ ''.'') action)"
    if "p_tokenScopes p = Some ts" for ts
    using a(7) that by (simp add: scopeMatches_iff)
  have ev: "g = GAllow \<or> g = GOwn \<and> idOf r = p_userId p \<or> g = GObject \<and> (\<exists>i. idOf r = JStr i \<and> holdsObjectRight p s r i)
        \<or> g = GBreakGlass"
    using a(10,6) by (cases g) (auto simp: evaluate_def split: if_splits)
  show ?thesis using a(1,2,4,5) sp tok rl mem a(9) ev bg by blast
qed

text \<open>
  Privacy of personal cards: whoever is allowed to read or write the \<open>user\<close>-scope cards of a
  user is that user, or reads with a live break-glass grant that names caller and target, whose window
  contains the current time and that is not revoked; such a caller is an owner or an admin.
\<close>

theorem user_cards_private:
  assumes "authorize po action (RMemoryUser (JStr u)) now = RAllow why"
  shows "\<exists>p. po = Some p \<and>
    (p_userId p = JStr u \<or>
     action = ''memory.user.read'' \<and> (role_of (p_role p) = Some Owner \<or> role_of (p_role p) = Some Admin) \<and>
     (\<exists>t gs g. now = Some (Fin t) \<and> p_breakGlass p = Some gs \<and> g \<in> set gs \<and> why = ByBreakGlass (bg_id g) \<and>
        JStr (bg_holderUserId g) = p_userId p \<and> bg_targetUserId g = u \<and> bg_revokedAt g = None \<and>
        bg_issuedAt g \<le> Fin t \<and> Fin t < bg_expiresAt g))"
proof -
  from assms obtain p s gs g where a: "po = Some p" "valid_principal p" "policyFor action = Some s"
    "shapeOf (RMemoryUser (JStr u)) = Some (as_resource s)"
    "map_of (as_grants s) (the (role_of (p_role p))) = Some gs" "g \<in> set gs"
    "evaluate g p s (RMemoryUser (JStr u)) u now = Some (RAllow why)"
    by (elim authorize_RAllowE) (auto simp: idOf_def)
  obtain rl where rl: "role_of (p_role p) = Some rl" using a(2) by (auto simp: valid_principal_def)
  have mem: "(rl, gs) \<in> set (as_grants s)" using a(5) rl by (auto dest: map_of_SomeD)
  have sh: "as_resource s = ShMemoryUser" using a(4) by (simp add: shapeOf_def)
  note row = policyFor_row_ok [OF a(3)]
  have "g = GOwn \<or> g = GBreakGlass"
    using row mem a(6) sh by (cases g) (auto simp: policy_row_ok_def list_all_iff)
  then show ?thesis
  proof
    assume "g = GOwn"
    with a(1,7) show ?thesis by (auto simp: evaluate_def split: if_splits)
  next
    assume g: "g = GBreakGlass"
    have "action = ''memory.user.read'' \<and> (rl = Owner \<or> rl = Admin)"
      using row mem a(6) g policyForD [OF a(3)] by (auto simp: policy_row_ok_def list_all_iff)
    moreover obtain live where live: "liveBreakGlass p u now = Some live" "why = ByBreakGlass (bg_id live)"
      using a(7) g by (auto simp: evaluate_def split: option.splits if_splits)
    ultimately show ?thesis using a(1) rl liveBreakGlassD [OF live(1)] by blast
  qed
qed

lemma authorize_drop_scopes:
  assumes "authorize (Some p) action r now = RAllow why"
  shows "authorize (Some (p\<lparr>p_tokenScopes := None\<rparr>)) action r now = RAllow why"
proof -
  let ?q = "p\<lparr>p_tokenScopes := None\<rparr>"
  have hold: "holdsObjectRight ?q s r i = holdsObjectRight p s r i" for s i
    by (cases "as_needs s"; cases r) (simp_all add: holdsObjectRight_def)
  have live: "liveBreakGlass ?q i now = liveBreakGlass p i now" for i
    by (cases now; cases "p_breakGlass p") (simp_all add: liveBreakGlass_def)
  have ev: "evaluate g ?q s r i now = evaluate g p s r i now" for g s i
    by (cases g) (simp_all add: evaluate_def hold live)
  have fg: "first_grant gs ?q s r i now = first_grant gs p s r i now" for gs s i
    by (induction gs) (simp_all add: ev split: option.split)
  have vp: "valid_principal ?q = valid_principal p" by (simp add: valid_principal_def)
  from assms obtain s i where a: "valid_principal p" "policyFor action = Some s"
    "as_humanOnly s \<longrightarrow> p_kind p = JStr ''person''" "shapeOf r = Some (as_resource s)" "idOf r = JStr i"
    "r = RSystem \<or> i \<noteq> []" "\<forall>ts. p_tokenScopes p = Some ts \<longrightarrow> scopeMatches ts action"
    by (elim authorize_RAllowE) simp
  have "authorize (Some ?q) action r now = authorize (Some p) action r now"
    using a by (cases "p_tokenScopes p") (auto simp: authorize_def vp fg)
  with assms show ?thesis by simp
qed

text \<open>
  A token only narrows its owner: whatever a principal with token scopes is allowed, the same
  principal without scopes is allowed for the same reason; and a listing shows only what is allowed.
\<close>

theorem token_narrows:
  assumes "authorize (Some p) action r now = RAllow why"
  shows "authorize (Some (p\<lparr>p_tokenScopes := None\<rparr>)) action r now = RAllow why \<and>
    (\<forall>r\<in>set (canSee (Some p) action rs now). \<exists>why. authorize (Some p) action r now = RAllow why)"
  using authorize_drop_scopes [OF assms] by (auto simp: canSee_def split: rbac_decision.splits)

section \<open>Witnesses\<close>

definition sample_admin :: principal where
  "sample_admin = \<lparr>p_userId = JStr ''anna'', p_kind = JStr ''person'', p_role = JStr ''admin'',
     p_agentRights = None, p_projectRights = None, p_tokenScopes = Some [''memory.*'', ''approval.decide''],
     p_binding_agentId = None,
     p_breakGlass = Some [\<lparr>bg_id = ''b1'', bg_holderUserId = ''anna'', bg_targetUserId = ''bert'', bg_reason = ''incident 4711'',
        bg_issuedAt = Fin 0, bg_expiresAt = Fin 900000, bg_revokedAt = None\<rparr>]\<rparr>"

lemma sample_admin_reads:
  "authorize (Some sample_admin) ''memory.user.read'' (RMemoryUser (JStr ''bert'')) (Some (Fin 1000)) = RAllow (ByBreakGlass ''b1'')"
  by code_simp

lemma sample_admin_decides: "authorize (Some sample_admin) ''approval.decide'' RSystem None = RAllow ByRole"
  by code_simp

theorem authorize_allow_sound_witness:
  "\<exists>p s. Some sample_admin = Some p \<and> valid_principal p \<and> s \<in> set POLICY \<and> as_action s = ''approval.decide'' \<and>
     (as_humanOnly s \<longrightarrow> p_kind p = JStr ''person'')"
  using authorize_allow_sound [OF sample_admin_decides] by blast

theorem user_cards_private_witness:
  "\<exists>p. Some sample_admin = Some p \<and> p_userId p \<noteq> JStr ''bert'' \<and>
     (role_of (p_role p) = Some Owner \<or> role_of (p_role p) = Some Admin)"
proof -
  have "p_userId sample_admin \<noteq> JStr ''bert''" by (simp add: sample_admin_def)
  then show ?thesis using user_cards_private [OF sample_admin_reads] by auto
qed

theorem token_narrows_witness:
  "authorize (Some (sample_admin\<lparr>p_tokenScopes := None\<rparr>)) ''approval.decide'' RSystem None = RAllow ByRole"
  using token_narrows [OF sample_admin_decides] by blast

end
