(* ===== verification/Break_Glass.thy ===== *)
theory Break_Glass
  imports Rbac_Policy
begin

text \<open>
  The break-glass registry: \<^verbatim>\<open>packages/core/src/rbac/break-glass.ts\<close>. The registry is a map of live
  grants in insertion order, an audit trail and the notices it sent. The audit sink and the notifier
  can fail, and time passes between operations: each operation takes an environment with the clock
  reading, the verdict of the sink for every event, the verdict of the notifier and the next id.

  The invariant says that no grant is live without an audit line and bounded life; the step relation
  gives every sequence of operations.
\<close>

section \<open>State\<close>

definition MIN_REASON_CHARS :: nat where "MIN_REASON_CHARS = 10"
definition MAX_REASON_CHARS :: nat where "MAX_REASON_CHARS = 500"
definition DEFAULT_TTL_MS :: rat where "DEFAULT_TTL_MS = 15 * 60000"
definition MIN_TTL_MS :: rat where "MIN_TTL_MS = 60000"
definition MAX_TTL_MS :: rat where "MAX_TTL_MS = 60 * 60000"

datatype bg_action = EvGranted | EvExpired | EvRevoked | EvUsed | EvNotifyFailed

record bg_event =
  ev_action :: bg_action
  ev_actor :: string
  ev_target :: string
  ev_grantId :: string

record bg_notice =
  nt_userId :: string
  nt_grantId :: string
  nt_holderUserId :: string

datatype bg_error = NotPermitted | InvalidTarget | SelfTarget | ReasonRequired | TtlInvalid
  | BgAuditFailed | UnknownGrant | NotificationFailed

record bg_limits =
  reasonMinChars :: nat
  reasonMaxChars :: nat
  maxWindowMinutes :: rat

record bg_env =
  env_now :: jsnum
  env_audit_ok :: "bg_event \<Rightarrow> bool"
  env_notify_ok :: bool
  env_requireNotification :: bool
  env_limits :: "bg_limits option"
  env_newId :: string

record bg_state =
  st_grants :: "(string \<times> break_glass_grant) list"
  st_audit :: "bg_event list"
  st_notices :: "bg_notice list"

definition bg_init :: bg_state where
  "bg_init = \<lparr>st_grants = [], st_audit = [], st_notices = []\<rparr>"

section \<open>Operations\<close>

text \<open>\<open>record\<close>: the sink keeps the event or throws; nothing is kept of a failed append.\<close>

definition bg_record :: "bg_env \<Rightarrow> bg_event \<Rightarrow> bg_state \<Rightarrow> bg_state option" where
  "bg_record env e st = (if env_audit_ok env e then Some (st\<lparr>st_audit := st_audit st @ [e]\<rparr>) else None)"

fun sweep_list :: "bg_env \<Rightarrow> break_glass_grant list \<Rightarrow> bg_state \<Rightarrow> nat \<Rightarrow> nat \<times> bg_state" where
  "sweep_list env [] st n = (n, st)"
| "sweep_list env (g # gs) st n =
    (if env_now env < bg_expiresAt g then sweep_list env gs st n
     else case bg_record env \<lparr>ev_action = EvExpired, ev_actor = ''system'', ev_target = bg_targetUserId g, ev_grantId = bg_id g\<rparr> st of
       None \<Rightarrow> sweep_list env gs st n
     | Some st' \<Rightarrow> sweep_list env gs (st'\<lparr>st_grants := map_delete (bg_id g) (st_grants st')\<rparr>) (n + 1))"

definition sweep :: "bg_env \<Rightarrow> bg_state \<Rightarrow> nat \<times> bg_state" where
  "sweep env st = sweep_list env (map snd (st_grants st)) st 0"

definition live :: "bg_env \<Rightarrow> jsval \<Rightarrow> bg_state \<Rightarrow> break_glass_grant list" where
  "live env holder st = filter (\<lambda>g. JStr (bg_holderUserId g) = holder \<and> env_now env < bg_expiresAt g) (map snd (st_grants st))"

definition active :: "bg_env \<Rightarrow> jsval \<Rightarrow> bg_state \<Rightarrow> break_glass_grant list \<times> bg_state" where
  "active env holder st = (let st' = snd (sweep env st) in (live env holder st', st'))"

record bg_ask =
  req_targetUserId :: jsval
  req_reason :: jsval
  req_ttlMs :: "jsnum option"

definition user_of :: "principal \<Rightarrow> string" where
  "user_of p = (case p_userId p of JStr u \<Rightarrow> u | _ \<Rightarrow> [])"

definition limits_of :: "bg_env \<Rightarrow> bg_limits" where
  "limits_of env = (case env_limits env of Some l \<Rightarrow> l
     | None \<Rightarrow> \<lparr>reasonMinChars = MIN_REASON_CHARS, reasonMaxChars = MAX_REASON_CHARS, maxWindowMinutes = MAX_TTL_MS / 60000\<rparr>)"

text \<open>The checks of \<open>request\<close> up to the sweep: the target, the trimmed reason and the life of the grant, or the refusal.\<close>

definition request_check :: "bg_env \<Rightarrow> principal \<Rightarrow> bg_ask \<Rightarrow> (bg_error, string \<times> string \<times> rat) result" where
  "request_check env holder req =
    (let target = (case req_targetUserId req of JStr s \<Rightarrow> s | _ \<Rightarrow> []);
         l = limits_of env;
         reason = (case req_reason req of JStr s \<Rightarrow> js_trim s | _ \<Rightarrow> []);
         maxTtl = maxWindowMinutes l * 60000;
         ttl = (case req_ttlMs req of Some t \<Rightarrow> t | None \<Rightarrow> Fin (min DEFAULT_TTL_MS maxTtl))
     in if target = [] then Inl InvalidTarget
        else if p_kind holder \<noteq> JUndef \<and> p_kind holder \<noteq> JStr ''person'' then Inl NotPermitted
        else if (case authorize (Some holder) ''breakglass.request'' (RUser (JStr target)) (Some (env_now env)) of
                   RAllow _ \<Rightarrow> False | RDeny _ \<Rightarrow> True) then Inl NotPermitted
        else if target = user_of holder then Inl SelfTarget
        else if length reason < reasonMinChars l \<or> reasonMaxChars l < length reason then Inl ReasonRequired
        else case ttl of
          Fin t \<Rightarrow> (if \<not> is_integer (Fin t) \<or> t < MIN_TTL_MS \<or> maxTtl < t then Inl TtlInvalid else Inr (target, reason, t))
        | _ \<Rightarrow> Inl TtlInvalid)"

text \<open>
  The last step of \<open>request\<close>: the grant \<open>g\<close> is live and audited; a notifier that throws costs the
  grant when a notice is required, and is audited (best effort) in any case.
\<close>

definition bg_notify :: "bg_env \<Rightarrow> break_glass_grant \<Rightarrow> bg_state \<Rightarrow> (bg_error, break_glass_grant) result \<times> bg_state" where
  "bg_notify env g st =
    (let who = bg_holderUserId g; target = bg_targetUserId g in
     if env_notify_ok env then
       (Inr g, st\<lparr>st_notices := st_notices st @ [\<lparr>nt_userId = target, nt_grantId = bg_id g, nt_holderUserId = who\<rparr>]\<rparr>)
     else
       (let st4 = (if env_requireNotification env
                   then st\<lparr>st_grants := map_delete (bg_id g) (st_grants st)\<rparr> else st);
            st5 = (case bg_record env \<lparr>ev_action = EvNotifyFailed, ev_actor = who, ev_target = target, ev_grantId = bg_id g\<rparr> st4 of
                     Some s \<Rightarrow> s | None \<Rightarrow> st4)
        in if env_requireNotification env then (Inl NotificationFailed, st5) else (Inr g, st5)))"

definition bg_request :: "bg_env \<Rightarrow> principal \<Rightarrow> bg_ask \<Rightarrow> bg_state \<Rightarrow> (bg_error, break_glass_grant) result \<times> bg_state" where
  "bg_request env holder req st =
    (case request_check env holder req of
       Inl e \<Rightarrow> (Inl e, st)
     | Inr (target, reason, ttl) \<Rightarrow>
       (let st1 = snd (sweep env st);
            g = \<lparr>bg_id = env_newId env, bg_holderUserId = user_of holder, bg_targetUserId = target, bg_reason = reason,
                 bg_issuedAt = env_now env, bg_expiresAt = env_now env + Fin ttl, bg_revokedAt = None\<rparr>
        in case bg_record env \<lparr>ev_action = EvGranted, ev_actor = bg_holderUserId g, ev_target = target, ev_grantId = bg_id g\<rparr> st1 of
             None \<Rightarrow> (Inl BgAuditFailed, st1)
           | Some st2 \<Rightarrow> bg_notify env g (st2\<lparr>st_grants := map_set (bg_id g) g (st_grants st2)\<rparr>)))"

definition bg_revoke :: "bg_env \<Rightarrow> principal \<Rightarrow> string \<Rightarrow> bg_state \<Rightarrow> bg_error option \<times> bg_state" where
  "bg_revoke env actor grantId st =
    (case map_of (st_grants st) grantId of
       None \<Rightarrow> (Some UnknownGrant, st)
     | Some g \<Rightarrow>
       (if p_kind actor \<noteq> JUndef \<and> p_kind actor \<noteq> JStr ''person'' then (Some NotPermitted, st)
        else if p_userId actor \<noteq> JStr (bg_holderUserId g) \<and> p_role actor \<noteq> JStr ''owner'' then (Some NotPermitted, st)
        else case bg_record env \<lparr>ev_action = EvRevoked, ev_actor = user_of actor, ev_target = bg_targetUserId g, ev_grantId = bg_id g\<rparr> st of
          None \<Rightarrow> (Some BgAuditFailed, st)
        | Some st' \<Rightarrow> (None, st'\<lparr>st_grants := map_delete (bg_id g) (st_grants st')\<rparr>)))"

definition bg_authorize :: "bg_env \<Rightarrow> principal option \<Rightarrow> string \<Rightarrow> resource \<Rightarrow> bg_state \<Rightarrow> rbac_decision \<times> bg_state" where
  "bg_authorize env po action r st =
    (let st1 = snd (sweep env st);
         withGrants = map_option (\<lambda>p. p\<lparr>p_breakGlass := Some (live env (p_userId p) st1)\<rparr>) po;
         d = authorize withGrants action r (Some (env_now env))
     in case d of
          RAllow (ByBreakGlass gid) \<Rightarrow>
            (let target = (case r of RMemoryUser (JStr u) \<Rightarrow> u | _ \<Rightarrow> []) in
             case bg_record env \<lparr>ev_action = EvUsed, ev_actor = (case po of Some p \<Rightarrow> user_of p | None \<Rightarrow> []),
                    ev_target = target, ev_grantId = gid\<rparr> st1 of
               None \<Rightarrow> (RDeny AuditFailed, st1)
             | Some st2 \<Rightarrow> (d, st2))
        | _ \<Rightarrow> (d, st1))"

text \<open>Every sequence of operations, whatever the sink, the notifier and the clock do.\<close>

inductive bg_step :: "bg_state \<Rightarrow> bg_state \<Rightarrow> bool" where
  step_sweep: "bg_step st (snd (sweep env st))"
| step_active: "bg_step st (snd (active env holder st))"
| step_request: "bg_step st (snd (bg_request env holder req st))"
| step_revoke: "bg_step st (snd (bg_revoke env actor gid st))"
| step_authorize: "bg_step st (snd (bg_authorize env po action r st))"

inductive bg_reachable :: "bg_state \<Rightarrow> bool" where
  reach_init: "bg_reachable bg_init"
| reach_step: "bg_reachable st \<Longrightarrow> bg_step st st' \<Longrightarrow> bg_reachable st'"

inductive_cases bg_stepE: "bg_step st st'"

section \<open>The invariant\<close>

text \<open>
  Every live grant is keyed by its id, its grant was audited, it is for another user than its holder,
  and it ends at least one minute after it was issued; keys are unique.
\<close>

definition bg_inv :: "bg_state \<Rightarrow> bool" where
  "bg_inv st \<longleftrightarrow> distinct (map fst (st_grants st)) \<and>
     (\<forall>(k, g)\<in>set (st_grants st). k = bg_id g \<and> bg_holderUserId g \<noteq> bg_targetUserId g \<and> bg_revokedAt g = None \<and>
        \<lparr>ev_action = EvGranted, ev_actor = bg_holderUserId g, ev_target = bg_targetUserId g, ev_grantId = bg_id g\<rparr> \<in> set (st_audit st) \<and>
        (\<exists>ttl. MIN_TTL_MS \<le> ttl \<and> bg_expiresAt g = bg_issuedAt g + Fin ttl))"

lemma bg_record_Some: "bg_record env e st = Some st' \<Longrightarrow> st' = st\<lparr>st_audit := st_audit st @ [e]\<rparr>"
  by (auto simp: bg_record_def split: if_splits)

lemma bg_inv_record: "bg_inv st \<Longrightarrow> bg_record env e st = Some st' \<Longrightarrow> bg_inv st'"
  by (auto simp: bg_inv_def dest!: bg_record_Some)

lemma bg_inv_delete: "bg_inv st \<Longrightarrow> bg_inv (st\<lparr>st_grants := map_delete k (st_grants st)\<rparr>)"
  by (auto simp: bg_inv_def map_delete_distinct map_delete_entries)

lemma bg_inv_notices:
  "bg_inv (st\<lparr>st_notices := ns\<rparr>) = bg_inv st"
  "bg_inv (st\<lparr>st_grants := gs, st_notices := ns\<rparr>) = bg_inv (st\<lparr>st_grants := gs\<rparr>)"
  by (simp_all add: bg_inv_def)

lemma sweep_list_inv: "bg_inv st \<Longrightarrow> bg_inv (snd (sweep_list env gs st n))"
  by (induction env gs st n rule: sweep_list.induct)
    (auto split: option.splits intro: bg_inv_record bg_inv_delete)

lemma sweep_inv: "bg_inv st \<Longrightarrow> bg_inv (snd (sweep env st))"
  by (simp add: sweep_def sweep_list_inv)

lemma sweep_list_grants: "set (st_grants (snd (sweep_list env gs st n))) \<subseteq> set (st_grants st)"
proof (induction env gs st n rule: sweep_list.induct)
  case (2 env g gs st n)
  show ?case
  proof (cases "env_now env < bg_expiresAt g")
    case True
    with 2(1) show ?thesis by simp
  next
    case False
    show ?thesis
    proof (cases "bg_record env \<lparr>ev_action = EvExpired, ev_actor = ''system'', ev_target = bg_targetUserId g, ev_grantId = bg_id g\<rparr> st")
      case None
      with 2(2) False show ?thesis by simp
    next
      case (Some st')
      with 2(3) [OF False Some] False show ?thesis
        using bg_record_Some [OF Some] by (auto simp: map_delete_entries)
    qed
  qed
qed simp

lemma sweep_grants: "set (st_grants (snd (sweep env st))) \<subseteq> set (st_grants st)"
  by (simp add: sweep_def sweep_list_grants)

lemma bg_inv_add:
  assumes inv: "bg_inv st" and g: "bg_holderUserId g \<noteq> bg_targetUserId g" "bg_revokedAt g = None"
    "\<lparr>ev_action = EvGranted, ev_actor = bg_holderUserId g, ev_target = bg_targetUserId g, ev_grantId = bg_id g\<rparr> \<in> set (st_audit st)"
    "\<exists>ttl. MIN_TTL_MS \<le> ttl \<and> bg_expiresAt g = bg_issuedAt g + Fin ttl"
  shows "bg_inv (st\<lparr>st_grants := map_set (bg_id g) g (st_grants st)\<rparr>)"
proof -
  have "x = (bg_id g, g) \<or> x \<in> set (st_grants st)" if "x \<in> set (map_set (bg_id g) g (st_grants st))" for x
    using that map_set_entries [of "bg_id g" g "st_grants st"] by blast
  with inv g show ?thesis by (simp add: bg_inv_def map_set_distinct) fast
qed

lemma request_check_Inr:
  assumes "request_check env holder req = Inr (target, reason, ttl)"
  shows "target \<noteq> user_of holder \<and> target \<noteq> [] \<and> MIN_TTL_MS \<le> ttl \<and> ttl \<le> maxWindowMinutes (limits_of env) * 60000 \<and>
    reasonMinChars (limits_of env) \<le> length reason \<and> length reason \<le> reasonMaxChars (limits_of env) \<and>
    (\<exists>why. authorize (Some holder) ''breakglass.request'' (RUser (JStr target)) (Some (env_now env)) = RAllow why) \<and>
    (p_kind holder = JUndef \<or> p_kind holder = JStr ''person'')"
  using assms
  by (auto simp: request_check_def Let_def split: if_splits jsnum.splits rbac_decision.splits)

lemma bg_notify_inv:
  assumes "bg_inv st"
  shows "bg_inv (snd (bg_notify env g st))"
proof -
  have "bg_inv (case bg_record env e st4 of Some s \<Rightarrow> s | None \<Rightarrow> st4)" if "bg_inv st4" for e st4
    using that by (auto split: option.splits intro: bg_inv_record)
  with assms show ?thesis by (simp add: bg_notify_def Let_def bg_inv_notices bg_inv_delete)
qed

text \<open>What a request that was not refused by a check or by the audit sink did.\<close>

lemma bg_requestE:
  assumes "bg_request env holder req st = (res, st')"
  obtains (refused) e where "res = Inl e" "st' = st \<or> st' = snd (sweep env st)"
  | (granted) target reason ttl g st2 where "request_check env holder req = Inr (target, reason, ttl)"
      "g = \<lparr>bg_id = env_newId env, bg_holderUserId = user_of holder, bg_targetUserId = target, bg_reason = reason,
        bg_issuedAt = env_now env, bg_expiresAt = env_now env + Fin ttl, bg_revokedAt = None\<rparr>"
      "bg_record env \<lparr>ev_action = EvGranted, ev_actor = bg_holderUserId g, ev_target = bg_targetUserId g, ev_grantId = bg_id g\<rparr>
         (snd (sweep env st)) = Some st2"
      "(res, st') = bg_notify env g (st2\<lparr>st_grants := map_set (bg_id g) g (st_grants st2)\<rparr>)"
proof (cases "request_check env holder req")
  case (Inl e)
  with assms show thesis by (intro refused [of e]) (auto simp: bg_request_def)
next
  case (Inr x)
  obtain target reason ttl where x: "x = (target, reason, ttl)" by (cases x) auto
  define g where "g = \<lparr>bg_id = env_newId env, bg_holderUserId = user_of holder, bg_targetUserId = target, bg_reason = reason,
       bg_issuedAt = env_now env, bg_expiresAt = env_now env + Fin ttl, bg_revokedAt = None\<rparr>"
  have eq: "(case bg_record env \<lparr>ev_action = EvGranted, ev_actor = bg_holderUserId g, ev_target = bg_targetUserId g, ev_grantId = bg_id g\<rparr>
         (snd (sweep env st)) of
       None \<Rightarrow> (Inl BgAuditFailed, snd (sweep env st))
     | Some st2 \<Rightarrow> bg_notify env g (st2\<lparr>st_grants := map_set (bg_id g) g (st_grants st2)\<rparr>)) = (res, st')"
    using assms by (simp add: bg_request_def Inr x Let_def g_def cong: option.case_cong)
  show thesis
  proof (cases "bg_record env \<lparr>ev_action = EvGranted, ev_actor = bg_holderUserId g, ev_target = bg_targetUserId g, ev_grantId = bg_id g\<rparr>
         (snd (sweep env st))")
    case None
    with eq show thesis by (intro refused [of BgAuditFailed]) auto
  next
    case (Some st2)
    show thesis by (rule granted [OF Inr [unfolded x] g_def Some]) (use eq Some in simp)
  qed
qed

lemma bg_request_inv:
  assumes "bg_inv st"
  shows "bg_inv (snd (bg_request env holder req st))"
proof -
  obtain res st' where eq: "bg_request env holder req st = (res, st')" by fastforce
  then show ?thesis
  proof (cases rule: bg_requestE)
    case refused
    with assms eq show ?thesis by (auto intro: sweep_inv)
  next
    case (granted target reason ttl g st2)
    have inv2: "bg_inv st2" by (rule bg_inv_record [OF sweep_inv [OF assms] granted(3)])
    have "bg_inv (st2\<lparr>st_grants := map_set (bg_id g) g (st_grants st2)\<rparr>)"
      using request_check_Inr [OF granted(1)] bg_record_Some [OF granted(3)]
      by (intro bg_inv_add [OF inv2]) (auto simp: granted(2))
    from bg_notify_inv [OF this, of env g] show ?thesis by (simp add: eq flip: granted(4))
  qed
qed

lemma bg_revoke_inv: "bg_inv st \<Longrightarrow> bg_inv (snd (bg_revoke env actor gid st))"
  by (auto simp: bg_revoke_def split: option.splits intro: bg_inv_delete bg_inv_record)

lemma bg_authorize_state:
  "snd (bg_authorize env po action r st) = snd (sweep env st) \<or>
   (\<exists>e. bg_record env e (snd (sweep env st)) = Some (snd (bg_authorize env po action r st)))"
  by (auto simp: bg_authorize_def Let_def split: rbac_decision.splits allow_reason.splits option.splits)

lemma bg_authorize_inv: "bg_inv st \<Longrightarrow> bg_inv (snd (bg_authorize env po action r st))"
  using bg_authorize_state [of env po action r st] sweep_inv [of st env] bg_inv_record by (elim disjE exE) simp_all

lemma bg_step_inv: "bg_step st st' \<Longrightarrow> bg_inv st \<Longrightarrow> bg_inv st'"
  by (induction rule: bg_step.induct)
    (simp_all add: active_def Let_def sweep_inv bg_request_inv bg_revoke_inv bg_authorize_inv)

section \<open>Properties\<close>

text \<open>The live grants of an operation come from the registry and are unexpired.\<close>

lemma liveD: "g \<in> set (live env holder st) \<Longrightarrow>
    (\<exists>k. (k, g) \<in> set (st_grants st)) \<and> JStr (bg_holderUserId g) = holder \<and> env_now env < bg_expiresAt g"
  by (auto simp: live_def)

lemma evaluate_ByBreakGlassD:
  assumes "evaluate x p s r i now = Some (RAllow (ByBreakGlass gid))"
  shows "x = GBreakGlass \<and> (\<exists>g. liveBreakGlass p i now = Some g \<and> gid = bg_id g)"
  using assms by (cases x) (auto simp: evaluate_def split: if_splits option.splits)

lemma authorize_ByBreakGlassD:
  assumes "authorize po action r now = RAllow (ByBreakGlass gid)"
  shows "\<exists>p u gs g t. po = Some p \<and> r = RMemoryUser (JStr u) \<and> action = ''memory.user.read'' \<and> now = Some (Fin t) \<and>
    p_breakGlass p = Some gs \<and> g \<in> set gs \<and> gid = bg_id g \<and> JStr (bg_holderUserId g) = p_userId p \<and> bg_targetUserId g = u \<and>
    bg_issuedAt g \<le> Fin t \<and> Fin t < bg_expiresAt g"
proof -
  from assms obtain p s i gs x where a: "po = Some p" "policyFor action = Some s" "shapeOf r = Some (as_resource s)"
    "idOf r = JStr i" "map_of (as_grants s) (the (role_of (p_role p))) = Some gs" "x \<in> set gs"
    "evaluate x p s r i now = Some (RAllow (ByBreakGlass gid))"
    by (elim authorize_RAllowE)
  obtain g where x: "x = GBreakGlass" and g: "liveBreakGlass p i now = Some g" "gid = bg_id g"
    using evaluate_ByBreakGlassD [OF a(7)] by blast
  have act: "action = ''memory.user.read'' \<and> as_resource s = ShMemoryUser"
    using policyFor_row_ok [OF a(2)] policyForD [OF a(2)] map_of_SomeD [OF a(5)] a(6) x
    by (auto simp: policy_row_ok_def list_all_iff)
  then have "r = RMemoryUser (JStr i)" using a(3,4) by (cases r) (auto simp: shapeOf_def idOf_def split: memory_agent_scope.splits)
  with a(1) act g liveBreakGlassD [OF g(1)] show ?thesis by blast
qed

lemma bg_authorize_ByBreakGlassE:
  assumes "bg_authorize env po action r st = (RAllow (ByBreakGlass gid), st')"
  obtains p u g k where "po = Some p" "r = RMemoryUser (JStr u)" "action = ''memory.user.read''"
    "(k, g) \<in> set (st_grants (snd (sweep env st)))" "gid = bg_id g" "JStr (bg_holderUserId g) = p_userId p"
    "bg_targetUserId g = u" "env_now env < bg_expiresAt g" "bg_issuedAt g \<le> env_now env"
    "st' = (snd (sweep env st))\<lparr>st_audit := st_audit (snd (sweep env st)) @
       [\<lparr>ev_action = EvUsed, ev_actor = user_of p, ev_target = u, ev_grantId = gid\<rparr>]\<rparr>"
proof -
  define st1 where "st1 = snd (sweep env st)"
  define w where "w = map_option (\<lambda>p. p\<lparr>p_breakGlass := Some (live env (p_userId p) st1)\<rparr>) po"
  have d: "authorize w action r (Some (env_now env)) = RAllow (ByBreakGlass gid)"
    using assms by (auto simp: bg_authorize_def Let_def w_def st1_def split: rbac_decision.splits allow_reason.splits option.splits)
  from authorize_ByBreakGlassD [OF d] obtain q u g t where q: "w = Some q" "r = RMemoryUser (JStr u)"
    "action = ''memory.user.read''" "env_now env = Fin t" "g \<in> set (the (p_breakGlass q))" "gid = bg_id g"
    "JStr (bg_holderUserId g) = p_userId q" "bg_targetUserId g = u" "bg_issuedAt g \<le> Fin t"
    by force
  obtain p where p: "po = Some p" and qp: "q = p\<lparr>p_breakGlass := Some (live env (p_userId p) st1)\<rparr>"
    using q(1) by (auto simp: w_def)
  have lv: "g \<in> set (live env (p_userId p) st1)" using q(5) by (simp add: qp)
  have "st' = st1\<lparr>st_audit := st_audit st1 @ [\<lparr>ev_action = EvUsed, ev_actor = user_of p, ev_target = u, ev_grantId = gid\<rparr>]\<rparr>"
    using assms d by (auto simp: bg_authorize_def Let_def q(2) p bg_record_def w_def st1_def split: if_splits)
  with that p q(2,3,4,6,7,8,9) liveD [OF lv] show thesis by (auto simp: qp st1_def)
qed

text \<open>
  (C5) In every reachable state of the break-glass registry, under any sequence of requests, revocations,
  sweeps, uses and failures of the audit sink and of the notifier, each live grant has its own id as key,
  was recorded in the audit trail when it was made, names another user than its holder, is not revoked and
  ends at least one minute after it was issued.
\<close>

theorem break_glass_registry_inv:
  assumes "bg_reachable st"
  shows "distinct (map fst (st_grants st)) \<and>
    (\<forall>(k, g)\<in>set (st_grants st). k = bg_id g \<and> bg_holderUserId g \<noteq> bg_targetUserId g \<and> bg_revokedAt g = None \<and>
        \<lparr>ev_action = EvGranted, ev_actor = bg_holderUserId g, ev_target = bg_targetUserId g, ev_grantId = bg_id g\<rparr> \<in> set (st_audit st) \<and>
        (\<exists>ttl. MIN_TTL_MS \<le> ttl \<and> bg_expiresAt g = bg_issuedAt g + Fin ttl))"
proof -
  have "bg_inv st" using assms
  proof (induction rule: bg_reachable.induct)
    case reach_init
    show ?case by (simp add: bg_inv_def bg_init_def)
  next
    case (reach_step st st')
    then show ?case by (simp add: bg_step_inv)
  qed
  then show ?thesis unfolding bg_inv_def .
qed

text \<open>
  Every use of break-glass is real and audited: when the registry allows an access through
  break-glass, the access is a read of a user's cards, a grant of the registry (not of the principal) names
  the caller and that user and its window contains the current time, and the last line of the audit trail
  is the use by the caller. If the sink refuses that line, the answer is a denial instead.
\<close>

theorem break_glass_use_audited:
  assumes "bg_authorize env po action r st = (RAllow (ByBreakGlass gid), st')"
  shows "\<exists>p u g k. po = Some p \<and> r = RMemoryUser (JStr u) \<and> action = ''memory.user.read'' \<and>
    (k, g) \<in> set (st_grants st) \<and> bg_id g = gid \<and> JStr (bg_holderUserId g) = p_userId p \<and> bg_targetUserId g = u \<and>
    bg_issuedAt g \<le> env_now env \<and> env_now env < bg_expiresAt g \<and>
    last (st_audit st') = \<lparr>ev_action = EvUsed, ev_actor = user_of p, ev_target = u, ev_grantId = gid\<rparr> \<and>
    env_audit_ok env (last (st_audit st'))"
proof -
  from assms obtain p u g k where a: "po = Some p" "r = RMemoryUser (JStr u)" "action = ''memory.user.read''"
    "(k, g) \<in> set (st_grants (snd (sweep env st)))" "gid = bg_id g" "JStr (bg_holderUserId g) = p_userId p"
    "bg_targetUserId g = u" "env_now env < bg_expiresAt g" "bg_issuedAt g \<le> env_now env"
    "st' = (snd (sweep env st))\<lparr>st_audit := st_audit (snd (sweep env st)) @
       [\<lparr>ev_action = EvUsed, ev_actor = user_of p, ev_target = u, ev_grantId = gid\<rparr>]\<rparr>"
    by (elim bg_authorize_ByBreakGlassE)
  have ok: "env_audit_ok env \<lparr>ev_action = EvUsed, ev_actor = user_of p, ev_target = u, ev_grantId = gid\<rparr>"
    using assms a(10) by (auto simp: bg_authorize_def Let_def a(1,2) bg_record_def
        split: rbac_decision.splits allow_reason.splits option.splits if_splits)
  have "(k, g) \<in> set (st_grants st)" using a(4) sweep_grants by blast
  with a ok show ?thesis by (intro exI [of _ p] exI [of _ u] exI [of _ g] exI [of _ k]) simp
qed

text \<open>
  A request that returns a grant was made by a principal the policy allows to ask and who is not an
  agent, for another, named user, with a trimmed reason inside the length limits and a window between one
  minute and the configured maximum; the grant is audited and live in the registry, and when a notice is
  required the affected user was told.
\<close>

theorem break_glass_request_granted:
  assumes "bg_request env holder req st = (Inr g, st')"
  shows "(\<exists>why. authorize (Some holder) ''breakglass.request'' (RUser (JStr (bg_targetUserId g))) (Some (env_now env)) = RAllow why) \<and>
    (p_kind holder = JUndef \<or> p_kind holder = JStr ''person'') \<and>
    bg_holderUserId g = user_of holder \<and> bg_targetUserId g \<noteq> user_of holder \<and> bg_targetUserId g \<noteq> [] \<and>
    reasonMinChars (limits_of env) \<le> length (bg_reason g) \<and> length (bg_reason g) \<le> reasonMaxChars (limits_of env) \<and>
    (\<exists>ttl. bg_expiresAt g = env_now env + Fin ttl \<and> MIN_TTL_MS \<le> ttl \<and> ttl \<le> maxWindowMinutes (limits_of env) * 60000) \<and>
    map_of (st_grants st') (bg_id g) = Some g \<and>
    \<lparr>ev_action = EvGranted, ev_actor = user_of holder, ev_target = bg_targetUserId g, ev_grantId = bg_id g\<rparr> \<in> set (st_audit st') \<and>
    (env_requireNotification env \<longrightarrow>
      \<lparr>nt_userId = bg_targetUserId g, nt_grantId = bg_id g, nt_holderUserId = user_of holder\<rparr> \<in> set (st_notices st'))"
  using assms
proof (cases rule: bg_requestE)
  case (granted target reason ttl h st2)
  note chk = request_check_Inr [OF granted(1)]
  have gh: "g = h" using granted(4) by (auto simp: bg_notify_def Let_def split: if_splits)
  have gr: "map_of (st_grants st') (bg_id g) = Some g"
    using granted(4) by (auto simp: bg_notify_def Let_def map_set_lookup split: if_splits option.splits dest!: bg_record_Some)
  have au: "\<lparr>ev_action = EvGranted, ev_actor = user_of holder, ev_target = bg_targetUserId g, ev_grantId = bg_id g\<rparr> \<in> set (st_audit st')"
    using granted(4) bg_record_Some [OF granted(3)] granted(2) gh
    by (auto simp: bg_notify_def Let_def split: if_splits option.splits dest!: bg_record_Some)
  have no: "env_requireNotification env \<longrightarrow>
      \<lparr>nt_userId = bg_targetUserId g, nt_grantId = bg_id g, nt_holderUserId = user_of holder\<rparr> \<in> set (st_notices st')"
    using granted(4) granted(2) gh by (auto simp: bg_notify_def Let_def split: if_splits)
  from chk gr au no show ?thesis by (simp add: gh granted(2)) auto
qed simp

section \<open>Witnesses\<close>

definition sample_holder :: principal where
  "sample_holder = sample_admin\<lparr>p_tokenScopes := None, p_breakGlass := None\<rparr>"

definition sample_env :: bg_env where
  "sample_env = \<lparr>env_now = Fin 1000, env_audit_ok = (\<lambda>e. ev_action e \<noteq> EvNotifyFailed), env_notify_ok = True,
     env_requireNotification = True, env_limits = None, env_newId = ''g1''\<rparr>"

definition sample_request :: bg_ask where
  "sample_request = \<lparr>req_targetUserId = JStr ''bert'', req_reason = JStr '' incident 4711 '', req_ttlMs = None\<rparr>"

definition sample_grant :: break_glass_grant where
  "sample_grant = \<lparr>bg_id = ''g1'', bg_holderUserId = ''anna'', bg_targetUserId = ''bert'', bg_reason = ''incident 4711'',
     bg_issuedAt = Fin 1000, bg_expiresAt = Fin 901000, bg_revokedAt = None\<rparr>"

definition sample_state :: bg_state where
  "sample_state = \<lparr>st_grants = [(''g1'', sample_grant)],
     st_audit = [\<lparr>ev_action = EvGranted, ev_actor = ''anna'', ev_target = ''bert'', ev_grantId = ''g1''\<rparr>],
     st_notices = [\<lparr>nt_userId = ''bert'', nt_grantId = ''g1'', nt_holderUserId = ''anna''\<rparr>]\<rparr>"

lemma sample_request_granted: "bg_request sample_env sample_holder sample_request bg_init = (Inr sample_grant, sample_state)"
  by code_simp

lemma sample_use:
  "bg_authorize (sample_env\<lparr>env_now := Fin 2000\<rparr>) (Some sample_holder) ''memory.user.read'' (RMemoryUser (JStr ''bert'')) sample_state =
    (RAllow (ByBreakGlass ''g1''), sample_state\<lparr>st_audit := st_audit sample_state @
       [\<lparr>ev_action = EvUsed, ev_actor = ''anna'', ev_target = ''bert'', ev_grantId = ''g1''\<rparr>]\<rparr>)"
  by code_simp

theorem break_glass_registry_inv_witness:
  "st_grants sample_state = [(''g1'', sample_grant)] \<and>
   (\<exists>ttl. MIN_TTL_MS \<le> ttl \<and> bg_expiresAt sample_grant = bg_issuedAt sample_grant + Fin ttl)"
proof -
  have "bg_reachable (snd (bg_request sample_env sample_holder sample_request bg_init))"
    by (rule reach_step [OF reach_init step_request])
  then have "bg_reachable sample_state" by (simp add: sample_request_granted)
  from break_glass_registry_inv [OF this] have "(\<lambda>(k, g). \<exists>ttl. MIN_TTL_MS \<le> ttl \<and> bg_expiresAt g = bg_issuedAt g + Fin ttl) (''g1'', sample_grant)"
    unfolding sample_state_def by (auto simp only: bg_state.simps list.set insert_iff split)
  then show ?thesis by (simp only: split bg_state.simps sample_state_def simp_thms)
qed

theorem break_glass_use_audited_witness:
  "bg_id sample_grant = ''g1'' \<and> env_audit_ok (sample_env\<lparr>env_now := Fin 2000\<rparr>)
     \<lparr>ev_action = EvUsed, ev_actor = ''anna'', ev_target = ''bert'', ev_grantId = ''g1''\<rparr>"
  using break_glass_use_audited [OF sample_use] by (auto simp: sample_state_def)

theorem break_glass_request_granted_witness:
  "map_of (st_grants sample_state) ''g1'' = Some sample_grant \<and> length (bg_reason sample_grant) \<le> MAX_REASON_CHARS"
  using break_glass_request_granted [OF sample_request_granted]
  by (simp add: sample_grant_def limits_of_def sample_env_def MAX_REASON_CHARS_def)

end
