(* ===== verification/Rbac_Guard.thy ===== *)
theory Rbac_Guard
  imports Rbac_Policy
begin

text \<open>
  The guard around the RPC methods: \<^verbatim>\<open>packages/core/src/rbac/guard.ts\<close>. The table gives every guarded
  method its action and the resource it is about; the guard resolves the caller, authorizes the action,
  falls back on the token scopes of external callers, and runs the handler or refuses and records.

  An object literal is the list of its entries in source order, of which the last one for a name counts,
  so the lookup reads the reversed list.
\<close>

section \<open>Rules\<close>

definition LOCAL_OWNER :: principal where
  "LOCAL_OWNER = \<lparr>p_userId = JStr ''local-owner'', p_kind = JStr ''person'', p_role = JStr ''owner'', p_agentRights = None,
     p_projectRights = None, p_tokenScopes = None, p_binding_agentId = None, p_breakGlass = None\<rparr>"

text \<open>The three ways in which a rule builds its resource from the params.\<close>

datatype resource_kind = RkSystem | RkAgent | RkMemoryWorkspace

record rpc_rule =
  rr_action :: string
  rr_humanOnly :: bool
  rr_apiServiceOnly :: bool
  rr_resource :: resource_kind

definition field :: "jsval \<Rightarrow> string \<Rightarrow> string" where
  "field params key = (case jget params key of JStr s \<Rightarrow> s | _ \<Rightarrow> [])"

definition rule_resource :: "resource_kind \<Rightarrow> jsval \<Rightarrow> resource" where
  "rule_resource k params = (case k of
     RkSystem \<Rightarrow> RSystem
   | RkAgent \<Rightarrow> RAgent (JStr (field params ''agentId''))
   | RkMemoryWorkspace \<Rightarrow> RMemoryAgent Workspace (JStr (field params ''agentId'')))"

definition rule :: "string \<Rightarrow> resource_kind \<Rightarrow> rpc_rule" where
  "rule a k = \<lparr>rr_action = a, rr_humanOnly = False, rr_apiServiceOnly = False, rr_resource = k\<rparr>"

definition human_rule :: "rpc_rule \<Rightarrow> rpc_rule" where
  "human_rule r = r\<lparr>rr_humanOnly := True\<rparr>"

definition api_service_rule :: "rpc_rule \<Rightarrow> rpc_rule" where
  "api_service_rule r = r\<lparr>rr_apiServiceOnly := True\<rparr>"

definition RULES_ADMIN :: "(string \<times> rpc_rule) list" where
  "RULES_ADMIN =
   map (\<lambda>m. (m, human_rule (rule ''a2a.peers.manage'' RkSystem))) [''a2a.peer.add'', ''a2a.peer.list'', ''a2a.peer.remove'', ''a2a.peer.trust''] @
   map (\<lambda>m. (m, human_rule (rule ''imports.manage'' RkSystem))) [''admin.import.detect'', ''admin.import.wsl.list'', ''admin.import.plan'', ''admin.import.preflight'', ''admin.import.skills'', ''admin.import.apply'', ''admin.import.status'', ''admin.import.abort'', ''admin.import.runs'', ''admin.import.rollback''] @
   map (\<lambda>m. (m, human_rule (rule ''imports.read'' RkSystem))) [''admin.import.ssh.key.status'', ''admin.import.ssh.connections.list''] @
   map (\<lambda>m. (m, human_rule (rule ''imports.manage'' RkSystem))) [''admin.import.ssh.key.generate'', ''admin.import.ssh.key.rotate'', ''admin.import.ssh.key.delete'', ''admin.import.ssh.connections.set'', ''admin.import.ssh.connections.delete'', ''admin.import.ssh.hostKey.probe'', ''admin.import.ssh.hostKey.trust''] @
   map (\<lambda>m. (m, human_rule (rule ''extensions.read'' RkSystem))) [''ext.list'', ''ext.show'', ''ext.watch'', ''ext.inspection.get'', ''admin.extensions.setup.get'', ''admin.extensions.runtime.status'', ''admin.extensions.auth.status''] @
   map (\<lambda>m. (m, human_rule (rule ''extensions.manage'' RkSystem))) [''ext.inspect'', ''ext.install'', ''ext.uninstall'', ''ext.restore'', ''ext.enable'', ''ext.disable'', ''admin.extensions.setup.set'', ''admin.extensions.auth.start'', ''admin.extensions.auth.submit'', ''admin.extensions.auth.cancel'', ''admin.extensions.runtime.hold'', ''admin.extensions.runtime.release''] @
   [(''secret.describe'', human_rule (rule ''settings.write'' RkSystem)),
    (''secret.grants.list'', human_rule (rule ''settings.read'' RkSystem)),
    (''delivery.target.list'', human_rule (rule ''agent.list'' RkSystem)),
    (''delivery.target.add'', human_rule (rule ''agent.list'' RkSystem)),
    (''delivery.target.confirm'', human_rule (rule ''agent.list'' RkSystem)),
    (''delivery.target.remove'', human_rule (rule ''agent.list'' RkSystem)),
    (''delivery.target.subscribe'', human_rule (rule ''agent.list'' RkSystem)),
    (''channel.history.list'', human_rule (rule ''chat:read'' RkSystem)),
    (''channel.history.get'', human_rule (rule ''chat:read'' RkSystem)),
    (''channel.handoff.create'', human_rule (rule ''chat:write'' RkSystem)),
    (''channel.handoff.redeem'', human_rule (rule ''chat:write'' RkSystem)),
    (''chat.promote.links'', human_rule (rule ''chat:read'' RkSystem)),
    (''chat.promote.preview'', human_rule (rule ''chat:write'' RkSystem)),
    (''chat.promote.commit'', human_rule (rule ''chat:write'' RkSystem)),
    (''events.subscribe'', rule ''agent.list'' RkSystem),
    (''voice.session.create'', human_rule (rule ''agent.use'' RkAgent)),
    (''decision.status'', human_rule (rule ''settings.read'' RkSystem)),
    (''decision.test'', human_rule (rule ''settings.write'' RkSystem)),
    (''admin.engine.test'', human_rule (rule ''settings.write'' RkSystem)),
    (''models.test'', human_rule (rule ''settings.write'' RkSystem)),
    (''budget.set'', human_rule (rule ''settings.write'' RkSystem)),
    (''chat.create'', rule ''chat:write'' RkSystem),
    (''chat.list'', rule ''chat:read'' RkSystem),
    (''chat.get'', rule ''chat:read'' RkSystem),
    (''chat.events'', rule ''chat:read'' RkSystem),
    (''chat.submit'', rule ''chat:write'' RkSystem),
    (''chat.update'', rule ''chat:write'' RkSystem),
    (''chat.archive'', rule ''chat:write'' RkSystem),
    (''chat.restore'', rule ''chat:write'' RkSystem),
    (''chat.cancel'', rule ''chat:write'' RkSystem),
    (''chat.rewind'', human_rule (rule ''chat:write'' RkSystem)),
    (''chat.fork'', rule ''chat:write'' RkSystem),
    (''chat.delete'', rule ''chat:delete'' RkSystem),
    (''chat.export'', rule ''chat:read'' RkSystem),
    (''chat.model.get'', rule ''chat:read'' RkSystem),
    (''chat.model.set'', human_rule (rule ''chat:write'' RkSystem)),
    (''jobs.create'', human_rule (rule ''agent.manage'' RkAgent)),
    (''jobs.update'', human_rule (rule ''agent.list'' RkSystem)),
    (''jobs.delete'', human_rule (rule ''agent.list'' RkSystem)),
    (''doctor.report'', human_rule (rule ''agent.list'' RkSystem)),
    (''telemetry.cache.summary'', human_rule (rule ''doctor.read'' RkSystem)),
    (''agent.activity.list'', human_rule (rule ''agent.list'' RkSystem)),
    (''inbox.list'', rule ''inbox.read'' RkSystem),
    (''inbox.count'', rule ''inbox.read'' RkSystem),
    (''inbox.markRead'', rule ''inbox.write'' RkSystem),
    (''inbox.dismiss'', rule ''inbox.write'' RkSystem),
    (''project.column.list'', rule ''project.board.read'' RkSystem),
    (''project.card.list'', rule ''project.board.read'' RkSystem),
    (''project.card.get'', rule ''project.board.read'' RkSystem),
    (''project.card.comment.list'', rule ''project.board.read'' RkSystem),
    (''project.card.activity.list'', rule ''project.board.read'' RkSystem),
    (''project.column.create'', rule ''project.board.manage'' RkSystem),
    (''project.column.update'', rule ''project.board.manage'' RkSystem),
    (''project.column.move'', rule ''project.board.manage'' RkSystem),
    (''project.column.delete'', rule ''project.board.manage'' RkSystem),
    (''project.card.create'', rule ''project.board.write'' RkSystem),
    (''project.card.update'', rule ''project.board.write'' RkSystem),
    (''project.card.assign'', rule ''project.board.write'' RkSystem),
    (''project.card.unassign'', rule ''project.board.write'' RkSystem),
    (''project.card.archive'', rule ''project.board.write'' RkSystem),
    (''project.card.unarchive'', rule ''project.board.write'' RkSystem),
    (''project.card.move'', rule ''project.board.move'' RkSystem),
    (''project.card.comment.add'', rule ''project.board.comment'' RkSystem),
    (''media.preferences.get'', rule ''media.read'' RkSystem),
    (''media.preferences.set'', rule ''media.write'' RkSystem),
    (''media.generate'', rule ''media.write'' RkSystem),
    (''media.edit'', rule ''media.write'' RkSystem),
    (''media.job.get'', rule ''media.read'' RkSystem),
    (''media.job.cancel'', rule ''media.write'' RkSystem),
    (''media.job.list'', rule ''media.read'' RkSystem),
    (''media.output.get'', rule ''media.read'' RkSystem),
    (''media.output.list'', rule ''media.read'' RkSystem),
    (''media.output.delete'', rule ''media.write'' RkSystem),
    (''media.adapters.list'', rule ''media.read'' RkSystem),
    (''media.search'', rule ''media.index.read'' RkSystem),
    (''media.index.status'', rule ''media.index.read'' RkSystem),
    (''media.index.pause'', rule ''media.index.operate'' RkSystem),
    (''media.index.resume'', rule ''media.index.operate'' RkSystem),
    (''media.index.reindex'', rule ''media.index.operate'' RkSystem),
    (''media.caption.set'', rule ''media.caption.write'' RkSystem)]"

definition RULES_PROJECT :: "(string \<times> rpc_rule) list" where
  "RULES_PROJECT =
   [(''project.create'', rule ''project.create'' RkSystem),
    (''project.get'', rule ''project.surface.read'' RkSystem),
    (''project.list'', rule ''project.surface.read'' RkSystem),
    (''project.update'', rule ''project.surface.write'' RkSystem),
    (''project.archive'', rule ''project.surface.write'' RkSystem),
    (''project.member.add'', rule ''project.surface.write'' RkSystem),
    (''project.member.remove'', rule ''project.surface.write'' RkSystem),
    (''project.member.role'', rule ''project.surface.write'' RkSystem),
    (''project.agent.add'', rule ''project.surface.write'' RkSystem),
    (''project.agent.remove'', rule ''project.surface.write'' RkSystem),
    (''project.repo.bind'', human_rule (rule ''project.surface.write'' RkSystem)),
    (''project.repo.unbind'', human_rule (rule ''project.surface.write'' RkSystem)),
    (''task.complete'', human_rule (rule ''project.surface.write'' RkSystem)),
    (''collab.session.replay'', rule ''project.surface.read'' RkSystem),
    (''collab.trace.get'', rule ''project.surface.read'' RkSystem),
    (''collab.trace.list'', rule ''project.surface.read'' RkSystem),
    (''collab.chain.cancel'', rule ''project.surface.write'' RkSystem),
    (''identity.link.request'', rule ''identity.self.write'' RkSystem),
    (''identity.link.list'', rule ''identity.self.read'' RkSystem),
    (''identity.link.approve'', rule ''identity.self.write'' RkSystem),
    (''identity.link.decline'', rule ''identity.self.write'' RkSystem),
    (''identity.link.remove'', rule ''identity.self.write'' RkSystem),
    (''identity.principals'', rule ''identity.self.read'' RkSystem),
    (''auth.login.start'', rule ''auth.credentials.write'' RkSystem),
    (''auth.login.await'', rule ''auth.credentials.write'' RkSystem),
    (''auth.login.cancel'', rule ''auth.credentials.write'' RkSystem),
    (''auth.logout'', rule ''auth.credentials.write'' RkSystem),
    (''auth.credentials.list'', rule ''auth.credentials.read'' RkSystem),
    (''auth.status'', rule ''auth.credentials.read'' RkSystem),
    (''channel.list'', rule ''channel.read'' RkSystem),
    (''channel.get'', rule ''channel.read'' RkSystem),
    (''channel.status'', rule ''channel.read'' RkSystem),
    (''channel.test'', rule ''channel.read'' RkSystem),
    (''channel.enable'', rule ''channel.write'' RkSystem),
    (''channel.disable'', rule ''channel.write'' RkSystem),
    (''channel.set'', rule ''channel.write'' RkSystem),
    (''channel.crypto'', rule ''channel.write'' RkSystem),
    (''agent.pause'', rule ''admin.agent.operate'' RkAgent),
    (''agent.resume'', rule ''admin.agent.operate'' RkAgent),
    (''agent.archive'', rule ''admin.agent.manage'' RkAgent),
    (''agent.unarchive'', rule ''admin.agent.manage'' RkAgent),
    (''agent.export'', rule ''admin.agent.manage'' RkAgent),
    (''agent.delete'', rule ''admin.agent.delete'' RkAgent),
    (''user.list'', rule ''admin.users.read'' RkSystem),
    (''user.role.set'', rule ''admin.users.write'' RkSystem),
    (''admin.api.person.resolve'', api_service_rule (rule ''admin.users.read'' RkSystem)),
    (''admin.api.invite.validate'', api_service_rule (rule ''admin.users.read'' RkSystem)),
    (''user.disable'', human_rule (rule ''admin.users.write'' RkSystem)),
    (''user.enable'', human_rule (rule ''admin.users.write'' RkSystem)),
    (''user.invite.create'', rule ''admin.users.write'' RkSystem),
    (''user.invite.list'', rule ''admin.users.read'' RkSystem),
    (''user.invite.revoke'', rule ''admin.users.write'' RkSystem),
    (''agent.rights.get'', rule ''admin.agent.rights'' RkAgent),
    (''agent.rights.set'', rule ''admin.agent.rights'' RkAgent),
    (''breakglass.request'', rule ''admin.breakglass.write'' RkSystem),
    (''breakglass.list'', rule ''admin.breakglass.read'' RkSystem),
    (''breakglass.revoke'', rule ''admin.breakglass.write'' RkSystem),
    (''breakglass.notices'', rule ''admin.notices.read'' RkSystem)]"

definition RULES_CORE :: "(string \<times> rpc_rule) list" where
  "RULES_CORE =
   [(''code.session.open'', human_rule (rule ''admin.sessions.write'' RkSystem)),
    (''code.session.mode'', human_rule (rule ''admin.sessions.write'' RkSystem)),
    (''code.session.check'', human_rule (rule ''admin.sessions.write'' RkSystem)),
    (''code.session.diff'', human_rule (rule ''admin.sessions.transcript'' RkSystem)),
    (''session.model.get'', rule ''admin.sessions.transcript'' RkSystem),
    (''session.get'', rule ''admin.sessions.transcript'' RkSystem),
    (''session.resume'', rule ''admin.sessions.transcript'' RkSystem),
    (''session.events'', rule ''admin.sessions.transcript'' RkSystem),
    (''memory.curation.list'', human_rule (rule ''agent.manage'' RkAgent)),
    (''memory.curation.resolve'', human_rule (rule ''agent.manage'' RkAgent)),
    (''memory.list'', rule ''admin.memory.read'' RkSystem),
    (''memory.show'', rule ''admin.memory.read'' RkSystem),
    (''memory.importText.preview'', human_rule (rule ''imports.manage'' RkSystem)),
    (''memory.importText.apply'', human_rule (rule ''imports.manage'' RkSystem)),
    (''memory.importText.rollback'', human_rule (rule ''imports.manage'' RkSystem)),
    (''memory.exportText'', human_rule (rule ''admin.memory.read'' RkSystem)),
    (''session.create'', rule ''admin.sessions.write'' RkSystem),
    (''session.submit'', rule ''admin.sessions.write'' RkSystem),
    (''session.model.set'', human_rule (rule ''admin.sessions.write'' RkSystem)),
    (''session.cancel'', rule ''admin.sessions.write'' RkSystem),
    (''session.rewind'', human_rule (rule ''admin.sessions.write'' RkSystem)),
    (''session.archive'', rule ''admin.sessions.write'' RkSystem),
    (''session.list'', rule ''admin.sessions.read'' RkSystem),
    (''admin.api.device.pair'', api_service_rule (rule ''admin.pairing.read'' RkSystem)),
    (''admin.api.device.challenge'', api_service_rule (rule ''admin.pairing.read'' RkSystem)),
    (''admin.api.device.prove'', api_service_rule (rule ''admin.pairing.read'' RkSystem)),
    (''admin.api.device.announce'', api_service_rule (rule ''admin.pairing.read'' RkSystem)),
    (''device.pair'', rule ''remote.device.write'' RkSystem),
    (''admin.api.desktop.redeem'', api_service_rule (rule ''admin.pairing.read'' RkSystem)),
    (''admin.api.desktop.token'', api_service_rule (rule ''admin.pairing.read'' RkSystem)),
    (''admin.api.desktop.resolve'', api_service_rule (rule ''admin.pairing.read'' RkSystem)),
    (''device.list'', rule ''device.list'' RkSystem),
    (''device.revoke'', rule ''device.revoke'' RkSystem),
    (''device.rename'', rule ''device.rename'' RkSystem),
    (''pairing.qr'', rule ''admin.pairing.read'' RkSystem),
    (''memory.forget'', rule ''memory.forget'' RkAgent),
    (''agent.status'', rule ''agent.read'' RkAgent),
    (''jobs.run'', rule ''jobs.run'' RkSystem),
    (''models.setOverride'', rule ''models.write'' RkSystem),
    (''models.removeManual'', rule ''models.write'' RkSystem),
    (''egress.status'', rule ''egress.read'' RkSystem),
    (''admin.obsidian.detect'', rule ''admin.obsidian.detect'' RkSystem),
    (''admin.obsidian.prepare'', rule ''admin.obsidian.prepare'' RkSystem),
    (''admin.obsidian.confirm'', rule ''admin.obsidian.confirm'' RkSystem),
    (''admin.migrate'', rule ''admin.migrate'' RkSystem),
    (''admin.embedding.probe'', rule ''admin.embedding.probe'' RkSystem),
    (''admin.embedding.serve'', rule ''admin.embedding.serve'' RkSystem),
    (''admin.embedding.check'', rule ''admin.embedding.check'' RkSystem),
    (''admin.reembed.plan'', rule ''admin.reembed.plan'' RkSystem),
    (''admin.reembed.run'', rule ''admin.reembed.run'' RkSystem),
    (''admin.reembed.status'', rule ''admin.reembed.status'' RkSystem),
    (''admin.reembed.abort'', rule ''admin.reembed.abort'' RkSystem)] @
   map (\<lambda>m. (m, human_rule (rule (if m = ''dreams.learn.run'' then ''jobs.run'' else ''agent.list'') RkSystem))) [''dreams.learn.run'', ''dreams.learn.status'', ''dreams.learn.list'', ''dreams.learn.get'', ''dreams.learn.decide'', ''dreams.learn.rollback'', ''dreams.learn.calibration''] @
   [(''dreams.run'', rule ''jobs.run'' RkSystem),
    (''dreams.schedule.set'', rule ''settings.write'' RkSystem),
    (''dreams.enable'', rule ''settings.write'' RkSystem),
    (''dreams.disable'', rule ''settings.write'' RkSystem),
    (''dreams.diary'', rule ''agent.manage'' RkAgent),
    (''admin.backup.snapshot'', rule ''admin.backup.snapshot'' RkSystem),
    (''logs.query'', rule ''logs.query'' RkSystem),
    (''logs.tail'', rule ''logs.query'' RkSystem),
    (''logs.levels'', rule ''logs.query'' RkSystem),
    (''audit.verify'', rule ''audit.read'' RkSystem),
    (''identity.list'', human_rule (rule ''users.read'' RkSystem)),
    (''identity.human.create'', human_rule (rule ''users.manage'' RkSystem)),
    (''identity.link'', human_rule (rule ''users.manage'' RkSystem)),
    (''identity.unlink'', human_rule (rule ''users.manage'' RkSystem)),
    (''identity.pair.start'', human_rule (rule ''users.manage'' RkSystem)),
    (''identity.pair.claim'', human_rule (rule ''users.manage'' RkSystem)),
    (''identity.pair.confirm'', human_rule (rule ''users.manage'' RkSystem)),
    (''model.memory.status'', human_rule (rule ''settings.write'' RkSystem)),
    (''model.licence.confirm'', human_rule (rule ''settings.write'' RkSystem)),
    (''model.licence.list'', human_rule (rule ''settings.write'' RkSystem)),
    (''model.licence.check'', human_rule (rule ''settings.write'' RkSystem)),
    (''grant.list'', rule ''grant.read'' RkSystem),
    (''grant.get'', rule ''grant.read'' RkSystem),
    (''grant.create'', rule ''grant.write'' RkSystem),
    (''grant.revoke'', rule ''grant.write'' RkSystem),
    (''approval.list'', rule ''approval.read'' RkSystem),
    (''approval.get'', rule ''approval.read'' RkSystem),
    (''approval.verify'', rule ''approval.read'' RkSystem),
    (''approval.audit'', rule ''approval.read'' RkSystem),
    (''approval.decide'', rule ''approval.decide'' RkSystem),
    (''approval.cancel'', rule ''approval.decide'' RkSystem),
    (''memory.recall'', rule ''memory.workspace.read'' RkMemoryWorkspace),
    (''memory.capture'', rule ''memory.workspace.write'' RkMemoryWorkspace),
    (''memory.sensitivity.get'', rule ''memory.sensitivity.read'' RkAgent),
    (''memory.sensitivity.set'', rule ''memory.sensitivity.write'' RkAgent),
    (''memory.sensitivity.clear'', rule ''memory.sensitivity.write'' RkAgent),
    (''external.turn.start'', rule ''agent.use'' RkAgent),
    (''external.turn.events'', rule ''agent.read'' RkAgent),
    (''external.turn.get'', rule ''agent.read'' RkAgent),
    (''external.turn.cancel'', rule ''agent.use'' RkAgent)]"

definition RPC_RULES :: "(string \<times> rpc_rule) list" where
  "RPC_RULES = RULES_ADMIN @ RULES_PROJECT @ RULES_CORE"

definition rule_for :: "(string \<times> rpc_rule) list \<Rightarrow> string \<Rightarrow> rpc_rule option" where
  "rule_for rules method = map_of (rev rules) method"

section \<open>The guarded call\<close>

text \<open>
  What the transport knows of a call: whether it came through the client gateway, and the delegated
  principal of the API service (never set, explicitly none, or some principal).
\<close>

datatype api_identity = ApiUnset | ApiNone | ApiDelegated

record call_context =
  cc_client :: bool
  cc_api :: api_identity

datatype resolved = ResolverFailed | PersonDisabled | Resolved "principal option"

datatype refusal = ApiServiceOnly | Disabled | ResolverFailure | NoPrincipal | Denied rbac_deny

record guard_event =
  ge_action :: string
  ge_user :: string
  ge_method :: string
  ge_reason :: refusal

text \<open>\<open>Run p\<close>: the handler runs, and \<open>authenticatedPrincipal\<close> gives it \<open>p\<close> while it runs.\<close>

datatype guard_outcome = Run "principal option" | Refused refusal

definition authenticatedPrincipal :: "guard_outcome \<Rightarrow> principal option" where
  "authenticatedPrincipal g = (case g of Run p \<Rightarrow> p | Refused _ \<Rightarrow> None)"

definition allows :: "rbac_decision \<Rightarrow> bool" where
  "allows d = (case d of RAllow _ \<Rightarrow> True | RDeny _ \<Rightarrow> False)"

fun first_allow :: "principal \<Rightarrow> jsnum option \<Rightarrow> (string \<times> resource) list \<Rightarrow> rbac_decision option" where
  "first_allow p now [] = None"
| "first_allow p now ((a, r) # rest) =
    (let d = authorize (Some p) a r now in if allows d then Some d else first_allow p now rest)"

definition has_scope :: "principal \<Rightarrow> string list \<Rightarrow> bool" where
  "has_scope p names = (case p_tokenScopes p of None \<Rightarrow> False | Some ts \<Rightarrow> list_ex (\<lambda>n. n \<in> set ts) names)"

definition memory_fallback :: "principal \<Rightarrow> string \<Rightarrow> call_context \<Rightarrow> jsnum option \<Rightarrow> (string \<times> resource) list \<Rightarrow> rbac_decision option" where
  "memory_fallback p agentId ctx now reads =
    (let use = (''agent.use'', RAgent (JStr agentId)) in
     case (if cc_client ctx then first_allow p now [use] else None) of
       Some d \<Rightarrow> Some d
     | None \<Rightarrow> (if \<not> allows (authorize (Some (p\<lparr>p_tokenScopes := None\<rparr>)) ''agent.use'' (RAgent (JStr agentId)) now) then None
               else first_allow p now reads))"

definition external_fallback :: "string \<Rightarrow> principal \<Rightarrow> string \<Rightarrow> jsnum option \<Rightarrow> rbac_decision option" where
  "external_fallback method p agentId now =
    (let noScope = p\<lparr>p_tokenScopes := None\<rparr> in
     if (method = ''external.turn.start'' \<or> method = ''external.turn.cancel'') \<and> has_scope p [''a2a.task'', ''mcp.write'', ''mcp:call'']
     then first_allow noScope now [(''agent.use'', RAgent (JStr agentId))]
     else if (method = ''external.turn.events'' \<or> method = ''external.turn.get'') \<and> has_scope p [''a2a.task'', ''mcp.read'', ''mcp:call'']
     then first_allow noScope now [(''agent.read'', RAgent (JStr agentId))]
     else None)"

definition fallback_agent :: "principal \<Rightarrow> jsval \<Rightarrow> string" where
  "fallback_agent p params =
    (let f = field params ''agentId'' in if f \<noteq> [] then f else case p_binding_agentId p of Some a \<Rightarrow> a | None \<Rightarrow> [])"

definition authorizeMemoryFallback :: "string \<Rightarrow> principal \<Rightarrow> jsval \<Rightarrow> call_context \<Rightarrow> jsnum option \<Rightarrow> rbac_decision option" where
  "authorizeMemoryFallback method p params ctx now =
    (let agentId = fallback_agent p params
     in case external_fallback method p agentId now of
       Some d \<Rightarrow> Some d
     | None \<Rightarrow>
       (if method = ''memory.recall'' then
          memory_fallback p agentId ctx now
            [(''memory.workspace.read'', RMemoryAgent Workspace (JStr agentId)),
             (''memory.user.read'', RMemoryUser (p_userId p)),
             (''memory.agent-private.read'', RMemoryAgent AgentPrivate (JStr agentId))]
        else if method = ''memory.capture'' then
          memory_fallback p agentId ctx now
            [(''memory.user.write'', RMemoryUser (p_userId p)),
             (''memory.agent-private.write'', RMemoryAgent AgentPrivate (JStr agentId))]
        else None))"

definition guard_decision :: "rpc_rule \<Rightarrow> string \<Rightarrow> principal \<Rightarrow> jsval \<Rightarrow> call_context \<Rightarrow> jsnum option \<Rightarrow> rbac_decision" where
  "guard_decision r method p params ctx now =
    (let d = (if rr_humanOnly r \<and> p_kind p \<noteq> JStr ''person'' then RDeny AgentPrincipal
              else authorize (Some p) (rr_action r) (rule_resource (rr_resource r) params) now)
     in if d = RDeny TokenScope
        then (case authorizeMemoryFallback method p params ctx now of Some d' \<Rightarrow> d' | None \<Rightarrow> d)
        else d)"

text \<open>
  One call of a method of \<open>guardMethods\<close>: the outcome and the events handed to the audit sink, whose
  failures change nothing. A method without a rule passes through.
\<close>

definition guard_call ::
  "(string \<times> rpc_rule) list \<Rightarrow> string \<Rightarrow> resolved \<Rightarrow> jsval \<Rightarrow> call_context \<Rightarrow> jsnum \<Rightarrow> guard_outcome \<times> guard_event list" where
  "guard_call rules method res params ctx now =
    (case rule_for rules method of
       None \<Rightarrow> (Run None, [])
     | Some r \<Rightarrow>
       (if rr_apiServiceOnly r then
          (if cc_api ctx \<noteq> ApiNone then (Refused ApiServiceOnly, []) else (Run None, []))
        else case res of
          PersonDisabled \<Rightarrow> (Refused Disabled, [])
        | ResolverFailed \<Rightarrow> (Refused ResolverFailure,
            [\<lparr>ge_action = ''rbac.unauthenticated'', ge_user = ''anonymous'', ge_method = method, ge_reason = ResolverFailure\<rparr>])
        | Resolved None \<Rightarrow> (Refused NoPrincipal,
            [\<lparr>ge_action = ''rbac.unauthenticated'', ge_user = ''anonymous'', ge_method = method, ge_reason = NoPrincipal\<rparr>])
        | Resolved (Some p) \<Rightarrow>
            (case guard_decision r method p params ctx (Some now) of
               RAllow _ \<Rightarrow> (Run (Some p), [])
             | RDeny why \<Rightarrow> (Refused (Denied why),
                 [\<lparr>ge_action = ''rbac.denied'',
                   ge_user = (case p_userId p of JStr u \<Rightarrow> (if u \<noteq> [] then u else ''anonymous'') | _ \<Rightarrow> ''anonymous''),
                   ge_method = method, ge_reason = Denied why\<rparr>]))))"

section \<open>What a running handler rests on\<close>

lemma authorize_TokenScopeD:
  assumes "authorize (Some p) action r now = RDeny TokenScope"
  shows "valid_principal p \<and> p_tokenScopes p \<noteq> None \<and>
    (\<exists>s. policyFor action = Some s \<and> (as_humanOnly s \<longrightarrow> p_kind p = JStr ''person''))"
proof -
  have fg: "first_grant gs p s r i now \<noteq> Some (RDeny TokenScope)" for gs s i
    using first_grant_Some [of gs p s r i now "RDeny TokenScope"] evaluate_Some_RAllow by fastforce
  from assms show ?thesis
    by (auto simp: authorize_def Let_def fg split: option.splits if_splits jsval.splits)
qed

lemma first_allow_SomeD:
  "first_allow p now rs = Some d \<Longrightarrow> \<exists>why. d = RAllow why \<and> (\<exists>(a, r)\<in>set rs. authorize (Some p) a r now = RAllow why)"
  by (induction p now rs rule: first_allow.induct)
    (fastforce simp: Let_def allows_def split: if_splits rbac_decision.splits)+

lemma memory_fallback_SomeD:
  assumes "memory_fallback p agentId ctx now reads = Some d"
  shows "\<exists>why. d = RAllow why \<and>
    (\<exists>w. authorize (Some (p\<lparr>p_tokenScopes := None\<rparr>)) ''agent.use'' (RAgent (JStr agentId)) now = RAllow w)"
proof (cases "cc_client ctx \<and> first_allow p now [(''agent.use'', RAgent (JStr agentId))] \<noteq> None")
  case True
  then obtain e where e: "first_allow p now [(''agent.use'', RAgent (JStr agentId))] = Some e" by blast
  with True assms have "d = e" by (simp add: memory_fallback_def Let_def)
  with first_allow_SomeD [OF e] authorize_drop_scopes show ?thesis by fastforce
next
  case False
  then have "allows (authorize (Some (p\<lparr>p_tokenScopes := None\<rparr>)) ''agent.use'' (RAgent (JStr agentId)) now) \<and>
      first_allow p now reads = Some d"
    using assms unfolding memory_fallback_def Let_def by (auto split: if_splits)
  with first_allow_SomeD show ?thesis by (fastforce simp: allows_def split: rbac_decision.splits)
qed

definition fallback_methods :: "string list" where
  "fallback_methods = [''external.turn.start'', ''external.turn.cancel'', ''external.turn.events'', ''external.turn.get'', ''memory.recall'', ''memory.capture'']"

lemma external_fallback_SomeD:
  assumes "external_fallback method p i now = Some d"
  shows "method \<in> set fallback_methods \<and> (\<exists>why a. d = RAllow why \<and> (a = ''agent.use'' \<or> a = ''agent.read'') \<and>
    authorize (Some (p\<lparr>p_tokenScopes := None\<rparr>)) a (RAgent (JStr i)) now = RAllow why)"
proof (cases "(method = ''external.turn.start'' \<or> method = ''external.turn.cancel'') \<and> has_scope p [''a2a.task'', ''mcp.write'', ''mcp:call'']")
  case True
  with assms have "first_allow (p\<lparr>p_tokenScopes := None\<rparr>) now [(''agent.use'', RAgent (JStr i))] = Some d"
    unfolding external_fallback_def Let_def by simp
  moreover have "method \<in> set fallback_methods" using True by (elim conjE disjE) (simp_all add: fallback_methods_def)
  ultimately show ?thesis using first_allow_SomeD by fastforce
next
  case False
  then have m: "(method = ''external.turn.events'' \<or> method = ''external.turn.get'')"
      "first_allow (p\<lparr>p_tokenScopes := None\<rparr>) now [(''agent.read'', RAgent (JStr i))] = Some d"
    using assms unfolding external_fallback_def Let_def by (simp_all only: if_False option.distinct simp_thms split: if_splits)
  have "method \<in> set fallback_methods" using m(1) by (elim disjE) (simp_all add: fallback_methods_def)
  with m(2) show ?thesis using first_allow_SomeD by fastforce
qed

lemma fallback_SomeD:
  assumes "authorizeMemoryFallback method p params ctx now = Some d"
  shows "method \<in> set fallback_methods \<and> (\<exists>why. d = RAllow why) \<and>
    (\<exists>a w. (a = ''agent.use'' \<or> a = ''agent.read'') \<and>
      authorize (Some (p\<lparr>p_tokenScopes := None\<rparr>)) a (RAgent (JStr (fallback_agent p params))) now = RAllow w)"
proof (cases "external_fallback method p (fallback_agent p params) now")
  case (Some e)
  with assms have "e = d" by (simp add: authorizeMemoryFallback_def)
  with external_fallback_SomeD [OF Some] show ?thesis by blast
next
  case None
  then obtain rs where m: "method = ''memory.recall'' \<or> method = ''memory.capture''"
      "memory_fallback p (fallback_agent p params) ctx now rs = Some d"
    using assms unfolding authorizeMemoryFallback_def Let_def by (simp only: option.case split: if_splits) blast+
  have "method \<in> set fallback_methods" using m(1) by (elim disjE) (simp_all add: fallback_methods_def)
  with memory_fallback_SomeD [OF m(2)] show ?thesis by blast
qed

lemma guard_call_RunE:
  assumes "guard_call rules method res params ctx now = (Run po, evs)"
  obtains (passthrough) "rule_for rules method = None" "po = None"
  | (service) r where "rule_for rules method = Some r" "rr_apiServiceOnly r" "cc_api ctx = ApiNone" "po = None"
  | (guarded) r p why where "rule_for rules method = Some r" "\<not> rr_apiServiceOnly r" "res = Resolved (Some p)" "po = Some p" "evs = []"
      "guard_decision r method p params ctx (Some now) = RAllow why"
  using assms unfolding guard_call_def
  by (auto split: option.splits if_splits resolved.splits rbac_decision.splits)

lemma guard_decision_RAllowD:
  assumes "guard_decision r method p params ctx now = RAllow why"
  shows "valid_principal p \<and> (rr_humanOnly r \<longrightarrow> p_kind p = JStr ''person'') \<and>
    (\<exists>s. policyFor (rr_action r) = Some s \<and> (as_humanOnly s \<longrightarrow> p_kind p = JStr ''person'')) \<and>
    (authorize (Some p) (rr_action r) (rule_resource (rr_resource r) params) now = RAllow why \<or>
     p_tokenScopes p \<noteq> None \<and> (\<exists>d. authorizeMemoryFallback method p params ctx now = Some d))"
proof -
  let ?d = "authorize (Some p) (rr_action r) (rule_resource (rr_resource r) params) now"
  have h: "rr_humanOnly r \<longrightarrow> p_kind p = JStr ''person''"
    using assms by (auto simp: guard_decision_def Let_def split: if_splits)
  show ?thesis
  proof (cases "?d = RDeny TokenScope")
    case True
    with assms h have "\<exists>d. authorizeMemoryFallback method p params ctx now = Some d"
      by (auto simp: guard_decision_def Let_def split: option.splits)
    with authorize_TokenScopeD [OF True] h show ?thesis by blast
  next
    case False
    with assms h have d: "?d = RAllow why" by (auto simp: guard_decision_def Let_def split: if_splits)
    then have "valid_principal p \<and> (\<exists>s. policyFor (rr_action r) = Some s \<and> (as_humanOnly s \<longrightarrow> p_kind p = JStr ''person''))"
      by (elim authorize_RAllowE) simp
    with d h show ?thesis by blast
  qed
qed

text \<open>
  (C6) A guarded handler runs for a principal only if the resolver named that principal, it is well formed,
  it is a person wherever the rule or the policy asks for one, and it is authorized for the rule's action on
  the resource of this call; the only other way in is the scope fallback of the external and memory methods,
  open to token callers only, and then the owner of the token, without the token's scopes, may use or read
  the agent in question. Nothing is recorded for such a call.
\<close>

theorem guard_run_sound:
  assumes "guard_call rules method res params ctx now = (Run (Some p), evs)"
  shows "\<exists>r s. rule_for rules method = Some r \<and> \<not> rr_apiServiceOnly r \<and> res = Resolved (Some p) \<and> valid_principal p \<and> evs = [] \<and>
    policyFor (rr_action r) = Some s \<and> (rr_humanOnly r \<or> as_humanOnly s \<longrightarrow> p_kind p = JStr ''person'') \<and>
    ((\<exists>why. authorize (Some p) (rr_action r) (rule_resource (rr_resource r) params) (Some now) = RAllow why) \<or>
     method \<in> set fallback_methods \<and> p_tokenScopes p \<noteq> None \<and>
     (\<exists>a why. (a = ''agent.use'' \<or> a = ''agent.read'') \<and>
       authorize (Some (p\<lparr>p_tokenScopes := None\<rparr>)) a (RAgent (JStr (fallback_agent p params))) (Some now) = RAllow why))"
  using assms
proof (cases rule: guard_call_RunE)
  case (guarded r q why)
  then have p: "q = p" by simp
  note g = guard_decision_RAllowD [OF guarded(6)]
  from g obtain s where s: "policyFor (rr_action r) = Some s" "as_humanOnly s \<longrightarrow> p_kind q = JStr ''person''" by blast
  from g guarded s fallback_SomeD show ?thesis unfolding p by (intro exI [of _ r] exI [of _ s]) fast
qed simp_all

lemma rule_for_decisions:
  "rule_for RPC_RULES ''grant.create'' = Some (rule ''grant.write'' RkSystem)"
  "rule_for RPC_RULES ''grant.revoke'' = Some (rule ''grant.write'' RkSystem)"
  "rule_for RPC_RULES ''approval.decide'' = Some (rule ''approval.decide'' RkSystem)"
  "rule_for RPC_RULES ''approval.cancel'' = Some (rule ''approval.decide'' RkSystem)"
  by code_simp+

lemma policyFor_decisions:
  "policyFor ''grant.write'' = Some (humanOnly (spec ''grant.write'' ShSystem OA None))"
  "policyFor ''approval.decide'' = Some (humanOnly (spec ''approval.decide'' ShSystem OA None))"
  by code_simp+

definition decision_methods :: "string list" where
  "decision_methods = [''grant.create'', ''grant.revoke'', ''approval.decide'', ''approval.cancel'']"

lemma decision_method_rule:
  assumes "m \<in> set decision_methods"
  shows "\<exists>a. (a = ''grant.write'' \<or> a = ''approval.decide'') \<and> rule_for RPC_RULES m = Some (rule a RkSystem) \<and> policyFor a = Some (humanOnly (spec a ShSystem OA None))"
  using assms rule_for_decisions policyFor_decisions
  by (simp only: decision_methods_def list.set insert_iff empty_iff simp_thms) (elim disjE; simp only: option.inject; blast)

lemma decision_method_no_fallback: "m \<in> set decision_methods \<Longrightarrow> m \<notin> set fallback_methods"
  by (simp only: decision_methods_def list.set insert_iff empty_iff simp_thms) (elim disjE; simp add: fallback_methods_def)

text \<open>
  Only a person who is an owner or an admin creates or revokes a grant and decides or cancels an
  approval: whatever a call to one of these methods carries, its handler runs for such a principal or not
  at all, and a token of that person must name the action.
\<close>

theorem decisions_need_person:
  assumes "m \<in> set decision_methods"
    and "guard_call RPC_RULES m res params ctx now = (Run po, evs)"
  shows "\<exists>p. po = Some p \<and> res = Resolved (Some p) \<and> p_kind p = JStr ''person'' \<and>
    (role_of (p_role p) = Some Owner \<or> role_of (p_role p) = Some Admin) \<and>
    (\<exists>a why. (a = ''grant.write'' \<or> a = ''approval.decide'') \<and> authorize (Some p) a RSystem (Some now) = RAllow why)"
proof -
  from decision_method_rule [OF assms(1)] obtain a where a: "a = ''grant.write'' \<or> a = ''approval.decide''"
    "rule_for RPC_RULES m = Some (rule a RkSystem)" "policyFor a = Some (humanOnly (spec a ShSystem OA None))"
    by blast
  from assms(2) show ?thesis
  proof (cases rule: guard_call_RunE)
    case (guarded r p why)
    have r: "rr_action r = a" "rule_resource (rr_resource r) params = RSystem"
      using guarded(1) a(2) by (auto simp: rule_def rule_resource_def)
    note g = guard_decision_RAllowD [OF guarded(6)]
    have "\<not> (\<exists>d. authorizeMemoryFallback m p params ctx (Some now) = Some d)"
      using fallback_SomeD decision_method_no_fallback [OF assms(1)] by blast
    with g r have au: "authorize (Some p) a RSystem (Some now) = RAllow why" by simp
    from au obtain gs where gs: "map_of OA (the (role_of (p_role p))) = Some gs" "valid_principal p"
      by (elim authorize_RAllowE) (auto simp: a(3) humanOnly_def spec_def)
    then have "role_of (p_role p) = Some Owner \<or> role_of (p_role p) = Some Admin"
      by (auto simp: OA_def valid_principal_def split: if_splits)
    moreover have "p_kind p = JStr ''person''" using g a(3) r(1) by (simp add: humanOnly_def)
    ultimately show ?thesis using guarded(3,4) au a(1) by blast
  next
    case passthrough
    with a(2) show ?thesis by simp
  next
    case (service r)
    with a(2) show ?thesis by (simp add: rule_def)
  qed
qed

section \<open>Witnesses\<close>

definition sample_ctx :: call_context where
  "sample_ctx = \<lparr>cc_client = False, cc_api = ApiUnset\<rparr>"

lemma sample_decide: "guard_call RPC_RULES ''approval.decide'' (Resolved (Some LOCAL_OWNER)) JUndef sample_ctx (Fin 0) = (Run (Some LOCAL_OWNER), [])"
  by code_simp

theorem guard_run_sound_witness:
  "\<exists>why. authorize (Some LOCAL_OWNER) ''approval.decide'' RSystem (Some (Fin 0)) = RAllow why"
  using guard_run_sound [OF sample_decide] by (simp add: rule_for_decisions rule_def rule_resource_def LOCAL_OWNER_def)

theorem decisions_need_person_witness:
  "p_kind LOCAL_OWNER = JStr ''person'' \<and> (role_of (p_role LOCAL_OWNER) = Some Owner \<or> role_of (p_role LOCAL_OWNER) = Some Admin)"
proof -
  have "''approval.decide'' \<in> set decision_methods" by (simp add: decision_methods_def)
  from decisions_need_person [OF this sample_decide] show ?thesis by simp
qed

end
