(* ===== verification/Policy_Paths.thy ===== *)
theory Policy_Paths
  imports Js_Values
begin

text \<open>
  The part of \<^verbatim>\<open>packages/core/src/policy/paths.ts\<close> that reads no file system: the refusal rules of a path's spelling,
  the lexical form, the deny-side folding and matching, containment and the system-tree classification. Strings
  are Latin-1, so no path has a lone surrogate or a bidirectional control and every one is in NFC; folding through
  upper case leaves Latin-1 for the micro sign, hence code points.
\<close>

section \<open>Spelling\<close>

datatype refusal_reason = NotAString | EmptyPath | TooLong | ControlChar | Backslash | DotDot | DriveRelative
  | DevicePath | UncNotAllowed | ShortName | AlternateStream | ForbiddenChar | TrailingDotSpace | ReservedDeviceName

record syntax_ok =
  sx_windows :: bool
  sx_unc :: bool
  sx_drive :: "char option"
  sx_segments :: "string list"
  sx_absolute :: bool

definition MAX_PATH_UTF8 :: nat where "MAX_PATH_UTF8 = 4096"
definition MAX_SEGMENT_UTF8 :: nat where "MAX_SEGMENT_UTF8 = 255"

abbreviation sl :: char where "sl \<equiv> CHR 0x2F"
abbreviation bs :: char where "bs \<equiv> CHR 0x5C"

definition code :: "char \<Rightarrow> nat" where
  "code c = of_char c"

definition is_control :: "char \<Rightarrow> bool" where
  "is_control c \<longleftrightarrow> code c < 32 \<or> 127 \<le> code c \<and> code c < 160"

definition is_digit :: "char \<Rightarrow> bool" where
  "is_digit c \<longleftrightarrow> 48 \<le> code c \<and> code c \<le> 57"

definition is_alpha :: "char \<Rightarrow> bool" where
  "is_alpha c \<longleftrightarrow> 65 \<le> code c \<and> code c \<le> 90 \<or> 97 \<le> code c \<and> code c \<le> 122"

definition upper_ascii :: "char \<Rightarrow> char" where
  "upper_ascii c = (if 97 \<le> code c \<and> code c \<le> 122 then char_of (code c - 32) else c)"

definition win_forbidden :: "char \<Rightarrow> bool" where
  "win_forbidden c \<longleftrightarrow> c \<in> set ''<>|?*'' \<or> code c = 34"

definition isReservedDeviceName :: "string \<Rightarrow> bool" where
  "isReservedDeviceName seg =
    (let stem = js_lower (rev (dropWhile (\<lambda>c. code c = 32) (rev (hd (split_on (\<lambda>c. c = CHR ''.'') seg)))));
         port = drop 3 stem
     in stem \<in> {''con'', ''prn'', ''aux'', ''nul'', ''conin$'', ''conout$'', ''clock$''} \<or>
        (take 3 stem = ''com'' \<or> take 3 stem = ''lpt'') \<and>
        (case port of [c] \<Rightarrow> 49 \<le> code c \<and> code c \<le> 57 \<or> code c \<in> {185, 178, 179} | _ \<Rightarrow> False))"

text \<open>
  The 8.3 alias: one to six characters without a dot, a tilde, digits, and an optional extension of at most three.
  The base may itself contain tildes, so every position of the tilde is tried.
\<close>

definition short_tail :: "string \<Rightarrow> bool" where
  "short_tail s = (let ds = takeWhile is_digit s; rest = dropWhile is_digit s in
     ds \<noteq> [] \<and> (rest = [] \<or> hd rest = CHR ''.'' \<and> CHR ''.'' \<notin> set (tl rest) \<and> length (tl rest) \<le> 3))"

definition short_name :: "string \<Rightarrow> bool" where
  "short_name s = list_ex (\<lambda>n. n < length s \<and> CHR ''.'' \<notin> set (take n s) \<and> s ! n = CHR ''~'' \<and> short_tail (drop (n + 1) s)) [1, 2, 3, 4, 5, 6]"

definition segment_refusal :: "bool \<Rightarrow> string \<Rightarrow> refusal_reason option" where
  "segment_refusal windows seg =
    (if seg = ''..'' then Some DotDot
     else if MAX_SEGMENT_UTF8 < byte_length seg then Some TooLong
     else if \<not> windows then None
     else if CHR '':'' \<in> set seg then Some AlternateStream
     else if list_ex win_forbidden seg then Some ForbiddenChar
     else if last seg = CHR ''.'' \<or> code (last seg) = 32 then Some TrailingDotSpace
     else if isReservedDeviceName seg then Some ReservedDeviceName
     else if short_name seg then Some ShortName
     else None)"

fun check_segments :: "bool \<Rightarrow> string list \<Rightarrow> (refusal_reason, string list) result" where
  "check_segments windows [] = Inr []"
| "check_segments windows (seg # rest) =
    (if seg = [] \<or> seg = ''.'' then check_segments windows rest
     else case segment_refusal windows seg of
       Some r \<Rightarrow> Inl r
     | None \<Rightarrow> (case check_segments windows rest of Inl r \<Rightarrow> Inl r | Inr ss \<Rightarrow> Inr (seg # ss)))"

definition norm_sep :: "string \<Rightarrow> string" where
  "norm_sep s = map (\<lambda>c. if c = sl then bs else c) s"

definition is_device_path :: "string \<Rightarrow> bool" where
  "is_device_path n \<longleftrightarrow>
     (case n of a # b # q # r \<Rightarrow> a = bs \<and> b = bs \<and> (q = CHR ''?'' \<or> q = CHR ''.'') \<and> (r = [] \<or> hd r = bs) | _ \<Rightarrow> False) \<or>
     prefix [bs, CHR ''?'', CHR ''?'', bs] n"

text \<open>The root of a Windows spelling: UNC flag, drive and the rest, or the refusal.\<close>

definition windows_root :: "bool \<Rightarrow> string \<Rightarrow> (refusal_reason, bool \<times> char option \<times> bool \<times> string) result" where
  "windows_root allowUnc n =
    (if is_device_path n then Inl DevicePath
     else if prefix [bs, bs] n then (if allowUnc then Inr (True, None, True, drop 2 n) else Inl UncNotAllowed)
     else if (case n of c # d # _ \<Rightarrow> is_alpha c \<and> d = CHR '':'' | _ \<Rightarrow> False) then
       (if 2 < length n \<and> n ! 2 = bs then Inr (False, Some (upper_ascii (hd n)), True, drop 3 n) else Inl DriveRelative)
     else if prefix [bs] n then Inl DriveRelative
     else Inr (False, None, False, n))"

definition checkSyntax :: "jsval \<Rightarrow> bool \<Rightarrow> bool \<Rightarrow> (refusal_reason, syntax_ok) result" where
  "checkSyntax v windows allowUnc =
    (case v of
       JStr input \<Rightarrow>
         (if input = [] then Inl EmptyPath
          else if MAX_PATH_UTF8 < byte_length input then Inl TooLong
          else if list_ex is_control input then Inl ControlChar
          else
            (case (if windows then windows_root allowUnc (norm_sep input)
                   else if bs \<in> set input then Inl Backslash
                   else Inr (False, None, prefix [sl] input, input)) of
               Inl r \<Rightarrow> Inl r
             | Inr (unc, drive, absolute, rest) \<Rightarrow>
               (case check_segments windows (split_on (\<lambda>c. c = (if windows then bs else sl)) rest) of
                  Inl r \<Rightarrow> Inl r
                | Inr segs \<Rightarrow>
                  (if segs = [] \<and> \<not> absolute then Inl EmptyPath
                   else Inr \<lparr>sx_windows = windows, sx_unc = unc, sx_drive = drive, sx_segments = segs, sx_absolute = absolute\<rparr>))))
     | _ \<Rightarrow> Inl NotAString)"

fun join :: "char \<Rightarrow> string list \<Rightarrow> string" where
  "join c [] = []"
| "join c [s] = s"
| "join c (s # t # ss) = s @ c # join c (t # ss)"

definition assemble :: "syntax_ok \<Rightarrow> string" where
  "assemble s =
    (if sx_windows s then
       (if sx_unc s then bs # bs # join bs (sx_segments s)
        else (case sx_drive s of Some d \<Rightarrow> [d] | None \<Rightarrow> ''null'') @ CHR '':'' # bs # join bs (sx_segments s))
     else sl # join sl (sx_segments s))"

section \<open>Folding, deny entries and containment\<close>

definition fold_char :: "char \<Rightarrow> nat list" where
  "fold_char c = (let n = code c in if n = 223 then [115, 115] else if n = 181 then [956] else [code (lower_char c)])"

definition foldForDeny :: "string \<Rightarrow> nat list" where
  "foldForDeny s = concat (map fold_char s)"

definition fold_segs :: "(char \<Rightarrow> bool) \<Rightarrow> string \<Rightarrow> nat list list" where
  "fold_segs sep p = map foldForDeny (filter (\<lambda>x. x \<noteq> []) (split_on sep p))"

datatype deny_entry = DenyPath string | DenyName string

definition any_sep :: "char \<Rightarrow> bool" where
  "any_sep c \<longleftrightarrow> c = sl \<or> c = bs"

definition deny_hit :: "nat list list \<Rightarrow> deny_entry \<Rightarrow> bool" where
  "deny_hit segs e = (case e of
     DenyName n \<Rightarrow> foldForDeny n \<in> set segs
   | DenyPath p \<Rightarrow> (let d = fold_segs any_sep p in d \<noteq> [] \<and> prefix d segs))"

definition containsExact :: "string \<Rightarrow> string \<Rightarrow> char \<Rightarrow> bool" where
  "containsExact base p sep \<longleftrightarrow> p = base \<or> prefix (if base \<noteq> [] \<and> last base = sep then base else base @ [sep]) p"

definition normaliseNative :: "string \<Rightarrow> bool \<Rightarrow> string" where
  "normaliseNative p windows =
    (if \<not> windows then p
     else let r = (if prefix ([bs, bs, CHR ''?'', bs] @ ''UNC'' @ [bs]) p then [bs, bs] @ drop 8 p
                   else if prefix [bs, bs, CHR ''?'', bs] p then drop 4 p else p)
       in case r of c # d # t \<Rightarrow> (if 97 \<le> code c \<and> code c \<le> 122 \<and> d = CHR '':'' then upper_ascii c # d # t else r) | _ \<Rightarrow> r)"

definition matchDeny :: "string \<Rightarrow> deny_entry list \<Rightarrow> deny_entry option" where
  "matchDeny p deny = List.find (deny_hit (fold_segs any_sep p)) deny"

definition absolute_spelling :: "string \<Rightarrow> bool" where
  "absolute_spelling q \<longleftrightarrow> prefix [sl] q \<or> prefix [bs, bs] q \<or>
     (case q of c # d # e # _ \<Rightarrow> is_alpha c \<and> d = CHR '':'' \<and> any_sep e | _ \<Rightarrow> False)"

definition has_key :: "jsval \<Rightarrow> string \<Rightarrow> bool" where
  "has_key v k = (case v of JObj kvs \<Rightarrow> k \<in> fst ` set kvs | _ \<Rightarrow> False)"

definition valid_deny_entry :: "jsval \<Rightarrow> bool" where
  "valid_deny_entry e \<longleftrightarrow> is_obj e \<and> has_key e ''name'' \<noteq> has_key e ''path'' \<and>
     (if has_key e ''name'' then
        (case jget e ''name'' of
           JStr n \<Rightarrow> n \<noteq> [] \<and> n \<noteq> ''.'' \<and> n \<noteq> ''..'' \<and> \<not> list_ex (\<lambda>c. any_sep c \<or> code c = 0) n
         | _ \<Rightarrow> False)
      else
        (case jget e ''path'' of
           JStr q \<Rightarrow> \<not> list_ex (\<lambda>c. code c = 0) q \<and> absolute_spelling q \<and> \<not> list_ex (\<lambda>g. g = ''..'' \<or> g = ''.'') (split_on any_sep q)
         | _ \<Rightarrow> False))"

text \<open>The position of the first entry that can never match, or of a list that is none; \<open>None\<close> when all are fine.\<close>

definition invalidDenyEntry :: "jsval \<Rightarrow> jsval option" where
  "invalidDenyEntry v = (case v of
     JUndef \<Rightarrow> None
   | JArr es \<Rightarrow> List.find (\<lambda>e. \<not> valid_deny_entry e) es
   | _ \<Rightarrow> Some v)"

section \<open>System trees\<close>

definition POSIX_SYSTEM :: "string list" where
  "POSIX_SYSTEM = [''/etc'', ''/usr'', ''/System'', ''/Library'', ''/bin'', ''/sbin'', ''/boot'', ''/proc'', ''/sys'', ''/dev'',
     ''/private/etc'', ''/private/var/db'', ''/private/var/root'']"

definition WIN_SYSTEM :: "string list" where
  "WIN_SYSTEM = [''C:'' @ bs # ''Windows'', ''C:'' @ bs # ''Program Files'', ''C:'' @ bs # ''Program Files (x86)'', ''C:'' @ bs # ''ProgramData'']"

definition POSIX_HOMES_PARENT :: "string list" where
  "POSIX_HOMES_PARENT = [''/Users'', ''/home'']"

definition WIN_HOMES_PARENT :: "string list" where
  "WIN_HOMES_PARENT = [''C:'' @ bs # ''Users'']"

definition foldSegments :: "string \<Rightarrow> bool \<Rightarrow> nat list list" where
  "foldSegments p windows = fold_segs (\<lambda>c. c = sl \<or> windows \<and> c = bs) p"

definition homeSegments :: "string list \<Rightarrow> bool \<Rightarrow> nat list list list" where
  "homeSegments homes windows = filter (\<lambda>h. h \<noteq> []) (map (\<lambda>h. foldSegments h windows) (filter (\<lambda>h. h \<noteq> []) homes))"

definition homes_parent :: "bool \<Rightarrow> string list" where
  "homes_parent windows = (if windows then WIN_HOMES_PARENT else POSIX_HOMES_PARENT)"

definition system_dirs :: "bool \<Rightarrow> string list" where
  "system_dirs windows = (if windows then WIN_SYSTEM else POSIX_SYSTEM)"

definition isSystemTreePath :: "string \<Rightarrow> bool \<Rightarrow> string list \<Rightarrow> bool" where
  "isSystemTreePath p windows homes \<longleftrightarrow>
    (let segs = foldSegments p windows; unc = (windows \<and> prefix [bs, bs] p) in
     segs = [] \<or>
     windows \<and> (unc \<or> (case p of c # d # _ \<Rightarrow> is_alpha c \<and> d = CHR '':'' | _ \<Rightarrow> False)) \<and> length segs \<le> (if unc then 2 else 1) \<or>
     list_ex (\<lambda>h. h = segs) (homeSegments homes windows) \<or>
     list_ex (\<lambda>f. foldSegments f windows = segs) (homes_parent windows) \<or>
     list_ex (\<lambda>f. prefix (foldSegments f windows) segs) (system_dirs windows))"

definition grantReachesSystemTree :: "string \<Rightarrow> bool \<Rightarrow> bool \<Rightarrow> string list \<Rightarrow> bool" where
  "grantReachesSystemTree g recursive windows homes \<longleftrightarrow>
    (isSystemTreePath g windows homes \<or>
     (let gs = foldSegments g windows in
      list_ex (\<lambda>h. prefix gs h) (homeSegments homes windows) \<or>
      recursive \<and> list_ex (\<lambda>f. prefix gs (foldSegments f windows)) (homes_parent windows @ system_dirs windows)))"

section \<open>Splitting and joining\<close>

lemma split_on_append:
  "\<not> list_ex P s \<Longrightarrow> split_on P (s @ t) = (case split_on P t of [] \<Rightarrow> [s] | w # ws \<Rightarrow> (s @ w) # ws)"
  by (induction s) (auto split: list.splits)

lemma split_on_free: "\<not> list_ex P s \<Longrightarrow> split_on P s = [s]"
  using split_on_append [of P s "[]"] by simp

lemma split_on_join:
  assumes "ss \<noteq> []" and "\<forall>s\<in>set ss. \<not> list_ex P s" and "P c"
  shows "split_on P (join c ss) = ss"
  using assms
proof (induction c ss rule: join.induct)
  case (3 c s t ss)
  then have IH: "split_on P (join c (t # ss)) = t # ss" by simp
  have "split_on P (s @ c # join c (t # ss)) = s # split_on P (join c (t # ss))"
    using 3 by (subst split_on_append) simp_all
  with IH show ?case by simp
qed (simp_all add: split_on_free)

lemma split_on_parts: "w \<in> set (split_on P s) \<Longrightarrow> \<not> list_ex P w \<and> set w \<subseteq> set s"
proof (induction s arbitrary: w)
  case (Cons c s)
  show ?case
  proof (cases "P c")
    case True
    with Cons show ?thesis by auto
  next
    case False
    obtain v vs where v: "split_on P s = v # vs" using split_on_not_Nil [of P s] by (cases "split_on P s") auto
    with Cons.prems False have "w = c # v \<or> w \<in> set vs" by simp
    with Cons.IH v False show ?thesis by (elim disjE) (force, fastforce)
  qed
qed simp

lemma byte_length_simps [simp]:
  "byte_length [] = 0" "byte_length (c # s) = (if (of_char c :: nat) < 128 then 1 else 2) + byte_length s"
  "byte_length (s @ t) = byte_length s + byte_length t"
  by (simp_all add: byte_length_def)

definition parts_size :: "string list \<Rightarrow> nat" where
  "parts_size ss = sum_list (map (\<lambda>s. byte_length s + 1) ss)"

lemma byte_length_join: "(of_char c :: nat) < 128 \<Longrightarrow> ss \<noteq> [] \<Longrightarrow> byte_length (join c ss) + 1 = parts_size ss"
  by (induction c ss rule: join.induct) (auto simp: parts_size_def)

lemma byte_length_split:
  assumes "\<And>c. P c \<Longrightarrow> (of_char c :: nat) < 128"
  shows "parts_size (split_on P s) = byte_length s + 1"
proof (induction s)
  case (Cons c s)
  obtain v vs where "split_on P s = v # vs" using split_on_not_Nil [of P s] by (cases "split_on P s") auto
  with Cons assms show ?case by (auto simp: parts_size_def)
qed (simp add: parts_size_def)

lemma parts_size_filter: "parts_size (filter Q ss) \<le> parts_size ss"
  by (induction ss) (auto simp: parts_size_def)

section \<open>The canonical spelling\<close>

text \<open>What comes out of the segment loop: the kept segments, each accepted on its own.\<close>

definition kept :: "string \<Rightarrow> bool" where
  "kept s \<longleftrightarrow> s \<noteq> [] \<and> s \<noteq> ''.''"

lemma check_segments_Inr:
  "check_segments w ss = Inr rs \<longleftrightarrow> rs = filter kept ss \<and> (\<forall>s\<in>set rs. segment_refusal w s = None)"
proof (induction ss arbitrary: rs)
  case (Cons s ss)
  show ?case
  proof (cases "kept s")
    case False
    with Cons show ?thesis by (auto simp: kept_def)
  next
    case k: True
    show ?thesis
    proof (cases "segment_refusal w s")
      case (Some r)
      with k show ?thesis by (auto simp: kept_def)
    next
      case None
      show ?thesis
      proof (cases "check_segments w ss")
        case (Inl r)
        then have "\<not> (\<forall>s\<in>set (filter kept ss). segment_refusal w s = None)" using Cons [of "filter kept ss"] by auto
        with None k Inl show ?thesis by (auto simp: kept_def)
      next
        case (Inr ts)
        with None k Cons [of ts] show ?thesis by (auto simp: kept_def)
      qed
    qed
  qed
qed auto

lemma split_kept_join:
  assumes "ss = filter kept (split_on P t)" and "P c"
  shows "filter kept (split_on P (join c ss)) = ss"
proof (cases "ss = []")
  case False
  have "\<forall>s\<in>set ss. \<not> list_ex P s" using assms(1) split_on_parts by force
  from split_on_join [OF False this assms(2)] show ?thesis using assms(1) by simp
qed (simp add: kept_def)

lemma join_chars: "x \<in> set (join c ss) \<Longrightarrow> x = c \<or> (\<exists>s\<in>set ss. x \<in> set s)"
  by (induction c ss rule: join.induct) auto

lemma kept_chars: "ss = filter kept (split_on P t) \<Longrightarrow> x \<in> set (join c ss) \<Longrightarrow> x = c \<or> x \<in> set t"
  using split_on_parts by (fastforce dest!: join_chars)

lemma join_size:
  assumes "ss = filter kept (split_on P t)" and "(of_char c :: nat) < 128" and "\<And>c. P c \<Longrightarrow> (of_char c :: nat) < 128"
  shows "byte_length (join c ss) \<le> byte_length t"
proof (cases "ss = []")
  case False
  have "parts_size ss \<le> byte_length t + 1" using parts_size_filter [of kept "split_on P t"] byte_length_split [OF assms(3)] assms(1) by simp
  with byte_length_join [OF assms(2) False] show ?thesis by simp
qed simp

lemma checkSyntax_posix:
  "checkSyntax (JStr p) False u = Inr s \<longleftrightarrow>
     p \<noteq> [] \<and> byte_length p \<le> MAX_PATH_UTF8 \<and> \<not> list_ex is_control p \<and> bs \<notin> set p \<and>
     (\<forall>g\<in>set (filter kept (split_on (\<lambda>c. c = sl) p)). segment_refusal False g = None) \<and>
     (filter kept (split_on (\<lambda>c. c = sl) p) \<noteq> [] \<or> prefix [sl] p) \<and>
     s = \<lparr>sx_windows = False, sx_unc = False, sx_drive = None, sx_segments = filter kept (split_on (\<lambda>c. c = sl) p), sx_absolute = prefix [sl] p\<rparr>"
proof (cases "check_segments False (split_on (\<lambda>c. c = sl) p)")
  case (Inl r)
  then have "\<not> (\<forall>g\<in>set (filter kept (split_on (\<lambda>c. c = sl) p)). segment_refusal False g = None)"
    using check_segments_Inr [of False "split_on (\<lambda>c. c = sl) p" "filter kept (split_on (\<lambda>c. c = sl) p)"] by auto
  with Inl show ?thesis by (auto simp: checkSyntax_def)
next
  case (Inr rs)
  with check_segments_Inr [of False "split_on (\<lambda>c. c = sl) p" rs] show ?thesis by (auto simp: checkSyntax_def)
qed

lemma roundtrip_posix:
  assumes "checkSyntax (JStr p) False u = Inr s" and "sx_absolute s"
  shows "checkSyntax (JStr (assemble s)) False u = Inr s"
proof -
  note a = assms(1) [unfolded checkSyntax_posix]
  then obtain q where q: "p = sl # q" using assms(2) by (cases p) auto
  let ?P = "\<lambda>c. c = sl"
  have ss: "sx_segments s = filter kept (split_on ?P q)" using a q by (simp add: kept_def)
  have asm: "assemble s = sl # join sl (sx_segments s)" using a by (simp add: assemble_def)
  have again: "filter kept (split_on ?P (assemble s)) = sx_segments s"
    using split_kept_join [OF ss] by (simp add: asm kept_def)
  have size: "byte_length (join sl (sx_segments s)) \<le> byte_length q" by (rule join_size [OF ss]) simp_all
  have chars: "x \<in> set p" if "x \<in> set (assemble s)" for x
    using that kept_chars [OF ss] q asm by auto
  have nctl: "\<not> list_ex is_control (assemble s)" using a chars unfolding list_ex_iff by metis
  have "byte_length (assemble s) \<le> byte_length p" using size by (simp add: asm q)
  moreover have "bs \<notin> set (assemble s)" using a chars by blast
  moreover have "assemble s \<noteq> []" "prefix [sl] (assemble s)" by (simp_all add: asm)
  ultimately show ?thesis
    unfolding checkSyntax_posix again using a nctl assms(2) by simp
qed

lemma norm_sep_simps: "byte_length (norm_sep p) = byte_length p" "sl \<notin> set (norm_sep p)"
  by (induction p) (auto simp: norm_sep_def)

lemma norm_sep_id: "sl \<notin> set p \<Longrightarrow> norm_sep p = p"
  by (induction p) (auto simp: norm_sep_def)

lemma norm_sep_control: "list_ex is_control (norm_sep p) = list_ex is_control p"
  by (induction p) (auto simp: norm_sep_def is_control_def code_def)

lemma windows_root_drive:
  "windows_root u n = Inr (False, Some d, True, r) \<longleftrightarrow>
     (\<exists>c. n = c # CHR '':'' # bs # r \<and> is_alpha c \<and> d = upper_ascii c)"
proof
  assume w: "windows_root u n = Inr (False, Some d, True, r)"
  then have "(case n of c # d # _ \<Rightarrow> is_alpha c \<and> d = CHR '':'' | _ \<Rightarrow> False) \<and> 2 < length n \<and> n ! 2 = bs \<and> d = upper_ascii (hd n) \<and> r = drop 3 n"
    by (auto simp: windows_root_def split: if_splits)
  then show "\<exists>c. n = c # CHR '':'' # bs # r \<and> is_alpha c \<and> d = upper_ascii c"
    by (cases n; cases "tl n"; cases "tl (tl n)") auto
next
  assume "\<exists>c. n = c # CHR '':'' # bs # r \<and> is_alpha c \<and> d = upper_ascii c"
  then obtain c where "n = c # CHR '':'' # bs # r" "is_alpha c" "d = upper_ascii c" by blast
  moreover have "c \<noteq> bs" using \<open>is_alpha c\<close> by (auto simp: is_alpha_def code_def)
  ultimately show "windows_root u n = Inr (False, Some d, True, r)"
    by (simp add: windows_root_def is_device_path_def)
qed

lemma upper_ascii_alpha: "is_alpha c \<Longrightarrow> is_alpha (upper_ascii c) \<and> upper_ascii (upper_ascii c) = upper_ascii c \<and>
    (of_char (upper_ascii c) :: nat) < 128 \<and> \<not> is_control (upper_ascii c) \<and> upper_ascii c \<noteq> sl"
proof -
  assume c: "is_alpha c"
  have up: "(of_char (upper_ascii c) :: nat) = (if 97 \<le> (of_char c :: nat) \<and> (of_char c :: nat) \<le> 122 then of_char c - 32 else of_char c)"
    by (auto simp: upper_ascii_def code_def)
  then have r: "65 \<le> (of_char (upper_ascii c) :: nat) \<and> (of_char (upper_ascii c) :: nat) \<le> 90"
    using c by (auto simp: is_alpha_def code_def split: if_splits)
  then have "upper_ascii c \<noteq> sl" by auto
  with r show ?thesis by (auto simp: is_alpha_def upper_ascii_def [of "upper_ascii c"] code_def is_control_def)
qed

lemma roundtrip_windows:
  assumes "checkSyntax (JStr p) True u = Inr s" and "sx_absolute s" and "\<not> sx_unc s"
  shows "checkSyntax (JStr (assemble s)) True u = Inr s"
proof -
  let ?P = "\<lambda>c. c = bs" and ?n = "norm_sep p"
  from assms(1) obtain unc drive ab rest segs where
    w: "p \<noteq> []" "byte_length p \<le> MAX_PATH_UTF8" "\<not> list_ex is_control p" "windows_root u ?n = Inr (unc, drive, ab, rest)"
    and cs: "check_segments True (split_on ?P rest) = Inr segs"
    and s: "s = \<lparr>sx_windows = True, sx_unc = unc, sx_drive = drive, sx_segments = segs, sx_absolute = ab\<rparr>"
    by (auto simp: checkSyntax_def split: if_splits sum.splits)
  have "unc = False \<and> ab = True" using assms(2,3) s by simp
  moreover have "\<exists>d. drive = Some d" using w(4) assms(2,3) s by (auto simp: windows_root_def split: if_splits)
  ultimately obtain d where d: "drive = Some d" "windows_root u ?n = Inr (False, Some d, True, rest)" using w(4) by auto
  then obtain c where c: "?n = c # CHR '':'' # bs # rest" "is_alpha c" "d = upper_ascii c" using windows_root_drive by blast
  note ss = cs [unfolded check_segments_Inr, THEN conjunct1]
  note up = upper_ascii_alpha [OF c(2)]
  let ?j = "join bs segs"
  have asm: "assemble s = d # CHR '':'' # bs # ?j" using s d(1) \<open>unc = False \<and> ab = True\<close> by (simp add: assemble_def)
  have rest: "set rest \<subseteq> set ?n" using c(1) by auto
  have chars: "x = bs \<or> x \<in> set ?n" if "x \<in> set ?j" for x using kept_chars [OF ss that] rest by blast
  have nosl: "sl \<notin> set (assemble s)" using chars norm_sep_simps(2) [of p] c(3) up by (auto simp: asm)
  have nctl: "\<not> list_ex is_control (assemble s)"
  proof -
    have n: "\<not> is_control x" if "x \<in> set ?n" for x using that w(3) norm_sep_control [of p] by (metis list_ex_iff)
    have "\<not> is_control bs" "\<not> is_control (CHR '':'')" by (simp_all add: is_control_def code_def)
    with n chars up c(3) show ?thesis by (auto simp: asm list_ex_iff)
  qed
  have "byte_length ?n = 3 + byte_length rest"
  proof -
    have "(of_char c :: nat) < 128" using c(2) by (auto simp: is_alpha_def code_def)
    then show ?thesis by (simp add: c(1))
  qed
  moreover have "byte_length ?j \<le> byte_length rest" by (rule join_size [OF ss]) simp_all
  ultimately have size: "byte_length (assemble s) \<le> MAX_PATH_UTF8" using w(2) norm_sep_simps(1) [of p] up c(3) by (simp add: asm)
  have root: "windows_root u (norm_sep (assemble s)) = Inr (False, Some d, True, ?j)"
    unfolding norm_sep_id [OF nosl] windows_root_drive using c(3) up by (auto simp: asm)
  have again: "check_segments True (split_on ?P ?j) = Inr segs"
    unfolding check_segments_Inr split_kept_join [OF ss refl] using cs [unfolded check_segments_Inr] by simp
  have "assemble s \<noteq> []" by (simp add: asm)
  with size nctl root again \<open>unc = False \<and> ab = True\<close> s d(1) show ?thesis
    by (simp add: checkSyntax_def)
qed


text \<open>
  The system-tree rule covers what a grant opens: on POSIX, a recursive path grant that is not classified as reaching a
  system tree contains no home directory, no directory of homes and no path in a system tree, however
  those are spelled (case and separators are folded).
\<close>

theorem grant_outside_system_trees:
  assumes "\<not> grantReachesSystemTree g True False homes"
    and "prefix (foldSegments g False) (foldSegments p False)"
  shows "\<not> isSystemTreePath p False homes"
proof
  assume sys: "isSystemTreePath p False homes"
  let ?g = "foldSegments g False" and ?p = "foldSegments p False"
  have ng: "?g \<noteq> []" "\<not> list_ex (\<lambda>f. prefix (foldSegments f False) ?g) (system_dirs False)"
    "\<not> list_ex (\<lambda>h. prefix ?g h) (homeSegments homes False)"
    "\<not> list_ex (\<lambda>f. prefix ?g (foldSegments f False)) (homes_parent False @ system_dirs False)"
    using assms(1) by (auto simp: grantReachesSystemTree_def isSystemTreePath_def Let_def)
  have "?p \<noteq> []" using ng(1) assms(2) by auto
  with sys consider "?p \<in> set (homeSegments homes False)" | f where "f \<in> set (homes_parent False)" "foldSegments f False = ?p"
    | f where "f \<in> set (system_dirs False)" "prefix (foldSegments f False) ?p"
    by (auto simp: isSystemTreePath_def Let_def list_ex_iff)
  then show False
  proof cases
    case 1
    then show False using ng(3) assms(2) by (auto simp: list_ex_iff)
  next
    case (2 f)
    then show False using ng(4) assms(2) unfolding list_ex_iff set_append by (metis UnI1)
  next
    case (3 f)
    from prefix_same_cases [OF 3(2) assms(2)] show False
      using 3(1) ng(2,4) by (auto simp: list_ex_iff)
  qed
qed

section \<open>Witnesses\<close>


theorem grant_outside_system_trees_witness: "\<not> isSystemTreePath ''/srv/data/x'' False [''/home/anna'']"
proof (rule grant_outside_system_trees)
  show "\<not> grantReachesSystemTree ''/srv'' True False [''/home/anna'']" by code_simp
  show "prefix (foldSegments ''/srv'' False) (foldSegments ''/srv/data/x'' False)" by code_simp
qed

end
