(* ===== verification/Perm_Db.thy ===== *)
theory Perm_Db
  imports Policy_Decide
begin

text \<open>
  The permission database that the approval chain, the approval store and the grant store share:
  \<^verbatim>\<open>packages/core/src/approvals/db.ts\<close>, the row types of \<^verbatim>\<open>approvals/chain.ts\<close>, \<^verbatim>\<open>approvals/store.ts\<close> and
  \<^verbatim>\<open>grants/store.ts\<close>, and the state of one connection: the database, the generation and the cached
  snapshot of its \<open>ApprovalChain\<close> object, the lines handed to the audit trail, and what the grant store has
  announced to its listener.

  An operation takes that state to a result, a value or a raised exception, and a state. \<open>transaction\<close> rolls
  the database back when its body raises; the memory of the process, the cache included, is not rolled back.
\<close>

section \<open>JSON columns\<close>

text \<open>
  The text of a JSON column is what \<open>JSON.parse\<close> reads from it, or text that is no JSON. \<open>JSON.stringify\<close>
  writes a number that is not finite, and an undefined array element, as null.
\<close>

datatype json_text = Json jsval | NotJson string

definition undef_null :: "jsval \<Rightarrow> jsval" where
  "undef_null v = (if v = JUndef then JNull else v)"

primrec json_value :: "jsval \<Rightarrow> jsval" where
  "json_value JUndef = JUndef"
| "json_value JNull = JNull"
| "json_value (JBool b) = JBool b"
| "json_value (JNum n) = (if is_finite n then JNum n else JNull)"
| "json_value (JStr s) = JStr s"
| "json_value (JArr xs) = JArr (map undef_null (map json_value xs))"
| "json_value (JObj kvs) = JObj (map (map_prod id json_value) kvs)"

definition stringify :: "jsval \<Rightarrow> json_text" where
  "stringify v = Json (json_value v)"

definition json_parse :: "json_text \<Rightarrow> jsval option" where
  "json_parse t = (case t of Json v \<Rightarrow> Some v | NotJson _ \<Rightarrow> None)"

text \<open>\<open>Number(v)\<close>; a string is never written where the stores read a number, and is read as \<open>NaN\<close>.\<close>

definition to_number :: "jsval \<Rightarrow> jsnum" where
  "to_number v = (case v of JNum n \<Rightarrow> n | JNull \<Rightarrow> Fin 0 | JBool b \<Rightarrow> Fin (if b then 1 else 0) | _ \<Rightarrow> NaN)"

lemma json_value_idem: "json_value (json_value v) = json_value v"
proof (induction v)
  case (JArr xs)
  have "json_value (undef_null (json_value x)) = json_value x \<or> undef_null (json_value x) = JNull" if "x \<in> set xs" for x
    using JArr [OF that] by (auto simp: undef_null_def)
  then have "undef_null (json_value (undef_null (json_value x))) = undef_null (json_value x)" if "x \<in> set xs" for x
    using JArr [OF that] that by (auto simp: undef_null_def)
  then show ?case by simp
next
  case (JObj kvs)
  have "(k, json_value (json_value x)) = (k, json_value x)" if "(k, x) \<in> set kvs" for k x
    using JObj [OF that] by (simp add: snds.simps)
  then show ?case by (auto simp: map_prod_def split: prod.splits)
qed simp_all

lemma jget_json_value: "jget (json_value v) k = json_value (jget v k)"
proof (cases v)
  case (JObj kvs)
  have "(case map_of (map (map_prod id json_value) kvs) k of None \<Rightarrow> JUndef | Some x \<Rightarrow> x) =
      json_value (case map_of kvs k of None \<Rightarrow> JUndef | Some x \<Rightarrow> x)"
    by (induction kvs) auto
  with JObj show ?thesis by (simp add: jget_def)
qed simp_all

section \<open>Rows\<close>

datatype verify_failure = SeqGap | PrevMismatch | MacMismatch | Truncated | HeadMismatch
  | Malformed | NonceReuse | BindingMismatch | Duplicate | SignatureMismatch

record chain_entry =
  ce_seq :: nat
  ce_ts :: rat
  ce_kind :: string
  ce_refId :: string
  ce_nonce :: "string option"
  ce_payload :: json_text
  ce_prevMac :: string
  ce_mac :: string

record sig_row =
  sg_alg :: string
  sg_publicKey :: string
  sg_signature :: string

text \<open>A row of the projection table \<open>approvals\<close>.\<close>

record approval_row =
  ap_principal :: string
  ap_subjectKind :: string
  ap_subjectId :: string
  ap_capability :: string
  ap_actionHash :: string
  ap_turnId :: string
  ap_taskId :: string
  ap_sessionId :: string
  ap_nonce :: string
  ap_status :: string
  ap_createdAt :: rat
  ap_expiresAt :: jsnum
  ap_decidedAt :: "rat option"
  ap_decidedBy :: "string option"
  ap_decisionSurface :: "nat option"
  ap_usedAt :: "rat option"
  ap_delegable :: bool

record grant_row =
  gr_person :: string
  gr_agent :: string
  gr_capability :: string
  gr_effect :: "string option"
  gr_match :: grant_match
  gr_duration :: grant_scope
  gr_createdBy :: string
  gr_createdAt :: rat
  gr_expiresAt :: "rat option"
  gr_revokedAt :: "rat option"
  gr_endReason :: "string option"
  gr_lastUsedAt :: "rat option"
  gr_consumedAt :: "rat option"
  gr_actionHash :: "string option"
  gr_taskId :: "string option"
  gr_sessionId :: "string option"
  gr_projectId :: "string option"
  gr_jobId :: "string option"
  gr_delegable :: bool
  gr_surface :: nat
  gr_acknowledgedUnsandboxed :: bool
  gr_attestedVia :: "string option"
  gr_defHash :: string
  gr_chainSeq :: nat

record perm_db =
  db_rows :: "chain_entry list"
  db_head :: "(nat \<times> string \<times> string) option"
  db_sigs :: "(nat \<times> sig_row) list"
  db_approvals :: "(string \<times> approval_row) list"
  db_grants :: "(string \<times> grant_row) list"

definition empty_db :: perm_db where
  "empty_db = \<lparr>db_rows = [], db_head = None, db_sigs = [], db_approvals = [], db_grants = []\<rparr>"

section \<open>The connection and its operations\<close>

text \<open>The verdict on a chain, and its entries: \<open>None\<close> when it verifies.\<close>

record snapshot =
  sn_broken :: "(nat \<times> verify_failure) option"
  sn_entries :: "chain_entry list"

text \<open>The Ed25519 identity that signs decisions: its public key and what it answers for a MAC.\<close>

record signer =
  si_publicKey :: string
  si_sign :: "string \<Rightarrow> string"

text \<open>\<open>pm_dv\<close> is the connection's \<open>data_version\<close>: it changes when another connection commits.\<close>

record perm =
  pm_db :: perm_db
  pm_dv :: nat
  pm_gen :: nat
  pm_cache :: "(nat \<times> nat \<times> snapshot) option"
  pm_signer :: "signer option"
  pm_audit :: "(string \<times> jsval) list"
  pm_emitted :: "(string \<times> string) list"
  pm_notices :: "(string \<times> string \<times> string) list"

definition init_perm :: "signer option \<Rightarrow> perm" where
  "init_perm sg = \<lparr>pm_db = empty_db, pm_dv = 0, pm_gen = 0, pm_cache = None, pm_signer = sg, pm_audit = [], pm_emitted = [], pm_notices = []\<rparr>"

datatype grant_error = InvalidGrant | CeilingExceeded | SurfaceTooLow | NeverCapability | DuplicateId

datatype exn = ChainError nat verify_failure | SqliteError | RangeError | TypeError | GrantError grant_error
  | Refused string | AuditError

type_synonym 'a op = "perm \<Rightarrow> (exn, 'a) result \<times> perm"

definition ret :: "'a \<Rightarrow> 'a op" where
  "ret x = (\<lambda>s. (Inr x, s))"

definition raise :: "exn \<Rightarrow> 'a op" where
  "raise e = (\<lambda>s. (Inl e, s))"

definition bind_op :: "'a op \<Rightarrow> ('a \<Rightarrow> 'b op) \<Rightarrow> 'b op" where
  "bind_op m f = (\<lambda>s. case m s of (Inl e, s') \<Rightarrow> (Inl e, s') | (Inr x, s') \<Rightarrow> f x s')"

definition query :: "(perm_db \<Rightarrow> 'a) \<Rightarrow> 'a op" where
  "query f = (\<lambda>s. (Inr (f (pm_db s)), s))"

definition update :: "(perm_db \<Rightarrow> perm_db) \<Rightarrow> unit op" where
  "update f = (\<lambda>s. (Inr (), s\<lparr>pm_db := f (pm_db s)\<rparr>))"

text \<open>\<open>transaction\<close>: commit what the body did, or roll the database back and raise again.\<close>

definition transaction :: "'a op \<Rightarrow> 'a op" where
  "transaction m = (\<lambda>s. case m s of
     (Inr x, s') \<Rightarrow> (Inr x, s')
   | (Inl e, s') \<Rightarrow> (Inl e, s'\<lparr>pm_db := pm_db s\<rparr>))"

lemma ret_simp [simp]: "ret x s = (Inr x, s)"
  by (simp add: ret_def)

lemma raise_simp [simp]: "raise e s = (Inl e, s)"
  by (simp add: raise_def)

lemma query_simp [simp]: "query f s = (Inr (f (pm_db s)), s)"
  by (simp add: query_def)

lemma update_simp [simp]: "update f s = (Inr (), s\<lparr>pm_db := f (pm_db s)\<rparr>)"
  by (simp add: update_def)

lemma bind_op_ret [simp]: "bind_op (ret x) f s = f x s"
  by (simp add: bind_op_def)

lemma bind_op_raise [simp]: "bind_op (raise e) f s = (Inl e, s)"
  by (simp add: bind_op_def)

lemma bind_op_query [simp]: "bind_op (query g) f s = f (g (pm_db s)) s"
  by (simp add: bind_op_def)

lemma bind_op_update [simp]: "bind_op (update g) f s = f () (s\<lparr>pm_db := g (pm_db s)\<rparr>)"
  by (simp add: bind_op_def)

lemma bind_op_InrE:
  assumes "bind_op m f s = (Inr y, s'')"
  obtains x s' where "m s = (Inr x, s')" "f x s' = (Inr y, s'')"
  using assms by (auto simp: bind_op_def split: prod.splits sum.splits)

lemma transaction_Inr [simp]: "transaction m s = (Inr x, s') \<longleftrightarrow> m s = (Inr x, s')"
  by (auto simp: transaction_def split: prod.splits sum.splits)

lemma transaction_InlD:
  "transaction m s = (Inl e, s') \<Longrightarrow> \<exists>s1. m s = (Inl e, s1) \<and> s' = s1\<lparr>pm_db := pm_db s\<rparr>"
  by (auto simp: transaction_def split: prod.splits sum.splits)

end
