(* ===== verification/Approval_Chain.thy ===== *)
theory Approval_Chain
  imports Perm_Db
begin

text \<open>
  The append-only event log with an HMAC chain: \<^verbatim>\<open>packages/core/src/approvals/chain.ts\<close>. The keyed functions are
  parameters: \<open>cr_mac\<close> is HMAC-SHA256 under the installation key of the JSON array the code builds (two arrays
  that differ have different JSON texts, so the model hands over the array), \<open>cr_verifySig\<close> is the Ed25519
  verification of \<^verbatim>\<open>approvals/signing.ts\<close>, \<open>cr_sha\<close> is SHA-256.

  Verification walks the entries, then the pinned head, then the binding and replay rules, then the
  signatures. The lemmas characterise a chain that verifies, show that a well-formed append keeps it
  verified, and that a verified chain whose MACs are genuine can only be an older copy of the real one.
\<close>

section \<open>Verification\<close>

datatype mac_msg =
    EntryMsg string nat rat string string "string option" json_text
  | HeadMsg nat string

record crypto =
  cr_mac :: "mac_msg \<Rightarrow> string"
  cr_verifySig :: "string \<Rightarrow> string \<Rightarrow> string \<Rightarrow> bool"
  cr_sha :: "jsval \<Rightarrow> string"

definition GENESIS_MAC :: string where
  "GENESIS_MAC = replicate 64 CHR ''0''"

text \<open>
  \<open>eq\<close> compares the lengths in characters and then the bytes; \<open>timingSafeEqual\<close> raises when the byte
  lengths differ, which is \<open>None\<close>.
\<close>

definition mac_eq :: "string \<Rightarrow> string \<Rightarrow> bool option" where
  "mac_eq a b = (if length a \<noteq> length b then Some False
     else if byte_length a \<noteq> byte_length b then None else Some (a = b))"

definition entry_msg :: "string \<Rightarrow> chain_entry \<Rightarrow> mac_msg" where
  "entry_msg prev e = EntryMsg prev (ce_seq e) (ce_ts e) (ce_kind e) (ce_refId e) (ce_nonce e) (ce_payload e)"

datatype check = Threw | Holds | Broken nat verify_failure

fun check_links :: "crypto \<Rightarrow> nat \<Rightarrow> string \<Rightarrow> chain_entry list \<Rightarrow> check" where
  "check_links c expected prev [] = Holds"
| "check_links c expected prev (e # es) =
    (if ce_seq e \<noteq> expected then Broken expected SeqGap
     else case mac_eq (ce_prevMac e) prev of
       None \<Rightarrow> Threw
     | Some False \<Rightarrow> Broken (ce_seq e) PrevMismatch
     | Some True \<Rightarrow>
       (case mac_eq (ce_mac e) (cr_mac c (entry_msg prev e)) of
          None \<Rightarrow> Threw
        | Some False \<Rightarrow> Broken (ce_seq e) MacMismatch
        | Some True \<Rightarrow> check_links c (expected + 1) (ce_mac e) es))"

definition check_head :: "crypto \<Rightarrow> chain_entry list \<Rightarrow> (nat \<times> string \<times> string) option \<Rightarrow> check" where
  "check_head c rows head =
    (let n = length rows in
     if n = 0 then (if head = None then Holds else Broken 1 Truncated)
     else case head of
       None \<Rightarrow> Broken n HeadMismatch
     | Some (seq, mac, tag) \<Rightarrow>
       (case mac_eq tag (cr_mac c (HeadMsg seq mac)) of
          None \<Rightarrow> Threw
        | Some False \<Rightarrow> Broken n HeadMismatch
        | Some True \<Rightarrow>
          (if n < seq then Broken (n + 1) Truncated
           else if seq < n then Broken (seq + 1) HeadMismatch
           else case mac_eq mac (ce_mac (last rows)) of
             None \<Rightarrow> Threw
           | Some False \<Rightarrow> Broken n HeadMismatch
           | Some True \<Rightarrow> Holds)))"

text \<open>The canonical tuple of a binding: the JSON array of seven strings, compared as the list of them.\<close>

definition bindingTuple :: "jsval \<Rightarrow> string list option" where
  "bindingTuple b =
    (let s = jget b ''subject'';
         parts = [jget b ''actionHash'', jget b ''principal'', jget s ''kind'', jget s ''id'', jget b ''turnId'', jget b ''taskId'', jget b ''sessionId'']
     in if list_all is_str parts then Some (List.map_filter str_of parts) else None)"

record sem =
  se_requested :: "string \<rightharpoonup> string list \<times> string option"
  se_decided :: "string \<rightharpoonup> string"
  se_used :: "string set"
  se_cancelled :: "string set"
  se_nonces :: "string set"

definition sem_init :: sem where
  "sem_init = \<lparr>se_requested = Map.empty, se_decided = Map.empty, se_used = {}, se_cancelled = {}, se_nonces = {}\<rparr>"

definition starts_with :: "string \<Rightarrow> string \<Rightarrow> bool" where
  "starts_with s p = prefix p s"

definition sem_requested :: "sem \<Rightarrow> chain_entry \<Rightarrow> string list option \<Rightarrow> verify_failure + sem" where
  "sem_requested \<sigma> e tuple =
    (case tuple of
       None \<Rightarrow> Inl Malformed
     | Some t \<Rightarrow> (if se_requested \<sigma> (ce_refId e) \<noteq> None then Inl Duplicate
                 else Inr (\<sigma>\<lparr>se_requested := (se_requested \<sigma>)(ce_refId e \<mapsto> (t, ce_nonce e))\<rparr>)))"

definition sem_decided :: "sem \<Rightarrow> chain_entry \<Rightarrow> string list option \<Rightarrow> jsval \<Rightarrow> verify_failure + sem" where
  "sem_decided \<sigma> e tuple decision =
    (case ce_nonce e of
       None \<Rightarrow> Inl NonceReuse
     | Some nonce \<Rightarrow>
       (if nonce \<in> se_nonces \<sigma> then Inl NonceReuse
        else case se_requested \<sigma> (ce_refId e) of
          None \<Rightarrow> Inl BindingMismatch
        | Some (t, n) \<Rightarrow>
          (if tuple \<noteq> Some t \<or> n \<noteq> Some nonce then Inl BindingMismatch
           else if se_decided \<sigma> (ce_refId e) \<noteq> None then Inl Duplicate
           else if ce_refId e \<in> se_cancelled \<sigma> then Inl BindingMismatch
           else case decision of
             JStr d \<Rightarrow> (if d = ''approve'' \<or> d = ''deny''
               then Inr (\<sigma>\<lparr>se_nonces := insert nonce (se_nonces \<sigma>), se_decided := (se_decided \<sigma>)(ce_refId e \<mapsto> d)\<rparr>)
               else Inl Malformed)
           | _ \<Rightarrow> Inl Malformed)))"

definition sem_cancelled :: "sem \<Rightarrow> chain_entry \<Rightarrow> string list option \<Rightarrow> verify_failure + sem" where
  "sem_cancelled \<sigma> e tuple =
    (case se_requested \<sigma> (ce_refId e) of
       None \<Rightarrow> Inl BindingMismatch
     | Some (t, n) \<Rightarrow>
       (if tuple \<noteq> Some t \<or> se_decided \<sigma> (ce_refId e) \<noteq> None then Inl BindingMismatch
        else Inr (\<sigma>\<lparr>se_cancelled := insert (ce_refId e) (se_cancelled \<sigma>)\<rparr>)))"

definition sem_used :: "sem \<Rightarrow> chain_entry \<Rightarrow> string list option \<Rightarrow> verify_failure + sem" where
  "sem_used \<sigma> e tuple =
    (case se_requested \<sigma> (ce_refId e) of
       None \<Rightarrow> Inl BindingMismatch
     | Some (t, n) \<Rightarrow>
       (if tuple \<noteq> Some t \<or> se_decided \<sigma> (ce_refId e) \<noteq> Some ''approve'' then Inl BindingMismatch
        else if ce_refId e \<in> se_used \<sigma> then Inl Duplicate
        else Inr (\<sigma>\<lparr>se_used := insert (ce_refId e) (se_used \<sigma>)\<rparr>)))"

definition is_object :: "jsval \<Rightarrow> bool" where
  "is_object v = (case v of JObj _ \<Rightarrow> True | JArr _ \<Rightarrow> True | _ \<Rightarrow> False)"

definition sem_step :: "sem \<Rightarrow> chain_entry \<Rightarrow> verify_failure + sem" where
  "sem_step \<sigma> e =
    (if \<not> starts_with (ce_kind e) ''approval.'' then Inr \<sigma>
     else case json_parse (ce_payload e) of
       None \<Rightarrow> Inl Malformed
     | Some p \<Rightarrow>
       (if \<not> is_object p then Inl Malformed
        else let tuple = bindingTuple (jget p ''bound'') in
          if ce_kind e = ''approval.requested'' then sem_requested \<sigma> e tuple
          else if ce_kind e = ''approval.decided'' then sem_decided \<sigma> e tuple (jget p ''decision'')
          else if ce_kind e = ''approval.cancelled'' then sem_cancelled \<sigma> e tuple
          else if ce_kind e = ''approval.used'' then sem_used \<sigma> e tuple
          else Inr \<sigma>))"

fun semantic :: "sem \<Rightarrow> chain_entry list \<Rightarrow> (nat \<times> verify_failure) + sem" where
  "semantic \<sigma> [] = Inr \<sigma>"
| "semantic \<sigma> (e # es) = (case sem_step \<sigma> e of Inl f \<Rightarrow> Inl (ce_seq e, f) | Inr \<sigma>' \<Rightarrow> semantic \<sigma>' es)"

definition bad_signature :: "crypto \<Rightarrow> signer option \<Rightarrow> (nat \<times> sig_row) list \<Rightarrow> chain_entry \<Rightarrow> bool" where
  "bad_signature c sg sigs e \<longleftrightarrow>
     ce_kind e = ''approval.decided'' \<and>
     (case map_of sigs (ce_seq e) of
        None \<Rightarrow> False
      | Some row \<Rightarrow> \<not> (cr_verifySig c (ce_mac e) (sg_publicKey row) (sg_signature row) \<and>
          (case sg of None \<Rightarrow> True | Some k \<Rightarrow> sg_publicKey row = si_publicKey k)))"

definition firstBadSignatureSeq :: "crypto \<Rightarrow> signer option \<Rightarrow> (nat \<times> sig_row) list \<Rightarrow> chain_entry list \<Rightarrow> nat option" where
  "firstBadSignatureSeq c sg sigs rows = map_option ce_seq (List.find (bad_signature c sg sigs) rows)"

definition build :: "crypto \<Rightarrow> signer option \<Rightarrow> perm_db \<Rightarrow> snapshot option" where
  "build c sg db =
    (let rows = db_rows db; snap = (\<lambda>b. Some \<lparr>sn_broken = b, sn_entries = rows\<rparr>) in
     case check_links c 1 GENESIS_MAC rows of
       Threw \<Rightarrow> None
     | Broken pos why \<Rightarrow> snap (Some (pos, why))
     | Holds \<Rightarrow>
       (case check_head c rows (db_head db) of
          Threw \<Rightarrow> None
        | Broken pos why \<Rightarrow> snap (Some (pos, why))
        | Holds \<Rightarrow>
          (case semantic sem_init rows of
             Inl f \<Rightarrow> snap (Some f)
           | Inr _ \<Rightarrow>
             (case firstBadSignatureSeq c sg (db_sigs db) rows of
                Some pos \<Rightarrow> snap (Some (pos, SignatureMismatch))
              | None \<Rightarrow> snap None))))"

section \<open>Reading and appending\<close>

definition chain_snapshot :: "crypto \<Rightarrow> snapshot op" where
  "chain_snapshot c = (\<lambda>s.
    (case (case pm_cache s of Some (dv, g, sn) \<Rightarrow> (if dv = pm_dv s \<and> g = pm_gen s then Some sn else None) | None \<Rightarrow> None) of
       Some sn \<Rightarrow> (Inr sn, s)
     | None \<Rightarrow>
       (case build c (pm_signer s) (pm_db s) of
          None \<Rightarrow> (Inl RangeError, s)
        | Some sn \<Rightarrow> (Inr sn, s\<lparr>pm_cache := Some (pm_dv s, pm_gen s, sn)\<rparr>))))"

definition setSigner :: "signer option \<Rightarrow> perm \<Rightarrow> perm" where
  "setSigner sg s = s\<lparr>pm_signer := sg, pm_gen := pm_gen s + 1, pm_cache := None\<rparr>"

definition by_ref :: "snapshot \<Rightarrow> string \<Rightarrow> chain_entry list" where
  "by_ref sn ref = filter (\<lambda>e. ce_refId e = ref) (sn_entries sn)"

definition trustedBelow :: "snapshot \<Rightarrow> nat \<Rightarrow> bool" where
  "trustedBelow sn seq = (case sn_broken sn of None \<Rightarrow> True | Some (pos, _) \<Rightarrow> seq < pos)"

text \<open>
  The insert of a row: the primary key \<open>seq\<close> and the unique index on kind and reference of the
  approval entries; the table is read in the order of \<open>seq\<close>.
\<close>

definition insert_row :: "chain_entry \<Rightarrow> chain_entry list \<Rightarrow> chain_entry list option" where
  "insert_row e rows =
    (if list_ex (\<lambda>x. ce_seq x = ce_seq e) rows \<or>
        starts_with (ce_kind e) ''approval.'' \<and> list_ex (\<lambda>x. ce_kind x = ce_kind e \<and> ce_refId x = ce_refId e) rows
     then None
     else Some (takeWhile (\<lambda>x. ce_seq x < ce_seq e) rows @ e # dropWhile (\<lambda>x. ce_seq x < ce_seq e) rows))"

definition next_entry :: "crypto \<Rightarrow> rat \<Rightarrow> snapshot \<Rightarrow> string \<Rightarrow> string \<Rightarrow> jsval \<Rightarrow> string option \<Rightarrow> chain_entry" where
  "next_entry c now sn kind ref payload nonce =
    (let es = sn_entries sn;
         prev = (if es = [] then GENESIS_MAC else ce_mac (last es));
         base = \<lparr>ce_seq = (if es = [] then 0 else ce_seq (last es)) + 1, ce_ts = now, ce_kind = kind, ce_refId = ref,
           ce_nonce = nonce, ce_payload = stringify payload, ce_prevMac = prev, ce_mac = []\<rparr>
     in base\<lparr>ce_mac := cr_mac c (entry_msg prev base)\<rparr>)"

text \<open>The statements of an append: the row, the pinned head, and the signature of a decision.\<close>

definition insert_entry :: "crypto \<Rightarrow> chain_entry \<Rightarrow> chain_entry op" where
  "insert_entry c e = (\<lambda>s.
    let s1 = s\<lparr>pm_gen := pm_gen s + 1\<rparr>; db = pm_db s
    in case insert_row e (db_rows db) of
         None \<Rightarrow> (Inl SqliteError, s1)
       | Some rows \<Rightarrow>
         (let db1 = db\<lparr>db_rows := rows, db_head := Some (ce_seq e, ce_mac e, cr_mac c (HeadMsg (ce_seq e) (ce_mac e)))\<rparr>
          in case pm_signer s of
               Some k \<Rightarrow>
                 (if ce_kind e = ''approval.decided'' then
                    (if map_of (db_sigs db) (ce_seq e) \<noteq> None then (Inl SqliteError, s1\<lparr>pm_db := db1\<rparr>)
                     else (Inr e, s1\<lparr>pm_db := db1\<lparr>db_sigs := db_sigs db @
                        [(ce_seq e, \<lparr>sg_alg = ''Ed25519'', sg_publicKey = si_publicKey k, sg_signature = si_sign k (ce_mac e)\<rparr>)]\<rparr>\<rparr>))
                  else (Inr e, s1\<lparr>pm_db := db1\<rparr>))
             | None \<Rightarrow> (Inr e, s1\<lparr>pm_db := db1\<rparr>)))"

definition append_run :: "crypto \<Rightarrow> rat \<Rightarrow> string \<Rightarrow> string \<Rightarrow> jsval \<Rightarrow> string option \<Rightarrow> chain_entry op" where
  "append_run c now kind ref payload nonce =
    bind_op (chain_snapshot c) (\<lambda>sn.
      case sn_broken sn of
        Some (pos, why) \<Rightarrow> raise (ChainError pos why)
      | None \<Rightarrow> insert_entry c (next_entry c now sn kind ref payload nonce))"

text \<open>\<open>append\<close> inside the caller's transaction: the generation moves on whatever happened.\<close>

definition chain_append :: "crypto \<Rightarrow> rat \<Rightarrow> string \<Rightarrow> string \<Rightarrow> jsval \<Rightarrow> string option \<Rightarrow> chain_entry op" where
  "chain_append c now kind ref payload nonce = (\<lambda>s.
     case append_run c now kind ref payload nonce s of (r, s') \<Rightarrow> (r, s'\<lparr>pm_gen := pm_gen s' + 1\<rparr>))"

section \<open>A chain that verifies\<close>

lemma mac_eq_True [simp]: "mac_eq a b = Some True \<longleftrightarrow> a = b"
  by (auto simp: mac_eq_def)

lemma mac_eq_refl [simp]: "mac_eq a a = Some True"
  by simp

fun links_ok :: "crypto \<Rightarrow> nat \<Rightarrow> string \<Rightarrow> chain_entry list \<Rightarrow> bool" where
  "links_ok c n prev [] \<longleftrightarrow> True"
| "links_ok c n prev (e # es) \<longleftrightarrow>
     ce_seq e = n \<and> ce_prevMac e = prev \<and> ce_mac e = cr_mac c (entry_msg prev e) \<and> links_ok c (n + 1) (ce_mac e) es"

lemma check_links_Holds: "check_links c n prev es = Holds \<longleftrightarrow> links_ok c n prev es"
proof (induction es arbitrary: n prev)
  case (Cons e es)
  show ?case
  proof (cases "mac_eq (ce_prevMac e) prev = Some True \<and> mac_eq (ce_mac e) (cr_mac c (entry_msg prev e)) = Some True")
    case True
    with Cons show ?thesis by (auto split: option.splits bool.splits)
  next
    case False
    then have "check_links c n prev (e # es) \<noteq> Holds" by (auto split: option.splits bool.splits)
    moreover from False have "\<not> links_ok c n prev (e # es)" by auto
    ultimately show ?thesis by blast
  qed
qed simp

definition end_mac :: "string \<Rightarrow> chain_entry list \<Rightarrow> string" where
  "end_mac prev es = (if es = [] then prev else ce_mac (last es))"

lemma links_ok_append:
  "links_ok c n prev (xs @ ys) \<longleftrightarrow> links_ok c n prev xs \<and> links_ok c (n + length xs) (end_mac prev xs) ys"
  by (induction xs arbitrary: n prev) (auto simp: end_mac_def)

lemma links_ok_seq: "links_ok c n prev es \<Longrightarrow> i < length es \<Longrightarrow> ce_seq (es ! i) = n + i"
  by (induction es arbitrary: n prev i) (auto simp: nth_Cons split: nat.splits)

lemma links_ok_seq_bounds: "links_ok c n prev es \<Longrightarrow> e \<in> set es \<Longrightarrow> n \<le> ce_seq e \<and> ce_seq e < n + length es"
  by (induction es arbitrary: n prev) (auto, force+)

definition head_ok :: "crypto \<Rightarrow> chain_entry list \<Rightarrow> (nat \<times> string \<times> string) option \<Rightarrow> bool" where
  "head_ok c rows head \<longleftrightarrow>
     head = (if rows = [] then None
       else Some (length rows, ce_mac (last rows), cr_mac c (HeadMsg (length rows) (ce_mac (last rows)))))"

lemma check_head_Holds: "check_head c rows head = Holds \<longleftrightarrow> head_ok c rows head"
proof (cases "rows = [] \<or> head = None")
  case True
  then show ?thesis by (auto simp: check_head_def head_ok_def)
next
  case False
  then obtain q m t where h: "head = Some (q, m, t)" and r: "rows \<noteq> []" by (cases head) auto
  show ?thesis
  proof (cases "mac_eq t (cr_mac c (HeadMsg q m)) = Some True \<and> q = length rows \<and> mac_eq m (ce_mac (last rows)) = Some True")
    case True
    with h r show ?thesis by (simp add: check_head_def head_ok_def)
  next
    case F: False
    then have "check_head c rows head \<noteq> Holds"
      using h r by (auto simp: check_head_def Let_def split: option.splits bool.splits if_splits)
    with F h r show ?thesis by (auto simp: head_ok_def)
  qed
qed

definition verified :: "crypto \<Rightarrow> signer option \<Rightarrow> perm_db \<Rightarrow> bool" where
  "verified c sg db \<longleftrightarrow> build c sg db = Some \<lparr>sn_broken = None, sn_entries = db_rows db\<rparr>"

lemma build_entries: "build c sg db = Some sn \<Longrightarrow> sn_entries sn = db_rows db"
  by (auto simp: build_def Let_def split: check.splits sum.splits option.splits)

lemma verified_build: "build c sg db = Some sn \<Longrightarrow> sn_broken sn = None \<longleftrightarrow> verified c sg db"
  using build_entries [of c sg db sn] by (cases sn) (auto simp: verified_def)

lemma firstBad_None: "firstBadSignatureSeq c sg sigs rows = None \<longleftrightarrow> (\<forall>e\<in>set rows. \<not> bad_signature c sg sigs e)"
  by (simp add: firstBadSignatureSeq_def find_None_iff')

lemma verified_iff:
  "verified c sg db \<longleftrightarrow> links_ok c 1 GENESIS_MAC (db_rows db) \<and> head_ok c (db_rows db) (db_head db) \<and>
     (\<exists>\<sigma>. semantic sem_init (db_rows db) = Inr \<sigma>) \<and> (\<forall>e\<in>set (db_rows db). \<not> bad_signature c sg (db_sigs db) e)"
proof (cases "check_links c 1 GENESIS_MAC (db_rows db) = Holds \<and> check_head c (db_rows db) (db_head db) = Holds")
  case True
  then show ?thesis
    by (auto simp: verified_def build_def Let_def check_links_Holds [symmetric] check_head_Holds [symmetric]
        firstBad_None [symmetric] split: sum.splits option.splits)
next
  case False
  then show ?thesis
    by (auto simp: verified_def build_def Let_def check_links_Holds [symmetric] check_head_Holds [symmetric]
        split: check.splits)
qed

lemma semantic_snoc:
  "semantic \<sigma> (es @ [e]) =
    (case semantic \<sigma> es of Inl f \<Rightarrow> Inl f
     | Inr \<sigma>' \<Rightarrow> (case sem_step \<sigma>' e of Inl f \<Rightarrow> Inl (ce_seq e, f) | Inr \<sigma>'' \<Rightarrow> Inr \<sigma>''))"
  by (induction es arbitrary: \<sigma>) (auto split: sum.splits)

section \<open>What the entries of a verified chain say\<close>

definition entry_value :: "chain_entry \<Rightarrow> jsval" where
  "entry_value e = (case json_parse (ce_payload e) of Some v \<Rightarrow> v | None \<Rightarrow> JUndef)"

definition entry_tuple :: "chain_entry \<Rightarrow> string list option" where
  "entry_tuple e = bindingTuple (jget (entry_value e) ''bound'')"

abbreviation has_kind :: "string \<Rightarrow> string \<Rightarrow> chain_entry \<Rightarrow> bool" where
  "has_kind k r e \<equiv> ce_kind e = k \<and> ce_refId e = r"

lemma approval_kinds [simp]:
  "starts_with ''approval.requested'' ''approval.''" "starts_with ''approval.decided'' ''approval.''"
  "starts_with ''approval.cancelled'' ''approval.''" "starts_with ''approval.used'' ''approval.''"
  by (simp_all add: starts_with_def)

lemma sem_stepE:
  assumes "sem_step \<sigma> e = Inr \<sigma>'"
  obtains (other) "ce_kind e \<notin> {''approval.requested'', ''approval.decided'', ''approval.cancelled'', ''approval.used''}" "\<sigma>' = \<sigma>"
  | (requested) t where "ce_kind e = ''approval.requested''" "entry_tuple e = Some t" "se_requested \<sigma> (ce_refId e) = None"
      "\<sigma>' = \<sigma>\<lparr>se_requested := (se_requested \<sigma>)(ce_refId e \<mapsto> (t, ce_nonce e))\<rparr>"
  | (decided) t n d where "ce_kind e = ''approval.decided''" "entry_tuple e = Some t" "ce_nonce e = Some n" "n \<notin> se_nonces \<sigma>"
      "se_requested \<sigma> (ce_refId e) = Some (t, Some n)" "se_decided \<sigma> (ce_refId e) = None" "ce_refId e \<notin> se_cancelled \<sigma>"
      "jget (entry_value e) ''decision'' = JStr d" "d = ''approve'' \<or> d = ''deny''"
      "\<sigma>' = \<sigma>\<lparr>se_nonces := insert n (se_nonces \<sigma>), se_decided := (se_decided \<sigma>)(ce_refId e \<mapsto> d)\<rparr>"
  | (cancelled) t n where "ce_kind e = ''approval.cancelled''" "entry_tuple e = Some t" "se_requested \<sigma> (ce_refId e) = Some (t, n)"
      "se_decided \<sigma> (ce_refId e) = None" "\<sigma>' = \<sigma>\<lparr>se_cancelled := insert (ce_refId e) (se_cancelled \<sigma>)\<rparr>"
  | (used) t n where "ce_kind e = ''approval.used''" "entry_tuple e = Some t" "se_requested \<sigma> (ce_refId e) = Some (t, n)"
      "se_decided \<sigma> (ce_refId e) = Some ''approve''" "ce_refId e \<notin> se_used \<sigma>"
      "\<sigma>' = \<sigma>\<lparr>se_used := insert (ce_refId e) (se_used \<sigma>)\<rparr>"
proof -
  let ?K = "{''approval.requested'', ''approval.decided'', ''approval.cancelled'', ''approval.used''}"
  consider "ce_kind e \<notin> ?K" | "ce_kind e = ''approval.requested''" | "ce_kind e = ''approval.decided''"
    | "ce_kind e = ''approval.cancelled''" | "ce_kind e = ''approval.used''" by blast
  then show thesis
  proof cases
    case 1
    then have "\<sigma>' = \<sigma>" using assms
      by (auto simp: sem_step_def Let_def split: if_splits option.splits)
    with 1 other show thesis by blast
  next
    case 2
    with assms show thesis
      by (cases "se_requested \<sigma> (ce_refId e)")
        (auto simp: sem_step_def Let_def entry_tuple_def entry_value_def sem_requested_def
          split: if_splits option.splits intro!: requested)
  next
    case 3
    then show thesis using assms
      by (auto simp: sem_step_def Let_def entry_tuple_def entry_value_def sem_decided_def
          split: if_splits option.splits jsval.splits intro!: decided)
  next
    case 4
    then show thesis using assms
      by (auto simp: sem_step_def Let_def entry_tuple_def entry_value_def sem_cancelled_def
          split: if_splits option.splits intro!: cancelled)
  next
    case 5
    then show thesis using assms
      by (auto simp: sem_step_def Let_def entry_tuple_def entry_value_def sem_used_def
          split: if_splits option.splits intro!: used)
  qed
qed

text \<open>The state of the replay rules is a view of the entries.\<close>

definition sem_facts :: "chain_entry list \<Rightarrow> sem \<Rightarrow> bool" where
  "sem_facts es \<sigma> \<longleftrightarrow>
     (\<forall>r t n. se_requested \<sigma> r = Some (t, n) \<longleftrightarrow> (\<exists>e\<in>set es. has_kind ''approval.requested'' r e \<and> entry_tuple e = Some t \<and> ce_nonce e = n)) \<and>
     (\<forall>r d. se_decided \<sigma> r = Some d \<longleftrightarrow> (\<exists>e\<in>set es. has_kind ''approval.decided'' r e \<and> jget (entry_value e) ''decision'' = JStr d)) \<and>
     (\<forall>r. r \<in> se_used \<sigma> \<longleftrightarrow> (\<exists>e\<in>set es. has_kind ''approval.used'' r e)) \<and>
     (\<forall>r. r \<in> se_cancelled \<sigma> \<longleftrightarrow> (\<exists>e\<in>set es. has_kind ''approval.cancelled'' r e)) \<and>
     (\<forall>n. n \<in> se_nonces \<sigma> \<longleftrightarrow> (\<exists>e\<in>set es. ce_kind e = ''approval.decided'' \<and> ce_nonce e = Some n))"

lemma sem_factsD:
  assumes "sem_facts es \<sigma>"
  shows "se_requested \<sigma> r = Some (t, n) \<longleftrightarrow> (\<exists>e\<in>set es. has_kind ''approval.requested'' r e \<and> entry_tuple e = Some t \<and> ce_nonce e = n)"
    and "se_decided \<sigma> r = Some d \<longleftrightarrow> (\<exists>e\<in>set es. has_kind ''approval.decided'' r e \<and> jget (entry_value e) ''decision'' = JStr d)"
    and "r \<in> se_used \<sigma> \<longleftrightarrow> (\<exists>e\<in>set es. has_kind ''approval.used'' r e)"
    and "r \<in> se_cancelled \<sigma> \<longleftrightarrow> (\<exists>e\<in>set es. has_kind ''approval.cancelled'' r e)"
    and "m \<in> se_nonces \<sigma> \<longleftrightarrow> (\<exists>e\<in>set es. ce_kind e = ''approval.decided'' \<and> ce_nonce e = Some m)"
  using assms unfolding sem_facts_def by blast+

lemma sem_facts_step:
  assumes "sem_facts es \<sigma>" and "sem_step \<sigma> e = Inr \<sigma>'"
  shows "sem_facts (es @ [e]) \<sigma>'"
  using assms(2)
proof (cases rule: sem_stepE)
  case other
  with assms(1) show ?thesis unfolding sem_facts_def by auto
next
  case (requested t)
  have "\<not> (\<exists>x\<in>set es. has_kind ''approval.requested'' (ce_refId e) x \<and> entry_tuple x = Some t' \<and> ce_nonce x = n)" for t' n
    using assms(1) requested(3) unfolding sem_facts_def by (metis option.distinct(1))
  with requested assms(1) show ?thesis unfolding sem_facts_def by auto
next
  case (decided t n d)
  have "\<not> (\<exists>x\<in>set es. has_kind ''approval.decided'' (ce_refId e) x \<and> jget (entry_value x) ''decision'' = JStr d')" for d'
    using assms(1) decided(6) unfolding sem_facts_def by (metis option.distinct(1))
  with decided assms(1) show ?thesis unfolding sem_facts_def by auto
next
  case (cancelled t n)
  with assms(1) show ?thesis unfolding sem_facts_def by auto
next
  case (used t n)
  with assms(1) show ?thesis unfolding sem_facts_def by auto
qed

lemma semantic_facts: "semantic sem_init es = Inr \<sigma> \<Longrightarrow> sem_facts es \<sigma>"
proof (induction es arbitrary: \<sigma> rule: rev_induct)
  case Nil
  then show ?case by (auto simp: sem_facts_def sem_init_def)
next
  case (snoc e es)
  from snoc.prems obtain \<sigma>0 where "semantic sem_init es = Inr \<sigma>0" "sem_step \<sigma>0 e = Inr \<sigma>"
    by (auto simp: semantic_snoc split: sum.splits)
  with snoc.IH sem_facts_step show ?case by blast
qed

text \<open>The entries of the four kinds are well formed, and each occurs once per request.\<close>

definition once_kinds :: "string set" where
  "once_kinds = {''approval.requested'', ''approval.decided'', ''approval.used''}"

definition kind_once :: "chain_entry list \<Rightarrow> bool" where
  "kind_once es \<longleftrightarrow> (\<forall>x\<in>set es. \<forall>y\<in>set es.
     ce_kind x \<in> once_kinds \<longrightarrow> ce_kind x = ce_kind y \<longrightarrow> ce_refId x = ce_refId y \<longrightarrow> x = y)"

lemma kind_onceD:
  "kind_once es \<Longrightarrow> x \<in> set es \<Longrightarrow> y \<in> set es \<Longrightarrow> ce_kind x \<in> once_kinds \<Longrightarrow> ce_kind x = ce_kind y \<Longrightarrow>
    ce_refId x = ce_refId y \<Longrightarrow> x = y"
  unfolding kind_once_def by blast

lemma kind_once_snoc:
  assumes "kind_once es" and "\<And>x. x \<in> set es \<Longrightarrow> ce_kind x = ce_kind e \<Longrightarrow> ce_refId x = ce_refId e \<Longrightarrow> ce_kind e \<in> once_kinds \<Longrightarrow> False"
  shows "kind_once (es @ [e])"
  unfolding kind_once_def
proof (intro ballI impI)
  fix x y
  assume "x \<in> set (es @ [e])" "y \<in> set (es @ [e])" and k: "ce_kind x \<in> once_kinds" "ce_kind x = ce_kind y" "ce_refId x = ce_refId y"
  then consider "x \<in> set es \<and> y \<in> set es" | "x \<in> set es \<and> y = e" | "x = e \<and> y \<in> set es" | "x = e \<and> y = e" by auto
  then show "x = y"
  proof cases
    case 1 then show ?thesis using kind_onceD [OF assms(1)] k by blast
  next
    case 2 with k assms(2) [of x] show ?thesis by simp
  next
    case 3 with k assms(2) [of y] show ?thesis by simp
  qed simp
qed

lemma sem_step_once:
  assumes "sem_facts es \<sigma>" and "sem_step \<sigma> e = Inr \<sigma>'" and "x \<in> set es" and "ce_kind x = ce_kind e" "ce_refId x = ce_refId e"
    and "ce_kind e \<in> once_kinds"
    and "\<And>y. y \<in> set es \<Longrightarrow> ce_kind y = ''approval.requested'' \<Longrightarrow> entry_tuple y \<noteq> None"
    and "\<And>y. y \<in> set es \<Longrightarrow> ce_kind y = ''approval.decided'' \<Longrightarrow> \<exists>d. jget (entry_value y) ''decision'' = JStr d"
  shows False
  using assms(2)
proof (cases rule: sem_stepE)
  case other
  with assms(6) show False unfolding once_kinds_def by blast
next
  case (requested t)
  then obtain t' where "entry_tuple x = Some t'" using assms(3,4,7) by fastforce
  then have "se_requested \<sigma> (ce_refId e) = Some (t', ce_nonce x)"
    using sem_factsD(1) [OF assms(1)] assms(3,4,5) requested(1) by auto
  with requested(3) show False by simp
next
  case (decided t n d)
  then obtain d' where "jget (entry_value x) ''decision'' = JStr d'"
    using assms(3,4,8) by fastforce
  then have "se_decided \<sigma> (ce_refId e) = Some d'"
    using sem_factsD(2) [OF assms(1)] assms(3,4,5) decided(1) by auto
  with decided(6) show False by simp
next
  case (cancelled t n)
  with assms(6) show False by (simp add: once_kinds_def)
next
  case (used t n)
  then have "ce_refId e \<in> se_used \<sigma>" using sem_factsD(3) [OF assms(1)] assms(3,4,5) by auto
  with used(5) show False by simp
qed

lemma semantic_wf:
  "semantic sem_init es = Inr \<sigma> \<Longrightarrow>
    (\<forall>e\<in>set es. (ce_kind e = ''approval.requested'' \<longrightarrow> entry_tuple e \<noteq> None) \<and>
       (ce_kind e = ''approval.decided'' \<longrightarrow> (\<exists>d. jget (entry_value e) ''decision'' = JStr d \<and> (d = ''approve'' \<or> d = ''deny'')))) \<and>
    kind_once es"
proof (induction es arbitrary: \<sigma> rule: rev_induct)
  case Nil
  then show ?case by (simp add: kind_once_def)
next
  case (snoc e es)
  from snoc.prems obtain \<sigma>0 where s0: "semantic sem_init es = Inr \<sigma>0" and st: "sem_step \<sigma>0 e = Inr \<sigma>"
    by (auto simp: semantic_snoc split: sum.splits)
  note IH = snoc.IH [OF s0]
  have wf: "(ce_kind e = ''approval.requested'' \<longrightarrow> entry_tuple e \<noteq> None) \<and>
       (ce_kind e = ''approval.decided'' \<longrightarrow> (\<exists>d. jget (entry_value e) ''decision'' = JStr d \<and> (d = ''approve'' \<or> d = ''deny'')))"
    using st by (cases rule: sem_stepE) auto
  have "kind_once (es @ [e])"
  proof (rule kind_once_snoc)
    fix x assume x: "x \<in> set es" "ce_kind x = ce_kind e" "ce_refId x = ce_refId e" "ce_kind e \<in> once_kinds"
    show False
      by (rule sem_step_once [OF semantic_facts [OF s0] st x]) (use IH in blast)+
  qed (use IH in blast)
  with IH wf show ?case by simp
qed

text \<open>Every decision, cancellation and use stands on a request with its binding, and a use on an approval.\<close>

definition backed :: "chain_entry list \<Rightarrow> chain_entry \<Rightarrow> bool" where
  "backed es x \<longleftrightarrow>
     (ce_kind x = ''approval.decided'' \<longrightarrow>
        (\<exists>y\<in>set es. has_kind ''approval.requested'' (ce_refId x) y \<and> entry_tuple y = entry_tuple x \<and> ce_nonce y = ce_nonce x)) \<and>
     (ce_kind x = ''approval.cancelled'' \<longrightarrow>
        (\<exists>y\<in>set es. has_kind ''approval.requested'' (ce_refId x) y \<and> entry_tuple y = entry_tuple x)) \<and>
     (ce_kind x = ''approval.used'' \<longrightarrow>
        (\<exists>y\<in>set es. has_kind ''approval.requested'' (ce_refId x) y \<and> entry_tuple y = entry_tuple x) \<and>
        (\<exists>z\<in>set es. has_kind ''approval.decided'' (ce_refId x) z \<and> jget (entry_value z) ''decision'' = JStr ''approve''))"

lemma backed_mono: "backed es x \<Longrightarrow> set es \<subseteq> set es' \<Longrightarrow> backed es' x"
  unfolding backed_def by blast

lemma sem_step_backed:
  assumes "sem_facts es \<sigma>" and "sem_step \<sigma> e = Inr \<sigma>'"
  shows "backed es e"
  using assms(2)
proof (cases rule: sem_stepE)
  case other
  then show ?thesis unfolding backed_def by blast
next
  case (requested t)
  then show ?thesis by (simp add: backed_def)
next
  case (decided t n d)
  then show ?thesis using sem_factsD(1) [OF assms(1)] by (auto simp: backed_def)
next
  case (cancelled t n)
  then show ?thesis using sem_factsD(1) [OF assms(1)] by (auto simp: backed_def)
next
  case (used t n)
  then show ?thesis using sem_factsD(1,2) [OF assms(1)] by (auto simp: backed_def)
qed

lemma semantic_backed: "semantic sem_init es = Inr \<sigma> \<Longrightarrow> \<forall>x\<in>set es. backed es x"
proof (induction es arbitrary: \<sigma> rule: rev_induct)
  case (snoc e es)
  from snoc.prems obtain \<sigma>0 where s0: "semantic sem_init es = Inr \<sigma>0" and st: "sem_step \<sigma>0 e = Inr \<sigma>"
    by (auto simp: semantic_snoc split: sum.splits)
  have "backed es x" if "x \<in> set (es @ [e])" for x
    using that snoc.IH [OF s0] sem_step_backed [OF semantic_facts [OF s0] st] by auto
  then show ?case using backed_mono by (metis set_append sup_ge1)
qed simp

text \<open>No request is both decided and cancelled.\<close>

lemma sem_step_exclusive:
  assumes "sem_step \<sigma> e = Inr \<sigma>'" and "\<forall>r. se_decided \<sigma> r \<noteq> None \<longrightarrow> r \<notin> se_cancelled \<sigma>"
  shows "\<forall>r. se_decided \<sigma>' r \<noteq> None \<longrightarrow> r \<notin> se_cancelled \<sigma>'"
  using assms(1) by (cases rule: sem_stepE) (use assms(2) in auto)

lemma semantic_exclusive: "semantic sem_init es = Inr \<sigma> \<Longrightarrow> \<forall>r. se_decided \<sigma> r \<noteq> None \<longrightarrow> r \<notin> se_cancelled \<sigma>"
proof (induction es arbitrary: \<sigma> rule: rev_induct)
  case Nil
  then show ?case by (auto simp: sem_init_def)
next
  case (snoc e es)
  from snoc.prems obtain \<sigma>0 where "semantic sem_init es = Inr \<sigma>0" "sem_step \<sigma>0 e = Inr \<sigma>"
    by (auto simp: semantic_snoc split: sum.splits)
  with snoc.IH sem_step_exclusive show ?case by blast
qed

section \<open>Appending to a verified chain\<close>

text \<open>
  The cache answers for the current generation only with what a fresh verification would answer;
  \<open>stale\<close> is the stronger fact right after an append.
\<close>

definition coherent :: "crypto \<Rightarrow> perm \<Rightarrow> bool" where
  "coherent c s \<longleftrightarrow> (\<forall>dv g sn. pm_cache s = Some (dv, g, sn) \<longrightarrow> g \<le> pm_gen s \<and>
     (dv = pm_dv s \<and> g = pm_gen s \<longrightarrow> build c (pm_signer s) (pm_db s) = Some sn))"

definition stale :: "perm \<Rightarrow> bool" where
  "stale s \<longleftrightarrow> (\<forall>dv g sn. pm_cache s = Some (dv, g, sn) \<longrightarrow> g < pm_gen s)"

lemma stale_coherent: "stale s \<Longrightarrow> coherent c s"
  by (auto simp: stale_def coherent_def dest: less_imp_le)

lemma stale_db [simp]: "stale (s\<lparr>pm_db := db\<rparr>) = stale s" "stale (s\<lparr>pm_audit := a\<rparr>) = stale s"
  by (simp_all add: stale_def)

definition chain_inv :: "crypto \<Rightarrow> perm \<Rightarrow> bool" where
  "chain_inv c s \<longleftrightarrow> verified c (pm_signer s) (pm_db s) \<and> coherent c s \<and>
     (\<forall>(k, v)\<in>set (db_sigs (pm_db s)). k \<le> length (db_rows (pm_db s)))"

definition same_process :: "perm \<Rightarrow> perm \<Rightarrow> bool" where
  "same_process s s' \<longleftrightarrow> pm_signer s' = pm_signer s \<and> pm_dv s' = pm_dv s \<and> pm_audit s' = pm_audit s"

lemma snapshotE:
  assumes "coherent c s" and "chain_snapshot c s = (r, s')"
  obtains (ok) sn ca where "r = Inr sn" "build c (pm_signer s) (pm_db s) = Some sn" "s' = s\<lparr>pm_cache := ca\<rparr>" "coherent c s'"
  | (threw) "r = Inl RangeError" "s' = s" "build c (pm_signer s) (pm_db s) = None"
proof (cases "\<exists>sn. pm_cache s = Some (pm_dv s, pm_gen s, sn)")
  case True
  then obtain sn where "pm_cache s = Some (pm_dv s, pm_gen s, sn)" by blast
  then show thesis using assms by (intro ok [of sn "pm_cache s"]) (auto simp: chain_snapshot_def coherent_def)
next
  case False
  have nohit: "(case pm_cache s of Some (dv, g, sn) \<Rightarrow> (if dv = pm_dv s \<and> g = pm_gen s then Some sn else None) | None \<Rightarrow> None) = None"
    using False by (auto split: option.splits)
  show thesis
  proof (cases "build c (pm_signer s) (pm_db s)")
    case None
    then show thesis using assms(2) nohit by (intro threw) (auto simp: chain_snapshot_def)
  next
    case (Some sn)
    then show thesis using assms(2) nohit
      by (intro ok [of sn "Some (pm_dv s, pm_gen s, sn)"]) (auto simp: chain_snapshot_def coherent_def)
  qed
qed

lemma insert_row_last:
  assumes "\<forall>x\<in>set rows. ce_seq x < ce_seq e" and "insert_row e rows = Some rows'"
  shows "rows' = rows @ [e] \<and> (starts_with (ce_kind e) ''approval.'' \<longrightarrow> (\<forall>x\<in>set rows. \<not> has_kind (ce_kind e) (ce_refId e) x))"
  using assms by (auto simp: insert_row_def list_ex_iff takeWhile_eq_all_conv dropWhile_eq_Nil_conv split: if_splits)

lemma next_entry_simps [simp]:
  "ce_seq (next_entry c now sn kind ref payload nonce) = (if sn_entries sn = [] then 0 else ce_seq (last (sn_entries sn))) + 1"
  "ce_kind (next_entry c now sn kind ref payload nonce) = kind"
  "ce_refId (next_entry c now sn kind ref payload nonce) = ref"
  "ce_nonce (next_entry c now sn kind ref payload nonce) = nonce"
  "ce_ts (next_entry c now sn kind ref payload nonce) = now"
  "ce_payload (next_entry c now sn kind ref payload nonce) = stringify payload"
  "ce_prevMac (next_entry c now sn kind ref payload nonce) = end_mac GENESIS_MAC (sn_entries sn)"
  by (simp_all add: next_entry_def Let_def end_mac_def)

lemma next_entry_mac:
  "ce_mac (next_entry c now sn kind ref payload nonce) =
    cr_mac c (entry_msg (end_mac GENESIS_MAC (sn_entries sn)) (next_entry c now sn kind ref payload nonce))"
  by (simp add: next_entry_def Let_def end_mac_def entry_msg_def)

lemma next_entry_value [simp]: "entry_value (next_entry c now sn kind ref payload nonce) = json_value payload"
  by (simp add: entry_value_def json_parse_def stringify_def)

text \<open>Whatever an append does, the cache is stale afterwards and the rest of the process is unchanged.\<close>

lemma insert_entry_state:
  assumes "insert_entry c e s = (r, s')"
  shows "pm_gen s' = pm_gen s + 1 \<and> pm_cache s' = pm_cache s \<and> same_process s s' \<and>
    db_approvals (pm_db s') = db_approvals (pm_db s) \<and> db_grants (pm_db s') = db_grants (pm_db s)"
  using assms unfolding insert_entry_def Let_def same_process_def
  by (auto split: option.splits if_splits)

lemma append_cases:
  assumes "coherent c s" and "chain_append c now kind ref payload nonce s = (r, s')"
  obtains (inserted) sn ca s2 where "build c (pm_signer s) (pm_db s) = Some sn" "sn_broken sn = None"
      "insert_entry c (next_entry c now sn kind ref payload nonce) (s\<lparr>pm_cache := ca\<rparr>) = (r, s2)"
      "s' = s2\<lparr>pm_gen := pm_gen s2 + 1\<rparr>" "coherent c (s\<lparr>pm_cache := ca\<rparr>)"
  | (broken) ca x where "s' = s\<lparr>pm_cache := ca, pm_gen := pm_gen s + 1\<rparr>" "r = Inl x" "x = RangeError \<or> (\<exists>pos why. x = ChainError pos why)"
      "coherent c (s\<lparr>pm_cache := ca\<rparr>)" "\<not> verified c (pm_signer s) (pm_db s)"
proof -
  obtain rs s1 where sn: "chain_snapshot c s = (rs, s1)" by fastforce
  from assms(1) sn show thesis
  proof (cases rule: snapshotE)
    case threw
    then show thesis using assms sn
      by (intro broken [of "pm_cache s"]) (auto simp: chain_append_def append_run_def bind_op_def verified_def)
  next
    case (ok sn ca)
    show thesis
    proof (cases "sn_broken sn")
      case None
      then show thesis using assms(2) ok sn
        by (cases "insert_entry c (next_entry c now sn kind ref payload nonce) s1")
          (auto simp: chain_append_def append_run_def bind_op_def intro: inserted)
    next
      case (Some f)
      then have "\<not> verified c (pm_signer s) (pm_db s)" using verified_build [OF ok(2)] by simp
      then show thesis using assms(2) ok sn Some
        by (intro broken [of ca "ChainError (fst f) (snd f)"]) (auto simp: chain_append_def append_run_def bind_op_def split: prod.splits)
    qed
  qed
qed

lemma append_stale:
  assumes "coherent c s" and "chain_append c now kind ref payload nonce s = (r, s')"
  shows "stale s' \<and> same_process s s' \<and> db_approvals (pm_db s') = db_approvals (pm_db s) \<and> db_grants (pm_db s') = db_grants (pm_db s)"
  using assms
proof (cases rule: append_cases)
  case (inserted sn ca s2)
  with insert_entry_state [OF inserted(3)] show ?thesis
    by (auto simp: coherent_def stale_def same_process_def less_Suc_eq_le le_Suc_eq)
next
  case (broken ca x)
  then show ?thesis by (auto simp: coherent_def stale_def same_process_def less_Suc_eq_le)
qed

text \<open>A successful append to a verified chain adds exactly the new entry, moves the head and signs a decision.\<close>

lemma append_Inr:
  assumes inv: "chain_inv c s" and ap: "chain_append c now kind ref payload nonce s = (Inr e, s')"
  shows "e = next_entry c now \<lparr>sn_broken = None, sn_entries = db_rows (pm_db s)\<rparr> kind ref payload nonce \<and>
    db_rows (pm_db s') = db_rows (pm_db s) @ [e] \<and>
    links_ok c 1 GENESIS_MAC (db_rows (pm_db s')) \<and> head_ok c (db_rows (pm_db s')) (db_head (pm_db s')) \<and>
    db_sigs (pm_db s') = db_sigs (pm_db s) @ (case pm_signer s of
       Some k \<Rightarrow> (if kind = ''approval.decided''
         then [(ce_seq e, \<lparr>sg_alg = ''Ed25519'', sg_publicKey = si_publicKey k, sg_signature = si_sign k (ce_mac e)\<rparr>)] else [])
     | None \<Rightarrow> []) \<and>
    ce_seq e = length (db_rows (pm_db s)) + 1 \<and>
    (starts_with kind ''approval.'' \<longrightarrow> (\<forall>x\<in>set (db_rows (pm_db s)). \<not> has_kind kind ref x))"
proof -
  let ?rows = "db_rows (pm_db s)"
  have coh: "coherent c s" and ver: "verified c (pm_signer s) (pm_db s)" using inv by (simp_all add: chain_inv_def)
  have lk: "links_ok c 1 GENESIS_MAC ?rows" using ver by (simp add: verified_iff)
  from coh ap show ?thesis
  proof (cases rule: append_cases)
    case (inserted sn ca s2)
    have sn: "sn = \<lparr>sn_broken = None, sn_entries = ?rows\<rparr>" using inserted(1) ver by (simp add: verified_def)
    let ?e = "next_entry c now sn kind ref payload nonce"
    have seq: "ce_seq ?e = length ?rows + 1"
    proof (cases "?rows = []")
      case False
      then have "ce_seq (last ?rows) = length ?rows"
        using links_ok_seq [OF lk, of "length ?rows - 1"] by (simp add: last_conv_nth)
      with False show ?thesis by (simp add: sn)
    qed (simp add: sn)
    have below: "\<forall>x\<in>set ?rows. ce_seq x < ce_seq ?e"
      using links_ok_seq_bounds [OF lk] unfolding seq by fastforce
    from inserted(3) obtain rows' where rows': "insert_row ?e ?rows = Some rows'" and e: "e = ?e"
      by (auto simp: insert_entry_def Let_def split: option.splits if_splits)
    note ins = insert_row_last [OF below rows']
    have db: "db_rows (pm_db s') = ?rows @ [?e]"
      "db_head (pm_db s') = Some (ce_seq ?e, ce_mac ?e, cr_mac c (HeadMsg (ce_seq ?e) (ce_mac ?e)))"
      "db_sigs (pm_db s') = db_sigs (pm_db s) @ (case pm_signer s of
         Some k \<Rightarrow> (if kind = ''approval.decided''
           then [(ce_seq e, \<lparr>sg_alg = ''Ed25519'', sg_publicKey = si_publicKey k, sg_signature = si_sign k (ce_mac e)\<rparr>)] else [])
       | None \<Rightarrow> [])"
      using inserted(3,4) ins rows' e
      by (auto simp: insert_entry_def Let_def split: option.splits if_splits)
    have "links_ok c 1 GENESIS_MAC (?rows @ [?e])"
      using lk seq next_entry_mac [of c now sn kind ref payload nonce]
      by (simp add: links_ok_append sn del: next_entry_simps(1))
    with db ins e seq sn show ?thesis by (simp add: head_ok_def del: next_entry_simps(1))
  next
    case (broken ca x)
    then show ?thesis by simp
  qed
qed

text \<open>Signatures: the decisions the store signs verify (the documented law of Ed25519).\<close>

definition signer_ok :: "crypto \<Rightarrow> signer option \<Rightarrow> bool" where
  "signer_ok c sg \<longleftrightarrow> (\<forall>k m. sg = Some k \<longrightarrow> cr_verifySig c m (si_publicKey k) (si_sign k m))"

lemma append_verified:
  assumes inv: "chain_inv c s" and ap: "chain_append c now kind ref payload nonce s = (Inr e, s')"
    and sig: "signer_ok c (pm_signer s)"
    and sem: "semantic sem_init (db_rows (pm_db s)) = Inr \<sigma>" "sem_step \<sigma> e = Inr \<sigma>'"
  shows "chain_inv c s'"
proof -
  note a = append_Inr [OF inv ap]
  have coh: "coherent c s" using inv by (simp add: chain_inv_def)
  note st = append_stale [OF coh ap]
  have ver: "verified c (pm_signer s) (pm_db s)" and bnd: "\<forall>(k, v)\<in>set (db_sigs (pm_db s)). k \<le> length (db_rows (pm_db s))"
    using inv by (simp_all add: chain_inv_def)
  have old: "map_of (db_sigs (pm_db s)) (ce_seq e) = None"
    using bnd a by (force simp: map_of_eq_None_iff)
  have keep: "\<not> bad_signature c (pm_signer s) (db_sigs (pm_db s')) x" if x: "x \<in> set (db_rows (pm_db s))" for x
  proof -
    have "links_ok c 1 GENESIS_MAC (db_rows (pm_db s))" using ver by (simp add: verified_iff)
    then have "ce_seq x \<noteq> ce_seq e" using links_ok_seq_bounds x a by fastforce
    then have "map_of (db_sigs (pm_db s')) (ce_seq x) = map_of (db_sigs (pm_db s)) (ce_seq x)"
      using a by (auto simp: map_add_def split: option.splits)
    moreover have "\<not> bad_signature c (pm_signer s) (db_sigs (pm_db s)) x" using ver x by (simp add: verified_iff)
    ultimately show ?thesis by (simp add: bad_signature_def)
  qed
  have new: "\<not> bad_signature c (pm_signer s) (db_sigs (pm_db s')) e"
    using a old sig by (auto simp: bad_signature_def signer_ok_def map_add_def split: option.splits if_splits)
  have "verified c (pm_signer s') (pm_db s')"
    using a keep new sem st by (auto simp: verified_iff semantic_snoc same_process_def)
  moreover have "\<forall>(k, v)\<in>set (db_sigs (pm_db s')). k \<le> length (db_rows (pm_db s'))"
    using a bnd by (auto split: option.splits if_splits)
  ultimately show ?thesis using st stale_coherent by (simp add: chain_inv_def)
qed

section \<open>Tamper evidence\<close>

lemma links_ok_nth:
  "links_ok c n prev es \<Longrightarrow> i < length es \<Longrightarrow>
    ce_prevMac (es ! i) = (if i = 0 then prev else ce_mac (es ! (i - 1))) \<and> ce_mac (es ! i) = cr_mac c (entry_msg (ce_prevMac (es ! i)) (es ! i))"
proof (induction es arbitrary: n prev i)
  case (Cons e es)
  show ?case
  proof (cases i)
    case 0
    with Cons.prems show ?thesis by simp
  next
    case (Suc j)
    with Cons.prems Cons.IH [of "n + 1" "ce_mac e" j] show ?thesis by (cases j) auto
  qed
qed simp

lemma entry_eqI:
  assumes "entry_msg (ce_prevMac x) x = entry_msg (ce_prevMac y) y" and "ce_mac x = ce_mac y"
  shows "x = (y :: chain_entry)"
  using assms by (simp add: entry_msg_def)

text \<open>Without a collision among the MACs at hand, the MAC of the last entry determines the whole chain.\<close>

lemma chain_determined:
  assumes "links_ok c 1 GENESIS_MAC xs" and "links_ok c 1 GENESIS_MAC ys" and "length xs = length ys"
    and "xs \<noteq> [] \<Longrightarrow> ce_mac (last xs) = ce_mac (last ys)"
    and free: "\<And>x y. x \<in> set xs \<Longrightarrow> y \<in> set ys \<Longrightarrow> cr_mac c (entry_msg (ce_prevMac x) x) = cr_mac c (entry_msg (ce_prevMac y) y) \<Longrightarrow>
       entry_msg (ce_prevMac x) x = entry_msg (ce_prevMac y) y"
  shows "xs = ys"
  using assms
proof (induction xs arbitrary: ys rule: rev_induct)
  case (snoc x xs)
  obtain zs y where ys: "ys = zs @ [y]" using snoc.prems(3) by (cases ys rule: rev_cases) auto
  have m: "ce_mac x = ce_mac y" using snoc.prems(4) ys by simp
  have "cr_mac c (entry_msg (ce_prevMac x) x) = cr_mac c (entry_msg (ce_prevMac y) y)"
    using snoc.prems(1,2) m by (simp add: ys links_ok_append)
  then have msg: "entry_msg (ce_prevMac x) x = entry_msg (ce_prevMac y) y" using snoc.prems(5) ys by simp
  then have "x = y" using m by (rule entry_eqI)
  have pre: "end_mac GENESIS_MAC xs = end_mac GENESIS_MAC zs"
    using snoc.prems(1,2) msg by (simp add: ys links_ok_append entry_msg_def)
  have "xs = zs"
  proof (rule snoc.IH)
    show "links_ok c 1 GENESIS_MAC xs" "links_ok c 1 GENESIS_MAC zs" "length xs = length zs"
      using snoc.prems(1,2,3) by (simp_all add: ys links_ok_append)
    then show "xs \<noteq> [] \<Longrightarrow> ce_mac (last xs) = ce_mac (last zs)" using pre by (auto simp: end_mac_def split: if_splits)
  qed (use snoc.prems(5) ys in auto)
  with \<open>x = y\<close> ys show ?case by simp
qed simp

text \<open>
  (C7) The pinned head fixes the history: two databases that both verify and have the same head row have the
  same entries, every field of each, unless two of their entries collide under the MAC. So no entry of a
  verified chain can be altered, dropped, inserted or reordered without changing the head.
\<close>

theorem chain_head_pins:
  assumes "verified c sg db" and "verified c sg' db'" and "db_head db = db_head db'"
    and no_collision: "\<forall>x\<in>set (db_rows db). \<forall>y\<in>set (db_rows db').
       cr_mac c (entry_msg (ce_prevMac x) x) = cr_mac c (entry_msg (ce_prevMac y) y) \<longrightarrow>
       entry_msg (ce_prevMac x) x = entry_msg (ce_prevMac y) y"
  shows "db_rows db = db_rows db'"
proof -
  have h: "head_ok c (db_rows db) (db_head db)" "head_ok c (db_rows db') (db_head db')"
    and l: "links_ok c 1 GENESIS_MAC (db_rows db)" "links_ok c 1 GENESIS_MAC (db_rows db')"
    using assms(1,2) by (simp_all add: verified_iff)
  have len: "length (db_rows db) = length (db_rows db')"
    using h assms(3) by (auto simp: head_ok_def split: if_splits)
  have "ce_mac (last (db_rows db)) = ce_mac (last (db_rows db'))" if "db_rows db \<noteq> []"
    using h assms(3) that by (auto simp: head_ok_def split: if_splits)
  from chain_determined [OF l len this] no_collision show ?thesis by blast
qed

text \<open>
  (C8) Rollback is the only attack on the file that is left without the key: if a database verifies and each of
  its entries carries a MAC that the store issued for exactly that entry (nobody else can make one), then
  its entries are an initial part of the entries of the real log, and with the real head they are all of them.
\<close>

theorem chain_rollback_only:
  assumes "verified c sg db" and "verified c sg' db'"
    and genuine: "\<forall>y\<in>set (db_rows db'). \<exists>x\<in>set (db_rows db). entry_msg (ce_prevMac y) y = entry_msg (ce_prevMac x) x"
  shows "prefix (db_rows db') (db_rows db) \<and> (db_head db' = db_head db \<longrightarrow> db_rows db' = db_rows db)"
proof -
  let ?r = "db_rows db" and ?r' = "db_rows db'"
  have l: "links_ok c 1 GENESIS_MAC ?r" "links_ok c 1 GENESIS_MAC ?r'"
    and h: "head_ok c ?r (db_head db)" "head_ok c ?r' (db_head db')"
    using assms(1,2) by (simp_all add: verified_iff)
  have nth: "i < length ?r \<and> ?r' ! i = ?r ! i" if i: "i < length ?r'" for i
  proof -
    obtain x where x: "x \<in> set ?r" "entry_msg (ce_prevMac (?r' ! i)) (?r' ! i) = entry_msg (ce_prevMac x) x"
      using genuine i nth_mem by blast
    then obtain j where j: "j < length ?r" "x = ?r ! j" by (auto simp: in_set_conv_nth)
    have "ce_seq (?r' ! i) = ce_seq x" using x(2) by (simp add: entry_msg_def)
    then have "j = i" using links_ok_seq [OF l(1) j(1)] links_ok_seq [OF l(2) i] j(2) by simp
    moreover have "ce_mac (?r' ! i) = ce_mac x"
      using links_ok_nth [OF l(1) j(1)] links_ok_nth [OF l(2) i] x(2) j(2) by simp
    ultimately show ?thesis using entry_eqI [OF x(2)] j by simp
  qed
  have len: "length ?r' \<le> length ?r" using nth [of "length ?r' - 1"] by (cases ?r') auto
  have "?r' = take (length ?r') ?r" using nth len by (intro nth_equalityI) auto
  then have pre: "prefix ?r' ?r" by (metis take_is_prefix)
  have "db_head db' = db_head db \<Longrightarrow> length ?r' = length ?r"
    using h by (auto simp: head_ok_def split: if_splits)
  with pre show ?thesis by (auto simp: prefix_def)
qed

text \<open>
  A stored MAC of the right number of characters but not of bytes is not reported: the comparison raises.
\<close>

lemma non_ascii_mac_raises:
  assumes "db_rows db = e # es" and "ce_seq e = 1" and "ce_prevMac e = GENESIS_MAC"
    and "length (ce_mac e) = length (cr_mac c (entry_msg GENESIS_MAC e))"
    and "byte_length (ce_mac e) \<noteq> byte_length (cr_mac c (entry_msg GENESIS_MAC e))"
  shows "build c sg db = None"
  using assms by (simp add: build_def mac_eq_def)

section \<open>Witnesses\<close>

text \<open>A toy MAC: the sequence number in unary, with a mark for the head, padded to the length of the genesis.\<close>

definition sample_crypto :: crypto where
  "sample_crypto = \<lparr>
     cr_mac = (\<lambda>m. case m of EntryMsg _ n _ _ _ _ _ \<Rightarrow> replicate n CHR ''1'' @ replicate (64 - n) CHR ''0''
        | HeadMsg n _ \<Rightarrow> CHR ''f'' # replicate n CHR ''1'' @ replicate (63 - n) CHR ''0''),
     cr_verifySig = (\<lambda>m k s. s = CHR ''s'' # m \<and> k = ''pk''), cr_sha = (\<lambda>v. ''h'')\<rparr>"

definition sample_chain :: perm_db where
  "sample_chain = pm_db (snd (bind_op (chain_append sample_crypto 5 ''grant.created'' ''g1'' (JObj [(''def'', JNull)]) None)
     (\<lambda>_. chain_append sample_crypto 6 ''grant.revoked'' ''g1'' (JObj [(''by'', JStr ''anna'')]) None) (init_perm None)))"

lemma sample_chain_verified: "verified sample_crypto None sample_chain"
  unfolding verified_def by code_simp

lemma sample_chain_seqs: "map ce_seq (db_rows sample_chain) = [1, 2]"
  by code_simp

lemma sample_chain_cut_verified:
  "verified sample_crypto None (pm_db (snd (chain_append sample_crypto 5 ''grant.created'' ''g1'' (JObj [(''def'', JNull)]) None (init_perm None))))"
  unfolding verified_def by code_simp

theorem chain_head_pins_witness: "db_rows sample_chain = db_rows (sample_chain\<lparr>db_approvals := []\<rparr>) \<and> length (db_rows sample_chain) = 2"
proof -
  have v: "verified sample_crypto None (sample_chain\<lparr>db_approvals := []\<rparr>)"
    using sample_chain_verified by (simp add: verified_iff)
  have "db_rows sample_chain = db_rows (sample_chain\<lparr>db_approvals := []\<rparr>)"
  proof (rule chain_head_pins [OF sample_chain_verified v])
    show "\<forall>x\<in>set (db_rows sample_chain). \<forall>y\<in>set (db_rows (sample_chain\<lparr>db_approvals := []\<rparr>)).
        cr_mac sample_crypto (entry_msg (ce_prevMac x) x) = cr_mac sample_crypto (entry_msg (ce_prevMac y) y) \<longrightarrow>
        entry_msg (ce_prevMac x) x = entry_msg (ce_prevMac y) y"
      by code_simp
  qed simp
  moreover have "length (db_rows sample_chain) = 2" using sample_chain_seqs by (metis length_map length_Cons list.size(3) One_nat_def numeral_2_eq_2)
  ultimately show ?thesis by blast
qed

theorem chain_rollback_only_witness:
  "prefix (db_rows (pm_db (snd (chain_append sample_crypto 5 ''grant.created'' ''g1'' (JObj [(''def'', JNull)]) None (init_perm None))))) (db_rows sample_chain)"
proof -
  have "\<forall>y\<in>set (db_rows (pm_db (snd (chain_append sample_crypto 5 ''grant.created'' ''g1'' (JObj [(''def'', JNull)]) None (init_perm None))))).
      \<exists>x\<in>set (db_rows sample_chain). entry_msg (ce_prevMac y) y = entry_msg (ce_prevMac x) x"
    by code_simp
  from chain_rollback_only [OF sample_chain_verified sample_chain_cut_verified this] show ?thesis by blast
qed

end
