(* ===== verification/Approval_Store.thy ===== *)
theory Approval_Store
  imports Approval_Chain
begin

text \<open>
  The approval store: \<^verbatim>\<open>packages/core/src/approvals/store.ts\<close>. A request is bound to an action, a person, a
  subject, a turn, a task and a session, and carries a one-time nonce; a decision, a cancellation and a use are
  chain entries, and the projection table only lists. Each operation takes an environment: the clock reading, the
  random id and nonce, and the configured life of a request.

  The lemmas show that the store never breaks its chain, that a decision and a use are sound, and that an
  approval is used at most once.
\<close>

section \<open>Operations\<close>

record store_env =
  en_now :: rat
  en_id :: string
  en_nonce :: string
  en_ttl :: jsnum

definition DEFAULT_REQUEST_TTL_MS :: rat where
  "DEFAULT_REQUEST_TTL_MS = 24 * 60 * 60000"

definition MAX_DETAIL_BYTES :: nat where
  "MAX_DETAIL_BYTES = 16 * 1024"

text \<open>The fields of a binding come from callers, so they are dynamic values.\<close>

record approval_binding =
  ab_requestId :: string
  ab_actionHash :: jsval
  ab_principal :: jsval
  ab_subjectKind :: jsval
  ab_subjectId :: jsval
  ab_turnId :: jsval
  ab_taskId :: jsval
  ab_sessionId :: jsval

datatype approval_denial = ApprovalMismatch | ApprovalUsed | ApprovalExpired | SurfaceUntrusted_store

datatype approval_status = Pending | Approved | Denied_status | Used | Expired | Cancelled

record approval_record =
  ar_id :: string
  ar_status :: approval_status
  ar_capability :: jsval
  ar_bound :: jsval
  ar_createdAt :: rat
  ar_expiresAt :: jsnum
  ar_decidedAt :: "rat option"
  ar_decidedBy :: jsval
  ar_decisionSurface :: jsval
  ar_delegable :: bool
  ar_usedAt :: "rat option"
  ar_detail :: jsval
  ar_cancelledAt :: "rat option"

record request_input =
  ri_binding :: approval_binding
  ri_capability :: string
  ri_detail :: "jsval option"
  ri_detailBytes :: nat

datatype verdict = Approve | Deny_verdict

definition verdict_str :: "verdict \<Rightarrow> string" where
  "verdict_str d = (case d of Approve \<Rightarrow> ''approve'' | Deny_verdict \<Rightarrow> ''deny'')"

record decide_input =
  di_requestId :: string
  di_nonce :: jsval
  di_decision :: verdict
  di_person :: string
  di_surface :: jsnum
  di_delegable :: bool

definition boundOf :: "approval_binding \<Rightarrow> jsval" where
  "boundOf b = JObj [(''actionHash'', ab_actionHash b), (''principal'', ab_principal b),
     (''subject'', JObj [(''kind'', ab_subjectKind b), (''id'', ab_subjectId b)]),
     (''turnId'', ab_turnId b), (''taskId'', ab_taskId b), (''sessionId'', ab_sessionId b)]"

definition trusted :: "crypto \<Rightarrow> snapshot op" where
  "trusted c = bind_op (chain_snapshot c) (\<lambda>sn. case sn_broken sn of Some (pos, why) \<Rightarrow> raise (ChainError pos why) | None \<Rightarrow> ret sn)"

definition find_kind :: "chain_entry list \<Rightarrow> string \<Rightarrow> chain_entry option" where
  "find_kind es kind = List.find (\<lambda>e. ce_kind e = kind) es"

text \<open>The insert into the projection: id and nonce are unique.\<close>

definition sv :: "jsval \<Rightarrow> string" where
  "sv v = (case v of JStr s \<Rightarrow> s | _ \<Rightarrow> [])"

definition insert_approval :: "string \<Rightarrow> approval_row \<Rightarrow> unit op" where
  "insert_approval i row = (\<lambda>s.
     let t = db_approvals (pm_db s) in
     if i \<in> fst ` set t \<or> ap_nonce row \<in> ap_nonce ` snd ` set t then (Inl SqliteError, s)
     else (Inr (), s\<lparr>pm_db := (pm_db s)\<lparr>db_approvals := t @ [(i, row)]\<rparr>\<rparr>))"

definition update_approval :: "string \<Rightarrow> (approval_row \<Rightarrow> approval_row) \<Rightarrow> unit op" where
  "update_approval i f = update (\<lambda>db. db\<lparr>db_approvals := map (\<lambda>(k, row). (k, if k = i then f row else row)) (db_approvals db)\<rparr>)"

definition request_row :: "store_env \<Rightarrow> request_input \<Rightarrow> jsnum \<Rightarrow> approval_row" where
  "request_row v i expiresAt = (let b = ri_binding i in
     \<lparr>ap_principal = sv (ab_principal b), ap_subjectKind = sv (ab_subjectKind b), ap_subjectId = sv (ab_subjectId b),
      ap_capability = ri_capability i, ap_actionHash = sv (ab_actionHash b), ap_turnId = sv (ab_turnId b),
      ap_taskId = sv (ab_taskId b), ap_sessionId = sv (ab_sessionId b), ap_nonce = en_nonce v, ap_status = ''pending'',
      ap_createdAt = en_now v, ap_expiresAt = expiresAt, ap_decidedAt = None, ap_decidedBy = None, ap_decisionSurface = None,
      ap_usedAt = None, ap_delegable = False\<rparr>)"

definition request_payload :: "request_input \<Rightarrow> jsnum \<Rightarrow> jsval" where
  "request_payload i expiresAt = JObj ([(''capability'', JStr (ri_capability i)), (''expiresAt'', JNum expiresAt), (''bound'', boundOf (ri_binding i))] @
     (case ri_detail i of Some d \<Rightarrow> [(''detail'', d)] | None \<Rightarrow> []))"

definition store_request_body :: "crypto \<Rightarrow> store_env \<Rightarrow> request_input \<Rightarrow> (string \<times> string \<times> jsnum) op" where
  "store_request_body c v i =
    (if bindingTuple (boundOf (ri_binding i)) = None then raise TypeError
     else if ri_detail i \<noteq> None \<and> MAX_DETAIL_BYTES < ri_detailBytes i then raise TypeError
     else bind_op (trusted c) (\<lambda>_.
       let expiresAt = Fin (en_now v) + en_ttl v in
       bind_op (chain_append c (en_now v) ''approval.requested'' (en_id v) (request_payload i expiresAt) (Some (en_nonce v))) (\<lambda>_.
       bind_op (insert_approval (en_id v) (request_row v i expiresAt)) (\<lambda>_.
       ret (en_id v, en_nonce v, expiresAt)))))"

definition store_request :: "crypto \<Rightarrow> store_env \<Rightarrow> request_input \<Rightarrow> (string \<times> string \<times> jsnum) op" where
  "store_request c v i = transaction (store_request_body c v i)"

definition surface_level :: "jsnum \<Rightarrow> nat option" where
  "surface_level n = (if n = Fin 1 then Some 1 else if n = Fin 2 then Some 2 else if n = Fin 3 then Some 3 else None)"

definition decided_payload :: "decide_input \<Rightarrow> jsval \<Rightarrow> jsval" where
  "decided_payload d bound = JObj [(''decision'', JStr (verdict_str (di_decision d))), (''person'', JStr (di_person d)),
     (''surface'', JNum (di_surface d)), (''delegable'', JBool (di_delegable d \<and> di_decision d = Approve)), (''bound'', bound)]"

definition store_decide_body :: "crypto \<Rightarrow> store_env \<Rightarrow> decide_input \<Rightarrow> (approval_denial + approval_status) op" where
  "store_decide_body c v d =
    (case surface_level (di_surface d) of
       None \<Rightarrow> ret (Inl SurfaceUntrusted_store)
     | Some lvl \<Rightarrow>
       bind_op (trusted c) (\<lambda>sn.
         let es = by_ref sn (di_requestId d) in
         case find_kind es ''approval.requested'' of
           None \<Rightarrow> ret (Inl ApprovalMismatch)
         | Some req \<Rightarrow>
           (let rp = entry_value req in
            if jget (jget rp ''bound'') ''principal'' \<noteq> JStr (di_person d) then ret (Inl ApprovalMismatch)
            else if ce_nonce req = None \<or> di_nonce d \<noteq> JStr (the (ce_nonce req)) then ret (Inl ApprovalMismatch)
            else if find_kind es ''approval.decided'' \<noteq> None then ret (Inl ApprovalUsed)
            else if find_kind es ''approval.cancelled'' \<noteq> None then ret (Inl ApprovalExpired)
            else if to_number (jget rp ''expiresAt'') \<le> Fin (en_now v) then ret (Inl ApprovalExpired)
            else
              bind_op (chain_append c (en_now v) ''approval.decided'' (di_requestId d) (decided_payload d (jget rp ''bound'')) (Some (sv (di_nonce d)))) (\<lambda>_.
              bind_op (update_approval (di_requestId d) (\<lambda>row. row\<lparr>ap_status := (if di_decision d = Approve then ''approved'' else ''denied''),
                 ap_decidedAt := Some (en_now v), ap_decidedBy := Some (di_person d), ap_decisionSurface := Some lvl,
                 ap_delegable := di_delegable d \<and> di_decision d = Approve\<rparr>)) (\<lambda>_.
              ret (Inr (if di_decision d = Approve then Approved else Denied_status)))))))"

definition store_decide :: "crypto \<Rightarrow> store_env \<Rightarrow> decide_input \<Rightarrow> (approval_denial + approval_status) op" where
  "store_decide c v d = transaction (store_decide_body c v d)"

definition store_cancel_body :: "crypto \<Rightarrow> store_env \<Rightarrow> string \<Rightarrow> string \<Rightarrow> approval_denial option op" where
  "store_cancel_body c v i who =
    bind_op (trusted c) (\<lambda>sn.
      let es = by_ref sn i in
      case find_kind es ''approval.requested'' of
        None \<Rightarrow> ret (Some ApprovalMismatch)
      | Some req \<Rightarrow>
        (let rp = entry_value req in
         if find_kind es ''approval.decided'' \<noteq> None \<or> find_kind es ''approval.cancelled'' \<noteq> None then ret (Some ApprovalUsed)
         else if to_number (jget rp ''expiresAt'') \<le> Fin (en_now v) then ret (Some ApprovalExpired)
         else
           bind_op (chain_append c (en_now v) ''approval.cancelled'' i (JObj [(''by'', JStr who), (''bound'', jget rp ''bound'')]) None) (\<lambda>_.
           bind_op (update_approval i (\<lambda>row. row\<lparr>ap_status := ''cancelled''\<rparr>)) (\<lambda>_.
           ret None))))"

definition store_cancel :: "crypto \<Rightarrow> store_env \<Rightarrow> string \<Rightarrow> string \<Rightarrow> approval_denial option op" where
  "store_cancel c v i who = transaction (store_cancel_body c v i who)"

definition store_consume_body :: "crypto \<Rightarrow> store_env \<Rightarrow> approval_binding \<Rightarrow> (approval_denial + bool) op" where
  "store_consume_body c v b =
    bind_op (trusted c) (\<lambda>sn.
      let es = by_ref sn (ab_requestId b); tuple = bindingTuple (boundOf b) in
      case (find_kind es ''approval.requested'', find_kind es ''approval.decided'') of
        (Some req, Some dec) \<Rightarrow>
          (let rp = entry_value req; dp = entry_value dec in
           if tuple = None then ret (Inl ApprovalMismatch)
           else if jget dp ''decision'' \<noteq> JStr ''approve'' \<or> bindingTuple (jget rp ''bound'') \<noteq> tuple then ret (Inl ApprovalMismatch)
           else if find_kind es ''approval.used'' \<noteq> None then ret (Inl ApprovalUsed)
           else if to_number (jget rp ''expiresAt'') \<le> Fin (en_now v) then ret (Inl ApprovalExpired)
           else
             bind_op (chain_append c (en_now v) ''approval.used'' (ab_requestId b) (JObj [(''bound'', jget rp ''bound'')]) None) (\<lambda>_.
             bind_op (update_approval (ab_requestId b) (\<lambda>row. row\<lparr>ap_status := ''used'', ap_usedAt := Some (en_now v)\<rparr>)) (\<lambda>_.
             ret (Inr (jget dp ''delegable'' = JBool True)))))
      | _ \<Rightarrow> ret (Inl ApprovalMismatch))"

definition store_consume :: "crypto \<Rightarrow> store_env \<Rightarrow> approval_binding \<Rightarrow> (approval_denial + bool) op" where
  "store_consume c v b = transaction (store_consume_body c v b)"

definition approval_record_of :: "string \<Rightarrow> chain_entry list \<Rightarrow> rat \<Rightarrow> approval_record option" where
  "approval_record_of i es now =
    (case find_kind es ''approval.requested'' of
       None \<Rightarrow> None
     | Some req \<Rightarrow>
       (let rp = entry_value req;
            decE = find_kind es ''approval.decided'';
            useE = find_kind es ''approval.used'';
            canE = find_kind es ''approval.cancelled'';
            dp = (case decE of Some d \<Rightarrow> entry_value d | None \<Rightarrow> JUndef);
            expiresAt = to_number (jget rp ''expiresAt'');
            st0 = (if useE \<noteq> None then Used else if canE \<noteq> None then Cancelled
                   else if decE \<noteq> None then (if jget dp ''decision'' = JStr ''approve'' then Approved else Denied_status) else Pending);
            st = (if (st0 = Pending \<or> st0 = Approved) \<and> expiresAt \<le> Fin now then Expired else st0)
        in Some \<lparr>ar_id = i, ar_status = st, ar_capability = jget rp ''capability'', ar_bound = jget rp ''bound'',
             ar_createdAt = ce_ts req, ar_expiresAt = expiresAt, ar_decidedAt = map_option ce_ts decE,
             ar_decidedBy = jget dp ''person'', ar_decisionSurface = jget dp ''surface'',
             ar_delegable = (jget dp ''delegable'' = JBool True), ar_usedAt = map_option ce_ts useE,
             ar_detail = (if is_object (jget rp ''detail'') then jget rp ''detail'' else JUndef),
             ar_cancelledAt = map_option ce_ts canE\<rparr>))"

definition store_get :: "crypto \<Rightarrow> rat \<Rightarrow> string \<Rightarrow> approval_record option op" where
  "store_get c now i = bind_op (trusted c) (\<lambda>sn. ret (approval_record_of i (by_ref sn i) now))"

text \<open>The listing: one record per reference in order of first appearance, filtered, in a stable sort by creation.\<close>

definition refs_in_order :: "chain_entry list \<Rightarrow> string list" where
  "refs_in_order es = rev (remdups (rev (map ce_refId es)))"

definition store_records :: "rat \<Rightarrow> approval_status option \<Rightarrow> string option \<Rightarrow> snapshot \<Rightarrow> approval_record list" where
  "store_records now status who sn =
    sort_key ar_createdAt
      (filter (\<lambda>r. (case status of None \<Rightarrow> True | Some st \<Rightarrow> ar_status r = st) \<and>
           (case who of None \<Rightarrow> True | Some p \<Rightarrow> jget (ar_bound r) ''principal'' = JStr p))
        (List.map_filter (\<lambda>i. approval_record_of i (by_ref sn i) now) (refs_in_order (sn_entries sn))))"

definition store_list :: "crypto \<Rightarrow> rat \<Rightarrow> approval_status option \<Rightarrow> string option \<Rightarrow> approval_record list op" where
  "store_list c now status who = bind_op (trusted c) (\<lambda>sn. ret (store_records now status who sn))"

definition store_verify :: "crypto \<Rightarrow> (nat \<times> verify_failure) option op" where
  "store_verify c = bind_op (chain_snapshot c) (\<lambda>sn. ret (sn_broken sn))"

section \<open>The entries the store writes satisfy the replay rules\<close>

lemma is_str_json [simp]: "is_str (json_value v) = is_str v" "str_of (json_value v) = str_of v"
  by (cases v; simp add: is_str_def str_of_def)+

lemma bindingTuple_json [simp]: "bindingTuple (json_value b) = bindingTuple b"
  by (simp add: bindingTuple_def jget_json_value Let_def List.map_filter_def)

lemma next_entry_tuple [simp]:
  "entry_tuple (next_entry c now sn kind ref payload nonce) = bindingTuple (jget payload ''bound'')"
  by (simp add: entry_tuple_def jget_json_value)

lemma find_kind_SomeD: "find_kind (by_ref sn i) k = Some e \<Longrightarrow> e \<in> set (sn_entries sn) \<and> has_kind k i e"
  by (auto simp: find_kind_def by_ref_def dest: find_SomeD)

lemma find_kind_NoneD: "find_kind (by_ref sn i) k = None \<Longrightarrow> e \<in> set (sn_entries sn) \<Longrightarrow> \<not> has_kind k i e"
  by (auto simp: find_kind_def by_ref_def find_None_iff')

text \<open>Each kind of entry passes the replay rules when its guards hold on the entries before it.\<close>

lemma sem_step_requestedI:
  assumes f: "sem_facts es \<sigma>" and e: "ce_kind e = ''approval.requested''" "entry_tuple e = Some t" "json_parse (ce_payload e) = Some p" "is_object p"
    and "\<forall>x\<in>set es. \<not> has_kind ''approval.requested'' (ce_refId e) x"
  shows "\<exists>\<sigma>'. sem_step \<sigma> e = Inr \<sigma>'"
proof -
  have "se_requested \<sigma> (ce_refId e) = None"
    using sem_factsD(1) [OF f] assms(6) by (cases "se_requested \<sigma> (ce_refId e)") auto
  with e show ?thesis by (simp add: sem_step_def sem_requested_def entry_tuple_def entry_value_def)
qed

lemma sem_step_decidedI:
  assumes f: "sem_facts es \<sigma>" and e: "ce_kind e = ''approval.decided''" "entry_tuple e = Some t" "json_parse (ce_payload e) = Some p" "is_object p"
      "ce_nonce e = Some n" "jget p ''decision'' = JStr d" "d = ''approve'' \<or> d = ''deny''"
    and q: "q \<in> set es" "has_kind ''approval.requested'' (ce_refId e) q" "entry_tuple q = Some t" "ce_nonce q = Some n"
    and fresh: "\<forall>x\<in>set es. \<not> has_kind ''approval.decided'' (ce_refId e) x" "\<forall>x\<in>set es. \<not> has_kind ''approval.cancelled'' (ce_refId e) x"
      "\<forall>x\<in>set es. ce_kind x = ''approval.decided'' \<longrightarrow> ce_nonce x \<noteq> Some n"
  shows "\<exists>\<sigma>'. sem_step \<sigma> e = Inr \<sigma>'"
proof -
  have "se_requested \<sigma> (ce_refId e) = Some (t, Some n)" using sem_factsD(1) [OF f] q by auto
  moreover have "se_decided \<sigma> (ce_refId e) = None"
    using sem_factsD(2) [OF f] fresh(1) by (cases "se_decided \<sigma> (ce_refId e)") auto
  moreover have "ce_refId e \<notin> se_cancelled \<sigma>" using sem_factsD(4) [OF f] fresh(2) by auto
  moreover have "n \<notin> se_nonces \<sigma>" using sem_factsD(5) [OF f] fresh(3) by auto
  ultimately show ?thesis using e by (auto simp: sem_step_def sem_decided_def entry_tuple_def entry_value_def)
qed

lemma sem_step_cancelledI:
  assumes f: "sem_facts es \<sigma>" and e: "ce_kind e = ''approval.cancelled''" "entry_tuple e = Some t" "json_parse (ce_payload e) = Some p" "is_object p"
    and q: "q \<in> set es" "has_kind ''approval.requested'' (ce_refId e) q" "entry_tuple q = Some t"
    and fresh: "\<forall>x\<in>set es. \<not> has_kind ''approval.decided'' (ce_refId e) x"
  shows "\<exists>\<sigma>'. sem_step \<sigma> e = Inr \<sigma>'"
proof -
  have "se_requested \<sigma> (ce_refId e) = Some (t, ce_nonce q)" using sem_factsD(1) [OF f] q by auto
  moreover have "se_decided \<sigma> (ce_refId e) = None"
    using sem_factsD(2) [OF f] fresh by (cases "se_decided \<sigma> (ce_refId e)") auto
  ultimately show ?thesis using e by (auto simp: sem_step_def sem_cancelled_def entry_tuple_def entry_value_def)
qed

lemma sem_step_usedI:
  assumes f: "sem_facts es \<sigma>" and e: "ce_kind e = ''approval.used''" "entry_tuple e = Some t" "json_parse (ce_payload e) = Some p" "is_object p"
    and q: "q \<in> set es" "has_kind ''approval.requested'' (ce_refId e) q" "entry_tuple q = Some t"
    and d: "d \<in> set es" "has_kind ''approval.decided'' (ce_refId e) d" "jget (entry_value d) ''decision'' = JStr ''approve''"
    and fresh: "\<forall>x\<in>set es. \<not> has_kind ''approval.used'' (ce_refId e) x"
  shows "\<exists>\<sigma>'. sem_step \<sigma> e = Inr \<sigma>'"
proof -
  have "se_requested \<sigma> (ce_refId e) = Some (t, ce_nonce q)" using sem_factsD(1) [OF f] q by auto
  moreover have "se_decided \<sigma> (ce_refId e) = Some ''approve''" using sem_factsD(2) [OF f] d by auto
  moreover have "ce_refId e \<notin> se_used \<sigma>" using sem_factsD(3) [OF f] fresh by auto
  ultimately show ?thesis using e by (auto simp: sem_step_def sem_used_def entry_tuple_def entry_value_def)
qed

section \<open>The store invariant\<close>

text \<open>
  The chain verifies and the cache is honest; every decision was made by the person of its binding on a
  surface of level 1 to 3; the projection has unique ids and nonces and holds the nonce of every request.
\<close>

definition decided_ok :: "chain_entry \<Rightarrow> bool" where
  "decided_ok e \<longleftrightarrow> ce_kind e = ''approval.decided'' \<longrightarrow>
     (\<exists>who lvl. jget (entry_value e) ''person'' = JStr who \<and> jget (jget (entry_value e) ''bound'') ''principal'' = JStr who \<and>
        jget (entry_value e) ''surface'' = JNum lvl \<and> lvl \<in> {Fin 1, Fin 2, Fin 3})"

definition proj_inv :: "perm_db \<Rightarrow> bool" where
  "proj_inv db \<longleftrightarrow> (\<forall>e\<in>set (db_rows db). decided_ok e) \<and> distinct (map fst (db_approvals db)) \<and> distinct (map (\<lambda>a. ap_nonce (snd a)) (db_approvals db)) \<and>
     (\<forall>e\<in>set (db_rows db). ce_kind e = ''approval.requested'' \<longrightarrow>
        (\<exists>a\<in>set (db_approvals db). fst a = ce_refId e \<and> ce_nonce e = Some (ap_nonce (snd a))))"

definition store_inv :: "crypto \<Rightarrow> perm \<Rightarrow> bool" where
  "store_inv c s \<longleftrightarrow> chain_inv c s \<and> proj_inv (pm_db s)"

lemma build_tables [simp]:
  "build c sg (db\<lparr>db_approvals := x\<rparr>) = build c sg db" "build c sg (db\<lparr>db_grants := y\<rparr>) = build c sg db"
  by (simp_all add: build_def Let_def cong: check.case_cong sum.case_cong option.case_cong)

lemma verified_tables [simp]:
  "verified c sg (db\<lparr>db_approvals := x\<rparr>) = verified c sg db" "verified c sg (db\<lparr>db_grants := y\<rparr>) = verified c sg db"
  by (simp_all add: verified_def)

lemma chain_inv_tables [simp]:
  "chain_inv c (s\<lparr>pm_db := (pm_db s)\<lparr>db_approvals := x\<rparr>\<rparr>) = chain_inv c s"
  "chain_inv c (s\<lparr>pm_db := (pm_db s)\<lparr>db_grants := y\<rparr>\<rparr>) = chain_inv c s"
  "chain_inv c (s\<lparr>pm_audit := a\<rparr>) = chain_inv c s"
  by (simp_all add: chain_inv_def coherent_def)

lemma trustedE:
  assumes "chain_inv c s"
  obtains ca where "trusted c s = (Inr \<lparr>sn_broken = None, sn_entries = db_rows (pm_db s)\<rparr>, s\<lparr>pm_cache := ca\<rparr>)" "chain_inv c (s\<lparr>pm_cache := ca\<rparr>)"
proof -
  have coh: "coherent c s" and ver: "verified c (pm_signer s) (pm_db s)" using assms by (simp_all add: chain_inv_def)
  obtain r s' where sn: "chain_snapshot c s = (r, s')" by fastforce
  from coh sn show thesis
  proof (cases rule: snapshotE)
    case (ok sn ca)
    then have "sn = \<lparr>sn_broken = None, sn_entries = db_rows (pm_db s)\<rparr>" using ver by (simp add: verified_def)
    with ok sn assms show thesis by (intro that [of ca]) (simp_all add: trusted_def bind_op_def chain_inv_def)
  next
    case threw
    with ver show thesis by (simp add: verified_def)
  qed
qed

text \<open>
  What a body of the store may leave behind: on success the invariant and a longer or equal log, and after an exception a cache
  that is stale or honest for the unchanged database, so that the rollback restores the invariant.
\<close>

definition good :: "crypto \<Rightarrow> perm \<Rightarrow> perm \<Rightarrow> bool" where
  "good c s s' \<longleftrightarrow> store_inv c s' \<and> prefix (db_rows (pm_db s)) (db_rows (pm_db s'))"

definition body_ok :: "crypto \<Rightarrow> 'a op \<Rightarrow> bool" where
  "body_ok c m \<longleftrightarrow> (\<forall>s r s'. store_inv c s \<longrightarrow> signer_ok c (pm_signer s) \<longrightarrow> m s = (r, s') \<longrightarrow>
     pm_signer s' = pm_signer s \<and> pm_dv s' = pm_dv s \<and>
     (case r of Inr _ \<Rightarrow> good c s s' | Inl _ \<Rightarrow> coherent c (s'\<lparr>pm_db := pm_db s\<rparr>)))"

lemma body_okD:
  "body_ok c m \<Longrightarrow> store_inv c s \<Longrightarrow> signer_ok c (pm_signer s) \<Longrightarrow> m s = (r, s') \<Longrightarrow>
    pm_signer s' = pm_signer s \<and> pm_dv s' = pm_dv s \<and>
    (case r of Inr _ \<Rightarrow> good c s s' | Inl _ \<Rightarrow> coherent c (s'\<lparr>pm_db := pm_db s\<rparr>))"
  unfolding body_ok_def by blast

lemma transaction_inv:
  assumes "body_ok c m" and "store_inv c s" and "signer_ok c (pm_signer s)"
  shows "good c s (snd (transaction m s)) \<and> pm_signer (snd (transaction m s)) = pm_signer s"
proof -
  obtain r s' where m: "m s = (r, s')" by fastforce
  note b = body_okD [OF assms m]
  show ?thesis
  proof (cases r)
    case (Inr x)
    with b m show ?thesis by (simp add: transaction_def)
  next
    case (Inl e)
    with b m assms(2) show ?thesis by (simp add: transaction_def good_def store_inv_def chain_inv_def)
  qed
qed

lemma body_ok_trusted:
  assumes "\<And>s. store_inv c s \<Longrightarrow> signer_ok c (pm_signer s) \<Longrightarrow>
    (case f \<lparr>sn_broken = None, sn_entries = db_rows (pm_db s)\<rparr> s of (r, s') \<Rightarrow>
     pm_signer s' = pm_signer s \<and> pm_dv s' = pm_dv s \<and>
     (case r of Inr _ \<Rightarrow> good c s s' | Inl _ \<Rightarrow> coherent c (s'\<lparr>pm_db := pm_db s\<rparr>)))"
  shows "body_ok c (bind_op (trusted c) f)"
  unfolding body_ok_def
proof (intro allI impI)
  fix s r s'
  assume inv: "store_inv c s" and sg: "signer_ok c (pm_signer s)" and run: "bind_op (trusted c) f s = (r, s')"
  have ci: "chain_inv c s" using inv by (simp add: store_inv_def)
  from trustedE [OF ci] obtain ca where ca: "trusted c s = (Inr \<lparr>sn_broken = None, sn_entries = db_rows (pm_db s)\<rparr>, s\<lparr>pm_cache := ca\<rparr>)"
    "chain_inv c (s\<lparr>pm_cache := ca\<rparr>)" by blast
  let ?s = "s\<lparr>pm_cache := ca\<rparr>"
  have "store_inv c ?s" using ca(2) inv by (simp add: store_inv_def)
  from assms [OF this] sg run ca(1)
  show "pm_signer s' = pm_signer s \<and> pm_dv s' = pm_dv s \<and>
     (case r of Inr _ \<Rightarrow> good c s s' | Inl _ \<Rightarrow> coherent c (s'\<lparr>pm_db := pm_db s\<rparr>))"
    by (cases r) (simp_all add: bind_op_def good_def)
qed

abbreviation here :: "perm \<Rightarrow> snapshot" where
  "here s \<equiv> \<lparr>sn_broken = None, sn_entries = db_rows (pm_db s)\<rparr>"

abbreviation outcome_ok :: "crypto \<Rightarrow> perm \<Rightarrow> (exn, 'a) result \<times> perm \<Rightarrow> bool" where
  "outcome_ok c s out \<equiv> (case out of (r, s') \<Rightarrow> pm_signer s' = pm_signer s \<and> pm_dv s' = pm_dv s \<and>
     (case r of Inr _ \<Rightarrow> good c s s' | Inl _ \<Rightarrow> coherent c (s'\<lparr>pm_db := pm_db s\<rparr>)))"

text \<open>An append whose entry passes the replay rules keeps the chain part of the invariant.\<close>

lemma append_chain:
  assumes "chain_inv c s" and "signer_ok c (pm_signer s)" and "chain_append c now kind ref payload nonce s = (Inr e, s')"
    and "\<And>\<sigma>. semantic sem_init (db_rows (pm_db s)) = Inr \<sigma> \<Longrightarrow> sem_facts (db_rows (pm_db s)) \<sigma> \<Longrightarrow>
      (starts_with kind ''approval.'' \<Longrightarrow> \<forall>x\<in>set (db_rows (pm_db s)). \<not> has_kind kind ref x) \<Longrightarrow>
      \<exists>\<sigma>'. sem_step \<sigma> (next_entry c now (here s) kind ref payload nonce) = Inr \<sigma>'"
  shows "chain_inv c s' \<and> e = next_entry c now (here s) kind ref payload nonce \<and> db_rows (pm_db s') = db_rows (pm_db s) @ [e] \<and>
    db_approvals (pm_db s') = db_approvals (pm_db s) \<and> db_grants (pm_db s') = db_grants (pm_db s) \<and> same_process s s'"
proof -
  note a = append_Inr [OF assms(1,3)]
  have coh: "coherent c s" using assms(1) by (simp add: chain_inv_def)
  obtain \<sigma> where \<sigma>: "semantic sem_init (db_rows (pm_db s)) = Inr \<sigma>"
    using assms(1) by (auto simp: chain_inv_def verified_iff)
  with assms(4) [OF \<sigma> semantic_facts [OF \<sigma>]] a obtain \<sigma>' where "sem_step \<sigma> e = Inr \<sigma>'" by auto
  from append_verified [OF assms(1,3,2) \<sigma> this] a append_stale [OF coh assms(3)] show ?thesis by simp
qed

lemma proj_inv_update:
  assumes "proj_inv db" and "\<And>row. ap_nonce (f row) = ap_nonce row"
  shows "proj_inv (db\<lparr>db_approvals := map (\<lambda>(k, row). (k, if k = i then f row else row)) (db_approvals db)\<rparr>)"
proof -
  let ?g = "\<lambda>(k, row). (k, if k = i then f row else row)"
  have g: "fst (?g a) = fst a" "ap_nonce (snd (?g a)) = ap_nonce (snd a)" for a
    using assms(2) by (cases a; simp)+
  then have "map fst (map ?g (db_approvals db)) = map fst (db_approvals db)"
    "map (\<lambda>a. ap_nonce (snd a)) (map ?g (db_approvals db)) = map (\<lambda>a. ap_nonce (snd a)) (db_approvals db)"
    by (simp_all add: comp_def)
  moreover have "\<exists>a\<in>set (map ?g (db_approvals db)). fst a = r \<and> n = Some (ap_nonce (snd a))"
    if "\<exists>a\<in>set (db_approvals db). fst a = r \<and> n = Some (ap_nonce (snd a))" for r n
  proof -
    from that obtain a where "a \<in> set (db_approvals db)" "fst a = r" "n = Some (ap_nonce (snd a))" by blast
    then show ?thesis by (intro bexI [of _ "?g a"]) (simp_all only: g set_map imageI simp_thms)
  qed
  ultimately show ?thesis using assms(1) unfolding proj_inv_def by (simp del: map_map)
qed

lemma proj_inv_append:
  "proj_inv db \<Longrightarrow> db_rows db' = db_rows db @ [e] \<Longrightarrow> db_approvals db' = db_approvals db \<Longrightarrow> ce_kind e \<noteq> ''approval.requested'' \<Longrightarrow> decided_ok e \<Longrightarrow> proj_inv db'"
  by (auto simp: proj_inv_def)

lemma append_then_update:
  assumes inv: "store_inv c s" and sg: "signer_ok c (pm_signer s)" and k: "kind \<noteq> ''approval.requested''"
    and f: "\<And>row. ap_nonce (f row) = ap_nonce row"
    and dok: "decided_ok (next_entry c now (here s) kind ref payload nonce)"
    and sem: "\<And>\<sigma>. semantic sem_init (db_rows (pm_db s)) = Inr \<sigma> \<Longrightarrow> sem_facts (db_rows (pm_db s)) \<sigma> \<Longrightarrow>
      \<exists>\<sigma>'. sem_step \<sigma> (next_entry c now (here s) kind ref payload nonce) = Inr \<sigma>'"
  shows "outcome_ok c s (bind_op (chain_append c now kind ref payload nonce) (\<lambda>_. bind_op (update_approval i f) (\<lambda>_. ret y)) s)"
proof -
  have ci: "chain_inv c s" and pr: "proj_inv (pm_db s)" using inv by (simp_all add: store_inv_def)
  obtain r s1 where ap: "chain_append c now kind ref payload nonce s = (r, s1)" by fastforce
  have coh: "coherent c s" using ci by (simp add: chain_inv_def)
  note st = append_stale [OF coh ap]
  show ?thesis
  proof (cases r)
    case (Inl x)
    with ap st show ?thesis by (simp add: bind_op_def same_process_def stale_coherent)
  next
    case (Inr e)
    note a = append_chain [OF ci sg ap [unfolded Inr] sem]
    have "proj_inv (pm_db s1)" using proj_inv_append [OF pr] a k dok by auto
    from proj_inv_update [OF this f] a Inr ap show ?thesis
      by (simp add: bind_op_def update_approval_def same_process_def good_def store_inv_def)
  qed
qed

section \<open>Every operation keeps the invariant\<close>

lemma ret_ok: "store_inv c s \<Longrightarrow> outcome_ok c s (ret x s)"
  by (simp add: good_def)

lemma insert_approval_Inl: "insert_approval i row s = (Inl x, s') \<Longrightarrow> s' = s"
  by (auto simp: insert_approval_def Let_def split: if_splits)

lemma proj_inv_insert:
  assumes "proj_inv db" and "i \<notin> fst ` set (db_approvals db)" and "ap_nonce row \<notin> ap_nonce ` snd ` set (db_approvals db)"
    and "db_rows db' = db_rows db @ [e]" and "ce_refId e = i" and "ce_nonce e = Some (ap_nonce row)" and "decided_ok e"
    and "db_approvals db' = db_approvals db @ [(i, row)]"
  shows "proj_inv db'"
  using assms unfolding proj_inv_def by (auto simp: image_image comp_def)

lemma store_request_tail:
  assumes inv: "store_inv c s" and sg: "signer_ok c (pm_signer s)" and t: "bindingTuple (boundOf (ri_binding i)) = Some t"
  shows "outcome_ok c s (bind_op (chain_append c (en_now v) ''approval.requested'' (en_id v) (request_payload i x) (Some (en_nonce v))) (\<lambda>_.
      bind_op (insert_approval (en_id v) (request_row v i x)) (\<lambda>_. ret (en_id v, en_nonce v, x))) s)"
proof -
  have ci: "chain_inv c s" and pr: "proj_inv (pm_db s)" using inv by (simp_all add: store_inv_def)
  obtain r s1 where ap: "chain_append c (en_now v) ''approval.requested'' (en_id v) (request_payload i x) (Some (en_nonce v)) s = (r, s1)" by fastforce
  have coh: "coherent c s" using ci by (simp add: chain_inv_def)
  note st = append_stale [OF coh ap]
  show ?thesis
  proof (cases r)
    case (Inl z)
    with ap st show ?thesis by (simp add: bind_op_def same_process_def stale_coherent)
  next
    case (Inr e)
    have tup: "bindingTuple (jget (request_payload i x) ''bound'') = Some t" using t by (simp add: request_payload_def)
    have pay: "json_value (request_payload i x) = JObj (map (map_prod id json_value) (case request_payload i x of JObj kvs \<Rightarrow> kvs | _ \<Rightarrow> []))"
      by (simp add: request_payload_def)
    have a: "chain_inv c s1 \<and> e = next_entry c (en_now v) (here s) ''approval.requested'' (en_id v) (request_payload i x) (Some (en_nonce v)) \<and>
      db_rows (pm_db s1) = db_rows (pm_db s) @ [e] \<and> db_approvals (pm_db s1) = db_approvals (pm_db s) \<and> db_grants (pm_db s1) = db_grants (pm_db s) \<and> same_process s s1"
    proof (rule append_chain [OF ci sg ap [unfolded Inr]])
      fix \<sigma>
      assume f: "sem_facts (db_rows (pm_db s)) \<sigma>" and n: "starts_with ''approval.requested'' ''approval.'' \<Longrightarrow> \<forall>y\<in>set (db_rows (pm_db s)). \<not> has_kind ''approval.requested'' (en_id v) y"
      show "\<exists>\<sigma>'. sem_step \<sigma> (next_entry c (en_now v) (here s) ''approval.requested'' (en_id v) (request_payload i x) (Some (en_nonce v))) = Inr \<sigma>'"
        by (rule sem_step_requestedI [OF f, where t = t and p = "json_value (request_payload i x)"])
          (use n in \<open>simp_all add: tup stringify_def json_parse_def pay is_object_def\<close>)
    qed
    obtain r2 s2 where ia: "insert_approval (en_id v) (request_row v i x) s1 = (r2, s2)" by fastforce
    show ?thesis
    proof (cases r2)
      case (Inl z)
      with ia insert_approval_Inl have "s2 = s1" by blast
      with Inl ia Inr ap st show ?thesis by (simp add: bind_op_def same_process_def stale_coherent)
    next
      case I2: (Inr u)
      have fresh: "en_id v \<notin> fst ` set (db_approvals (pm_db s1))" "en_nonce v \<notin> ap_nonce ` snd ` set (db_approvals (pm_db s1))"
        and s2: "s2 = s1\<lparr>pm_db := (pm_db s1)\<lparr>db_approvals := db_approvals (pm_db s1) @ [(en_id v, request_row v i x)]\<rparr>\<rparr>"
        using ia I2 by (auto simp: insert_approval_def Let_def request_row_def split: if_splits)
      have "proj_inv (pm_db s2)"
        by (rule proj_inv_insert [OF pr, where i = "en_id v" and row = "request_row v i x" and e = e])
          (use fresh a in \<open>auto simp: s2 request_row_def Let_def decided_ok_def\<close>)
      with a s2 ia I2 Inr ap show ?thesis by (simp add: bind_op_def same_process_def good_def store_inv_def)
    qed
  qed
qed

lemma store_request_ok: "body_ok c (store_request_body c v i)"
proof (cases "bindingTuple (boundOf (ri_binding i))")
  case None
  then show ?thesis by (auto simp: store_request_body_def body_ok_def store_inv_def chain_inv_def)
next
  case (Some t)
  show ?thesis
  proof (cases "ri_detail i \<noteq> None \<and> MAX_DETAIL_BYTES < ri_detailBytes i")
    case True
    with Some have "store_request_body c v i = raise TypeError" by (simp add: store_request_body_def)
    then show ?thesis by (auto simp: body_ok_def store_inv_def chain_inv_def)
  next
    case False
    have "store_request_body c v i = bind_op (trusted c) (\<lambda>_.
       let expiresAt = Fin (en_now v) + en_ttl v in
       bind_op (chain_append c (en_now v) ''approval.requested'' (en_id v) (request_payload i expiresAt) (Some (en_nonce v))) (\<lambda>_.
       bind_op (insert_approval (en_id v) (request_row v i expiresAt)) (\<lambda>_. ret (en_id v, en_nonce v, expiresAt))))"
      unfolding store_request_body_def using Some False by (simp only: if_False option.distinct simp_thms)
    then show ?thesis using store_request_tail [OF _ _ Some] by (simp only: Let_def) (rule body_ok_trusted)
  qed
qed

text \<open>The early returns of an operation change nothing.\<close>

lemma if_ret_ok:
  assumes "store_inv c s" and "\<not> P \<Longrightarrow> outcome_ok c s (m s)"
  shows "outcome_ok c s ((if P then ret x else m) s)"
  using assms by (cases P) (simp_all add: good_def)

text \<open>A nonce that no decision of its own request has spent is not spent by another decision either.\<close>

lemma nonce_fresh:
  assumes inv: "store_inv c s" and q: "q \<in> set (db_rows (pm_db s))" "has_kind ''approval.requested'' i q" "ce_nonce q = Some n"
    and d: "\<And>x. x \<in> set (db_rows (pm_db s)) \<Longrightarrow> \<not> has_kind ''approval.decided'' i x"
  shows "\<forall>x\<in>set (db_rows (pm_db s)). ce_kind x = ''approval.decided'' \<longrightarrow> ce_nonce x \<noteq> Some n"
proof (intro ballI impI notI)
  fix x assume x: "x \<in> set (db_rows (pm_db s))" "ce_kind x = ''approval.decided''" "ce_nonce x = Some n"
  obtain \<sigma> where \<sigma>: "semantic sem_init (db_rows (pm_db s)) = Inr \<sigma>"
    using inv by (auto simp: store_inv_def chain_inv_def verified_iff)
  from semantic_backed [OF \<sigma>] x obtain y where y: "y \<in> set (db_rows (pm_db s))" "has_kind ''approval.requested'' (ce_refId x) y" "ce_nonce y = Some n"
    unfolding backed_def by fastforce
  have pr: "distinct (map (\<lambda>a. ap_nonce (snd a)) (db_approvals (pm_db s)))"
    "\<And>e. e \<in> set (db_rows (pm_db s)) \<Longrightarrow> ce_kind e = ''approval.requested'' \<Longrightarrow>
      \<exists>a\<in>set (db_approvals (pm_db s)). fst a = ce_refId e \<and> ce_nonce e = Some (ap_nonce (snd a))"
    using inv by (simp_all add: store_inv_def proj_inv_def)
  from pr(2) [OF q(1)] q obtain a where a: "a \<in> set (db_approvals (pm_db s))" "fst a = i" "ap_nonce (snd a) = n" by auto
  from pr(2) [OF y(1)] y obtain b where b: "b \<in> set (db_approvals (pm_db s))" "fst b = ce_refId x" "ap_nonce (snd b) = n" by auto
  have "a = b" using pr(1) a(1,3) b(1,3) by (auto simp: distinct_map inj_on_def)
  with a(2) b(2) d [OF x(1)] x(2) show False by simp
qed

lemma store_semantic:
  assumes "store_inv c s"
  obtains \<sigma> where "semantic sem_init (db_rows (pm_db s)) = Inr \<sigma>" "sem_facts (db_rows (pm_db s)) \<sigma>"
  using assms semantic_facts by (auto simp: store_inv_def chain_inv_def verified_iff)

lemma requested_tuple:
  assumes "store_inv c s" and "q \<in> set (db_rows (pm_db s))" and "ce_kind q = ''approval.requested''"
  obtains t where "entry_tuple q = Some t"
proof -
  obtain \<sigma> where "semantic sem_init (db_rows (pm_db s)) = Inr \<sigma>" using assms(1) by (elim store_semantic)
  from semantic_wf [OF this] assms(2,3) that show thesis by blast
qed

lemma store_decide_ok: "body_ok c (store_decide_body c v d)"
proof (cases "surface_level (di_surface d)")
  case None
  then show ?thesis by (simp add: store_decide_body_def body_ok_def good_def)
next
  case (Some lvl)
  show ?thesis
    unfolding store_decide_body_def Some option.case
  proof (rule body_ok_trusted)
    fix s assume inv: "store_inv c s" and sg: "signer_ok c (pm_signer s)"
    let ?es = "by_ref (here s) (di_requestId d)"
    show "outcome_ok c s ((let es = ?es in
         case find_kind es ''approval.requested'' of
           None \<Rightarrow> ret (Inl ApprovalMismatch)
         | Some req \<Rightarrow>
           (let rp = entry_value req in
            if jget (jget rp ''bound'') ''principal'' \<noteq> JStr (di_person d) then ret (Inl ApprovalMismatch)
            else if ce_nonce req = None \<or> di_nonce d \<noteq> JStr (the (ce_nonce req)) then ret (Inl ApprovalMismatch)
            else if find_kind es ''approval.decided'' \<noteq> None then ret (Inl ApprovalUsed)
            else if find_kind es ''approval.cancelled'' \<noteq> None then ret (Inl ApprovalExpired)
            else if to_number (jget rp ''expiresAt'') \<le> Fin (en_now v) then ret (Inl ApprovalExpired)
            else
              bind_op (chain_append c (en_now v) ''approval.decided'' (di_requestId d) (decided_payload d (jget rp ''bound'')) (Some (sv (di_nonce d)))) (\<lambda>_.
              bind_op (update_approval (di_requestId d) (\<lambda>row. row\<lparr>ap_status := (if di_decision d = Approve then ''approved'' else ''denied''),
                 ap_decidedAt := Some (en_now v), ap_decidedBy := Some (di_person d), ap_decisionSurface := Some lvl,
                 ap_delegable := di_delegable d \<and> di_decision d = Approve\<rparr>)) (\<lambda>_.
              ret (Inr (if di_decision d = Approve then Approved else Denied_status)))))) s)"
    proof (cases "find_kind ?es ''approval.requested''")
      case None
      with inv show ?thesis by (simp add: good_def)
    next
      case R: (Some q)
      show ?thesis
        unfolding Let_def R option.case
      proof (intro if_ret_ok inv append_then_update sg)
        assume "\<not> jget (jget (entry_value q) ''bound'') ''principal'' \<noteq> JStr (di_person d)"
        then show "decided_ok (next_entry c (en_now v) (here s) ''approval.decided'' (di_requestId d) (decided_payload d (jget (entry_value q) ''bound'')) (Some (sv (di_nonce d))))"
          using Some by (auto simp: decided_ok_def decided_payload_def jget_json_value surface_level_def split: if_splits)
      next
        fix \<sigma>
        assume c1: "\<not> (ce_nonce q = None \<or> di_nonce d \<noteq> JStr (the (ce_nonce q)))"
          and c2: "\<not> find_kind ?es ''approval.decided'' \<noteq> None" and c3: "\<not> find_kind ?es ''approval.cancelled'' \<noteq> None"
          and f: "sem_facts (db_rows (pm_db s)) \<sigma>"
        have q: "q \<in> set (db_rows (pm_db s))" "has_kind ''approval.requested'' (di_requestId d) q" using find_kind_SomeD [OF R] by simp_all
        obtain n where n: "ce_nonce q = Some n" "sv (di_nonce d) = n" using c1 by (auto simp: sv_def)
        obtain t where t: "entry_tuple q = Some t" using requested_tuple [OF inv q(1)] q(2) by blast
        have nd: "\<not> has_kind ''approval.decided'' (di_requestId d) x" and nc: "\<not> has_kind ''approval.cancelled'' (di_requestId d) x"
          if "x \<in> set (db_rows (pm_db s))" for x
          using find_kind_NoneD [of "here s"] c2 c3 that by auto
        let ?e = "next_entry c (en_now v) (here s) ''approval.decided'' (di_requestId d) (decided_payload d (jget (entry_value q) ''bound'')) (Some (sv (di_nonce d)))"
        show "\<exists>\<sigma>'. sem_step \<sigma> ?e = Inr \<sigma>'"
          by (rule sem_step_decidedI [OF f, where t = t and n = n and q = q and d = "verdict_str (di_decision d)"
                and p = "json_value (decided_payload d (jget (entry_value q) ''bound''))"])
            (use q n t nd nc nonce_fresh [OF inv q n(1) nd] in
              \<open>simp_all add: decided_payload_def stringify_def json_parse_def is_object_def entry_tuple_def verdict_str_def split: verdict.splits\<close>)
      qed simp_all
    qed
  qed
qed

lemma store_cancel_ok: "body_ok c (store_cancel_body c v i who)"
  unfolding store_cancel_body_def
proof (rule body_ok_trusted)
  fix s assume inv: "store_inv c s" and sg: "signer_ok c (pm_signer s)"
  let ?es = "by_ref (here s) i"
  show "outcome_ok c s ((let es = ?es in
      case find_kind es ''approval.requested'' of
        None \<Rightarrow> ret (Some ApprovalMismatch)
      | Some req \<Rightarrow>
        (let rp = entry_value req in
         if find_kind es ''approval.decided'' \<noteq> None \<or> find_kind es ''approval.cancelled'' \<noteq> None then ret (Some ApprovalUsed)
         else if to_number (jget rp ''expiresAt'') \<le> Fin (en_now v) then ret (Some ApprovalExpired)
         else
           bind_op (chain_append c (en_now v) ''approval.cancelled'' i (JObj [(''by'', JStr who), (''bound'', jget rp ''bound'')]) None) (\<lambda>_.
           bind_op (update_approval i (\<lambda>row. row\<lparr>ap_status := ''cancelled''\<rparr>)) (\<lambda>_.
           ret None)))) s)"
  proof (cases "find_kind ?es ''approval.requested''")
    case None
    with inv show ?thesis by (simp add: good_def)
  next
    case R: (Some q)
    show ?thesis
      unfolding Let_def R option.case
    proof (intro if_ret_ok inv append_then_update sg)
      fix \<sigma>
      assume c1: "\<not> (find_kind ?es ''approval.decided'' \<noteq> None \<or> find_kind ?es ''approval.cancelled'' \<noteq> None)"
        and f: "sem_facts (db_rows (pm_db s)) \<sigma>"
      have q: "q \<in> set (db_rows (pm_db s))" "has_kind ''approval.requested'' i q" using find_kind_SomeD [OF R] by simp_all
      obtain t where t: "entry_tuple q = Some t" using requested_tuple [OF inv q(1)] q(2) by blast
      have nd: "\<not> has_kind ''approval.decided'' i x" if "x \<in> set (db_rows (pm_db s))" for x
        using find_kind_NoneD [of "here s"] c1 that by auto
      let ?p = "JObj [(''by'', JStr who), (''bound'', jget (entry_value q) ''bound'')]"
      show "\<exists>\<sigma>'. sem_step \<sigma> (next_entry c (en_now v) (here s) ''approval.cancelled'' i ?p None) = Inr \<sigma>'"
        by (rule sem_step_cancelledI [OF f, where t = t and q = q and p = "json_value ?p"])
          (use q t nd in \<open>simp_all add: stringify_def json_parse_def is_object_def entry_tuple_def\<close>)
    qed (simp_all add: decided_ok_def)
  qed
qed

lemma store_consume_ok: "body_ok c (store_consume_body c v b)"
  unfolding store_consume_body_def
proof (rule body_ok_trusted)
  fix s assume inv: "store_inv c s" and sg: "signer_ok c (pm_signer s)"
  let ?es = "by_ref (here s) (ab_requestId b)"
  show "outcome_ok c s ((let es = ?es; tuple = bindingTuple (boundOf b) in
      case (find_kind es ''approval.requested'', find_kind es ''approval.decided'') of
        (Some req, Some dec) \<Rightarrow>
          (let rp = entry_value req; dp = entry_value dec in
           if tuple = None then ret (Inl ApprovalMismatch)
           else if jget dp ''decision'' \<noteq> JStr ''approve'' \<or> bindingTuple (jget rp ''bound'') \<noteq> tuple then ret (Inl ApprovalMismatch)
           else if find_kind es ''approval.used'' \<noteq> None then ret (Inl ApprovalUsed)
           else if to_number (jget rp ''expiresAt'') \<le> Fin (en_now v) then ret (Inl ApprovalExpired)
           else
             bind_op (chain_append c (en_now v) ''approval.used'' (ab_requestId b) (JObj [(''bound'', jget rp ''bound'')]) None) (\<lambda>_.
             bind_op (update_approval (ab_requestId b) (\<lambda>row. row\<lparr>ap_status := ''used'', ap_usedAt := Some (en_now v)\<rparr>)) (\<lambda>_.
             ret (Inr (jget dp ''delegable'' = JBool True)))))
      | _ \<Rightarrow> ret (Inl ApprovalMismatch)) s)"
  proof (cases "find_kind ?es ''approval.requested'' = None \<or> find_kind ?es ''approval.decided'' = None")
    case True
    with inv show ?thesis by (auto simp: Let_def good_def split: option.splits)
  next
    case False
    then obtain q d where R: "find_kind ?es ''approval.requested'' = Some q" and D: "find_kind ?es ''approval.decided'' = Some d" by auto
    show ?thesis
      unfolding Let_def R D option.case prod.case
    proof (intro if_ret_ok inv append_then_update sg)
      fix \<sigma>
      assume c1: "\<not> (jget (entry_value d) ''decision'' \<noteq> JStr ''approve'' \<or> bindingTuple (jget (entry_value q) ''bound'') \<noteq> bindingTuple (boundOf b))"
        and c2: "\<not> find_kind ?es ''approval.used'' \<noteq> None" and f: "sem_facts (db_rows (pm_db s)) \<sigma>"
      have q: "q \<in> set (db_rows (pm_db s))" "has_kind ''approval.requested'' (ab_requestId b) q" using find_kind_SomeD [OF R] by simp_all
      have d: "d \<in> set (db_rows (pm_db s))" "has_kind ''approval.decided'' (ab_requestId b) d" using find_kind_SomeD [OF D] by simp_all
      obtain t where t: "entry_tuple q = Some t" using requested_tuple [OF inv q(1)] q(2) by blast
      have nu: "\<not> has_kind ''approval.used'' (ab_requestId b) x" if "x \<in> set (db_rows (pm_db s))" for x
        using find_kind_NoneD [of "here s"] c2 that by auto
      let ?p = "JObj [(''bound'', jget (entry_value q) ''bound'')]"
      show "\<exists>\<sigma>'. sem_step \<sigma> (next_entry c (en_now v) (here s) ''approval.used'' (ab_requestId b) ?p None) = Inr \<sigma>'"
        by (rule sem_step_usedI [OF f, where t = t and q = q and d = d and p = "json_value ?p"])
          (use q d t nu c1 in \<open>simp_all add: stringify_def json_parse_def is_object_def entry_tuple_def\<close>)
    qed (simp_all add: decided_ok_def)
  qed
qed

lemma read_ok: "body_ok c (bind_op (trusted c) (\<lambda>sn. ret (f sn)))"
  by (rule body_ok_trusted) (simp add: good_def)

section \<open>Runs of the store\<close>

text \<open>
  One process that uses the store: any operation with any input, clock reading, id and nonce, and a
  change of the signing identity to one whose public key the earlier signatures carry.
\<close>

datatype store_call =
    CallRequest store_env request_input
  | CallDecide store_env decide_input
  | CallCancel store_env string string
  | CallConsume store_env approval_binding
  | CallGet rat string
  | CallList rat "approval_status option" "string option"

definition run_call :: "crypto \<Rightarrow> store_call \<Rightarrow> perm \<Rightarrow> perm" where
  "run_call c k s = (case k of
     CallRequest v i \<Rightarrow> snd (store_request c v i s)
   | CallDecide v d \<Rightarrow> snd (store_decide c v d s)
   | CallCancel v i who \<Rightarrow> snd (store_cancel c v i who s)
   | CallConsume v b \<Rightarrow> snd (store_consume c v b s)
   | CallGet now i \<Rightarrow> snd (store_get c now i s)
   | CallList now st who \<Rightarrow> snd (store_list c now st who s))"

definition run_calls :: "crypto \<Rightarrow> store_call list \<Rightarrow> perm \<Rightarrow> perm" where
  "run_calls c ks s = fold (run_call c) ks s"

lemma read_state_inv:
  assumes "store_inv c s" and "signer_ok c (pm_signer s)"
  shows "good c s (snd (bind_op (trusted c) (\<lambda>sn. ret (f sn)) s)) \<and> pm_signer (snd (bind_op (trusted c) (\<lambda>sn. ret (f sn)) s)) = pm_signer s"
proof -
  have ci: "chain_inv c s" using assms by (simp add: store_inv_def)
  obtain ca where "trusted c s = (Inr (here s), s\<lparr>pm_cache := ca\<rparr>)" "chain_inv c (s\<lparr>pm_cache := ca\<rparr>)"
    by (rule trustedE [OF ci])
  with assms(1) show ?thesis by (simp add: bind_op_def good_def store_inv_def)
qed

lemma store_reads_inv:
  assumes "store_inv c s" and "signer_ok c (pm_signer s)"
  shows "good c s (snd (store_get c now i s)) \<and> pm_signer (snd (store_get c now i s)) = pm_signer s"
    and "good c s (snd (store_list c now st who s)) \<and> pm_signer (snd (store_list c now st who s)) = pm_signer s"
  unfolding store_get_def store_list_def by (rule read_state_inv [OF assms])+

lemma run_call_inv:
  assumes "store_inv c s" and "signer_ok c (pm_signer s)"
  shows "good c s (run_call c k s) \<and> pm_signer (run_call c k s) = pm_signer s"
  using transaction_inv [OF store_request_ok assms] transaction_inv [OF store_decide_ok assms]
    transaction_inv [OF store_cancel_ok assms] transaction_inv [OF store_consume_ok assms] store_reads_inv [OF assms]
  by (cases k) (simp_all add: run_call_def store_request_def store_decide_def store_cancel_def store_consume_def)

lemma run_calls_inv:
  assumes "store_inv c s" and "signer_ok c (pm_signer s)"
  shows "good c s (run_calls c ks s) \<and> pm_signer (run_calls c ks s) = pm_signer s"
  using assms
proof (induction ks arbitrary: s)
  case (Cons k ks)
  then have k: "good c s (run_call c k s)" "pm_signer (run_call c k s) = pm_signer s" using run_call_inv by blast+
  with Cons.prems have "good c (run_call c k s) (run_calls c ks (run_call c k s)) \<and> pm_signer (run_calls c ks (run_call c k s)) = pm_signer (run_call c k s)"
    by (intro Cons.IH) (simp_all add: good_def)
  with k show ?case by (auto simp: run_calls_def good_def elim: prefix_order.trans)
qed (simp add: run_calls_def good_def)

lemma store_inv_init: "store_inv c (init_perm sg)"
  by (simp add: store_inv_def chain_inv_def proj_inv_def init_perm_def empty_db_def verified_iff head_ok_def coherent_def)

section \<open>What a successful decision and a successful use mean\<close>

lemma trusted_here:
  assumes "store_inv c s"
  obtains ca where "trusted c s = (Inr (here s), s\<lparr>pm_cache := ca\<rparr>)" "store_inv c (s\<lparr>pm_cache := ca\<rparr>)"
proof -
  have ci: "chain_inv c s" using assms by (simp add: store_inv_def)
  obtain ca where "trusted c s = (Inr (here s), s\<lparr>pm_cache := ca\<rparr>)" "chain_inv c (s\<lparr>pm_cache := ca\<rparr>)"
    by (rule trustedE [OF ci])
  with assms that show thesis by (simp add: store_inv_def)
qed

lemma bind_op_Inr: "m s = (Inr x, s') \<Longrightarrow> bind_op m f s = f x s'"
  by (simp add: bind_op_def)

lemma append_rows:
  assumes "store_inv c s" and "chain_append c now kind ref payload nonce s = (Inr e, s')"
  shows "db_rows (pm_db s') = db_rows (pm_db s) @ [next_entry c now (here s) kind ref payload nonce]"
  using append_Inr assms by (auto simp: store_inv_def)

definition consume_facts :: "chain_entry list \<Rightarrow> approval_binding \<Rightarrow> rat \<Rightarrow> bool" where
  "consume_facts es b now \<longleftrightarrow>
     (\<exists>q\<in>set es. \<exists>d\<in>set es. \<exists>who lvl.
        has_kind ''approval.requested'' (ab_requestId b) q \<and> has_kind ''approval.decided'' (ab_requestId b) d \<and>
        jget (entry_value d) ''decision'' = JStr ''approve'' \<and>
        entry_tuple q = bindingTuple (boundOf b) \<and> entry_tuple d = entry_tuple q \<and> bindingTuple (boundOf b) \<noteq> None \<and>
        ab_principal b = JStr who \<and> jget (entry_value d) ''person'' = JStr who \<and>
        jget (entry_value d) ''surface'' = JNum lvl \<and> lvl \<in> {Fin 1, Fin 2, Fin 3} \<and>
        \<not> to_number (jget (entry_value q) ''expiresAt'') \<le> Fin now) \<and>
     (\<forall>x\<in>set es. \<not> has_kind ''approval.used'' (ab_requestId b) x \<and> \<not> has_kind ''approval.cancelled'' (ab_requestId b) x)"

lemma is_strE: "is_str v \<Longrightarrow> (\<And>t. v = JStr t \<Longrightarrow> P) \<Longrightarrow> P"
  by (cases v) (simp_all add: is_str_def)

lemma bindingTuple_SomeD: "bindingTuple b = Some ts \<Longrightarrow> jget b ''principal'' = JStr (ts ! 1)"
proof -
  assume b: "bindingTuple b = Some ts"
  let ?ps = "[jget (jget b ''subject'') ''kind'', jget (jget b ''subject'') ''id'', jget b ''turnId'', jget b ''taskId'', jget b ''sessionId'']"
  have all: "list_all is_str (jget b ''actionHash'' # jget b ''principal'' # ?ps)"
    and ts: "ts = List.map_filter str_of (jget b ''actionHash'' # jget b ''principal'' # ?ps)"
    using b unfolding bindingTuple_def Let_def by (simp_all only: option.inject option.distinct split: if_splits)
  obtain h where h: "jget b ''actionHash'' = JStr h" using all by (auto elim: is_strE)
  obtain p where p: "jget b ''principal'' = JStr p" using all by (auto elim: is_strE)
  have "ts = h # p # List.map_filter str_of ?ps" unfolding ts h p by (simp add: List.map_filter_simps)
  with p show "jget b ''principal'' = JStr (ts ! 1)" by simp
qed

lemma bindingTuple_principal:
  assumes "bindingTuple x = bindingTuple y" and "bindingTuple x \<noteq> None"
  shows "jget x ''principal'' = jget y ''principal''"
proof -
  obtain ts where "bindingTuple x = Some ts" using assms(2) by blast
  with assms(1) bindingTuple_SomeD show ?thesis by metis
qed

text \<open>A success went past an early return.\<close>

lemma if_ret_Inr:
  assumes "(if P then ret (Inl x) else m) s = (Inr (Inr y), s')"
  shows "\<not> P \<and> m s = (Inr (Inr y), s')"
  using assms by (cases P) simp_all

lemma decided_entry_facts:
  assumes inv: "store_inv c s" and d: "d \<in> set (db_rows (pm_db s))" "has_kind ''approval.decided'' i d"
    and q: "q \<in> set (db_rows (pm_db s))" "has_kind ''approval.requested'' i q"
  shows "entry_tuple d = entry_tuple q \<and> entry_tuple q \<noteq> None \<and> (\<forall>x\<in>set (db_rows (pm_db s)). \<not> has_kind ''approval.cancelled'' i x) \<and>
    (\<exists>who lvl. jget (entry_value d) ''person'' = JStr who \<and> jget (jget (entry_value d) ''bound'') ''principal'' = JStr who \<and>
        jget (entry_value d) ''surface'' = JNum lvl \<and> lvl \<in> {Fin 1, Fin 2, Fin 3})"
proof -
  let ?es = "db_rows (pm_db s)"
  obtain \<sigma> where \<sigma>: "semantic sem_init ?es = Inr \<sigma>" "sem_facts ?es \<sigma>" using inv by (elim store_semantic)
  note wf = semantic_wf [OF \<sigma>(1)]
  from semantic_backed [OF \<sigma>(1)] d obtain y where y: "y \<in> set ?es" "has_kind ''approval.requested'' i y" "entry_tuple y = entry_tuple d"
    unfolding backed_def by fastforce
  have "y = q" using wf kind_onceD [of ?es y q] y q by (simp add: once_kinds_def)
  moreover have "entry_tuple q \<noteq> None" using wf q by blast
  moreover have "i \<notin> se_cancelled \<sigma>"
  proof -
    obtain v where "jget (entry_value d) ''decision'' = JStr v" using wf d by blast
    then have "se_decided \<sigma> i = Some v" using sem_factsD(2) [OF \<sigma>(2)] d by auto
    then show ?thesis using semantic_exclusive [OF \<sigma>(1)] by simp
  qed
  moreover have "decided_ok d" using inv d(1) by (simp add: store_inv_def proj_inv_def)
  ultimately show ?thesis using y(3) d(2) sem_factsD(4) [OF \<sigma>(2)] by (auto simp: decided_ok_def)
qed

lemma store_consume_Inr:
  assumes inv: "store_inv c s" and run: "store_consume c v b s = (Inr (Inr del), s')"
  shows "consume_facts (db_rows (pm_db s)) b (en_now v) \<and>
    (\<exists>e. db_rows (pm_db s') = db_rows (pm_db s) @ [e] \<and> has_kind ''approval.used'' (ab_requestId b) e)"
proof -
  obtain ca where tr: "trusted c s = (Inr (here s), s\<lparr>pm_cache := ca\<rparr>)" and inv2: "store_inv c (s\<lparr>pm_cache := ca\<rparr>)"
    by (rule trusted_here [OF inv])
  let ?es = "by_ref (here s) (ab_requestId b)"
  have body: "(let es = ?es; tuple = bindingTuple (boundOf b) in
      case (find_kind es ''approval.requested'', find_kind es ''approval.decided'') of
        (Some req, Some dec) \<Rightarrow>
          (let rp = entry_value req; dp = entry_value dec in
           if tuple = None then ret (Inl ApprovalMismatch)
           else if jget dp ''decision'' \<noteq> JStr ''approve'' \<or> bindingTuple (jget rp ''bound'') \<noteq> tuple then ret (Inl ApprovalMismatch)
           else if find_kind es ''approval.used'' \<noteq> None then ret (Inl ApprovalUsed)
           else if to_number (jget rp ''expiresAt'') \<le> Fin (en_now v) then ret (Inl ApprovalExpired)
           else
             bind_op (chain_append c (en_now v) ''approval.used'' (ab_requestId b) (JObj [(''bound'', jget rp ''bound'')]) None) (\<lambda>_.
             bind_op (update_approval (ab_requestId b) (\<lambda>row. row\<lparr>ap_status := ''used'', ap_usedAt := Some (en_now v)\<rparr>)) (\<lambda>_.
             ret (Inr (jget dp ''delegable'' = JBool True)))))
      | _ \<Rightarrow> ret (Inl ApprovalMismatch)) (s\<lparr>pm_cache := ca\<rparr>) = (Inr (Inr del), s')"
    using run unfolding store_consume_def store_consume_body_def transaction_Inr bind_op_Inr [where m = "trusted c", OF tr] .
  obtain q where R: "find_kind ?es ''approval.requested'' = Some q"
    using body by (cases "find_kind ?es ''approval.requested''") simp_all
  obtain d where D: "find_kind ?es ''approval.decided'' = Some d"
    using body R by (cases "find_kind ?es ''approval.decided''") simp_all
  note g1 = if_ret_Inr [OF body [unfolded Let_def R D option.case prod.case]]
  note g2 = if_ret_Inr [OF g1 [THEN conjunct2]]
  note g3 = if_ret_Inr [OF g2 [THEN conjunct2]]
  note g4 = if_ret_Inr [OF g3 [THEN conjunct2]]
  have g: "bindingTuple (boundOf b) \<noteq> None" "jget (entry_value d) ''decision'' = JStr ''approve''"
      "bindingTuple (jget (entry_value q) ''bound'') = bindingTuple (boundOf b)" "find_kind ?es ''approval.used'' = None"
      "\<not> to_number (jget (entry_value q) ''expiresAt'') \<le> Fin (en_now v)"
    using g1 g2 g3 g4 by blast+
  note tail = g4 [THEN conjunct2]
  have q: "q \<in> set (db_rows (pm_db s))" "has_kind ''approval.requested'' (ab_requestId b) q" using find_kind_SomeD [OF R] by simp_all
  have d: "d \<in> set (db_rows (pm_db s))" "has_kind ''approval.decided'' (ab_requestId b) d" using find_kind_SomeD [OF D] by simp_all
  have nu: "\<not> has_kind ''approval.used'' (ab_requestId b) x" if "x \<in> set (db_rows (pm_db s))" for x
    using find_kind_NoneD [OF g(4)] that by simp
  note df = decided_entry_facts [OF inv d q]
  have pr: "jget (jget (entry_value d) ''bound'') ''principal'' = ab_principal b"
    using bindingTuple_principal [of "jget (entry_value d) ''bound''" "boundOf b"] df g(1,3)
    by (simp add: entry_tuple_def boundOf_def)
  from tail obtain e s1 where ap: "chain_append c (en_now v) ''approval.used'' (ab_requestId b) (JObj [(''bound'', jget (entry_value q) ''bound'')]) None (s\<lparr>pm_cache := ca\<rparr>) = (Inr e, s1)"
    and s': "db_rows (pm_db s') = db_rows (pm_db s1)"
    by (elim bind_op_InrE) (auto simp: update_approval_def)
  have rows: "\<exists>e. db_rows (pm_db s') = db_rows (pm_db s) @ [e] \<and> has_kind ''approval.used'' (ab_requestId b) e"
    using append_rows [OF inv2 ap] s' by simp
  have "consume_facts (db_rows (pm_db s)) b (en_now v)"
    unfolding consume_facts_def
  proof (intro conjI)
    show "\<exists>q\<in>set (db_rows (pm_db s)). \<exists>d\<in>set (db_rows (pm_db s)). \<exists>who lvl.
        has_kind ''approval.requested'' (ab_requestId b) q \<and> has_kind ''approval.decided'' (ab_requestId b) d \<and>
        jget (entry_value d) ''decision'' = JStr ''approve'' \<and>
        entry_tuple q = bindingTuple (boundOf b) \<and> entry_tuple d = entry_tuple q \<and> bindingTuple (boundOf b) \<noteq> None \<and>
        ab_principal b = JStr who \<and> jget (entry_value d) ''person'' = JStr who \<and>
        jget (entry_value d) ''surface'' = JNum lvl \<and> lvl \<in> {Fin 1, Fin 2, Fin 3} \<and>
        \<not> to_number (jget (entry_value q) ''expiresAt'') \<le> Fin (en_now v)"
      using df g pr q d by (intro bexI [OF _ q(1)] bexI [OF _ d(1)]) (auto simp: entry_tuple_def)
  qed (use df nu in blast)
  with rows show ?thesis by blast
qed

lemma store_consume_refused:
  assumes inv: "store_inv c s" and u: "u \<in> set (db_rows (pm_db s))" "has_kind ''approval.used'' (ab_requestId b) u"
  shows "\<not> (\<exists>del s'. store_consume c v b s = (Inr (Inr del), s'))"
proof
  assume "\<exists>del s'. store_consume c v b s = (Inr (Inr del), s')"
  then obtain del s' where "store_consume c v b s = (Inr (Inr del), s')" by blast
  from store_consume_Inr [OF inv this] u show False unfolding consume_facts_def by blast
qed

text \<open>
  (C9) The store never breaks its own chain: after any sequence of requests, decisions, cancellations, uses and
  reads, with any inputs, clock readings and even repeated ids and nonces, \<open>verify\<close> answers that the chain
  holds (given that the signatures the store makes verify).
\<close>

theorem store_never_breaks_chain:
  assumes "signer_ok c sg"
  shows "fst (store_verify c (run_calls c ks (init_perm sg))) = Inr None"
proof -
  have "pm_signer (init_perm sg) = sg" by (simp add: init_perm_def)
  with run_calls_inv [OF store_inv_init, of c sg ks] assms have ci: "chain_inv c (run_calls c ks (init_perm sg))"
    by (simp add: good_def store_inv_def)
  obtain r s' where sn: "chain_snapshot c (run_calls c ks (init_perm sg)) = (r, s')" by fastforce
  from ci have coh: "coherent c (run_calls c ks (init_perm sg))" by (simp add: chain_inv_def)
  from coh sn show ?thesis
  proof (cases rule: snapshotE)
    case (ok sn' ca)
    with ci sn show ?thesis by (simp add: store_verify_def bind_op_def chain_inv_def verified_def)
  next
    case threw
    with ci show ?thesis by (simp add: chain_inv_def verified_def)
  qed
qed

text \<open>
  (C10) A use of an approval is earned and spent once: when \<open>consume\<close> succeeds after any history, the log holds
  the request and an approving decision with exactly the binding of the call, made by the bound person on a
  surface of level 1 to 3, unexpired, not cancelled and not used before; and after any further history no
  \<open>consume\<close> of that request succeeds, whatever it presents.
\<close>

theorem approval_used_once:
  assumes "signer_ok c sg" and "s = run_calls c ks (init_perm sg)"
    and "store_consume c v b s = (Inr (Inr del), s')"
  shows "consume_facts (db_rows (pm_db s)) b (en_now v) \<and>
    (ab_requestId b' = ab_requestId b \<longrightarrow> \<not> (\<exists>del' s''. store_consume c v' b' (run_calls c ks' s') = (Inr (Inr del'), s'')))"
proof -
  have init: "pm_signer (init_perm sg) = sg" by (simp add: init_perm_def)
  have inv: "store_inv c s" and sg: "pm_signer s = sg"
    using run_calls_inv [OF store_inv_init, of c sg ks] assms(1,2) init by (simp_all add: good_def)
  note co = store_consume_Inr [OF inv assms(3)]
  have "run_call c (CallConsume v b) s = s'" using assms(3) by (simp add: run_call_def)
  with run_call_inv [OF inv, of "CallConsume v b"] assms(1) sg have inv': "store_inv c s'" "pm_signer s' = sg"
    by (simp_all add: good_def)
  with run_calls_inv [OF inv'(1), of ks'] assms(1)
  have g: "store_inv c (run_calls c ks' s')" "prefix (db_rows (pm_db s')) (db_rows (pm_db (run_calls c ks' s')))"
    by (simp_all add: good_def)
  from co obtain u where "db_rows (pm_db s') = db_rows (pm_db s) @ [u]" and uk: "has_kind ''approval.used'' (ab_requestId b) u" by blast
  then have "u \<in> set (db_rows (pm_db s'))" by simp
  with g(2) have u: "u \<in> set (db_rows (pm_db (run_calls c ks' s')))" using set_mono_prefix by blast
  from store_consume_refused [OF g(1) u, of b'] uk co show ?thesis by simp
qed

section \<open>Witnesses\<close>

definition sample_signer :: signer where
  "sample_signer = \<lparr>si_publicKey = ''pk'', si_sign = (\<lambda>m. CHR ''s'' # m)\<rparr>"

lemma sample_signer_ok: "signer_ok sample_crypto (Some sample_signer)"
  by (simp add: signer_ok_def sample_crypto_def sample_signer_def)

definition sample_store_env :: "rat \<Rightarrow> store_env" where
  "sample_store_env now = \<lparr>en_now = now, en_id = ''apr_1'', en_nonce = ''n1'', en_ttl = Fin DEFAULT_REQUEST_TTL_MS\<rparr>"

definition sample_binding :: approval_binding where
  "sample_binding = \<lparr>ab_requestId = ''apr_1'', ab_actionHash = JStr ''h'', ab_principal = JStr ''anna'', ab_subjectKind = JStr ''agent'',
     ab_subjectId = JStr ''bot'', ab_turnId = JStr ''t'', ab_taskId = JStr ''k'', ab_sessionId = JStr ''s''\<rparr>"

definition sample_calls :: "store_call list" where
  "sample_calls =
    [CallRequest (sample_store_env 10) \<lparr>ri_binding = sample_binding, ri_capability = ''fs.write'', ri_detail = None, ri_detailBytes = 0\<rparr>,
     CallDecide (sample_store_env 20) \<lparr>di_requestId = ''apr_1'', di_nonce = JStr ''n1'', di_decision = Approve, di_person = ''anna'',
       di_surface = Fin 2, di_delegable = False\<rparr>]"

lemma sample_consume:
  "fst (store_consume sample_crypto (sample_store_env 30) sample_binding (run_calls sample_crypto sample_calls (init_perm (Some sample_signer)))) = Inr (Inr False)"
  by code_simp

theorem store_never_breaks_chain_witness:
  "fst (store_verify sample_crypto (run_calls sample_crypto sample_calls (init_perm (Some sample_signer)))) = Inr None"
  by (rule store_never_breaks_chain [OF sample_signer_ok])

theorem approval_used_once_witness:
  "consume_facts (db_rows (pm_db (run_calls sample_crypto sample_calls (init_perm (Some sample_signer))))) sample_binding 30"
proof -
  obtain s' where "store_consume sample_crypto (sample_store_env 30) sample_binding
      (run_calls sample_crypto sample_calls (init_perm (Some sample_signer))) = (Inr (Inr False), s')"
    using sample_consume by (cases "store_consume sample_crypto (sample_store_env 30) sample_binding
      (run_calls sample_crypto sample_calls (init_perm (Some sample_signer)))") auto
  from approval_used_once [OF sample_signer_ok refl this] show ?thesis by (simp add: sample_store_env_def)
qed

end
