(* ===== verification/Grant_Store.thy ===== *)
theory Grant_Store
  imports Approval_Store Policy_Paths "HOL-Library.Product_Lexorder" "HOL-Library.List_Lexorder" "HOL-Library.Char_ord"
begin

text \<open>
  The grant store: \<^verbatim>\<open>packages/core/src/grants/store.ts\<close>. A grant is a row of the shared database; its authority is the chain. On
  every read the row is compared with its chain entries, so that a row the chain does not vouch for is
  suspended, and a revocation or a consumption in the chain wins over the row.

  The environment of an operation is the clock reading, the generated id, the configured number of days, the home
  directory and its real path (both read from the operating system), the platform, the audit trail (which may fail to
  record a line) and whether a listener is set.
\<close>

section \<open>Data\<close>

record stored_grant = grant +
  st_createdBy :: string
  st_effect :: "string option"
  st_revokedAt :: "rat option"
  st_endReason :: "string option"
  st_attestedVia :: "string option"

datatype grant_state = Active | Revoked | Consumed | Suspended

record create_input =
  ci_id :: "string option"
  ci_capability :: string
  ci_person :: string
  ci_agent :: string
  ci_scope :: grant_scope
  ci_match :: grant_match
  ci_createdBy :: string
  ci_surface :: jsnum
  ci_effect :: "string option"
  ci_expiresAt :: "jsnum option"
  ci_actionHash :: "string option"
  ci_taskId :: "string option"
  ci_sessionId :: "string option"
  ci_projectId :: "string option"
  ci_jobId :: "string option"
  ci_delegable :: bool
  ci_acknowledgedUnsandboxed :: bool
  ci_attestedVia :: "string option"

record grant_env =
  ge_now :: rat
  ge_id :: string
  ge_maxGrantDays :: jsnum
  ge_home :: string
  ge_realHome :: "string option"
  ge_windows :: bool
  ge_audit :: "(string \<Rightarrow> jsval \<Rightarrow> bool) option"
  ge_notify :: bool

definition USE_RECORD_GRANULARITY_MS :: rat where
  "USE_RECORD_GRANULARITY_MS = 60 * 60000"

definition MAX_FIELD_CHARS :: nat where
  "MAX_FIELD_CHARS = 256"

definition slug_char :: "char \<Rightarrow> bool" where
  "slug_char c \<longleftrightarrow> 97 \<le> code c \<and> code c \<le> 122 \<or> is_digit c"

definition ATTESTED_VIA :: "string \<Rightarrow> bool" where
  "ATTESTED_VIA s \<longleftrightarrow> take 9 s = ''attested:'' \<and>
     (case drop 9 s of [] \<Rightarrow> False | c # r \<Rightarrow> slug_char c \<and> length r \<le> 31 \<and> list_all (\<lambda>x. slug_char x \<or> x = CHR ''-'') r)"

section \<open>Reading\<close>

definition jopt :: "string option \<Rightarrow> jsval" where
  "jopt v = (case v of None \<Rightarrow> JNull | Some s \<Rightarrow> JStr s)"

definition scope_str :: "grant_scope \<Rightarrow> string" where
  "scope_str sc = (case sc of Once \<Rightarrow> ''once'' | Task \<Rightarrow> ''task'' | Session \<Rightarrow> ''session'' | Always \<Rightarrow> ''always'' | Scope_other s \<Rightarrow> s)"

definition match_kind :: "grant_match \<Rightarrow> string" where
  "match_kind mt = (case mt of MatchAction \<Rightarrow> ''action'' | MatchCapability \<Rightarrow> ''capability'' | MatchPath _ _ _ \<Rightarrow> ''path'')"

definition match_json :: "grant_match \<Rightarrow> jsval" where
  "match_json mt = (case mt of
     MatchPath p a rc \<Rightarrow> JObj [(''kind'', JStr ''path''), (''path'', JStr p),
       (''access'', JStr (case a of AccessRead \<Rightarrow> ''read'' | AccessWrite \<Rightarrow> ''write'')), (''recursive'', JBool rc)]
   | _ \<Rightarrow> JObj [(''kind'', JStr (match_kind mt)), (''path'', JNull), (''access'', JNull), (''recursive'', JNull)])"

text \<open>The definition of a row, the value whose JSON text is chained and compared.\<close>

definition definitionOf :: "string \<Rightarrow> grant_row \<Rightarrow> jsval" where
  "definitionOf i r = JObj ([
     (''id'', JStr i), (''person'', JStr (gr_person r)), (''agent'', JStr (gr_agent r)), (''capability'', JStr (gr_capability r)),
     (''effect'', jopt (gr_effect r)), (''scope'', JStr (scope_str (gr_duration r))), (''match'', match_json (gr_match r)),
     (''createdBy'', JStr (gr_createdBy r)), (''createdAt'', JNum (Fin (gr_createdAt r))),
     (''expiresAt'', case gr_expiresAt r of None \<Rightarrow> JNull | Some t \<Rightarrow> JNum (Fin t)), (''actionHash'', jopt (gr_actionHash r)),
     (''taskId'', jopt (gr_taskId r)), (''sessionId'', jopt (gr_sessionId r)), (''projectId'', jopt (gr_projectId r)),
     (''jobId'', jopt (gr_jobId r)), (''delegable'', JBool (gr_delegable r)), (''surface'', JNum (Fin (of_nat (gr_surface r)))),
     (''acknowledgedUnsandboxed'', JBool (gr_acknowledgedUnsandboxed r))] @
     (case gr_attestedVia r of None \<Rightarrow> [] | Some a \<Rightarrow> [(''attestedVia'', JStr a)]))"

definition toGrant :: "string \<Rightarrow> grant_row \<Rightarrow> stored_grant" where
  "toGrant i r = \<lparr>g_id = i, g_capability = gr_capability r, g_person = gr_person r, g_agent = gr_agent r, g_scope = gr_duration r,
     g_match = gr_match r, g_createdAt = Fin (gr_createdAt r), g_lastUsedAt = map_option Fin (gr_lastUsedAt r),
     g_expiresAt = map_option Fin (gr_expiresAt r), g_revoked = (if gr_revokedAt r = None then JUndef else JBool True),
     g_consumedAt = map_option Fin (gr_consumedAt r), g_actionHash = gr_actionHash r, g_taskId = gr_taskId r, g_sessionId = gr_sessionId r,
     g_projectId = gr_projectId r, g_jobId = gr_jobId r, g_delegable = gr_delegable r, g_surface = Fin (of_nat (gr_surface r)),
     g_acknowledgedUnsandboxed = gr_acknowledgedUnsandboxed r, st_createdBy = gr_createdBy r, st_effect = gr_effect r,
     st_revokedAt = gr_revokedAt r, st_endReason = gr_endReason r, st_attestedVia = gr_attestedVia r\<rparr>"

definition vouched :: "snapshot \<Rightarrow> string \<Rightarrow> grant_row \<Rightarrow> bool" where
  "vouched sn i r = (case find_kind (by_ref sn i) ''grant.created'' of
     None \<Rightarrow> False
   | Some e \<Rightarrow> trustedBelow sn (ce_seq e) \<and>
       (case json_parse (ce_payload e) of None \<Rightarrow> False | Some p \<Rightarrow> jget p ''def'' = definitionOf i r))"

definition ended_entry :: "snapshot \<Rightarrow> string \<Rightarrow> chain_entry option" where
  "ended_entry sn i = List.find (\<lambda>e. ce_kind e = ''grant.revoked'' \<or> ce_kind e = ''grant.ended'') (by_ref sn i)"

definition consumed_entry :: "snapshot \<Rightarrow> string \<Rightarrow> chain_entry option" where
  "consumed_entry sn i = List.find (\<lambda>e. ce_kind e = ''grant.consumed'' \<and> trustedBelow sn (ce_seq e)) (by_ref sn i)"

definition last_use :: "snapshot \<Rightarrow> string \<Rightarrow> rat option" where
  "last_use sn i = (case filter (\<lambda>e. ce_kind e = ''grant.used'' \<and> trustedBelow sn (ce_seq e)) (by_ref sn i) of
     [] \<Rightarrow> None | e # es \<Rightarrow> Some (fold (\<lambda>x t. max t (ce_ts x)) es (ce_ts e)))"

text \<open>One element of \<open>#views\<close>: the grant as the chain and the row together say it, and its state.\<close>

definition view_of :: "snapshot \<Rightarrow> string \<Rightarrow> grant_row \<Rightarrow> stored_grant \<times> grant_state" where
  "view_of sn i r =
    (let ended = ended_entry sn i;
         g = toGrant i r;
         g1 = g\<lparr>g_lastUsedAt := map_option Fin (last_use sn i)\<rparr>;
         g2 = (if ended \<noteq> None \<and> st_revokedAt g1 = None then g1\<lparr>st_revokedAt := map_option ce_ts ended\<rparr> else g1);
         g3 = (if ended \<noteq> None \<or> st_revokedAt g2 \<noteq> None then g2\<lparr>g_revoked := JBool True\<rparr> else g2);
         g4 = (if g_consumedAt g3 = None then g3\<lparr>g_consumedAt := map_option (\<lambda>e. Fin (ce_ts e)) (consumed_entry sn i)\<rparr> else g3)
     in (g4, if \<not> vouched sn i r then Suspended else if g_revoked g4 = JBool True then Revoked
             else if g_consumedAt g4 \<noteq> None then Consumed else Active))"

definition views :: "crypto \<Rightarrow> (string \<times> grant_row) list \<Rightarrow> (stored_grant \<times> grant_state) list op" where
  "views c rows = bind_op (chain_snapshot c) (\<lambda>sn. ret (map (\<lambda>(i, r). view_of sn i r) rows))"

definition by_created :: "(string \<times> grant_row) list \<Rightarrow> (string \<times> grant_row) list" where
  "by_created rows = sort_key (\<lambda>(i, r). (gr_createdAt r, i)) rows"

definition grant_list :: "crypto \<Rightarrow> string \<Rightarrow> string \<Rightarrow> string \<Rightarrow> grant list op" where
  "grant_list c person agent capability =
    bind_op (query (\<lambda>db. by_created (filter (\<lambda>(i, r). gr_person r = person \<and> gr_agent r = agent \<and> gr_capability r = capability \<and>
        gr_revokedAt r = None \<and> gr_consumedAt r = None) (db_grants db)))) (\<lambda>rows.
    bind_op (views c rows) (\<lambda>vs. ret (map (\<lambda>v. grant.truncate (fst v)) (filter (\<lambda>v. snd v = Active) vs))))"

definition viewOf :: "crypto \<Rightarrow> string \<Rightarrow> (stored_grant \<times> grant_state) option op" where
  "viewOf c i = bind_op (query (\<lambda>db. map_of (db_grants db) i)) (\<lambda>row. case row of
     None \<Rightarrow> ret None
   | Some r \<Rightarrow> bind_op (chain_snapshot c) (\<lambda>sn. ret (Some (view_of sn i r))))"

definition grant_get :: "crypto \<Rightarrow> string \<Rightarrow> stored_grant option op" where
  "grant_get c i = bind_op (viewOf c i) (\<lambda>v. ret (case v of None \<Rightarrow> None | Some (g, st) \<Rightarrow> if st = Suspended then None else Some g))"

definition inspect :: "crypto \<Rightarrow> string option \<Rightarrow> string option \<Rightarrow> (stored_grant \<times> grant_state) list op" where
  "inspect c person agent =
    bind_op (query (\<lambda>db. by_created (filter (\<lambda>(i, r). (case person of None \<Rightarrow> True | Some p \<Rightarrow> gr_person r = p) \<and>
        (case agent of None \<Rightarrow> True | Some a \<Rightarrow> gr_agent r = a)) (db_grants db)))) (views c)"

definition chainEntries :: "crypto \<Rightarrow> chain_entry list op" where
  "chainEntries c = bind_op (chain_snapshot c) (\<lambda>sn. ret (sn_entries sn))"

definition state_str :: "grant_state \<Rightarrow> string" where
  "state_str st = (case st of Active \<Rightarrow> ''active'' | Revoked \<Rightarrow> ''revoked'' | Consumed \<Rightarrow> ''consumed'' | Suspended \<Rightarrow> ''suspended'')"

definition emit :: "grant_env \<Rightarrow> string \<Rightarrow> stored_grant \<Rightarrow> grant_state \<Rightarrow> unit op" where
  "emit v change g st = (\<lambda>s.
    let once = (change = ''expired'' \<or> change = ''suspended''); k = (change, g_id g) in
    if once \<and> k \<in> set (pm_emitted s) then (Inr (), s)
    else let s1 = (if once then s\<lparr>pm_emitted := pm_emitted s @ [k]\<rparr> else s)
      in (Inr (), if ge_notify v then s1\<lparr>pm_notices := pm_notices s1 @ [(change, g_id g, state_str st)]\<rparr> else s1))"

fun announce_loop :: "grant_env \<Rightarrow> (stored_grant \<times> grant_state) list \<Rightarrow> unit op" where
  "announce_loop v [] = ret ()"
| "announce_loop v ((g, st) # vs) =
    bind_op (if st = Suspended then emit v ''suspended'' g st
             else if st = Active \<and> grantExpiry (grant.truncate g) (ge_maxGrantDays v) \<le> Fin (ge_now v) then emit v ''expired'' g st
             else ret ()) (\<lambda>_. announce_loop v vs)"

definition announceDue :: "crypto \<Rightarrow> grant_env \<Rightarrow> string option \<Rightarrow> unit op" where
  "announceDue c v person = bind_op (inspect c person None) (announce_loop v)"

section \<open>Writing\<close>

text \<open>The audit line of a change: the action and the fields \<open>#note\<close> builds.\<close>

definition note_fields :: "string \<Rightarrow> stored_grant \<Rightarrow> (string \<times> jsval) list \<Rightarrow> jsval" where
  "note_fields action g extra = JObj ([
     (''person'', JStr (g_person g)), (''agentId'', JStr (g_agent g)), (''capability'', JStr (g_capability g)), (''grantId'', JStr (g_id g)),
     (''grantScope'', JStr (scope_str (g_scope g))), (''matchKind'', JStr (match_kind (g_match g)))] @
     (case g_match g of MatchPath p _ _ \<Rightarrow> [(''targets'', JArr [JStr p])] | _ \<Rightarrow> []) @
     (case g_jobId g of Some j \<Rightarrow> [(''jobId'', JStr j)] | None \<Rightarrow> []) @
     (case g_taskId g of Some t \<Rightarrow> [(''taskId'', JStr t)] | None \<Rightarrow> []) @
     (case g_sessionId g of Some t \<Rightarrow> [(''sessionId'', JStr t)] | None \<Rightarrow> []) @
     (if action = ''grant.created'' then [(''decisionSurface'', JNum (g_surface g)), (''by'', JStr (st_createdBy g))] else []) @ extra)"

definition note_op :: "grant_env \<Rightarrow> string \<Rightarrow> stored_grant \<Rightarrow> (string \<times> jsval) list \<Rightarrow> unit op" where
  "note_op v action g extra = (\<lambda>s.
    case ge_audit v of
      None \<Rightarrow> (Inr (), s)
    | Some records \<Rightarrow>
      (let line = note_fields action g extra in
       if records action line then (Inr (), s\<lparr>pm_audit := pm_audit s @ [(action, line)]\<rparr>) else (Inl AuditError, s)))"

definition reachesSystemTree :: "grant_env \<Rightarrow> string \<Rightarrow> bool \<Rightarrow> bool" where
  "reachesSystemTree v path recursive = grantReachesSystemTree path recursive (ge_windows v)
     (case ge_realHome v of Some h \<Rightarrow> (if h \<noteq> ge_home v then [ge_home v, h] else [ge_home v]) | None \<Rightarrow> [ge_home v])"

definition no_flags :: call_flags where
  "no_flags = \<lparr>outsideRoots = True, denyListHit = False, privileged = None, irreversible = None, batch = None, shellAllowlisted = None,
     sandboxed = None, secretSlotDeclared = None, publishPublic = None, systemTree = Some True\<rparr>"

definition str_set :: "string option \<Rightarrow> bool" where
  "str_set x = (case x of Some s \<Rightarrow> s \<noteq> [] | None \<Rightarrow> False)"

text \<open>The checks on a path match, in the order of the code.\<close>

definition path_error :: "grant_env \<Rightarrow> capability_def \<Rightarrow> create_input \<Rightarrow> string \<Rightarrow> bool \<Rightarrow> grant_error option" where
  "path_error v d i p recursive =
    (if p = [] then Some InvalidGrant
     else case checkSyntax (JStr p) (ge_windows v) False of
       Inl _ \<Rightarrow> Some InvalidGrant
     | Inr syn \<Rightarrow>
       (if \<not> sx_absolute syn then Some InvalidGrant
        else let rest = tl (split_on any_sep p) in
          if rest = [] \<or> list_ex (\<lambda>seg. seg = [] \<or> seg = ''.'') rest then Some InvalidGrant
          else if reachesSystemTree v p recursive then
            (if scopeRank (maxScopeFor d no_flags) < scopeRank (ci_scope i) then Some CeilingExceeded
             else if ci_surface i < Fin (of_nat (requiredSurface d (ci_scope i) no_flags)) then Some SurfaceTooLow
             else None)
          else None))"

definition too_long :: "create_input \<Rightarrow> bool" where
  "too_long i = list_ex (\<lambda>x. case x of Some s \<Rightarrow> MAX_FIELD_CHARS < length s | None \<Rightarrow> False)
     [ci_id i, Some (ci_person i), Some (ci_agent i), Some (ci_createdBy i), ci_taskId i, ci_sessionId i, ci_projectId i, ci_jobId i,
      ci_effect i, ci_actionHash i]"

text \<open>The binding of a duration: a once grant names its action, a task or session grant its task or session, a job grant is standing.\<close>

definition binding_error :: "create_input \<Rightarrow> grant_error option" where
  "binding_error i =
    (if (if ci_scope i = Once then \<not> str_set (ci_actionHash i) \<or> ci_match i \<noteq> MatchAction else ci_match i = MatchAction) then Some InvalidGrant
     else if ci_scope i = Task \<and> \<not> str_set (ci_taskId i) then Some InvalidGrant
     else if ci_scope i = Session \<and> \<not> str_set (ci_sessionId i) then Some InvalidGrant
     else if ci_jobId i \<noteq> None \<and> (ci_scope i \<noteq> Always \<or> \<not> str_set (ci_jobId i)) then Some InvalidGrant
     else None)"

definition create_check :: "grant_env \<Rightarrow> create_input \<Rightarrow> (grant_error, capability_def) result" where
  "create_check v i =
    (case CAPABILITIES (canon (ci_capability i)) of
       None \<Rightarrow> Inl InvalidGrant
     | Some d \<Rightarrow>
       (if base_inside d = Never then Inl NeverCapability
        else case ceiling d of
          None \<Rightarrow> Inl CeilingExceeded
        | Some most \<Rightarrow>
          (if ci_person i = [] \<or> ci_agent i = [] \<or> ci_createdBy i = [] then Inl InvalidGrant
           else if ci_scope i \<notin> set GRANT_SCOPES then Inl InvalidGrant
           else if scopeRank most < scopeRank (ci_scope i) then Inl CeilingExceeded
           else if surface_level (ci_surface i) = None then Inl SurfaceTooLow
           else if (case minSurface d of Some m \<Rightarrow> ci_surface i < Fin (of_nat m) | None \<Rightarrow> False) then Inl SurfaceTooLow
           else if (case ci_attestedVia i of Some a \<Rightarrow> \<not> ATTESTED_VIA a \<or> ci_surface i < Fin 2 | None \<Rightarrow> False) then Inl InvalidGrant
           else if too_long i then Inl InvalidGrant
           else if (case ci_expiresAt i of Some t \<Rightarrow> \<not> is_finite t \<or> t \<le> Fin (ge_now v) | None \<Rightarrow> False) then Inl InvalidGrant
           else case binding_error i of
             Some e \<Rightarrow> Inl e
           | None \<Rightarrow>
             (case ci_match i of
                MatchPath p _ recursive \<Rightarrow> (case path_error v d i p recursive of Some e \<Rightarrow> Inl e | None \<Rightarrow> Inr d)
              | _ \<Rightarrow> Inr d))))"

definition fin_of :: "jsnum \<Rightarrow> rat" where
  "fin_of n = (case n of Fin q \<Rightarrow> q | _ \<Rightarrow> 0)"

definition new_row :: "grant_env \<Rightarrow> create_input \<Rightarrow> string \<Rightarrow> grant_row" where
  "new_row v i capability = \<lparr>gr_person = ci_person i, gr_agent = ci_agent i, gr_capability = capability, gr_effect = ci_effect i, gr_match = ci_match i,
     gr_duration = ci_scope i, gr_createdBy = ci_createdBy i, gr_createdAt = ge_now v, gr_expiresAt = map_option fin_of (ci_expiresAt i),
     gr_revokedAt = None, gr_endReason = None, gr_lastUsedAt = None, gr_consumedAt = None, gr_actionHash = ci_actionHash i, gr_taskId = ci_taskId i,
     gr_sessionId = ci_sessionId i, gr_projectId = ci_projectId i, gr_jobId = ci_jobId i, gr_delegable = ci_delegable i,
     gr_surface = (case surface_level (ci_surface i) of Some n \<Rightarrow> n | None \<Rightarrow> 0),
     gr_acknowledgedUnsandboxed = ci_acknowledgedUnsandboxed i, gr_attestedVia = ci_attestedVia i, gr_defHash = [], gr_chainSeq = 0\<rparr>"

definition update_grant :: "string \<Rightarrow> (grant_row \<Rightarrow> grant_row) \<Rightarrow> unit op" where
  "update_grant i f = update (\<lambda>db. db\<lparr>db_grants := map (\<lambda>(k, r). (k, if k = i then f r else r)) (db_grants db)\<rparr>)"

definition grant_insert :: "crypto \<Rightarrow> grant_env \<Rightarrow> string \<Rightarrow> create_input \<Rightarrow> string \<Rightarrow> stored_grant op" where
  "grant_insert c v gid i capability =
    (let row = new_row v i capability; def = definitionOf gid row; hash = cr_sha c def in
     bind_op (update (\<lambda>db. db\<lparr>db_grants := db_grants db @ [(gid, row)]\<rparr>)) (\<lambda>_.
     bind_op (chain_append c (ge_now v) ''grant.created'' gid (JObj [(''def'', def), (''defHash'', JStr hash)]) None) (\<lambda>e.
     bind_op (update_grant gid (\<lambda>r. r\<lparr>gr_defHash := hash, gr_chainSeq := ce_seq e\<rparr>)) (\<lambda>_.
     ret (toGrant gid row)))))"

definition create_body :: "crypto \<Rightarrow> grant_env \<Rightarrow> create_input \<Rightarrow> capability_def \<Rightarrow> stored_grant op" where
  "create_body c v i d =
    (let gid = (case ci_id i of Some x \<Rightarrow> x | None \<Rightarrow> ge_id v) in
     bind_op (query (\<lambda>db. map_of (db_grants db) gid)) (\<lambda>row.
     if row \<noteq> None then raise (GrantError DuplicateId)
     else bind_op (grant_insert c v gid i (cap_id d)) (\<lambda>g.
          bind_op (note_op v ''grant.created'' g []) (\<lambda>_. ret g))))"

definition grant_create :: "crypto \<Rightarrow> grant_env \<Rightarrow> create_input \<Rightarrow> stored_grant op" where
  "grant_create c v i =
    (case create_check v i of
       Inl e \<Rightarrow> raise (GrantError e)
     | Inr d \<Rightarrow> transaction (create_body c v i d))"

text \<open>A revocation survives a broken chain and a failing audit trail.\<close>

definition catch_chain :: "'a op \<Rightarrow> unit op" where
  "catch_chain m = (\<lambda>s. case m s of
     (Inr _, s') \<Rightarrow> (Inr (), s')
   | (Inl (ChainError _ _), s') \<Rightarrow> (Inr (), s')
   | (Inl x, s') \<Rightarrow> (Inl x, s'))"

definition swallow :: "'a op \<Rightarrow> unit op" where
  "swallow m = (\<lambda>s. case m s of (_, s') \<Rightarrow> (Inr (), s'))"

definition revoke_body :: "crypto \<Rightarrow> grant_env \<Rightarrow> string \<Rightarrow> string \<Rightarrow> string \<Rightarrow> bool op" where
  "revoke_body c v i who reason =
    (let kind = (if reason = ''revoked'' then ''grant.revoked'' else ''grant.ended'') in
     bind_op (query (\<lambda>db. map_of (db_grants db) i)) (\<lambda>row.
     if (case row of Some r \<Rightarrow> gr_revokedAt r \<noteq> None | None \<Rightarrow> True) then ret False
     else
       bind_op (update_grant i (\<lambda>r. r\<lparr>gr_revokedAt := Some (ge_now v), gr_endReason := Some reason\<rparr>)) (\<lambda>_.
       bind_op (catch_chain (chain_append c (ge_now v) kind i (JObj [(''by'', JStr who), (''reason'', JStr reason)]) None)) (\<lambda>_.
       bind_op (swallow (bind_op (query (\<lambda>db. map_of (db_grants db) i)) (\<lambda>row. case row of
           None \<Rightarrow> raise TypeError
         | Some r \<Rightarrow> note_op v kind (toGrant i r) [(''by'', JStr who), (''reason'', JStr reason)]))) (\<lambda>_.
       ret True)))))"

definition grant_revoke :: "crypto \<Rightarrow> grant_env \<Rightarrow> string \<Rightarrow> string \<Rightarrow> string \<Rightarrow> bool op" where
  "grant_revoke c v i who reason = transaction (revoke_body c v i who reason)"

fun end_loop :: "crypto \<Rightarrow> grant_env \<Rightarrow> string \<Rightarrow> string \<Rightarrow> string list \<Rightarrow> nat op" where
  "end_loop c v who reason [] = ret 0"
| "end_loop c v who reason (i # is) =
    bind_op (revoke_body c v i who reason) (\<lambda>b. bind_op (end_loop c v who reason is) (\<lambda>n. ret (if b then n + 1 else n)))"

definition endWhere :: "crypto \<Rightarrow> grant_env \<Rightarrow> (grant_row \<Rightarrow> bool) \<Rightarrow> string \<Rightarrow> string \<Rightarrow> nat op" where
  "endWhere c v P who reason = transaction
    (bind_op (query (\<lambda>db. map fst (filter (\<lambda>(i, r). P r \<and> gr_revokedAt r = None) (db_grants db)))) (end_loop c v who reason))"

definition endTask :: "crypto \<Rightarrow> grant_env \<Rightarrow> string \<Rightarrow> string \<Rightarrow> nat op" where
  "endTask c v taskId who = endWhere c v (\<lambda>r. gr_duration r = Task \<and> gr_taskId r = Some taskId) who ''task-ended''"

definition endSession :: "crypto \<Rightarrow> grant_env \<Rightarrow> string \<Rightarrow> string \<Rightarrow> nat op" where
  "endSession c v sessionId who = endWhere c v (\<lambda>r. gr_duration r = Session \<and> gr_sessionId r = Some sessionId) who ''session-ended''"

definition use_due :: "grant_env \<Rightarrow> stored_grant \<Rightarrow> bool" where
  "use_due v g \<longleftrightarrow> g_scope g \<noteq> Once \<and> \<not> Fin (ge_now v) < g_createdAt g \<and>
     \<not> grantExpiry (grant.truncate g) (ge_maxGrantDays v) \<le> Fin (ge_now v) \<and>
     (case g_lastUsedAt g of Some t \<Rightarrow> \<not> Fin (ge_now v) - t < Fin USE_RECORD_GRANULARITY_MS | None \<Rightarrow> True)"

definition markUsed_body :: "crypto \<Rightarrow> grant_env \<Rightarrow> string \<Rightarrow> (stored_grant \<times> grant_state) option op" where
  "markUsed_body c v i =
    bind_op (viewOf c i) (\<lambda>w. case w of
      None \<Rightarrow> ret None
    | Some (g, st) \<Rightarrow>
      (if st \<noteq> Active \<or> \<not> use_due v g then ret None
       else
         bind_op (chain_append c (ge_now v) ''grant.used'' i (JObj []) None) (\<lambda>_.
         bind_op (update_grant i (\<lambda>r. r\<lparr>gr_lastUsedAt := Some (ge_now v)\<rparr>)) (\<lambda>_.
         bind_op (note_op v ''grant.used'' g []) (\<lambda>_.
         viewOf c i)))))"

definition markUsed :: "crypto \<Rightarrow> grant_env \<Rightarrow> string \<Rightarrow> unit op" where
  "markUsed c v i = bind_op (transaction (markUsed_body c v i)) (\<lambda>w. case w of
     None \<Rightarrow> ret ()
   | Some (g, st) \<Rightarrow> emit v ''used'' g st)"

text \<open>The row condition of the consuming update.\<close>

definition consumable :: "grant_env \<Rightarrow> grant_row \<Rightarrow> string \<Rightarrow> string \<Rightarrow> string \<Rightarrow> bool" where
  "consumable v r person agent actionHash \<longleftrightarrow>
     gr_duration r = Once \<and> gr_consumedAt r = None \<and> gr_revokedAt r = None \<and>
     gr_person r = person \<and> gr_agent r = agent \<and> gr_actionHash r = Some actionHash \<and>
     ge_now v < gr_createdAt r + onceUnusedMs \<and> (case gr_expiresAt r of None \<Rightarrow> True | Some t \<Rightarrow> ge_now v < t)"

definition consumeOnce_body :: "crypto \<Rightarrow> grant_env \<Rightarrow> string \<Rightarrow> string \<Rightarrow> string \<Rightarrow> string \<Rightarrow> bool op" where
  "consumeOnce_body c v i person agent actionHash =
    bind_op (viewOf c i) (\<lambda>w. case w of
      None \<Rightarrow> ret False
    | Some (g, st) \<Rightarrow>
      (if st \<noteq> Active then ret False
       else bind_op (query (\<lambda>db. map_of (db_grants db) i)) (\<lambda>row.
         if (case row of Some r \<Rightarrow> \<not> consumable v r person agent actionHash | None \<Rightarrow> True) then ret False
         else
           bind_op (update_grant i (\<lambda>r. r\<lparr>gr_consumedAt := Some (ge_now v), gr_lastUsedAt := Some (ge_now v)\<rparr>)) (\<lambda>_.
           bind_op (chain_append c (ge_now v) ''grant.consumed'' i (JObj [(''actionHash'', JStr actionHash)]) None) (\<lambda>_.
           bind_op (note_op v ''grant.consumed'' g [(''actionHash'', JStr actionHash)]) (\<lambda>_.
           ret True))))))"

definition consumeOnce :: "crypto \<Rightarrow> grant_env \<Rightarrow> string \<Rightarrow> string \<Rightarrow> string \<Rightarrow> string \<Rightarrow> bool op" where
  "consumeOnce c v i person agent actionHash = (\<lambda>s.
     case transaction (consumeOnce_body c v i person agent actionHash) s of
       (Inl (ChainError _ _), s') \<Rightarrow> (Inr False, s')
     | out \<Rightarrow> out)"

end
