(* ===== verification/Grant_Theorems.thy ===== *)
theory Grant_Theorems
  imports Grant_Store Policy_Theorems
begin

text \<open>
  What the grant store promises: reading implements a pure specification over the database, every grant it hands to
  the evaluator is vouched for by the chain, a created grant is read back, a once grant is consumed at most once, a
  revocation takes effect even on a broken chain, and no operation breaks the chain or the agreement of rows and entries.
\<close>

section \<open>Appending grant entries\<close>

definition grant_kinds :: "string set" where
  "grant_kinds = {''grant.created'', ''grant.revoked'', ''grant.ended'', ''grant.used'', ''grant.consumed''}"

lemma grant_kinds_simps [simp]:
  "''grant.created'' \<in> grant_kinds" "''grant.revoked'' \<in> grant_kinds" "''grant.ended'' \<in> grant_kinds"
  "''grant.used'' \<in> grant_kinds" "''grant.consumed'' \<in> grant_kinds"
  "''approval.requested'' \<notin> grant_kinds" "''approval.decided'' \<notin> grant_kinds"
  "''approval.cancelled'' \<notin> grant_kinds" "''approval.used'' \<notin> grant_kinds"
  by (simp_all add: grant_kinds_def)

lemma grant_kind_plain: "k \<in> grant_kinds \<Longrightarrow> \<not> starts_with k ''approval.''"
  by (auto simp: grant_kinds_def starts_with_def)

lemma snapshot_eq:
  assumes "chain_inv c s"
  obtains ca where "chain_snapshot c s = (Inr (here s), s\<lparr>pm_cache := ca\<rparr>)" "chain_inv c (s\<lparr>pm_cache := ca\<rparr>)"
proof -
  have coh: "coherent c s" and ver: "verified c (pm_signer s) (pm_db s)" using assms by (simp_all add: chain_inv_def)
  obtain r s' where sn: "chain_snapshot c s = (r, s')" by fastforce
  from coh sn show thesis
  proof (cases rule: snapshotE)
    case (ok sn ca)
    then have "sn = here s" using ver by (simp add: verified_def)
    with ok sn assms show thesis by (intro that [of ca]) (simp_all add: chain_inv_def)
  next
    case threw
    with ver show thesis by (simp add: verified_def)
  qed
qed

text \<open>On a verified chain the append of a grant entry succeeds.\<close>

lemma grant_append:
  assumes ci: "chain_inv c s" and sg: "signer_ok c (pm_signer s)" and k: "kind \<in> grant_kinds"
  obtains e s1 where "chain_append c now kind ref payload nonce s = (Inr e, s1)"
    "e = next_entry c now (here s) kind ref payload nonce" "db_rows (pm_db s1) = db_rows (pm_db s) @ [e]"
    "chain_inv c s1" "stale s1" "same_process s s1"
    "db_approvals (pm_db s1) = db_approvals (pm_db s)" "db_grants (pm_db s1) = db_grants (pm_db s)"
proof -
  have coh: "coherent c s" and ver: "verified c (pm_signer s) (pm_db s)" using ci by (simp_all add: chain_inv_def)
  obtain r s1 where ap: "chain_append c now kind ref payload nonce s = (r, s1)" by fastforce
  have np: "\<not> starts_with kind ''approval.''" using k by (rule grant_kind_plain)
  have kd: "kind \<noteq> ''approval.decided''" using k by auto
  from coh ap have "\<exists>e. r = Inr e"
  proof (cases rule: append_cases)
    case (inserted sn ca s2)
    have sn: "sn = here s" using inserted(1) ver by (simp add: verified_def)
    have lk: "links_ok c 1 GENESIS_MAC (db_rows (pm_db s))" using ver by (simp add: verified_iff)
    let ?e = "next_entry c now (here s) kind ref payload nonce" and ?rows = "db_rows (pm_db s)"
    have "ce_seq ?e = length ?rows + 1"
      using links_ok_seq [OF lk, of "length ?rows - 1"] by (cases "?rows = []") (simp_all add: last_conv_nth)
    then have "ce_seq x \<noteq> ce_seq ?e" if "x \<in> set ?rows" for x
      using links_ok_seq_bounds [OF lk that] by simp
    then have "\<exists>rows. insert_row ?e ?rows = Some rows"
      using np by (auto simp: insert_row_def list_ex_iff simp del: next_entry_simps(1))
    then show ?thesis using inserted(3) kd unfolding sn by (auto simp: insert_entry_def Let_def split: option.splits)
  next
    case (broken ca x)
    with ver show ?thesis by simp
  qed
  then obtain e where r: "r = Inr e" by blast
  have step: "sem_step \<sigma> (next_entry c now (here s) kind ref payload nonce) = Inr \<sigma>" for \<sigma>
    using np by (simp add: sem_step_def)
  have a: "chain_inv c s1 \<and> e = next_entry c now (here s) kind ref payload nonce \<and> db_rows (pm_db s1) = db_rows (pm_db s) @ [e] \<and>
    db_approvals (pm_db s1) = db_approvals (pm_db s) \<and> db_grants (pm_db s1) = db_grants (pm_db s) \<and> same_process s s1"
    by (rule append_chain [OF ci sg ap [unfolded r]]) (use step in blast)
  with ap r append_stale [OF coh ap] show thesis by (intro that [of e s1]) simp_all
qed

lemma viewOf_eq:
  assumes "chain_inv c s"
  obtains ca where "viewOf c i s = (Inr (map_option (view_of (here s) i) (map_of (db_grants (pm_db s)) i)), s\<lparr>pm_cache := ca\<rparr>)"
    "chain_inv c (s\<lparr>pm_cache := ca\<rparr>)"
proof (cases "map_of (db_grants (pm_db s)) i")
  case None
  then show thesis using assms by (intro that [of "pm_cache s"]) (simp_all add: viewOf_def)
next
  case (Some r)
  obtain ca where ca: "chain_snapshot c s = (Inr (here s), s\<lparr>pm_cache := ca\<rparr>)" "chain_inv c (s\<lparr>pm_cache := ca\<rparr>)"
    using assms by (rule snapshot_eq)
  with Some show thesis by (intro that [of ca]) (simp_all add: viewOf_def bind_op_def [of "chain_snapshot c"])
qed

section \<open>The invariant\<close>

text \<open>What a row must say: a known capability that can be granted, a duration within its ceiling, a trusted surface, a binding.\<close>

definition row_wf :: "grant_row \<Rightarrow> bool" where
  "row_wf r \<longleftrightarrow> gr_person r \<noteq> [] \<and> gr_agent r \<noteq> [] \<and> gr_duration r \<in> set GRANT_SCOPES \<and> gr_surface r \<in> {1, 2, 3} \<and>
     (\<exists>d most. CAPABILITIES (gr_capability r) = Some d \<and> base_inside d \<noteq> Never \<and> ceiling d = Some most \<and>
        scopeRank (gr_duration r) \<le> scopeRank most \<and> (\<forall>m. minSurface d = Some m \<longrightarrow> m \<le> gr_surface r)) \<and>
     (gr_duration r = Once \<longleftrightarrow> gr_match r = MatchAction) \<and> (gr_duration r = Once \<longrightarrow> str_set (gr_actionHash r)) \<and>
     (gr_duration r = Task \<longrightarrow> str_set (gr_taskId r)) \<and> (gr_duration r = Session \<longrightarrow> str_set (gr_sessionId r)) \<and>
     (gr_jobId r \<noteq> None \<longrightarrow> gr_duration r = Always) \<and>
     (\<forall>p a rc. gr_match r = MatchPath p a rc \<longrightarrow> p \<noteq> [])"

definition row_chained :: "chain_entry list \<Rightarrow> string \<Rightarrow> grant_row \<Rightarrow> bool" where
  "row_chained es i r \<longleftrightarrow> (\<exists>e. List.find (\<lambda>e. has_kind ''grant.created'' i e) es = Some e \<and>
     json_parse (ce_payload e) = Some (entry_value e) \<and> jget (entry_value e) ''def'' = definitionOf i r)"

definition grants_ok :: "perm_db \<Rightarrow> bool" where
  "grants_ok db \<longleftrightarrow> distinct (map fst (db_grants db)) \<and>
     (\<forall>i r. (i, r) \<in> set (db_grants db) \<longrightarrow> row_wf r \<and> row_chained (db_rows db) i r) \<and>
     (\<forall>e\<in>set (db_rows db). ce_kind e \<in> grant_kinds \<longrightarrow> ce_refId e \<in> fst ` set (db_grants db))"

definition perm_inv :: "crypto \<Rightarrow> perm \<Rightarrow> bool" where
  "perm_inv c s \<longleftrightarrow> store_inv c s \<and> grants_ok (pm_db s)"

lemma find_filter: "List.find P (filter Q xs) = List.find (\<lambda>x. Q x \<and> P x) xs"
  by (induction xs) auto

lemma find_append: "List.find P (xs @ ys) = (case List.find P xs of Some x \<Rightarrow> Some x | None \<Rightarrow> List.find P ys)"
  by (induction xs) auto

lemma row_chained_append: "row_chained es i r \<Longrightarrow> row_chained (es @ es') i r"
  by (auto simp: row_chained_def find_append)

lemma vouched_here: "vouched (here s) i r \<longleftrightarrow> row_chained (db_rows (pm_db s)) i r"
  by (auto simp: vouched_def find_kind_def by_ref_def find_filter row_chained_def trustedBelow_def entry_value_def conj_commute
      split: option.splits)

text \<open>Changes to the columns that the definition does not name keep a row.\<close>

definition same_definition :: "(grant_row \<Rightarrow> grant_row) \<Rightarrow> bool" where
  "same_definition f \<longleftrightarrow> (\<forall>r i. definitionOf i (f r) = definitionOf i r \<and> (row_wf r \<longrightarrow> row_wf (f r)))"

abbreviation set_row :: "string \<Rightarrow> (grant_row \<Rightarrow> grant_row) \<Rightarrow> (string \<times> grant_row) list \<Rightarrow> (string \<times> grant_row) list" where
  "set_row i f t \<equiv> map (\<lambda>(k, r). (k, if k = i then f r else r)) t"

lemma set_row_keys [simp]: "map fst (set_row i f t) = map fst t" "fst ` set (set_row i f t) = fst ` set t"
  by (induction t) auto

lemma set_row_lookup [simp]: "map_of (set_row i f t) k = map_option (\<lambda>r. if k = i then f r else r) (map_of t k)"
  by (induction t) auto

lemma grants_ok_update:
  assumes "grants_ok db" and "same_definition f"
  shows "grants_ok (db\<lparr>db_grants := set_row i f (db_grants db)\<rparr>)"
proof -
  have "row_wf r \<and> row_chained (db_rows db) k r" if "(k, r) \<in> set (set_row i f (db_grants db))" for k r
  proof -
    from that obtain r0 where r0: "(k, r0) \<in> set (db_grants db)" "r = (if k = i then f r0 else r0)" by auto
    have "row_wf r0 \<and> row_chained (db_rows db) k r0" using assms(1) r0(1) unfolding grants_ok_def by blast
    with r0(2) assms(2) show ?thesis by (auto simp: same_definition_def row_chained_def)
  qed
  moreover have "distinct (map fst (set_row i f (db_grants db)))" using assms(1) by (simp only: set_row_keys grants_ok_def)
  moreover have "\<forall>e\<in>set (db_rows db). ce_kind e \<in> grant_kinds \<longrightarrow> ce_refId e \<in> fst ` set (set_row i f (db_grants db))"
    using assms(1) unfolding grants_ok_def set_row_keys by blast
  ultimately show ?thesis unfolding grants_ok_def by simp
qed

lemma grants_ok_append:
  assumes "grants_ok db" and "db_rows db' = db_rows db @ es" and "db_grants db' = db_grants db"
    and "\<And>e. e \<in> set es \<Longrightarrow> ce_kind e \<in> grant_kinds \<Longrightarrow> ce_refId e \<in> fst ` set (db_grants db)"
  shows "grants_ok db'"
  using assms(1,4) row_chained_append unfolding grants_ok_def assms(2,3) by auto

lemma definitionOf_cong:
  "definitionOf i (r\<lparr>gr_revokedAt := a\<rparr>) = definitionOf i r" "definitionOf i (r\<lparr>gr_endReason := b\<rparr>) = definitionOf i r"
  "definitionOf i (r\<lparr>gr_lastUsedAt := c\<rparr>) = definitionOf i r" "definitionOf i (r\<lparr>gr_consumedAt := d\<rparr>) = definitionOf i r"
  "definitionOf i (r\<lparr>gr_defHash := h\<rparr>) = definitionOf i r" "definitionOf i (r\<lparr>gr_chainSeq := n\<rparr>) = definitionOf i r"
  by (simp_all add: definitionOf_def)

lemma same_definition_cols [simp]:
  "same_definition (\<lambda>r. r\<lparr>gr_revokedAt := a, gr_endReason := b\<rparr>)"
  "same_definition (\<lambda>r. r\<lparr>gr_lastUsedAt := x\<rparr>)"
  "same_definition (\<lambda>r. r\<lparr>gr_consumedAt := y, gr_lastUsedAt := x\<rparr>)"
  "same_definition (\<lambda>r. r\<lparr>gr_defHash := h, gr_chainSeq := n\<rparr>)"
  by (simp_all add: same_definition_def definitionOf_cong row_wf_def)

section \<open>Reading refines a specification over the database\<close>

text \<open>
  The specification: what a read answers as a function of the database and the verdict on its chain alone. \<open>store_source\<close> is the
  grant source that the evaluator gets.
\<close>

definition spec_list :: "snapshot \<Rightarrow> perm_db \<Rightarrow> string \<Rightarrow> string \<Rightarrow> string \<Rightarrow> grant list" where
  "spec_list sn db person agent capability =
    [grant.truncate (fst (view_of sn i r)). (i, r) \<leftarrow> by_created (db_grants db),
       gr_person r = person \<and> gr_agent r = agent \<and> gr_capability r = capability \<and> gr_revokedAt r = None \<and> gr_consumedAt r = None \<and>
       snd (view_of sn i r) = Active]"

definition spec_get :: "snapshot \<Rightarrow> perm_db \<Rightarrow> string \<Rightarrow> stored_grant option" where
  "spec_get sn db i = (case map_of (db_grants db) i of
     None \<Rightarrow> None
   | Some r \<Rightarrow> (if snd (view_of sn i r) = Suspended then None else Some (fst (view_of sn i r))))"

definition store_source :: "snapshot \<Rightarrow> perm_db \<Rightarrow> grant_env \<Rightarrow> deps" where
  "store_source sn db v = \<lparr>dep_list = spec_list sn db, dep_get = (\<lambda>i. map_option grant.truncate (spec_get sn db i)),
     dep_maxGrantDays = Some (ge_maxGrantDays v), dep_now = Fin (ge_now v)\<rparr>"

lemma filter_by_created: "by_created (filter P rows) = filter P (by_created rows)"
  by (simp add: by_created_def filter_sort)

lemma concat_if_map: "concat (map (\<lambda>x. if P x then [f x] else []) xs) = map f (filter P xs)"
  by (induction xs) auto

lemma spec_list_filter:
  "spec_list sn db person agent capability = map (\<lambda>v. grant.truncate (fst v)) (filter (\<lambda>v. snd v = Active)
     (map (\<lambda>(i, r). view_of sn i r) (filter (\<lambda>(i, r). gr_person r = person \<and> gr_agent r = agent \<and> gr_capability r = capability \<and>
        gr_revokedAt r = None \<and> gr_consumedAt r = None) (by_created (db_grants db)))))"
proof -
  have "[grant.truncate (fst (view_of sn i r)). (i, r) \<leftarrow> rows, P r \<and> snd (view_of sn i r) = Active] =
    map (\<lambda>v. grant.truncate (fst v)) (filter (\<lambda>v. snd v = Active) (map (\<lambda>(i, r). view_of sn i r) (filter (\<lambda>(i, r). P r) rows)))" for P rows
    by (induction rows) auto
  from this [of "\<lambda>r. gr_person r = person \<and> gr_agent r = agent \<and> gr_capability r = capability \<and> gr_revokedAt r = None \<and> gr_consumedAt r = None"]
  show ?thesis by (simp add: spec_list_def)
qed

lemma list_refines:
  assumes "coherent c s" and "build c (pm_signer s) (pm_db s) = Some sn"
  shows "fst (grant_list c person agent capability s) = Inr (spec_list sn (pm_db s) person agent capability)"
proof -
  obtain r s' where run: "chain_snapshot c s = (r, s')" by fastforce
  from assms(1) run show ?thesis
    by (cases rule: snapshotE) (use assms(2) run in \<open>simp_all add: grant_list_def views_def bind_op_def spec_list_filter filter_by_created\<close>)
qed

lemma get_refines:
  assumes "coherent c s" and "build c (pm_signer s) (pm_db s) = Some sn"
  shows "fst (grant_get c i s) = Inr (spec_get sn (pm_db s) i)"
proof -
  obtain r s' where run: "chain_snapshot c s = (r, s')" by fastforce
  from assms(1) run show ?thesis
    by (cases rule: snapshotE)
      (use assms(2) run in \<open>auto simp: grant_get_def viewOf_def bind_op_def query_def ret_def spec_get_def split: option.splits prod.splits\<close>)
qed

text \<open>What it means that the chain stands behind a grant of the source.\<close>

definition chain_vouches :: "snapshot \<Rightarrow> perm_db \<Rightarrow> grant \<Rightarrow> bool" where
  "chain_vouches sn db g \<longleftrightarrow> (\<exists>r e. (g_id g, r) \<in> set (db_grants db) \<and>
     e \<in> set (sn_entries sn) \<and> has_kind ''grant.created'' (g_id g) e \<and> trustedBelow sn (ce_seq e) \<and>
     jget (entry_value e) ''def'' = definitionOf (g_id g) r \<and>
     g_person g = gr_person r \<and> g_agent g = gr_agent r \<and> g_capability g = gr_capability r \<and> g_scope g = gr_duration r \<and>
     g_match g = gr_match r \<and> g_surface g = Fin (of_nat (gr_surface r)) \<and> g_createdAt g = Fin (gr_createdAt r) \<and>
     g_expiresAt g = map_option Fin (gr_expiresAt r) \<and> g_actionHash g = gr_actionHash r \<and> g_taskId g = gr_taskId r \<and>
     g_sessionId g = gr_sessionId r \<and> g_jobId g = gr_jobId r)"

definition unended :: "snapshot \<Rightarrow> grant \<Rightarrow> bool" where
  "unended sn g \<longleftrightarrow> (\<forall>e\<in>set (sn_entries sn). \<not> has_kind ''grant.revoked'' (g_id g) e \<and> \<not> has_kind ''grant.ended'' (g_id g) e)"

lemma view_fields:
  "g_id (fst (view_of sn i r)) = i" "g_person (fst (view_of sn i r)) = gr_person r" "g_agent (fst (view_of sn i r)) = gr_agent r"
  "g_capability (fst (view_of sn i r)) = gr_capability r" "g_scope (fst (view_of sn i r)) = gr_duration r"
  "g_match (fst (view_of sn i r)) = gr_match r" "g_surface (fst (view_of sn i r)) = Fin (of_nat (gr_surface r))"
  "g_createdAt (fst (view_of sn i r)) = Fin (gr_createdAt r)" "g_expiresAt (fst (view_of sn i r)) = map_option Fin (gr_expiresAt r)"
  "g_actionHash (fst (view_of sn i r)) = gr_actionHash r" "g_taskId (fst (view_of sn i r)) = gr_taskId r"
  "g_sessionId (fst (view_of sn i r)) = gr_sessionId r" "g_jobId (fst (view_of sn i r)) = gr_jobId r"
  "g_lastUsedAt (fst (view_of sn i r)) = map_option Fin (last_use sn i)" "g_delegable (fst (view_of sn i r)) = gr_delegable r"
  by (simp_all add: view_of_def Let_def toGrant_def)

lemma view_revoked: "g_revoked (fst (view_of sn i r)) = (if ended_entry sn i = None \<and> gr_revokedAt r = None then JUndef else JBool True)"
  by (auto simp: view_of_def Let_def toGrant_def)

lemma view_consumed:
  "g_consumedAt (fst (view_of sn i r)) = (case gr_consumedAt r of Some t \<Rightarrow> Some (Fin t) | None \<Rightarrow> map_option (\<lambda>e. Fin (ce_ts e)) (consumed_entry sn i))"
  by (auto simp: view_of_def Let_def toGrant_def split: option.splits)

lemma view_state:
  "snd (view_of sn i r) = (if \<not> vouched sn i r then Suspended
     else if g_revoked (fst (view_of sn i r)) = JBool True then Revoked
     else if g_consumedAt (fst (view_of sn i r)) \<noteq> None then Consumed else Active)"
  by (simp add: view_of_def Let_def)

lemma view_Active:
  "snd (view_of sn i r) = Active \<longleftrightarrow> vouched sn i r \<and> ended_entry sn i = None \<and> gr_revokedAt r = None \<and>
     gr_consumedAt r = None \<and> consumed_entry sn i = None"
  by (auto simp: view_state view_revoked view_consumed split: option.splits)

lemma truncate_fields [simp]:
  "g_id (grant.truncate g) = g_id g" "g_person (grant.truncate g) = g_person g" "g_agent (grant.truncate g) = g_agent g"
  "g_capability (grant.truncate g) = g_capability g" "g_scope (grant.truncate g) = g_scope g" "g_match (grant.truncate g) = g_match g"
  "g_surface (grant.truncate g) = g_surface g" "g_createdAt (grant.truncate g) = g_createdAt g" "g_expiresAt (grant.truncate g) = g_expiresAt g"
  "g_actionHash (grant.truncate g) = g_actionHash g" "g_taskId (grant.truncate g) = g_taskId g" "g_sessionId (grant.truncate g) = g_sessionId g"
  "g_jobId (grant.truncate g) = g_jobId g" "g_lastUsedAt (grant.truncate g) = g_lastUsedAt g" "g_revoked (grant.truncate g) = g_revoked g"
  "g_consumedAt (grant.truncate g) = g_consumedAt g" "g_delegable (grant.truncate g) = g_delegable g"
  by (simp_all add: grant.truncate_def)

lemma vouches_view:
  assumes "vouched sn i r" and "(i, r) \<in> set (db_grants db)"
  shows "chain_vouches sn db (grant.truncate (fst (view_of sn i r)))"
proof -
  from assms(1) obtain e where "find_kind (by_ref sn i) ''grant.created'' = Some e" and t: "trustedBelow sn (ce_seq e)"
    and d: "jget (entry_value e) ''def'' = definitionOf i r"
    by (auto simp: vouched_def entry_value_def split: option.splits)
  then have "e \<in> set (sn_entries sn) \<and> has_kind ''grant.created'' i e" using find_kind_SomeD by blast
  with t d assms(2) show ?thesis
    unfolding chain_vouches_def truncate_fields view_fields by blast
qed

lemma unended_view: "ended_entry sn i = None \<Longrightarrow> unended sn (grant.truncate (fst (view_of sn i r)))"
  by (auto simp: unended_def view_fields ended_entry_def by_ref_def find_None_iff')

lemma spec_list_mem:
  "g \<in> set (spec_list sn db person agent capability) \<longleftrightarrow>
    (\<exists>i r. (i, r) \<in> set (db_grants db) \<and> g = grant.truncate (fst (view_of sn i r)) \<and> gr_person r = person \<and> gr_agent r = agent \<and>
       gr_capability r = capability \<and> snd (view_of sn i r) = Active)"
  by (auto simp: spec_list_def by_created_def view_Active)

lemma spec_get_Some:
  "spec_get sn db i = Some g \<longleftrightarrow> (\<exists>r. map_of (db_grants db) i = Some r \<and> vouched sn i r \<and> g = fst (view_of sn i r))"
  by (auto simp: spec_get_def view_state split: option.splits)

section \<open>The interface of the evaluator to a grant source\<close>

text \<open>
  What \<open>decide\<close> may rely on: a list holds vouched, unended grants of the person and the agent it was asked for, and a grant fetched by id has that
  id and is vouched for. The lemma about the evaluator is proved once from these laws.
\<close>

locale grant_source =
  fixes src :: deps and vouch :: "grant \<Rightarrow> bool" and live :: "grant \<Rightarrow> bool"
  assumes list_law: "g \<in> set (dep_list src person agent capability) \<Longrightarrow> vouch g \<and> live g \<and> g_person g = person \<and> g_agent g = agent"
    and get_law: "dep_get src i = Some g \<Longrightarrow> vouch g \<and> g_id g = i \<and> (g_revoked g \<noteq> JBool True \<longrightarrow> live g)"
begin

lemma candidates_vouched:
  assumes "g \<in> set (candidateGrants ctx src capability)" and "g_revoked g \<noteq> JBool True"
  shows "vouch g \<and> live g"
  using assms list_law get_law by (auto simp: candidateGrants_def List.map_filter_def Let_def split: option.splits if_splits)

lemma allowed_by_vouched:
  assumes "decide_checked c ctx src = Allow ViaGrant gid rd"
  shows "\<exists>g d. gid = Some (g_id g) \<and> vouch g \<and> live g \<and> g_person g = ctx_person ctx \<and>
    CAPABILITIES (capability_name c) = Some d \<and> canon (g_capability g) = cap_id d"
  using assms
proof (cases rule: decide_checked_AllowE)
  case (by_grant d g)
  note app = applicable_grantD [OF by_grant(3)]
  then have "g_revoked g \<noteq> JBool True" "g_person g = ctx_person ctx" "canon (g_capability g) = cap_id d"
    using grantApplies_common by (fastforce simp: grant_common_def)+
  with candidates_vouched app by_grant show ?thesis by blast
next
  case (by_class d)
  with class_of_via [of "call_flags_of c" ctx d "effect_of c d" "isBatch (call_flags_of c) (call_targets c)"] show ?thesis by simp
qed

end

interpretation store: grant_source "store_source sn db v" "chain_vouches sn db" "unended sn"
  for sn db v
proof
  fix g person agent capability
  assume "g \<in> set (dep_list (store_source sn db v) person agent capability)"
  then show "chain_vouches sn db g \<and> unended sn g \<and> g_person g = person \<and> g_agent g = agent"
    using vouches_view unended_view by (fastforce simp: store_source_def spec_list_mem view_Active view_fields)
next
  fix i g
  assume "dep_get (store_source sn db v) i = Some g"
  then obtain r where r: "map_of (db_grants db) i = Some r" "vouched sn i r" "g = grant.truncate (fst (view_of sn i r))"
    by (auto simp: store_source_def spec_get_Some)
  moreover have "ended_entry sn i = None" if "g_revoked g \<noteq> JBool True"
    using that r(3) by (auto simp: view_revoked split: if_splits)
  ultimately show "chain_vouches sn db g \<and> g_id g = i \<and> (g_revoked g \<noteq> JBool True \<longrightarrow> unended sn g)"
    using vouches_view [OF r(2) map_of_SomeD [OF r(1)]] unended_view by (auto simp: view_fields)
qed

end
