(* ===== verification/Grant_Ops.thy ===== *)
theory Grant_Ops
  imports Grant_Theorems
begin

text \<open>
  The write side of the grant store: every operation keeps the shared invariant, and what creating, consuming and
  revoking a grant mean for the reads that follow.
\<close>

section \<open>Creating\<close>

lemma json_definition [simp]: "json_value (definitionOf i r) = definitionOf i r"
  by (simp add: definitionOf_def jopt_def match_json_def match_kind_def is_finite_def split: option.splits grant_match.splits)

lemma surface_level_Some: "surface_level n = Some l \<longleftrightarrow> l \<in> {1, 2, 3} \<and> n = Fin (of_nat l)"
  by (auto simp: surface_level_def)

lemma create_check_Inr:
  assumes "create_check v i = Inr d"
  obtains most l where "CAPABILITIES (canon (ci_capability i)) = Some d" "base_inside d \<noteq> Never" "ceiling d = Some most"
    "ci_person i \<noteq> []" "ci_agent i \<noteq> []" "ci_createdBy i \<noteq> []" "ci_scope i \<in> set GRANT_SCOPES"
    "scopeRank (ci_scope i) \<le> scopeRank most" "surface_level (ci_surface i) = Some l" "\<forall>m. minSurface d = Some m \<longrightarrow> m \<le> l"
    "\<forall>t. ci_expiresAt i = Some t \<longrightarrow> (\<exists>q. t = Fin q \<and> ge_now v < q)" "binding_error i = None"
    "\<forall>p a rc. ci_match i = MatchPath p a rc \<longrightarrow> path_error v d i p rc = None"
proof -
  from assms obtain most where 1: "CAPABILITIES (canon (ci_capability i)) = Some d" "base_inside d \<noteq> Never" "ceiling d = Some most"
    "ci_person i \<noteq> []" "ci_agent i \<noteq> []" "ci_createdBy i \<noteq> []" "ci_scope i \<in> set GRANT_SCOPES"
    "scopeRank (ci_scope i) \<le> scopeRank most" "surface_level (ci_surface i) \<noteq> None"
    "\<not> (case minSurface d of Some m \<Rightarrow> ci_surface i < Fin (of_nat m) | None \<Rightarrow> False)"
    "\<not> (case ci_expiresAt i of Some t \<Rightarrow> \<not> is_finite t \<or> t \<le> Fin (ge_now v) | None \<Rightarrow> False)" "binding_error i = None"
    "\<forall>p a rc. ci_match i = MatchPath p a rc \<longrightarrow> path_error v d i p rc = None"
    unfolding create_check_def
    by (cases "CAPABILITIES (canon (ci_capability i))"; cases "ci_match i")
      (simp_all split: if_split_asm option.split_asm)
  then obtain l where l: "surface_level (ci_surface i) = Some l" by blast
  have m: "\<forall>m. minSurface d = Some m \<longrightarrow> m \<le> l" using 1(10) l by (auto simp: surface_level_Some)
  have t: "\<forall>t. ci_expiresAt i = Some t \<longrightarrow> (\<exists>q. t = Fin q \<and> ge_now v < q)"
    using 1(11) by (auto simp: is_finite_def split: jsnum.splits)
  show thesis by (rule that [OF 1(1-8) l m t 1(12,13)])
qed

lemma new_row_wf:
  assumes "create_check v i = Inr d"
  shows "row_wf (new_row v i (cap_id d))"
  using assms
proof (rule create_check_Inr)
  fix most l
  assume a: "CAPABILITIES (canon (ci_capability i)) = Some d" "base_inside d \<noteq> Never" "ceiling d = Some most"
    "ci_person i \<noteq> []" "ci_agent i \<noteq> []" "ci_scope i \<in> set GRANT_SCOPES"
    "scopeRank (ci_scope i) \<le> scopeRank most" "surface_level (ci_surface i) = Some l" "\<forall>m. minSurface d = Some m \<longrightarrow> m \<le> l"
    and b: "binding_error i = None"
    and p: "\<forall>p a rc. ci_match i = MatchPath p a rc \<longrightarrow> path_error v d i p rc = None"
  have cap: "CAPABILITIES (cap_id d) = Some d" using a(1) by simp
  have bd: "(ci_scope i = Once \<longleftrightarrow> ci_match i = MatchAction) \<and> (ci_scope i = Once \<longrightarrow> str_set (ci_actionHash i)) \<and>
     (ci_scope i = Task \<longrightarrow> str_set (ci_taskId i)) \<and> (ci_scope i = Session \<longrightarrow> str_set (ci_sessionId i)) \<and> (ci_jobId i \<noteq> None \<longrightarrow> ci_scope i = Always)"
    using b by (simp add: binding_error_def split: if_split_asm) fastforce
  have pp: "\<forall>p a rc. ci_match i = MatchPath p a rc \<longrightarrow> p \<noteq> []" using p by (auto simp: path_error_def)
  have l: "l \<in> {1, 2, 3}" using a(8) by (simp add: surface_level_Some)
  show ?thesis
    unfolding row_wf_def new_row_def grant_row.simps a(8) option.case
    using a(2-7,9) cap bd pp l by blast
qed

lemma perm_inv_chain: "perm_inv c s \<Longrightarrow> chain_inv c s"
  by (simp add: perm_inv_def store_inv_def)

lemma perm_inv_misc [simp]:
  "perm_inv c (s\<lparr>pm_audit := a\<rparr>) = perm_inv c s" "chain_inv c (s\<lparr>pm_emitted := x\<rparr>) = chain_inv c s"
  "chain_inv c (s\<lparr>pm_notices := y\<rparr>) = chain_inv c s"
  by (simp_all add: perm_inv_def store_inv_def chain_inv_def coherent_def)

lemma proj_inv_grants [simp]: "proj_inv (db\<lparr>db_grants := t\<rparr>) = proj_inv db"
  by (simp add: proj_inv_def)

text \<open>The state after an update of one row.\<close>

definition set_grant :: "string \<Rightarrow> (grant_row \<Rightarrow> grant_row) \<Rightarrow> perm \<Rightarrow> perm" where
  "set_grant i f s = s\<lparr>pm_db := (pm_db s)\<lparr>db_grants := set_row i f (db_grants (pm_db s))\<rparr>\<rparr>"

lemma update_grant_simps [simp]:
  "update_grant i f s = (Inr (), set_grant i f s)" "bind_op (update_grant i f) g s = g () (set_grant i f s)"
  by (simp_all add: update_grant_def set_grant_def)

lemma set_grant_simps [simp]:
  "pm_signer (set_grant i f s) = pm_signer s" "pm_dv (set_grant i f s) = pm_dv s" "pm_audit (set_grant i f s) = pm_audit s"
  "db_rows (pm_db (set_grant i f s)) = db_rows (pm_db s)" "db_approvals (pm_db (set_grant i f s)) = db_approvals (pm_db s)"
  "db_grants (pm_db (set_grant i f s)) = set_row i f (db_grants (pm_db s))"
  "stale (set_grant i f s) = stale s" "chain_inv c (set_grant i f s) = chain_inv c s"
  "(set_grant i f s)\<lparr>pm_db := db\<rparr> = s\<lparr>pm_db := db\<rparr>"
  by (simp_all add: set_grant_def)

lemma perm_inv_set_grant: "perm_inv c s \<Longrightarrow> same_definition f \<Longrightarrow> perm_inv c (set_grant i f s)"
  using grants_ok_update [of "pm_db s" f i] by (simp add: perm_inv_def store_inv_def set_grant_def)

text \<open>A grant entry next to the approvals keeps the part of the invariant that speaks of them.\<close>

lemma proj_inv_grant_entry:
  assumes "proj_inv db" and "db_rows db' = db_rows db @ [e]" and "db_approvals db' = db_approvals db" and "ce_kind e \<in> grant_kinds"
  shows "proj_inv db'"
proof (rule proj_inv_append [OF assms(1,2,3)])
  show "ce_kind e \<noteq> ''approval.requested''" "decided_ok e" using assms(4) by (auto simp: decided_ok_def)
qed

lemma map_of_None_keys: "map_of t i = None \<longleftrightarrow> i \<notin> fst ` set t"
  by (simp add: map_of_eq_None_iff)

lemma grants_ok_created:
  assumes ok: "grants_ok db" and fresh: "i \<notin> fst ` set (db_grants db)" and wf: "row_wf r"
    and rows: "db_rows db' = db_rows db @ [e]" and e: "has_kind ''grant.created'' i e" "json_parse (ce_payload e) = Some (entry_value e)"
      "jget (entry_value e) ''def'' = definitionOf i r"
    and tbl: "db_grants db' = db_grants db @ [(i, r)]"
  shows "grants_ok db'"
proof -
  have "x \<in> set (db_rows db) \<Longrightarrow> \<not> has_kind ''grant.created'' i x" for x
    using ok fresh unfolding grants_ok_def by fastforce
  then have "List.find (\<lambda>x. has_kind ''grant.created'' i x) (db_rows db) = None" by (simp add: find_None_iff')
  then have "row_chained (db_rows db') i r" using e by (simp add: row_chained_def rows find_append)
  with ok wf fresh e show ?thesis
    unfolding grants_ok_def rows tbl by (auto intro: row_chained_append)
qed

lemma grant_insert_run:
  assumes inv: "perm_inv c s" and sg: "signer_ok c (pm_signer s)" and chk: "create_check v i = Inr d"
    and fresh: "map_of (db_grants (pm_db s)) gid = None"
  obtains e s1 r where "grant_insert c v gid i (cap_id d) s = (Inr (toGrant gid (new_row v i (cap_id d))), s1)"
    "perm_inv c s1" "stale s1" "same_process s s1" "db_rows (pm_db s1) = db_rows (pm_db s) @ [e]" "has_kind ''grant.created'' gid e"
    "db_grants (pm_db s1) = db_grants (pm_db s) @ [(gid, r)]" "toGrant gid r = toGrant gid (new_row v i (cap_id d))"
proof -
  let ?row = "new_row v i (cap_id d)"
  let ?def = "definitionOf gid ?row"
  let ?pay = "JObj [(''def'', ?def), (''defHash'', JStr (cr_sha c ?def))]"
  let ?s0 = "s\<lparr>pm_db := (pm_db s)\<lparr>db_grants := db_grants (pm_db s) @ [(gid, ?row)]\<rparr>\<rparr>"
  have ci: "chain_inv c ?s0" using perm_inv_chain [OF inv] by simp
  have sg0: "signer_ok c (pm_signer ?s0)" using sg by simp
  obtain e s1 where ap: "chain_append c (ge_now v) ''grant.created'' gid ?pay None ?s0 = (Inr e, s1)"
    and e: "e = next_entry c (ge_now v) (here ?s0) ''grant.created'' gid ?pay None" "db_rows (pm_db s1) = db_rows (pm_db ?s0) @ [e]"
    and s1: "chain_inv c s1" "stale s1" "same_process ?s0 s1" "db_approvals (pm_db s1) = db_approvals (pm_db ?s0)" "db_grants (pm_db s1) = db_grants (pm_db ?s0)"
    by (rule grant_append [OF ci sg0 grant_kinds_simps(1)])
  let ?f = "\<lambda>r. r\<lparr>gr_defHash := cr_sha c ?def, gr_chainSeq := ce_seq e\<rparr>"
  let ?s2 = "set_grant gid ?f s1"
  have ent: "has_kind ''grant.created'' gid e" "json_parse (ce_payload e) = Some (entry_value e)" "jget (entry_value e) ''def'' = ?def"
    unfolding e(1) by (simp_all add: json_parse_def stringify_def entry_value_def jget_json_value jget_def)
  have gok: "grants_ok (pm_db s1)"
    by (rule grants_ok_created [where db = "pm_db s" and i = gid and r = ?row and e = e])
      (use inv fresh new_row_wf [OF chk] e s1 ent in \<open>simp_all add: perm_inv_def map_of_None_keys\<close>)
  have "proj_inv (pm_db s1)"
    by (rule proj_inv_grant_entry [where db = "pm_db s" and e = e])
      (use inv e s1 ent in \<open>simp_all add: perm_inv_def store_inv_def\<close>)
  with gok s1(1) have "perm_inv c s1" by (simp add: perm_inv_def store_inv_def)
  then have inv2: "perm_inv c ?s2" by (rule perm_inv_set_grant) simp
  have keys: "gid \<notin> fst ` set (db_grants (pm_db s))" using fresh by (simp add: map_of_None_keys)
  then have tbl: "db_grants (pm_db ?s2) = db_grants (pm_db s) @ [(gid, ?f ?row)]"
    using s1(5) by (force intro: map_idI)
  show thesis
  proof (rule that [of ?s2 e "?f ?row"])
    show "grant_insert c v gid i (cap_id d) s = (Inr (toGrant gid ?row), ?s2)"
      using ap by (simp add: grant_insert_def Let_def bind_op_def [of "chain_append c _ _ _ _ _"])
  qed (use inv2 tbl s1 e ent in \<open>simp_all add: same_process_def toGrant_def\<close>)
qed

section \<open>Every operation keeps the invariant\<close>

abbreviation pout :: "crypto \<Rightarrow> perm \<Rightarrow> (exn, 'a) result \<times> perm \<Rightarrow> bool" where
  "pout c s out \<equiv> (case out of (r, s') \<Rightarrow> pm_signer s' = pm_signer s \<and> pm_dv s' = pm_dv s \<and>
     (case r of Inr _ \<Rightarrow> perm_inv c s' \<and> prefix (db_rows (pm_db s)) (db_rows (pm_db s')) | Inl _ \<Rightarrow> coherent c (s'\<lparr>pm_db := pm_db s\<rparr>)))"

lemma pout_transaction:
  assumes "perm_inv c s" and "pout c s (m s)"
  shows "perm_inv c (snd (transaction m s)) \<and> prefix (db_rows (pm_db s)) (db_rows (pm_db (snd (transaction m s)))) \<and>
    pm_signer (snd (transaction m s)) = pm_signer s"
proof -
  obtain r s' where m: "m s = (r, s')" by fastforce
  show ?thesis
  proof (cases r)
    case (Inl x)
    with assms m show ?thesis by (simp add: transaction_def perm_inv_def store_inv_def chain_inv_def)
  next
    case (Inr y)
    with assms m show ?thesis by (simp add: transaction_def)
  qed
qed

lemma note_opE:
  assumes "note_op v a g x s = (r, s')"
  obtains al where "s' = s\<lparr>pm_audit := al\<rparr>" "r = Inr () \<or> r = Inl AuditError"
  using assms that [of "pm_audit s"] by (auto simp: note_op_def Let_def split: option.splits if_splits)

lemma append_grant_inv:
  assumes inv: "perm_inv c s" and sg: "signer_ok c (pm_signer s)" and k: "kind \<in> grant_kinds" and i: "i \<in> fst ` set (db_grants (pm_db s))"
  obtains e s1 where "chain_append c now kind i payload nonce s = (Inr e, s1)" "e = next_entry c now (here s) kind i payload nonce"
    "db_rows (pm_db s1) = db_rows (pm_db s) @ [e]" "perm_inv c s1" "stale s1" "same_process s s1" "db_grants (pm_db s1) = db_grants (pm_db s)"
proof -
  obtain e s1 where a: "chain_append c now kind i payload nonce s = (Inr e, s1)" "e = next_entry c now (here s) kind i payload nonce"
    "db_rows (pm_db s1) = db_rows (pm_db s) @ [e]" "chain_inv c s1" "stale s1" "same_process s s1"
    "db_approvals (pm_db s1) = db_approvals (pm_db s)" "db_grants (pm_db s1) = db_grants (pm_db s)"
    by (rule grant_append [OF perm_inv_chain [OF inv] sg k])
  have "grants_ok (pm_db s1)"
    by (rule grants_ok_append [where db = "pm_db s" and es = "[e]"]) (use inv a i in \<open>simp_all add: perm_inv_def\<close>)
  moreover have "proj_inv (pm_db s1)"
    by (rule proj_inv_grant_entry [where db = "pm_db s" and e = e]) (use inv a k in \<open>simp_all add: perm_inv_def store_inv_def\<close>)
  ultimately have "perm_inv c s1" using a(4) by (simp add: perm_inv_def store_inv_def)
  from that [OF a(1,2,3) this a(5,6,8)] show thesis .
qed

lemma create_ok:
  assumes inv: "perm_inv c s" and sg: "signer_ok c (pm_signer s)" and chk: "create_check v i = Inr d"
  shows "pout c s (create_body c v i d s)"
proof -
  define gid where "gid = (case ci_id i of Some x \<Rightarrow> x | None \<Rightarrow> ge_id v)"
  show ?thesis
  proof (cases "map_of (db_grants (pm_db s)) gid")
    case (Some r)
    then show ?thesis using inv by (simp add: create_body_def Let_def gid_def [symmetric] perm_inv_def store_inv_def chain_inv_def)
  next
    case None
    obtain e s1 r where g: "grant_insert c v gid i (cap_id d) s = (Inr (toGrant gid (new_row v i (cap_id d))), s1)"
      "perm_inv c s1" "stale s1" "same_process s s1" "db_rows (pm_db s1) = db_rows (pm_db s) @ [e]"
      by (rule grant_insert_run [OF inv sg chk None])
    obtain r2 s2 where n: "note_op v ''grant.created'' (toGrant gid (new_row v i (cap_id d))) [] s1 = (r2, s2)" by fastforce
    from n obtain al where "s2 = s1\<lparr>pm_audit := al\<rparr>" "r2 = Inr () \<or> r2 = Inl AuditError" by (rule note_opE)
    with g n None show ?thesis
      by (auto simp: create_body_def Let_def gid_def [symmetric] bind_op_def same_process_def stale_coherent)
  qed
qed

lemma bind_caught: "m s = (Inr x, s1) \<Longrightarrow> bind_op (catch_chain m) g s = g () s1"
  by (simp add: bind_op_def catch_chain_def)

lemma bind_broken: "m s = (Inl (ChainError p w), s1) \<Longrightarrow> bind_op (catch_chain m) g s = g () s1"
  by (simp add: bind_op_def catch_chain_def)

lemma bind_swallowed: "m s = (r, s1) \<Longrightarrow> bind_op (swallow m) g s = g () s1"
  by (simp add: bind_op_def swallow_def)

lemma revoke_run:
  assumes inv: "perm_inv c s" and sg: "signer_ok c (pm_signer s)"
  obtains b s1 where "revoke_body c v i who reason s = (Inr b, s1)" "perm_inv c s1"
    "prefix (db_rows (pm_db s)) (db_rows (pm_db s1))" "pm_signer s1 = pm_signer s" "pm_dv s1 = pm_dv s"
proof (cases "case map_of (db_grants (pm_db s)) i of Some r \<Rightarrow> gr_revokedAt r \<noteq> None | None \<Rightarrow> True")
  case True
  then show thesis using inv by (intro that [of False s]) (simp_all add: revoke_body_def Let_def)
next
  case False
  let ?f = "\<lambda>r. r\<lparr>gr_revokedAt := Some (ge_now v), gr_endReason := Some reason\<rparr>"
  define kind where "kind = (if reason = ''revoked'' then ''grant.revoked'' else ''grant.ended'')"
  let ?pay = "JObj [(''by'', JStr who), (''reason'', JStr reason)]"
  let ?s0 = "set_grant i ?f s"
  have inv0: "perm_inv c ?s0" using inv by (rule perm_inv_set_grant) simp
  have i0: "i \<in> fst ` set (db_grants (pm_db ?s0))"
    using False by (simp only: set_grant_simps set_row_keys) (auto split: option.splits dest!: map_of_SomeD intro: rev_image_eqI)
  have k: "kind \<in> grant_kinds" by (simp add: kind_def)
  have sg0: "signer_ok c (pm_signer ?s0)" using sg by simp
  obtain e s1 where a: "chain_append c (ge_now v) kind i ?pay None ?s0 = (Inr e, s1)"
    "db_rows (pm_db s1) = db_rows (pm_db ?s0) @ [e]" "perm_inv c s1" "same_process ?s0 s1"
    by (rule append_grant_inv [OF inv0 sg0 k i0])
  let ?line = "bind_op (query (\<lambda>db. map_of (db_grants db) i)) (\<lambda>row. case row of
           None \<Rightarrow> raise TypeError
         | Some r \<Rightarrow> note_op v kind (toGrant i r) [(''by'', JStr who), (''reason'', JStr reason)])"
  obtain r2 s2 where n: "?line s1 = (r2, s2)" by fastforce
  then have s2: "\<exists>al. s2 = s1\<lparr>pm_audit := al\<rparr>"
    by (cases "map_of (db_grants (pm_db s1)) i") (auto elim!: note_opE intro: exI [of _ "pm_audit s1"])
  have run: "revoke_body c v i who reason s = (Inr True, s2)"
    unfolding revoke_body_def Let_def kind_def [symmetric]
    using False
    by (subst bind_op_query) (simp only: if_False update_grant_simps bind_caught [where m = "chain_append c (ge_now v) kind i ?pay None" and s = ?s0, OF a(1)]
        bind_swallowed [where m = ?line and s = s1, OF n] ret_simp)
  show thesis by (rule that [OF run]) (use a s2 in \<open>auto simp: same_process_def\<close>)
qed


lemma end_loop_run:
  assumes "perm_inv c s" and "signer_ok c (pm_signer s)"
  obtains n s1 where "end_loop c v who reason is s = (Inr n, s1)" "perm_inv c s1"
    "prefix (db_rows (pm_db s)) (db_rows (pm_db s1))" "pm_signer s1 = pm_signer s" "pm_dv s1 = pm_dv s"
  using assms
proof (induction "is" arbitrary: s thesis)
  case Nil
  then show ?case by simp
next
  case (Cons i "is")
  obtain b s1 where r: "revoke_body c v i who reason s = (Inr b, s1)" "perm_inv c s1"
    "prefix (db_rows (pm_db s)) (db_rows (pm_db s1))" "pm_signer s1 = pm_signer s" "pm_dv s1 = pm_dv s"
    by (rule revoke_run [OF Cons.prems(2,3)])
  have sg: "signer_ok c (pm_signer s1)" using Cons.prems(3) r(4) by simp
  obtain n s2 where l: "end_loop c v who reason is s1 = (Inr n, s2)" "perm_inv c s2"
    "prefix (db_rows (pm_db s1)) (db_rows (pm_db s2))" "pm_signer s2 = pm_signer s1" "pm_dv s2 = pm_dv s1"
    by (rule Cons.IH [OF _ r(2) sg])
  have run: "end_loop c v who reason (i # is) s = (Inr (if b then n + 1 else n), s2)"
    using r(1) l(1) by (simp add: bind_op_def)
  show ?case
    by (rule Cons.prems(1) [OF run l(2) prefix_order.trans [OF r(3) l(3)]]) (use r l in simp_all)
qed

lemma emit_state:
  "\<exists>x y. emit v change g st s = (Inr (), s\<lparr>pm_emitted := x, pm_notices := y\<rparr>)"
  by (cases s) (auto simp: emit_def Let_def)

lemma markUsed_ok:
  assumes inv: "perm_inv c s" and sg: "signer_ok c (pm_signer s)"
  shows "pout c s (markUsed_body c v i s)"
proof -
  obtain ca where w: "viewOf c i s = (Inr (map_option (view_of (here s) i) (map_of (db_grants (pm_db s)) i)), s\<lparr>pm_cache := ca\<rparr>)"
    "chain_inv c (s\<lparr>pm_cache := ca\<rparr>)"
    by (rule viewOf_eq [OF perm_inv_chain [OF inv]])
  let ?s0 = "s\<lparr>pm_cache := ca\<rparr>"
  have inv0: "perm_inv c ?s0" using inv w(2) by (simp add: perm_inv_def store_inv_def)
  have coh0: "coherent c ?s0" using w(2) by (simp add: chain_inv_def)
  show ?thesis
  proof (cases "map_of (db_grants (pm_db s)) i")
    case None
    with w inv0 show ?thesis by (simp add: markUsed_body_def bind_op_def)
  next
    case (Some r)
    obtain g st where g: "view_of (here s) i r = (g, st)" by fastforce
    show ?thesis
    proof (cases "st \<noteq> Active \<or> \<not> use_due v g")
      case True
      with w inv0 Some g show ?thesis by (auto simp: markUsed_body_def bind_op_def)
    next
      case False
      have i0: "i \<in> fst ` set (db_grants (pm_db ?s0))" using Some by (auto dest!: map_of_SomeD intro: rev_image_eqI)
      have sg0: "signer_ok c (pm_signer ?s0)" using sg by simp
      obtain e s1 where a: "chain_append c (ge_now v) ''grant.used'' i (JObj []) None ?s0 = (Inr e, s1)"
        "db_rows (pm_db s1) = db_rows (pm_db ?s0) @ [e]" "perm_inv c s1" "stale s1" "same_process ?s0 s1"
        by (rule append_grant_inv [OF inv0 sg0 grant_kinds_simps(4) i0])
      let ?s2 = "set_grant i (\<lambda>r. r\<lparr>gr_lastUsedAt := Some (ge_now v)\<rparr>) s1"
      have inv2: "perm_inv c ?s2" using a(3) by (rule perm_inv_set_grant) simp
      obtain r3 s3 where n: "note_op v ''grant.used'' g [] ?s2 = (r3, s3)" by fastforce
      then obtain al where s3: "s3 = ?s2\<lparr>pm_audit := al\<rparr>" "r3 = Inr () \<or> r3 = Inl AuditError" by (rule note_opE)
      have ci3: "chain_inv c s3" using perm_inv_chain [OF inv2] by (simp add: s3)
      obtain ca' where w': "viewOf c i s3 = (Inr (map_option (view_of (here s3) i) (map_of (db_grants (pm_db s3)) i)), s3\<lparr>pm_cache := ca'\<rparr>)"
        "chain_inv c (s3\<lparr>pm_cache := ca'\<rparr>)" by (rule viewOf_eq [OF ci3])
      have run: "markUsed_body c v i s = (case r3 of Inr _ \<Rightarrow> (Inr (map_option (view_of (here s3) i) (map_of (db_grants (pm_db s3)) i)), s3\<lparr>pm_cache := ca'\<rparr>)
         | Inl x \<Rightarrow> (Inl x, s3))"
        using False w(1) w'(1) Some g a(1) n by (auto simp: markUsed_body_def bind_op_def split: sum.splits)
      have "perm_inv c s3" using inv2 s3 by simp
      then have "perm_inv c (s3\<lparr>pm_cache := ca'\<rparr>)" using w'(2) by (simp add: perm_inv_def store_inv_def)
      with run s3 a show ?thesis by (auto simp: same_process_def stale_coherent)
    qed
  qed
qed

lemma consumeE:
  assumes inv: "perm_inv c s" and sg: "signer_ok c (pm_signer s)" and run: "consumeOnce_body c v i person agent h s = (r, s')"
  obtains (refused) ca where "r = Inr False" "s' = s\<lparr>pm_cache := ca\<rparr>" "perm_inv c s'"
  | (unrecorded) "r = Inl AuditError" "stale s'" "pm_signer s' = pm_signer s" "pm_dv s' = pm_dv s"
  | (consumed) row e where "r = Inr True" "perm_inv c s'" "stale s'" "map_of (db_grants (pm_db s)) i = Some row" "consumable v row person agent h"
      "snd (view_of (here s) i row) = Active" "db_rows (pm_db s') = db_rows (pm_db s) @ [e]" "has_kind ''grant.consumed'' i e"
      "pm_signer s' = pm_signer s" "pm_dv s' = pm_dv s"
proof -
  obtain ca where w: "viewOf c i s = (Inr (map_option (view_of (here s) i) (map_of (db_grants (pm_db s)) i)), s\<lparr>pm_cache := ca\<rparr>)"
    "chain_inv c (s\<lparr>pm_cache := ca\<rparr>)"
    by (rule viewOf_eq [OF perm_inv_chain [OF inv]])
  let ?s0 = "s\<lparr>pm_cache := ca\<rparr>"
  have inv0: "perm_inv c ?s0" using inv w(2) by (simp add: perm_inv_def store_inv_def)
  show thesis
  proof (cases "\<exists>row. map_of (db_grants (pm_db s)) i = Some row \<and> snd (view_of (here s) i row) = Active \<and> consumable v row person agent h")
    case False
    have "r = Inr False \<and> s' = ?s0"
      using run w(1) False by (cases "map_of (db_grants (pm_db s)) i") (auto simp: consumeOnce_body_def bind_op_def [of "viewOf c i"] split: prod.splits if_splits)
    with refused inv0 show thesis by blast
  next
    case True
    then obtain row where row: "map_of (db_grants (pm_db s)) i = Some row" "snd (view_of (here s) i row) = Active" "consumable v row person agent h" by blast
    let ?s1 = "set_grant i (\<lambda>r. r\<lparr>gr_consumedAt := Some (ge_now v), gr_lastUsedAt := Some (ge_now v)\<rparr>) ?s0"
    have inv1: "perm_inv c ?s1" using inv0 by (rule perm_inv_set_grant) simp
    have i1: "i \<in> fst ` set (db_grants (pm_db ?s1))"
      using row(1) by (simp only: set_grant_simps set_row_keys) (auto dest!: map_of_SomeD intro: rev_image_eqI)
    have sg1: "signer_ok c (pm_signer ?s1)" using sg by simp
    obtain e s2 where a: "chain_append c (ge_now v) ''grant.consumed'' i (JObj [(''actionHash'', JStr h)]) None ?s1 = (Inr e, s2)"
      "e = next_entry c (ge_now v) (here ?s1) ''grant.consumed'' i (JObj [(''actionHash'', JStr h)]) None"
      "db_rows (pm_db s2) = db_rows (pm_db ?s1) @ [e]" "perm_inv c s2" "stale s2" "same_process ?s1 s2"
      by (rule append_grant_inv [OF inv1 sg1 grant_kinds_simps(5) i1])
    obtain g where g: "view_of (here s) i row = (g, Active)" using row(2) by (cases "view_of (here s) i row") auto
    obtain r3 s3 where n: "note_op v ''grant.consumed'' g [(''actionHash'', JStr h)] s2 = (r3, s3)" by fastforce
    then obtain al where s3: "s3 = s2\<lparr>pm_audit := al\<rparr>" "r3 = Inr () \<or> r3 = Inl AuditError" by (rule note_opE)
    have "(r, s') = (case r3 of Inr _ \<Rightarrow> (Inr True, s3) | Inl x \<Rightarrow> (Inl x, s3))"
      using run w(1) row g a(1) n
      by (auto simp: consumeOnce_body_def bind_op_def [of "viewOf c i"] bind_op_def [of "chain_append c _ _ _ _ _"] bind_op_def [of "note_op v _ _ _"] split: sum.splits)
    then consider "r = Inl AuditError" "s' = s3" | "r = Inr True" "s' = s3" using s3(2) by auto
    then show thesis
    proof cases
      case 1
      then show thesis using unrecorded s3 a by (auto simp: same_process_def)
    next
      case 2
      then show thesis using consumed [of row e] row s3 a by (auto simp: same_process_def)
    qed
  qed
qed

lemma consume_ok:
  assumes "perm_inv c s" and "signer_ok c (pm_signer s)"
  shows "pout c s (consumeOnce_body c v i person agent h s)"
proof -
  obtain r s' where run: "consumeOnce_body c v i person agent h s = (r, s')" by fastforce
  from assms run show ?thesis
    by (cases rule: consumeE) (use run in \<open>auto simp: stale_coherent\<close>)
qed

section \<open>The approval operations leave the grants alone\<close>

definition frame :: "'a op \<Rightarrow> bool" where
  "frame m \<longleftrightarrow> (\<forall>s r s'. m s = (r, s') \<longrightarrow> db_grants (pm_db s') = db_grants (pm_db s) \<and>
     (\<forall>e\<in>set (db_rows (pm_db s')). ce_kind e \<in> grant_kinds \<longrightarrow> e \<in> set (db_rows (pm_db s))))"

named_theorems framed

lemma frame_basic [framed]: "frame (ret x)" "frame (raise y)" "frame (query q)"
  by (simp_all add: frame_def)

lemma frame_bind [framed]: "frame m \<Longrightarrow> (\<And>x. frame (f x)) \<Longrightarrow> frame (bind_op m f)"
  unfolding frame_def bind_op_def by (fastforce split: prod.splits sum.splits)

lemma frame_if [framed]: "frame m \<Longrightarrow> frame m' \<Longrightarrow> frame (if P then m else m')"
  by simp

lemma frame_snapshot [framed]: "frame (chain_snapshot c)"
  by (auto simp: frame_def chain_snapshot_def split: option.splits)

lemma frame_trusted [framed]: "frame (trusted c)"
  unfolding trusted_def by (intro framed) (auto intro: framed split: option.splits)

lemma set_insert_row: "insert_row e rows = Some rows' \<Longrightarrow> set rows' \<subseteq> insert e (set rows)"
  by (auto simp: insert_row_def split: if_splits dest: set_takeWhileD set_dropWhileD)

lemma frame_insert_entry: "ce_kind e \<notin> grant_kinds \<Longrightarrow> frame (insert_entry c e)"
  unfolding frame_def insert_entry_def Let_def
  by (auto split: option.splits if_splits dest!: set_insert_row)

lemma frame_append [framed]:
  assumes "kind \<notin> grant_kinds"
  shows "frame (chain_append c now kind ref payload nonce)"
proof -
  have "frame (append_run c now kind ref payload nonce)"
    unfolding append_run_def using assms
    by (intro framed) (auto intro!: framed frame_insert_entry split: option.splits)
  then show ?thesis unfolding frame_def chain_append_def by (fastforce split: prod.splits)
qed

lemma frame_insert_approval [framed]: "frame (insert_approval i row)"
  by (auto simp: frame_def insert_approval_def Let_def)

lemma frame_update_approval [framed]: "frame (update_approval i f)"
  by (simp add: frame_def update_approval_def)

lemma frame_transaction: "frame m \<Longrightarrow> frame (transaction m)"
  unfolding frame_def transaction_def by (fastforce split: prod.splits sum.splits)

lemma frame_request: "frame (store_request c v i)"
  unfolding store_request_def store_request_body_def Let_def
  by (intro frame_transaction framed) simp

lemma frame_decide: "frame (store_decide c v d)"
  unfolding store_decide_def store_decide_body_def Let_def
  by (intro frame_transaction) (auto intro!: framed split: option.splits)

lemma frame_cancel: "frame (store_cancel c v i who)"
  unfolding store_cancel_def store_cancel_body_def Let_def
  by (intro frame_transaction) (auto intro!: framed split: option.splits)

lemma frame_consume: "frame (store_consume c v b)"
  unfolding store_consume_def store_consume_body_def Let_def
  by (intro frame_transaction) (auto intro!: framed split: option.splits)

lemma framed_inv:
  assumes "frame m" and "perm_inv c s" and "good c s (snd (m s))"
  shows "perm_inv c (snd (m s))"
proof -
  obtain r s' where m: "m s = (r, s')" by fastforce
  from assms(3) m obtain es where es: "db_rows (pm_db s') = db_rows (pm_db s) @ es" by (auto simp: good_def prefix_def)
  have "ce_refId e \<in> fst ` set (db_grants (pm_db s))" if "e \<in> set es" "ce_kind e \<in> grant_kinds" for e
    using assms(1,2) m es that unfolding frame_def perm_inv_def grants_ok_def by fastforce
  with grants_ok_append [OF _ es] assms m show ?thesis by (simp add: frame_def perm_inv_def good_def)
qed

end
