(* ===== verification/Grant_Properties.thy ===== *)
theory Grant_Properties
  imports Grant_Ops
begin

text \<open>
  The properties of the grant store, over every state that its operations and those of the approval store reach on one connection.
\<close>

section \<open>Reachable states\<close>

inductive perm_reach :: "crypto \<Rightarrow> perm \<Rightarrow> bool" for c where
  start: "signer_ok c sg \<Longrightarrow> perm_reach c (init_perm sg)"
| request: "perm_reach c s \<Longrightarrow> perm_reach c (snd (store_request c v i s))"
| decide: "perm_reach c s \<Longrightarrow> perm_reach c (snd (store_decide c v d s))"
| cancel: "perm_reach c s \<Longrightarrow> perm_reach c (snd (store_cancel c v r who s))"
| consume: "perm_reach c s \<Longrightarrow> perm_reach c (snd (store_consume c v b s))"
| create: "perm_reach c s \<Longrightarrow> perm_reach c (snd (grant_create c w g s))"
| revoke: "perm_reach c s \<Longrightarrow> perm_reach c (snd (grant_revoke c w r who reason s))"
| endTask: "perm_reach c s \<Longrightarrow> perm_reach c (snd (endTask c w t who s))"
| endSession: "perm_reach c s \<Longrightarrow> perm_reach c (snd (endSession c w t who s))"
| markUsed: "perm_reach c s \<Longrightarrow> perm_reach c (snd (markUsed c w r s))"
| consumeOnce: "perm_reach c s \<Longrightarrow> perm_reach c (snd (consumeOnce c w r person agent h s))"
| announce: "perm_reach c s \<Longrightarrow> perm_reach c (snd (announceDue c w p s))"

definition kept_inv :: "crypto \<Rightarrow> perm \<Rightarrow> bool" where
  "kept_inv c s \<longleftrightarrow> perm_inv c s \<and> signer_ok c (pm_signer s)"

definition keeps :: "crypto \<Rightarrow> 'a op \<Rightarrow> bool" where
  "keeps c m \<longleftrightarrow> (\<forall>s. kept_inv c s \<longrightarrow> kept_inv c (snd (m s)))"

lemma keepsD: "keeps c m \<Longrightarrow> kept_inv c s \<Longrightarrow> kept_inv c (snd (m s))"
  by (simp add: keeps_def)

lemma keeps_approval:
  assumes "body_ok c m" and "frame (transaction m)"
  shows "keeps c (transaction m)"
  unfolding keeps_def
proof (intro allI impI)
  fix s assume inv: "kept_inv c s"
  then have "store_inv c s" "signer_ok c (pm_signer s)" "perm_inv c s" by (simp_all add: kept_inv_def perm_inv_def)
  with transaction_inv [OF assms(1), of s] framed_inv [OF assms(2), of c s] show "kept_inv c (snd (transaction m s))"
    by (simp add: kept_inv_def)
qed

lemma keeps_grant:
  assumes "\<And>s. perm_inv c s \<Longrightarrow> signer_ok c (pm_signer s) \<Longrightarrow> pout c s (m s)"
  shows "keeps c (transaction m)"
  unfolding keeps_def kept_inv_def
proof (intro allI impI)
  fix s assume inv: "perm_inv c s \<and> signer_ok c (pm_signer s)"
  have p: "perm_inv c s" "pout c s (m s)" by (use inv in blast, rule assms) (use inv in blast)+
  from pout_transaction [where m = m, OF p] inv show "perm_inv c (snd (transaction m s)) \<and> signer_ok c (pm_signer (snd (transaction m s)))"
    by simp
qed

lemma keeps_revoke: "keeps c (grant_revoke c v i who reason)"
  unfolding grant_revoke_def
proof (rule keeps_grant)
  fix s assume a: "perm_inv c s" "signer_ok c (pm_signer s)"
  obtain b s1 where "revoke_body c v i who reason s = (Inr b, s1)" "perm_inv c s1"
    "prefix (db_rows (pm_db s)) (db_rows (pm_db s1))" "pm_signer s1 = pm_signer s" "pm_dv s1 = pm_dv s" by (rule revoke_run [OF a])
  then show "pout c s (revoke_body c v i who reason s)" by simp
qed

lemma keeps_end: "keeps c (endWhere c v P who reason)"
  unfolding endWhere_def
proof (rule keeps_grant)
  fix s assume a: "perm_inv c s" "signer_ok c (pm_signer s)"
  let ?ids = "map fst (filter (\<lambda>(i, r). P r \<and> gr_revokedAt r = None) (db_grants (pm_db s)))"
  obtain n s1 where "end_loop c v who reason ?ids s = (Inr n, s1)" "perm_inv c s1"
    "prefix (db_rows (pm_db s)) (db_rows (pm_db s1))" "pm_signer s1 = pm_signer s" "pm_dv s1 = pm_dv s" by (rule end_loop_run [OF a])
  then show "pout c s (bind_op (query (\<lambda>db. map fst (filter (\<lambda>(i, r). P r \<and> gr_revokedAt r = None) (db_grants db)))) (end_loop c v who reason) s)"
    by simp
qed

lemma kept_inv_misc [simp]: "kept_inv c (s\<lparr>pm_emitted := x, pm_notices := y\<rparr>) = kept_inv c s"
  by (simp add: kept_inv_def perm_inv_def store_inv_def)

lemma announce_loop_inv: "kept_inv c s \<Longrightarrow> kept_inv c (snd (announce_loop v ws s))"
proof (induction v ws arbitrary: s rule: announce_loop.induct)
  case (2 v g st vs)
  let ?m = "if st = Suspended then emit v ''suspended'' g st
             else if st = Active \<and> grantExpiry (grant.truncate g) (ge_maxGrantDays v) \<le> Fin (ge_now v) then emit v ''expired'' g st
             else ret ()"
  have em: "\<exists>s1. emit v change g st' s = (Inr (), s1) \<and> kept_inv c s1" for change st'
    using emit_state [of v change g st' s] 2(2) by (metis kept_inv_misc)
  have "\<exists>s1. ?m s = (Inr (), s1) \<and> kept_inv c s1" using 2(2) by (simp add: em)
  then obtain s1 where s1: "?m s = (Inr (), s1)" "kept_inv c s1" by blast
  have "announce_loop v ((g, st) # vs) s = announce_loop v vs s1" by (simp only: announce_loop.simps bind_op_def s1(1) prod.case sum.case)
  with 2(1) [OF s1(2)] show ?case by simp
qed simp

lemma keeps_announce: "keeps c (announceDue c v p)"
  unfolding keeps_def
proof (intro allI impI)
  fix s assume inv: "kept_inv c s"
  have ci: "chain_inv c s" using inv perm_inv_chain by (auto simp: kept_inv_def)
  obtain ca where "chain_snapshot c s = (Inr (here s), s\<lparr>pm_cache := ca\<rparr>)" "chain_inv c (s\<lparr>pm_cache := ca\<rparr>)" by (rule snapshot_eq [OF ci])
  moreover from this(2) inv have "kept_inv c (s\<lparr>pm_cache := ca\<rparr>)" by (simp add: kept_inv_def perm_inv_def store_inv_def)
  ultimately show "kept_inv c (snd (announceDue c v p s))"
    using announce_loop_inv by (simp add: announceDue_def inspect_def views_def bind_op_def)
qed

lemma keeps_markUsed: "keeps c (markUsed c v i)"
  unfolding keeps_def
proof (intro allI impI)
  fix s assume inv: "kept_inv c s"
  obtain r s1 where t: "transaction (markUsed_body c v i) s = (r, s1)" by fastforce
  have "keeps c (transaction (markUsed_body c v i))" by (rule keeps_grant) (rule markUsed_ok)
  from keepsD [OF this inv] t have k: "kept_inv c s1" by simp
  show "kept_inv c (snd (markUsed c v i s))"
  proof (cases r)
    case (Inr w)
    show ?thesis
    proof (cases w)
      case (Some p)
      obtain g st where p: "p = (g, st)" by fastforce
      obtain x y where "emit v ''used'' g st s1 = (Inr (), s1\<lparr>pm_emitted := x, pm_notices := y\<rparr>)"
        using emit_state [of v "''used''" g st s1] by blast
      with k Inr Some p show ?thesis by (simp add: markUsed_def bind_op_def t)
    qed (use k Inr in \<open>simp add: markUsed_def bind_op_def t\<close>)
  qed (use k in \<open>simp add: markUsed_def bind_op_def t\<close>)
qed

lemma consumeOnce_snd: "snd (consumeOnce c v i person agent h s) = snd (transaction (consumeOnce_body c v i person agent h) s)"
  by (auto simp: consumeOnce_def split: prod.splits sum.splits exn.splits)

lemma consumeOnce_False:
  "consumeOnce_body c v i person agent h s = (Inr b, s') \<Longrightarrow> fst (consumeOnce c v i person agent h s) = Inr b"
  by (simp add: consumeOnce_def transaction_def)

lemma keeps_consumeOnce: "keeps c (consumeOnce c v i person agent h)"
proof -
  have "keeps c (transaction (consumeOnce_body c v i person agent h))" by (rule keeps_grant) (rule consume_ok)
  then show ?thesis by (simp add: keeps_def consumeOnce_snd)
qed

lemma keeps_create: "keeps c (grant_create c v i)"
proof (cases "create_check v i")
  case (Inl e)
  then show ?thesis by (simp add: keeps_def grant_create_def)
next
  case (Inr d)
  have "keeps c (transaction (create_body c v i d))" by (rule keeps_grant) (rule create_ok [OF _ _ Inr])
  with Inr show ?thesis by (simp add: grant_create_def)
qed

lemmas keeps_approvals =
  keeps_approval [OF store_request_ok frame_request [unfolded store_request_def], folded store_request_def]
  keeps_approval [OF store_decide_ok frame_decide [unfolded store_decide_def], folded store_decide_def]
  keeps_approval [OF store_cancel_ok frame_cancel [unfolded store_cancel_def], folded store_cancel_def]
  keeps_approval [OF store_consume_ok frame_consume [unfolded store_consume_def], folded store_consume_def]

lemma perm_reach_inv: "perm_reach c s \<Longrightarrow> kept_inv c s"
proof (induction rule: perm_reach.induct)
  case (start sg)
  then show ?case using store_inv_init [of c sg] by (simp add: kept_inv_def perm_inv_def init_perm_def grants_ok_def empty_db_def)
qed (auto intro: keeps_approvals [THEN keepsD] keeps_create [THEN keepsD] keeps_revoke [THEN keepsD] keeps_markUsed [THEN keepsD]
    keeps_consumeOnce [THEN keepsD] keeps_announce [THEN keepsD] keeps_end [THEN keepsD, folded endTask_def endSession_def]
    simp: endTask_def endSession_def)

section \<open>Reads after writes\<close>

lemma verified_build_here: "chain_inv c s \<Longrightarrow> build c (pm_signer s) (pm_db s) = Some (here s)"
  by (simp add: chain_inv_def verified_def)

lemma chain_inv_coherent: "chain_inv c s \<Longrightarrow> coherent c s"
  by (simp add: chain_inv_def)

lemma perm_inv_vouched: "perm_inv c s \<Longrightarrow> (i, r) \<in> set (db_grants (pm_db s)) \<Longrightarrow> vouched (here s) i r \<and> row_wf r"
  unfolding vouched_here perm_inv_def grants_ok_def by blast

lemma perm_inv_lookup: "perm_inv c s \<Longrightarrow> map_of (db_grants (pm_db s)) i = Some r \<longleftrightarrow> (i, r) \<in> set (db_grants (pm_db s))"
  by (simp add: perm_inv_def grants_ok_def)

lemma here_entry_None:
  assumes "\<And>e. e \<in> set (db_rows (pm_db s)) \<Longrightarrow> ce_refId e = i \<Longrightarrow> ce_kind e \<in> grant_kinds \<Longrightarrow> ce_kind e = ''grant.created''"
  shows "ended_entry (here s) i = None" "consumed_entry (here s) i = None" "last_use (here s) i = None"
proof -
  have "ce_kind e \<noteq> ''grant.revoked'' \<and> ce_kind e \<noteq> ''grant.ended'' \<and> ce_kind e \<noteq> ''grant.consumed'' \<and> ce_kind e \<noteq> ''grant.used''"
    if "e \<in> set (db_rows (pm_db s))" "ce_refId e = i" for e
    using assms [OF that] by (cases "ce_kind e \<in> grant_kinds") auto
  then show "ended_entry (here s) i = None" "consumed_entry (here s) i = None"
    by (auto simp: ended_entry_def consumed_entry_def by_ref_def find_None_iff')
  have "filter (\<lambda>e. ce_kind e = ''grant.used'' \<and> trustedBelow (here s) (ce_seq e)) (by_ref (here s) i) = []"
    using \<open>\<And>e. e \<in> set (db_rows (pm_db s)) \<Longrightarrow> ce_refId e = i \<Longrightarrow> _\<close> by (auto simp: by_ref_def filter_empty_conv)
  then show "last_use (here s) i = None" unfolding last_use_def by (simp only: list.case)
qed

lemma create_view:
  assumes inv: "kept_inv c s" and run: "grant_create c v i s = (Inr g, s')"
  obtains d r where "create_check v i = Inr d" "kept_inv c s'" "(g_id g, r) \<in> set (db_grants (pm_db s'))" "view_of (here s') (g_id g) r = (g, Active)"
    "g = toGrant (case ci_id i of Some x \<Rightarrow> x | None \<Rightarrow> ge_id v) (new_row v i (cap_id d))" "toGrant (g_id g) r = g"
proof -
  obtain d where chk: "create_check v i = Inr d" and body: "create_body c v i d s = (Inr g, s')"
    using run by (auto simp: grant_create_def split: sum.splits)
  define gid where "gid = (case ci_id i of Some x \<Rightarrow> x | None \<Rightarrow> ge_id v)"
  have fresh: "map_of (db_grants (pm_db s)) gid = None"
    using body by (auto simp: create_body_def Let_def gid_def [symmetric] split: if_splits)
  have pinv: "perm_inv c s" and sg: "signer_ok c (pm_signer s)" using inv by (simp_all add: kept_inv_def)
  obtain e s1 r where g: "grant_insert c v gid i (cap_id d) s = (Inr (toGrant gid (new_row v i (cap_id d))), s1)"
    "perm_inv c s1" "db_rows (pm_db s1) = db_rows (pm_db s) @ [e]" "has_kind ''grant.created'' gid e"
    "db_grants (pm_db s1) = db_grants (pm_db s) @ [(gid, r)]" "toGrant gid r = toGrant gid (new_row v i (cap_id d))"
    by (rule grant_insert_run [OF pinv sg chk fresh])
  have "bind_op (grant_insert c v gid i (cap_id d)) (\<lambda>g. bind_op (note_op v ''grant.created'' g []) (\<lambda>_. ret g)) s = (Inr g, s')"
    using body fresh by (simp add: create_body_def Let_def gid_def [symmetric])
  then obtain s2 where n: "note_op v ''grant.created'' g [] s1 = (Inr (), s2)" "s' = s2" "g = toGrant gid (new_row v i (cap_id d))"
    using g(1) by (auto simp: bind_op_def split: prod.splits sum.splits)
  from n(1) obtain al where "s2 = s1\<lparr>pm_audit := al\<rparr>" by (rule note_opE)
  then have s': "s' = s1\<lparr>pm_audit := al\<rparr>" using n(2) by simp
  have i': "perm_inv c s'" using g(2) s' by simp
  have gid: "g_id g = gid" using n(3) by (simp add: toGrant_def)
  have only: "ce_kind x = ''grant.created''" if "x \<in> set (db_rows (pm_db s'))" "ce_refId x = gid" "ce_kind x \<in> grant_kinds" for x
    using that pinv fresh g(3,4) unfolding perm_inv_def grants_ok_def map_of_None_keys by (auto simp: s')
  have none: "ended_entry (here s') gid = None" "consumed_entry (here s') gid = None" "last_use (here s') gid = None"
    using here_entry_None [of s' gid] only by blast+
  have mem: "(gid, r) \<in> set (db_grants (pm_db s'))" using g(5) by (simp add: s')
  then have "vouched (here s') gid r" using perm_inv_vouched i' by blast
  then have view: "view_of (here s') gid r = (g, Active)"
    unfolding view_of_def Let_def none g(6) n(3) by (simp add: toGrant_def new_row_def)
  have "kept_inv c s'" using keepsD [OF keeps_create inv, of v i] run by simp
  from that [OF chk this] mem view n(3) gid g(6) gid_def show thesis by simp
qed

text \<open>
  What is created is read back: a grant that \<open>create\<close> returns is the answer of \<open>get\<close> for its id and is in the list of its person,
  agent and capability, with every field as it was returned.
\<close>

theorem grant_create_then_read:
  assumes "perm_reach c s" and "grant_create c v i s = (Inr g, s')"
  shows "fst (grant_get c (g_id g) s') = Inr (Some g) \<and>
    (\<exists>gs. fst (grant_list c (g_person g) (g_agent g) (g_capability g) s') = Inr gs \<and> grant.truncate g \<in> set gs)"
proof -
  note inv = perm_reach_inv [OF assms(1)]
  obtain d r where k: "kept_inv c s'" and mem: "(g_id g, r) \<in> set (db_grants (pm_db s'))" and view: "view_of (here s') (g_id g) r = (g, Active)"
    by (rule create_view [OF inv assms(2)])
  have p: "perm_inv c s'" using k by (simp add: kept_inv_def)
  note ci = perm_inv_chain [OF p]
  note rd = list_refines [OF chain_inv_coherent [OF ci] verified_build_here [OF ci]] get_refines [OF chain_inv_coherent [OF ci] verified_build_here [OF ci]]
  have "map_of (db_grants (pm_db s')) (g_id g) = Some r" using mem perm_inv_lookup [OF p] by simp
  then have "spec_get (here s') (pm_db s') (g_id g) = Some g" by (simp add: spec_get_def view)
  moreover have "grant.truncate g \<in> set (spec_list (here s') (pm_db s') (g_person g) (g_agent g) (g_capability g))"
    using mem view view_fields [of "here s'" "g_id g" r] unfolding spec_list_mem by (intro exI [of _ "g_id g"] exI [of _ r]) simp
  ultimately show ?thesis using rd by auto
qed

text \<open>
  (C12) In every state that the operations of the two stores reach, in any order and with any failing audit lines, the chain verifies,
  and every row of the grants table is vouched for by the chain and well formed: its capability can be granted, its duration is within the
  ceiling, it was decided on a surface of level 1 to 3 that the capability accepts, and it is bound the way its duration asks.
\<close>

theorem grants_always_vouched:
  assumes "perm_reach c s"
  shows "verified c (pm_signer s) (pm_db s) \<and> (\<forall>(i, r)\<in>set (db_grants (pm_db s)). vouched (here s) i r \<and> row_wf r)"
proof -
  have p: "perm_inv c s" using perm_reach_inv [OF assms] by (simp add: kept_inv_def)
  then have "verified c (pm_signer s) (pm_db s)" using perm_inv_chain by (simp add: chain_inv_def)
  with perm_inv_vouched [OF p] show ?thesis by blast
qed

text \<open>
  The type of what the evaluator gets: in a reachable state every grant that \<open>list\<close> returns under a non-empty id passes the evaluator's
  own check \<open>validGrant\<close>, and names a capability that may be granted, for at most its ceiling, from a surface of level 1 to 3.
\<close>

theorem listed_grants_valid:
  assumes "perm_reach c s" and "fst (grant_list c person agent capability s) = Inr gs" and "g \<in> set gs" and "g_id g \<noteq> []"
  shows "validGrant g \<and> (\<exists>d most. CAPABILITIES (g_capability g) = Some d \<and> base_inside d \<noteq> Never \<and> ceiling d = Some most \<and>
     scopeRank (g_scope g) \<le> scopeRank most) \<and> g_surface g \<in> {Fin 1, Fin 2, Fin 3}"
proof -
  have p: "perm_inv c s" using perm_reach_inv [OF assms(1)] by (simp add: kept_inv_def)
  note ci = perm_inv_chain [OF p]
  have "g \<in> set (spec_list (here s) (pm_db s) person agent capability)"
    using list_refines [OF chain_inv_coherent [OF ci] verified_build_here [OF ci]] assms(2,3) by simp
  then obtain i r where r: "(i, r) \<in> set (db_grants (pm_db s))" "g = grant.truncate (fst (view_of (here s) i r))"
    by (auto simp: spec_list_mem)
  have wf: "row_wf r" using perm_inv_vouched [OF p r(1)] by blast
  then obtain d most where d: "CAPABILITIES (gr_capability r) = Some d" "base_inside d \<noteq> Never" "ceiling d = Some most"
    "scopeRank (gr_duration r) \<le> scopeRank most" by (auto simp: row_wf_def)
  have "gr_capability r \<noteq> []" using CAPABILITIES_row_ok [OF d(1)] CAPABILITIES_id [OF d(1)] by (auto simp: row_ok_def)
  moreover have "gr_surface r \<in> {1, 2, 3}" using wf by (simp add: row_wf_def)
  ultimately have "validGrant g \<and> g_surface g \<in> {Fin 1, Fin 2, Fin 3}"
    using wf assms(4) unfolding r(2)
    by (auto simp: validGrant_def view_fields row_wf_def is_finite_def split: option.splits grant_match.splits)
  with d show ?thesis unfolding r(2) by (auto simp: view_fields)
qed

text \<open>
  (C13) Reading refines the specification: whenever the cached verdict is honest and the chain can be read, even broken, \<open>list\<close> and \<open>get\<close> answer
  what the pure functions \<open>spec_list\<close> and \<open>spec_get\<close> say of the database and the verdict, and the grant source of the evaluator is made of them.
\<close>

theorem grant_reads_refine:
  assumes "coherent c s" and "build c (pm_signer s) (pm_db s) = Some sn"
  shows "fst (grant_list c person agent capability s) = Inr (dep_list (store_source sn (pm_db s) v) person agent capability) \<and>
    (case fst (grant_get c i s) of Inr x \<Rightarrow> map_option grant.truncate x = dep_get (store_source sn (pm_db s) v) i | Inl _ \<Rightarrow> False)"
  using list_refines [OF assms] get_refines [OF assms] by (simp add: store_source_def)

text \<open>
  (C14) No grant allows a call unless the chain vouches for it, whatever is in the database: when the evaluator allows a call through a grant of the
  store, that grant belongs to the person and the capability, a creation entry below the first broken position of the chain carries exactly the
  definition of its row, and no entry of the chain revokes or ends it.
\<close>

theorem allowed_grants_vouched:
  assumes "decide_checked call ctx (store_source sn db v) = Allow ViaGrant gid rd"
  shows "\<exists>g d. gid = Some (g_id g) \<and> chain_vouches sn db g \<and> unended sn g \<and> g_person g = ctx_person ctx \<and>
    CAPABILITIES (capability_name call) = Some d \<and> canon (g_capability g) = cap_id d"
  using assms by (rule store.allowed_by_vouched)

text \<open>
  (C15) A once grant is consumed at most once: a successful \<open>consumeOnce\<close> was for the person, agent and action hash of the row, before its expiry, and on every
  later chain that verifies and continues this one, however the table was changed meanwhile, \<open>consumeOnce\<close> answers false for that id and \<open>list\<close> does not return it.
\<close>

theorem grant_consumed_once:
  assumes "perm_reach c s" and "consumeOnce c v i person agent h s = (Inr True, s')"
  shows "(\<exists>r. map_of (db_grants (pm_db s)) i = Some r \<and> gr_duration r = Once \<and> gr_person r = person \<and> gr_agent r = agent \<and>
      gr_actionHash r = Some h \<and> ge_now v < gr_createdAt r + onceUnusedMs) \<and>
    (\<forall>s2. chain_inv c s2 \<and> prefix (db_rows (pm_db s')) (db_rows (pm_db s2)) \<longrightarrow>
       (\<forall>v2 p2 a2 h2. fst (consumeOnce c v2 i p2 a2 h2 s2) = Inr False) \<and>
       (\<forall>p2 a2 k2 gs. fst (grant_list c p2 a2 k2 s2) = Inr gs \<longrightarrow> i \<notin> g_id ` set gs))"
proof -
  have p: "perm_inv c s" "signer_ok c (pm_signer s)" using perm_reach_inv [OF assms(1)] by (simp_all add: kept_inv_def)
  have body: "consumeOnce_body c v i person agent h s = (Inr True, s')"
    using assms(2) by (auto simp: consumeOnce_def split: prod.splits sum.splits exn.splits)
  obtain r e where r: "map_of (db_grants (pm_db s)) i = Some r" "consumable v r person agent h" and e: "e \<in> set (db_rows (pm_db s'))" "has_kind ''grant.consumed'' i e"
    using p body by (cases rule: consumeE) auto
  have "(\<forall>v2 p2 a2 h2. fst (consumeOnce c v2 i p2 a2 h2 s2) = Inr False) \<and>
       (\<forall>p2 a2 k2 gs. fst (grant_list c p2 a2 k2 s2) = Inr gs \<longrightarrow> i \<notin> g_id ` set gs)"
    if s2: "chain_inv c s2" "prefix (db_rows (pm_db s')) (db_rows (pm_db s2))" for s2
  proof -
    have "e \<in> set (db_rows (pm_db s2))" using e(1) s2(2) by (auto dest: set_mono_prefix)
    then have "consumed_entry (here s2) i \<noteq> None"
      using e(2) by (auto simp: consumed_entry_def by_ref_def find_None_iff' trustedBelow_def)
    then have na: "snd (view_of (here s2) i r2) \<noteq> Active" for r2 by (auto simp: view_Active)
    obtain ca where w: "viewOf c i s2 = (Inr (map_option (view_of (here s2) i) (map_of (db_grants (pm_db s2)) i)), s2\<lparr>pm_cache := ca\<rparr>)"
      by (rule viewOf_eq [OF s2(1)])
    have "fst (consumeOnce_body c v2 i p2 a2 h2 s2) = Inr False" for v2 p2 a2 h2
      unfolding consumeOnce_body_def bind_op_def [of "viewOf c i"] w using na
      by (cases "map_of (db_grants (pm_db s2)) i") (auto split: prod.splits, metis snd_conv)
    then have "fst (consumeOnce c v2 i p2 a2 h2 s2) = Inr False" for v2 p2 a2 h2
      by (cases "consumeOnce_body c v2 i p2 a2 h2 s2") (metis consumeOnce_False fst_conv)
    moreover have "i \<notin> g_id ` set gs" if "fst (grant_list c p2 a2 k2 s2) = Inr gs" for p2 a2 k2 gs
      using that list_refines [OF chain_inv_coherent [OF s2(1)] verified_build_here [OF s2(1)]] na by (auto simp: spec_list_mem view_fields)
    ultimately show ?thesis by blast
  qed
  with r show ?thesis unfolding consumable_def by blast
qed

section \<open>Revoking on a broken chain\<close>

lemma coherent_set_grant [simp]: "coherent c (set_grant i f s) = coherent c s" "build c sg (pm_db (set_grant i f s)) = build c sg (pm_db s)"
  by (simp_all add: coherent_def set_grant_def)

lemma append_broken:
  assumes "coherent c s" and "build c (pm_signer s) (pm_db s) = Some sn" and "sn_broken sn = Some (pos, why)"
  obtains s1 where "chain_append c now kind ref payload nonce s = (Inl (ChainError pos why), s1)" "pm_db s1 = pm_db s" "pm_signer s1 = pm_signer s" "coherent c s1"
proof -
  obtain r s0 where run: "chain_snapshot c s = (r, s0)" by fastforce
  from assms(1) run show thesis
  proof (cases rule: snapshotE)
    case (ok sn' ca)
    then have "sn' = sn" using assms(2) by simp
    with run ok assms(3) have a: "chain_append c now kind ref payload nonce s = (Inl (ChainError pos why), s0\<lparr>pm_gen := pm_gen s0 + 1\<rparr>)"
      by (simp add: chain_append_def append_run_def bind_op_def)
    have "coherent c (s0\<lparr>pm_gen := pm_gen s0 + 1\<rparr>)" using ok(4) by (auto simp: coherent_def)
    with a ok(3) show thesis by (intro that) simp_all
  next
    case threw
    with assms(2) show thesis by simp
  qed
qed


section \<open>Witnesses\<close>

definition sample_env :: grant_env where
  "sample_env = \<lparr>ge_now = 1000, ge_id = ''g1'', ge_maxGrantDays = Fin 90, ge_home = ''/home/anna'', ge_realHome = None, ge_windows = False,
     ge_audit = Some (\<lambda>_ _. True), ge_notify = True\<rparr>"

definition sample_input :: create_input where
  "sample_input = \<lparr>ci_id = None, ci_capability = ''fs.read'', ci_person = ''anna'', ci_agent = ''a1'', ci_scope = Once, ci_match = MatchAction,
     ci_createdBy = ''anna'', ci_surface = Fin 2, ci_effect = None, ci_expiresAt = None, ci_actionHash = Some ''h1'', ci_taskId = None,
     ci_sessionId = None, ci_projectId = None, ci_jobId = None, ci_delegable = False, ci_acknowledgedUnsandboxed = False, ci_attestedVia = None\<rparr>"

definition sample_perm :: perm where
  "sample_perm = snd (grant_create sample_crypto sample_env sample_input (init_perm None))"

lemma sample_init_reach: "perm_reach sample_crypto (init_perm None)"
  by (rule perm_reach.start) (simp add: signer_ok_def)

lemma sample_reach: "perm_reach sample_crypto sample_perm"
  unfolding sample_perm_def by (rule perm_reach.create) (rule sample_init_reach)

lemma sample_run:
  obtains g where "grant_create sample_crypto sample_env sample_input (init_perm None) = (Inr g, sample_perm)" "g_id g = ''g1''"
proof -
  have "map_sum (\<lambda>_. ()) g_id (fst (grant_create sample_crypto sample_env sample_input (init_perm None))) = Inr ''g1''" by code_simp
  then obtain g where "fst (grant_create sample_crypto sample_env sample_input (init_perm None)) = Inr g" "g_id g = ''g1''"
    by (cases "fst (grant_create sample_crypto sample_env sample_input (init_perm None))") auto
  then show thesis by (intro that [of g]) (auto simp: sample_perm_def prod_eq_iff)
qed

lemma sample_list:
  obtains gs where "fst (grant_list sample_crypto ''anna'' ''a1'' ''fs.read'' sample_perm) = Inr gs" "map g_id gs = [''g1'']"
proof -
  have "map_sum (\<lambda>_. ()) (map g_id) (fst (grant_list sample_crypto ''anna'' ''a1'' ''fs.read'' sample_perm)) = Inr [''g1'']" by code_simp
  with that show thesis by (cases "fst (grant_list sample_crypto ''anna'' ''a1'' ''fs.read'' sample_perm)") auto
qed

theorem grants_always_vouched_witness:
  "verified sample_crypto (pm_signer sample_perm) (pm_db sample_perm) \<and> map fst (db_grants (pm_db sample_perm)) = [''g1'']"
proof -
  have "map fst (db_grants (pm_db sample_perm)) = [''g1'']" by code_simp
  with grants_always_vouched [OF sample_reach] show ?thesis by blast
qed

theorem listed_grants_valid_witness:
  "\<exists>gs. fst (grant_list sample_crypto ''anna'' ''a1'' ''fs.read'' sample_perm) = Inr gs \<and> map g_id gs = [''g1''] \<and> list_all validGrant gs"
proof -
  obtain gs where gs: "fst (grant_list sample_crypto ''anna'' ''a1'' ''fs.read'' sample_perm) = Inr gs" "map g_id gs = [''g1'']" by (rule sample_list)
  then have "validGrant g" if "g \<in> set gs" for g
    using listed_grants_valid [OF sample_reach gs(1) that] that by (auto simp: map_eq_Cons_conv)
  with gs show ?thesis by (auto simp: list_all_iff)
qed

theorem grant_create_then_read_witness:
  "\<exists>g. fst (grant_get sample_crypto ''g1'' sample_perm) = Inr (Some g) \<and> g_id g = ''g1''"
proof -
  obtain g where g: "grant_create sample_crypto sample_env sample_input (init_perm None) = (Inr g, sample_perm)" "g_id g = ''g1''" by (rule sample_run)
  from grant_create_then_read [OF sample_init_reach g(1)] g(2) show ?thesis by auto
qed

theorem grant_reads_refine_witness:
  "fst (grant_list sample_crypto ''anna'' ''a1'' ''fs.read'' sample_perm) =
     Inr (dep_list (store_source (here sample_perm) (pm_db sample_perm) sample_env) ''anna'' ''a1'' ''fs.read'')"
proof -
  have "perm_inv sample_crypto sample_perm" using perm_reach_inv [OF sample_reach] by (simp add: kept_inv_def)
  note ci = perm_inv_chain [OF this]
  from grant_reads_refine [OF chain_inv_coherent [OF ci] verified_build_here [OF ci], of "''anna''" "''a1''" "''fs.read''" sample_env "''g1''"]
  show ?thesis by blast
qed

definition sample_once_call :: jsval where
  "sample_once_call = JObj [(''capability'', JStr ''fs.read''), (''tool'', JStr ''read_file''), (''actionHash'', JStr ''h1''),
     (''flags'', JObj [(''outsideRoots'', JBool True), (''denyListHit'', JBool False)])]"

definition sample_once_ctx :: jsval where
  "sample_once_ctx = JObj [(''principal'', JObj [(''person'', JStr ''anna'')]), (''subject'', JObj [(''kind'', JStr ''agent''), (''agentId'', JStr ''a1'')]),
     (''surface'', JNum (Fin 2)), (''toolsDeny'', JArr [])]"

theorem allowed_grants_vouched_witness:
  "\<exists>g. g_id g = ''g1'' \<and> chain_vouches (here sample_perm) (pm_db sample_perm) g \<and> g_person g = ''anna''"
proof -
  have "decide_checked (call_of sample_once_call) (context_of sample_once_ctx) (store_source (here sample_perm) (pm_db sample_perm) sample_env) =
      Allow ViaGrant (Some ''g1'') False"
    by code_simp
  from allowed_grants_vouched [OF this] show ?thesis by (auto simp: context_of_def sample_once_ctx_def)
qed

theorem grant_consumed_once_witness:
  "fst (consumeOnce sample_crypto sample_env ''g1'' ''anna'' ''a1'' ''h1'' sample_perm) = Inr True \<and>
   fst (consumeOnce sample_crypto sample_env ''g1'' ''anna'' ''a1'' ''h1'' (snd (consumeOnce sample_crypto sample_env ''g1'' ''anna'' ''a1'' ''h1'' sample_perm))) = Inr False"
proof -
  let ?op = "consumeOnce sample_crypto sample_env ''g1'' ''anna'' ''a1'' ''h1''"
  have t: "fst (?op sample_perm) = Inr True" by code_simp
  then have run: "?op sample_perm = (Inr True, snd (?op sample_perm))" by (simp add: prod_eq_iff)
  have "perm_reach sample_crypto (snd (?op sample_perm))" by (rule perm_reach.consumeOnce) (rule sample_reach)
  then have "chain_inv sample_crypto (snd (?op sample_perm))" using perm_reach_inv perm_inv_chain by (auto simp: kept_inv_def)
  with grant_consumed_once [OF sample_reach run] t show ?thesis by blast
qed

definition sample_broken :: perm where
  "sample_broken = sample_perm\<lparr>pm_db := (pm_db sample_perm)\<lparr>db_head := None\<rparr>, pm_cache := None\<rparr>"


end
