(* ===== verification/Approval_Service.thy ===== *)
theory Approval_Service
  imports Grant_Properties
begin

text \<open>
  The approval service: \<^verbatim>\<open>packages/core/src/approvals/service.ts\<close>, which parks a call, stores a request for it, takes a person's decision
  and lets the call start. The state is the connection of the stores plus the calls that wait (their ids), the armed expiry timers, the
  code-root sessions and what the outside has been told: the answers handed to waiting calls and the events.

  A call is a record with the fields the service reads; the redacted detail that \<open>detailOf\<close> computes comes with it. A timer is a step
  of the outside that calls \<open>park\<close> or \<open>onExpiry\<close>. The environment holds the clock reading and the other inputs of the two stores, and the
  random ids of the grants one decision creates.
\<close>

section \<open>Data\<close>

record approval_ask =
  as_principal :: string
  as_agentId :: string
  as_subjectKind :: "string option"
  as_turnId :: "string option"
  as_callId :: string
  as_taskId :: "string option"
  as_sessionId :: "string option"
  as_actionHash :: string
  as_capability :: string
  as_tool :: string
  as_effect :: string
  as_risk :: string
  as_originSurface :: jsval
  as_park :: bool
  as_aborted :: bool
  as_detail :: jsval
  as_detailBytes :: nat

record answer =
  an_approved :: bool
  an_parked :: bool
  an_requestId :: "string option"
  an_scope :: "grant_scope option"
  an_grantIds :: "string list"
  an_reason :: string

record decide_ask =
  da_requestId :: string
  da_nonce :: string
  da_decision :: verdict
  da_person :: string
  da_surface :: jsnum
  da_scope :: "grant_scope option"
  da_delegable :: bool
  da_acknowledgedUnsandboxed :: bool
  da_attestedVia :: "string option"

datatype service_denial = StoreDenial approval_denial | ScopeUnavailable

datatype decide_result = DecideOk approval_status "grant_scope option" "string list" | DecideRefused service_denial

record service_env =
  sx_store :: store_env
  sx_grant :: grant_env
  sx_gids :: "nat \<Rightarrow> string"

text \<open>A code-root session answers whether it is active; \<open>None\<close> when asking it raises.\<close>

record service =
  sv_perm :: perm
  sv_waiters :: "string list"
  sv_expiry :: "string list"
  sv_codeRoots :: "(string \<times> bool option) list"
  sv_answers :: "(string \<times> answer) list"
  sv_events :: "(string \<times> string \<times> string) list"

definition no_answer :: answer where
  "no_answer = \<lparr>an_approved = False, an_parked = False, an_requestId = None, an_scope = None, an_grantIds = [], an_reason = []\<rparr>"

definition not_approved :: "string \<Rightarrow> string \<Rightarrow> answer" where
  "not_approved i reason = no_answer\<lparr>an_requestId := Some i, an_reason := reason\<rparr>"

definition taskKeyOf :: "string option \<Rightarrow> string option \<Rightarrow> string" where
  "taskKeyOf taskId sessionId = (case taskId of Some t \<Rightarrow> t | None \<Rightarrow> (case sessionId of Some s \<Rightarrow> s | None \<Rightarrow> ''-''))"

definition or_default :: "string option \<Rightarrow> string \<Rightarrow> string" where
  "or_default x d = (case x of Some s \<Rightarrow> s | None \<Rightarrow> d)"

definition bindingOf :: "approval_ask \<Rightarrow> string \<Rightarrow> approval_binding" where
  "bindingOf a requestId = \<lparr>ab_requestId = requestId, ab_actionHash = JStr (as_actionHash a), ab_principal = JStr (as_principal a),
     ab_subjectKind = JStr (or_default (as_subjectKind a) ''agent''), ab_subjectId = JStr (as_agentId a),
     ab_turnId = JStr (or_default (as_turnId a) (as_callId a)), ab_taskId = JStr (taskKeyOf (as_taskId a) (as_sessionId a)),
     ab_sessionId = JStr (or_default (as_sessionId a) ''-'')\<rparr>"

text \<open>
  The directory of a path: what stands before the last separator when something follows it, unless that is empty, a bare drive or holds a line
  break (the dot of the regular expression does not match one).
\<close>

definition parentOf :: "string \<Rightarrow> string option" where
  "parentOf p =
    (let name = takeWhile (\<lambda>c. \<not> any_sep c) (rev p); upto = dropWhile (\<lambda>c. \<not> any_sep c) (rev p); dir = rev (tl upto) in
     if name = [] \<or> upto = [] \<or> dir = [] \<or> list_ex (\<lambda>c. code c = 10 \<or> code c = 13) dir \<or>
        (case dir of [c, d] \<Rightarrow> is_alpha c \<and> d = CHR '':'' | _ \<Rightarrow> False)
     then None else Some dir)"

section \<open>Audit lines, events and waiting calls\<close>

definition rec_op :: "service_env \<Rightarrow> string \<Rightarrow> (string \<times> jsval) list \<Rightarrow> unit op" where
  "rec_op v action line = (\<lambda>s. case ge_audit (sx_grant v) of
      None \<Rightarrow> (Inr (), s)
    | Some records \<Rightarrow>
      (if records action (JObj line) then (Inr (), s\<lparr>pm_audit := pm_audit s @ [(action, JObj line)]\<rparr>) else (Inl AuditError, s)))"

definition on_perm :: "'a op \<Rightarrow> service \<Rightarrow> (exn, 'a) result \<times> service" where
  "on_perm m S = (case m (sv_perm S) of (r, p) \<Rightarrow> (r, S\<lparr>sv_perm := p\<rparr>))"

definition recSoft :: "service_env \<Rightarrow> string \<Rightarrow> (string \<times> jsval) list \<Rightarrow> service \<Rightarrow> service" where
  "recSoft v action line S = snd (on_perm (rec_op v action line) S)"

definition emit_event :: "string \<Rightarrow> string \<Rightarrow> string \<Rightarrow> service \<Rightarrow> service" where
  "emit_event name i what S = S\<lparr>sv_events := sv_events S @ [(name, i, what)]\<rparr>"

definition failure_str :: "verify_failure \<Rightarrow> string" where
  "failure_str f = (case f of SeqGap \<Rightarrow> ''seq-gap'' | PrevMismatch \<Rightarrow> ''prev-mismatch'' | MacMismatch \<Rightarrow> ''mac-mismatch'' | Truncated \<Rightarrow> ''truncated''
     | HeadMismatch \<Rightarrow> ''head-mismatch'' | Malformed \<Rightarrow> ''malformed'' | NonceReuse \<Rightarrow> ''nonce-reuse'' | BindingMismatch \<Rightarrow> ''binding-mismatch''
     | Duplicate \<Rightarrow> ''duplicate'' | SignatureMismatch \<Rightarrow> ''signature-mismatch'')"

definition integrity_op :: "service_env \<Rightarrow> exn \<Rightarrow> unit op" where
  "integrity_op v e = (case e of
     ChainError pos why \<Rightarrow> swallow (rec_op v ''approvals.integrity-failure'' [(''brokenAt'', JNum (Fin (of_nat pos))), (''failure'', JStr (failure_str why))])
   | _ \<Rightarrow> ret ())"

definition integrityFailure :: "service_env \<Rightarrow> exn \<Rightarrow> service \<Rightarrow> service" where
  "integrityFailure v e S = snd (on_perm (integrity_op v e) S)"

text \<open>\<open>finish\<close> of a waiter: the answer reaches the call once.\<close>

definition finish :: "string \<Rightarrow> answer \<Rightarrow> service \<Rightarrow> service" where
  "finish i a S = (if i \<in> set (sv_waiters S)
     then S\<lparr>sv_waiters := filter (\<lambda>w. w \<noteq> i) (sv_waiters S), sv_answers := sv_answers S @ [(i, a)]\<rparr> else S)"

definition failAll :: "string \<Rightarrow> service \<Rightarrow> service" where
  "failAll reason S = fold (\<lambda>i. finish i (not_approved i reason)) (sv_waiters S) S"

definition drop_timer :: "string \<Rightarrow> service \<Rightarrow> service" where
  "drop_timer i S = S\<lparr>sv_expiry := filter (\<lambda>x. x \<noteq> i) (sv_expiry S), sv_codeRoots := filter (\<lambda>x. fst x \<noteq> i) (sv_codeRoots S)\<rparr>"

text \<open>\<open>safeView\<close>: a record, or nothing when reading it raises.\<close>

definition safe_get :: "crypto \<Rightarrow> service_env \<Rightarrow> string \<Rightarrow> service \<Rightarrow> approval_record option \<times> service" where
  "safe_get c v i S = (case on_perm (store_get c (en_now (sx_store v)) i) S of (r, S') \<Rightarrow> (case r of Inr x \<Rightarrow> x | Inl _ \<Rightarrow> None, S'))"

definition announce :: "crypto \<Rightarrow> service_env \<Rightarrow> string \<Rightarrow> string \<Rightarrow> string \<Rightarrow> service \<Rightarrow> service" where
  "announce c v name i what S = (case safe_get c v i S of (w, S') \<Rightarrow> (if w = None then S' else emit_event name i what S'))"

definition auditFieldsOf :: "approval_ask \<Rightarrow> (string \<times> jsval) list \<Rightarrow> (string \<times> jsval) list" where
  "auditFieldsOf a extra = [(''person'', JStr (as_principal a)), (''agentId'', JStr (as_agentId a)),
     (''subjectKind'', JStr (or_default (as_subjectKind a) ''agent''))] @
     (case as_sessionId a of Some s \<Rightarrow> (if s \<noteq> [] then [(''sessionId'', JStr s)] else []) | None \<Rightarrow> []) @
     (case as_taskId a of Some t \<Rightarrow> (if t \<noteq> [] then [(''taskId'', JStr t)] else []) | None \<Rightarrow> []) @
     [(''tool'', JStr (as_tool a)), (''capability'', JStr (as_capability a)), (''effect'', JStr (as_effect a)), (''risk'', JStr (as_risk a)),
      (''actionHash'', JStr (as_actionHash a)), (''surface'', as_originSurface a)] @ extra"

section \<open>Asking, parking, expiring\<close>

definition request_txn :: "crypto \<Rightarrow> service_env \<Rightarrow> approval_ask \<Rightarrow> (string \<times> string \<times> jsnum) op" where
  "request_txn c v a =
    bind_op (store_request_body c (sx_store v) \<lparr>ri_binding = bindingOf a [], ri_capability = as_capability a, ri_detail = Some (as_detail a), ri_detailBytes = as_detailBytes a\<rparr>) (\<lambda>(i, n, x).
    bind_op (rec_op v ''approval.requested'' (auditFieldsOf a ([(''requestId'', JStr i), (''targets'', jget (as_detail a) ''targets''), (''flags'', jget (as_detail a) ''flags''),
        (''expiresAt'', JNum x), (''argsBytes'', jget (as_detail a) ''argsBytes''), (''payloadHash'', jget (as_detail a) ''payloadHash''), (''payloadBytes'', jget (as_detail a) ''argsBytes'')] @
        (if as_taskId a = None then [(''taskId'', JStr (taskKeyOf None (as_sessionId a)))] else []) @
        (if jget (as_detail a) ''origin'' = JStr ''code-session-root'' then [(''reason'', JStr ''code-session-root'')] else [])))) (\<lambda>_.
    ret (i, n, x)))"

text \<open>\<open>request\<close>: an answer at once, or \<open>None\<close> while the call waits.\<close>

definition service_request :: "crypto \<Rightarrow> service_env \<Rightarrow> approval_ask \<Rightarrow> service \<Rightarrow> answer option \<times> service" where
  "service_request c v a S =
    (if as_park a then (Some (no_answer\<lparr>an_reason := ''headless''\<rparr>), recSoft v ''approval.refused'' (auditFieldsOf a [(''reason'', JStr ''headless'')]) S)
     else if as_aborted a then (Some (no_answer\<lparr>an_reason := ''aborted''\<rparr>), S)
     else case on_perm (transaction (request_txn c v a)) S of
       (Inl e, S1) \<Rightarrow> (Some (no_answer\<lparr>an_reason := ''unavailable''\<rparr>), integrityFailure v e S1)
     | (Inr (i, n, x), S1) \<Rightarrow>
         (None, announce c v ''approval.requested'' i n (S1\<lparr>sv_waiters := sv_waiters S1 @ [i], sv_expiry := sv_expiry S1 @ [i]\<rparr>)))"

definition park_fields :: "string \<Rightarrow> approval_record option \<Rightarrow> (string \<times> jsval) list" where
  "park_fields i w = (''requestId'', JStr i) # (case w of None \<Rightarrow> []
     | Some r \<Rightarrow> [(''person'', jget (ar_bound r) ''principal''), (''tool'', case jget (ar_detail r) ''tool'' of JUndef \<Rightarrow> JStr [] | t \<Rightarrow> t),
         (''capability'', ar_capability r), (''actionHash'', jget (ar_bound r) ''actionHash'')])"

definition park :: "crypto \<Rightarrow> service_env \<Rightarrow> string \<Rightarrow> service \<Rightarrow> service" where
  "park c v i S =
    (if i \<notin> set (sv_waiters S) then S
     else case safe_get c v i (finish i ((not_approved i ''parked'')\<lparr>an_parked := True\<rparr>) S) of (w, S1) \<Rightarrow>
       (let S2 = recSoft v ''approval.parked'' (park_fields i w) S1 in if w = None then S2 else emit_event ''approval.parked'' i [] S2))"

definition cancel_txn :: "crypto \<Rightarrow> service_env \<Rightarrow> string \<Rightarrow> string \<Rightarrow> (string \<times> jsval) list \<Rightarrow> approval_denial option op" where
  "cancel_txn c v i who line = bind_op (store_cancel_body c (sx_store v) i who) (\<lambda>r.
     if r = None then bind_op (rec_op v ''approval.cancelled'' line) (\<lambda>_. ret r) else ret r)"

definition closeAborted :: "crypto \<Rightarrow> service_env \<Rightarrow> string \<Rightarrow> service \<Rightarrow> service" where
  "closeAborted c v i S =
    (case on_perm (transaction (cancel_txn c v i ''abort'' [(''requestId'', JStr i), (''by'', JStr ''abort'')])) S of
       (Inl e, S1) \<Rightarrow> integrityFailure v e S1
     | (Inr r, S1) \<Rightarrow> (let S2 = drop_timer i S1 in
         if r = None then announce c v ''approval.resolved'' i ''cancelled'' S2 else snd (safe_get c v i S2)))"

text \<open>The abort of a waiting call: \<open>onAbort\<close>.\<close>

definition onAbort :: "crypto \<Rightarrow> service_env \<Rightarrow> string \<Rightarrow> service \<Rightarrow> service" where
  "onAbort c v i S = (if i \<in> set (sv_waiters S) then closeAborted c v i (finish i (not_approved i ''aborted'') S) else S)"

definition onExpiry :: "crypto \<Rightarrow> service_env \<Rightarrow> string \<Rightarrow> service \<Rightarrow> service" where
  "onExpiry c v i S =
    (let S0 = S\<lparr>sv_expiry := filter (\<lambda>x. x \<noteq> i) (sv_expiry S)\<rparr> in
     case on_perm (store_get c (en_now (sx_store v)) i) S0 of
       (Inl e, S1) \<Rightarrow> finish i (not_approved i ''integrity'') (integrityFailure v e S1)
     | (Inr None, S1) \<Rightarrow> S1
     | (Inr (Some r), S1) \<Rightarrow>
       (if ar_status r = Pending \<and> Fin (en_now (sx_store v)) < ar_expiresAt r then S1\<lparr>sv_expiry := sv_expiry S1 @ [i]\<rparr>
        else if ar_status r \<noteq> Expired then S1
        else emit_event ''approval.resolved'' i ''expired''
          (recSoft v ''approval.expired'' [(''requestId'', JStr i), (''person'', jget (ar_bound r) ''principal''), (''capability'', ar_capability r),
              (''actionHash'', jget (ar_bound r) ''actionHash'')]
            (finish i (not_approved i ''expired'') (S1\<lparr>sv_codeRoots := filter (\<lambda>x. fst x \<noteq> i) (sv_codeRoots S1)\<rparr>)))))"

section \<open>Deciding\<close>

text \<open>One grant created inside the caller's transaction: its id.\<close>

definition create_in_txn :: "crypto \<Rightarrow> grant_env \<Rightarrow> create_input \<Rightarrow> string op" where
  "create_in_txn c v i = (case create_check v i of
     Inl e \<Rightarrow> raise (GrantError e)
   | Inr d \<Rightarrow> bind_op (create_body c v i d) (\<lambda>g. ret (g_id g)))"

text \<open>Several of them, each with its own random id.\<close>

fun create_all :: "crypto \<Rightarrow> service_env \<Rightarrow> nat \<Rightarrow> create_input list \<Rightarrow> string list op" where
  "create_all c v n [] = ret []"
| "create_all c v n (i # is) =
    bind_op (create_in_txn c ((sx_grant v)\<lparr>ge_id := sx_gids v n\<rparr>) i) (\<lambda>g. bind_op (create_all c v (n + 1) is) (\<lambda>gs. ret (g # gs)))"

definition opt_str :: "jsval \<Rightarrow> string option" where
  "opt_str j = str_of j"

definition base_input :: "approval_record \<Rightarrow> decide_ask \<Rightarrow> create_input" where
  "base_input r x = (let b = ar_bound r; d = ar_detail r in
     \<lparr>ci_id = None, ci_capability = sv (ar_capability r), ci_person = sv (jget b ''principal''), ci_agent = sv (jget (jget b ''subject'') ''id''),
      ci_scope = Once, ci_match = MatchCapability, ci_createdBy = da_person x, ci_surface = da_surface x, ci_effect = opt_str (jget d ''effect''),
      ci_expiresAt = None, ci_actionHash = None, ci_taskId = opt_str (jget d ''taskId''), ci_sessionId = opt_str (jget d ''sessionId''),
      ci_projectId = opt_str (jget d ''projectId''), ci_jobId = None, ci_delegable = da_delegable x,
      ci_acknowledgedUnsandboxed = da_acknowledgedUnsandboxed x, ci_attestedVia = da_attestedVia x\<rparr>)"

definition dedup :: "'a list \<Rightarrow> 'a list" where
  "dedup xs = rev (remdups (rev xs))"

definition detail_targets :: "jsval \<Rightarrow> string list" where
  "detail_targets d = (case strs_of (jget d ''targets'') of Some ts \<Rightarrow> ts | None \<Rightarrow> [])"

definition code_root_inputs :: "create_input \<Rightarrow> string \<Rightarrow> create_input list" where
  "code_root_inputs base root_dir =
    [base\<lparr>ci_capability := ''fs.write'', ci_scope := Session, ci_effect := Some ''local-write'', ci_delegable := False, ci_match := MatchPath root_dir AccessWrite True\<rparr>,
     base\<lparr>ci_capability := ''fs.read'', ci_scope := Session, ci_effect := Some ''read'', ci_delegable := False, ci_match := MatchPath root_dir AccessRead True\<rparr>]"

text \<open>A once grant; a capability without a standing grant is still approved for this one call.\<close>

definition create_once :: "crypto \<Rightarrow> service_env \<Rightarrow> create_input \<Rightarrow> string list op" where
  "create_once c v i = (\<lambda>s. case create_all c v 0 [i] s of
     (Inl (GrantError CeilingExceeded), s') \<Rightarrow> (Inr [], s')
   | out \<Rightarrow> out)"

definition createGrants :: "crypto \<Rightarrow> service_env \<Rightarrow> approval_record \<Rightarrow> decide_ask \<Rightarrow> grant_scope \<Rightarrow> string list op" where
  "createGrants c v r x scope =
    (let base = base_input r x; d = ar_detail r; ts = detail_targets d; masked = (jget d ''targetsMasked'' = JBool True) in
     if jget d ''origin'' = JStr ''code-session-root'' then
       (if scope \<noteq> Session \<or> da_delegable x \<or> masked \<or> length ts \<noteq> 1 \<or> jget d ''access'' \<noteq> JStr ''write'' \<or> reachesSystemTree (sx_grant v) (hd ts) True
        then raise (GrantError InvalidGrant) else create_all c v 0 (code_root_inputs base (hd ts)))
     else if scope = Once then create_once c v (base\<lparr>ci_scope := Once, ci_match := MatchAction, ci_actionHash := opt_str (jget (ar_bound r) ''actionHash'')\<rparr>)
     else if scope = Task \<and> jget d ''taskId'' = JUndef then raise (GrantError InvalidGrant)
     else if scope = Session \<and> jget d ''sessionId'' = JUndef then raise (GrantError InvalidGrant)
     else if ts = [] then create_all c v 0 [base\<lparr>ci_scope := scope, ci_match := MatchCapability\<rparr>]
     else if masked then raise (GrantError InvalidGrant)
     else
       (let access = (if jget d ''access'' = JStr ''read'' \<or> jget d ''access'' = JUndef \<and> jget d ''effect'' = JStr ''read'' then AccessRead else AccessWrite);
            dirs = dedup (map parentOf ts)
        in if None \<in> set dirs then raise (GrantError InvalidGrant)
           else create_all c v 0 (map (\<lambda>dir. base\<lparr>ci_scope := scope, ci_match := MatchPath (the dir) access False\<rparr>) dirs)))"

definition risk_of_str :: "string \<Rightarrow> risk" where
  "risk_of_str s = (if s = ''low'' then Low else if s = ''medium'' then Medium else if s = ''high'' then High else Critical)"

definition offered :: "jsval \<Rightarrow> grant_scope \<Rightarrow> bool" where
  "offered d scope = (case jget d ''grantOptions'' of JArr os \<Rightarrow> list_ex (\<lambda>x. jget x ''scope'' = JStr (scope_str scope)) os | _ \<Rightarrow> False)"

text \<open>The checks on an approval, in the order of the code.\<close>

definition approve_refusal :: "service \<Rightarrow> approval_record \<Rightarrow> decide_ask \<Rightarrow> grant_scope \<Rightarrow> service_denial option" where
  "approve_refusal S r x scope =
    (let d = ar_detail r; code_root = (jget d ''origin'' = JStr ''code-session-root'') in
     if code_root \<and> (scope \<noteq> Session \<or> da_delegable x) then Some ScopeUnavailable
     else if code_root \<and> map_of (sv_codeRoots S) (ar_id r) \<noteq> Some (Some True) then Some (StoreDenial ApprovalMismatch)
     else if scope \<notin> set GRANT_SCOPES then Some ScopeUnavailable
     else case (CAPABILITIES (sv (ar_capability r)), jget d ''risk'') of
       (Some cd, JStr rsk) \<Rightarrow>
         (if jget d ''flags'' = JUndef then Some (StoreDenial SurfaceUntrusted_store)
          else if \<not> offered d scope then Some ScopeUnavailable
          else case surface_level (da_surface x) of
            None \<Rightarrow> Some (StoreDenial SurfaceUntrusted_store)
          | Some lvl \<Rightarrow>
            (if scopeRank (maxScopeFor cd (flags_of (jget d ''flags''))) < scopeRank scope then Some ScopeUnavailable
             else if \<not> surfaceMayDecide (sv (ar_capability r)) (risk_of_str rsk) (flags_of (jget d ''flags'')) lvl scope then Some (StoreDenial SurfaceUntrusted_store)
             else None))
     | _ \<Rightarrow> Some (StoreDenial SurfaceUntrusted_store))"

definition decided_fields :: "approval_record \<Rightarrow> decide_ask \<Rightarrow> grant_scope \<Rightarrow> string list \<Rightarrow> (string \<times> jsval) list" where
  "decided_fields r x scope ids = (let b = ar_bound r; d = ar_detail r in
     [(''person'', JStr (da_person x)), (''requestId'', JStr (da_requestId x)), (''decision'', JStr (verdict_str (da_decision x)))] @
     (if da_decision x = Approve then [(''scope'', JStr (scope_str scope))] else []) @
     [(''decisionSurface'', JNum (da_surface x)), (''capability'', ar_capability r), (''actionHash'', jget b ''actionHash''),
      (''agentId'', jget (jget b ''subject'') ''id''), (''subjectKind'', jget (jget b ''subject'') ''kind''), (''taskId'', jget b ''taskId''), (''sessionId'', jget b ''sessionId'')] @
     (case jget d ''tool'' of JStr t \<Rightarrow> (if t \<noteq> [] then [(''tool'', JStr t)] else []) | _ \<Rightarrow> []) @
     (case jget d ''risk'' of JStr t \<Rightarrow> (if t \<noteq> [] then [(''risk'', JStr t)] else []) | _ \<Rightarrow> []) @
     (case ids of g # _ \<Rightarrow> (if g \<noteq> [] then [(''grantId'', JStr g)] else []) | [] \<Rightarrow> []) @
     (case da_attestedVia x of Some a \<Rightarrow> [(''attestedVia'', JStr a)] | None \<Rightarrow> []))"

definition decide_txn :: "crypto \<Rightarrow> service_env \<Rightarrow> approval_record \<Rightarrow> decide_ask \<Rightarrow> grant_scope \<Rightarrow> ((approval_denial + approval_status) \<times> string list) op" where
  "decide_txn c v r x scope =
    bind_op (store_decide_body c (sx_store v) \<lparr>di_requestId = da_requestId x, di_nonce = JStr (da_nonce x), di_decision = da_decision x, di_person = da_person x,
        di_surface = da_surface x, di_delegable = da_delegable x\<rparr>) (\<lambda>res.
    case res of
      Inl why \<Rightarrow> ret (res, [])
    | Inr st \<Rightarrow>
      bind_op (if da_decision x = Approve then createGrants c v r x scope else ret []) (\<lambda>ids.
      bind_op (rec_op v ''approval.decided'' (decided_fields r x scope ids)) (\<lambda>_. ret (res, ids))))"

definition denial_str :: "service_denial \<Rightarrow> string" where
  "denial_str d = (case d of StoreDenial ApprovalMismatch \<Rightarrow> ''approval-mismatch'' | StoreDenial ApprovalUsed \<Rightarrow> ''approval-used''
     | StoreDenial ApprovalExpired \<Rightarrow> ''approval-expired'' | StoreDenial SurfaceUntrusted_store \<Rightarrow> ''surface-untrusted'' | ScopeUnavailable \<Rightarrow> ''scope-unavailable'')"

definition refuse :: "service_env \<Rightarrow> decide_ask \<Rightarrow> service_denial \<Rightarrow> service \<Rightarrow> (exn, decide_result) result \<times> service" where
  "refuse v x why S = (Inr (DecideRefused why), recSoft v ''approval.refused'' ([(''person'', JStr (da_person x)), (''requestId'', JStr (da_requestId x)),
     (''decision'', JStr (verdict_str (da_decision x)))] @ (case da_scope x of Some sc \<Rightarrow> [(''scope'', JStr (scope_str sc))] | None \<Rightarrow> []) @
     [(''decisionSurface'', JNum (da_surface x)), (''reason'', JStr (denial_str why))]) S)"

text \<open>The created grants are announced one by one; a read that raises leaves the function.\<close>

fun announce_grants :: "crypto \<Rightarrow> string list \<Rightarrow> service \<Rightarrow> (exn, unit) result \<times> service" where
  "announce_grants c [] S = (Inr (), S)"
| "announce_grants c (g # gs) S = (case on_perm (grant_get c g) S of
     (Inl e, S1) \<Rightarrow> (Inl e, S1)
   | (Inr w, S1) \<Rightarrow> announce_grants c gs (if w = None then S1 else emit_event ''grant.changed'' g ''created'' S1))"

definition decide_done :: "crypto \<Rightarrow> service_env \<Rightarrow> decide_ask \<Rightarrow> grant_scope \<Rightarrow> approval_status \<Rightarrow> string list \<Rightarrow> service \<Rightarrow> (exn, decide_result) result \<times> service" where
  "decide_done c v x scope st ids S =
    (let i = da_requestId x; approved = (st = Approved);
         S1 = finish i (if approved then no_answer\<lparr>an_approved := True, an_requestId := Some i, an_scope := Some scope, an_grantIds := ids\<rparr>
                        else not_approved i ''denied by the person'') (drop_timer i S);
         S2 = announce c v ''approval.resolved'' i (if approved then ''approved'' else ''denied'') S1
     in case announce_grants c ids S2 of
          (Inl e, S3) \<Rightarrow> (Inl e, S3)
        | (Inr _, S3) \<Rightarrow> (Inr (DecideOk st (if approved then Some scope else None) ids), S3))"

definition decideCore :: "crypto \<Rightarrow> service_env \<Rightarrow> decide_ask \<Rightarrow> service \<Rightarrow> (exn, decide_result) result \<times> service" where
  "decideCore c v x S =
    (if da_surface x \<notin> {Fin 0, Fin 1, Fin 2, Fin 3} then refuse v x (StoreDenial SurfaceUntrusted_store) S
     else case on_perm (store_get c (en_now (sx_store v)) (da_requestId x)) S of
       (Inl e, S1) \<Rightarrow> (Inl e, failAll ''integrity'' (integrityFailure v e S1))
     | (Inr None, S1) \<Rightarrow> refuse v x (StoreDenial ApprovalMismatch) S1
     | (Inr (Some r), S1) \<Rightarrow>
       (let scope = (case da_scope x of Some sc \<Rightarrow> sc | None \<Rightarrow> Once) in
        if jget (ar_bound r) ''principal'' \<noteq> JStr (da_person x) then refuse v x (StoreDenial ApprovalMismatch) S1
        else case (if da_decision x = Approve then approve_refusal S1 r x scope else None) of
          Some why \<Rightarrow> refuse v x why S1
        | None \<Rightarrow>
          (case on_perm (transaction (decide_txn c v r x scope)) S1 of
             (Inl (GrantError e), S2) \<Rightarrow> refuse v x (if e = SurfaceTooLow then StoreDenial SurfaceUntrusted_store else ScopeUnavailable) S2
           | (Inl (ChainError p w), S2) \<Rightarrow> (Inl (ChainError p w), failAll ''integrity'' (integrityFailure v (ChainError p w) S2))
           | (Inl e, S2) \<Rightarrow> (Inl e, S2)
           | (Inr (Inl why, ids), S2) \<Rightarrow> refuse v x (StoreDenial why) S2
           | (Inr (Inr st, ids), S2) \<Rightarrow> decide_done c v x scope st ids S2)))"

text \<open>The two entries: a relayed decision never carries an attestation; for an authenticated session the nonce comes from the table.\<close>

definition service_decide :: "crypto \<Rightarrow> service_env \<Rightarrow> decide_ask \<Rightarrow> service \<Rightarrow> (exn, decide_result) result \<times> service" where
  "service_decide c v x S = decideCore c v (x\<lparr>da_attestedVia := None\<rparr>) S"

definition decideForSession :: "crypto \<Rightarrow> service_env \<Rightarrow> decide_ask \<Rightarrow> service \<Rightarrow> (exn, decide_result) result \<times> service" where
  "decideForSession c v x S = decideCore c v (x\<lparr>da_nonce := (case map_of (db_approvals (pm_db (sv_perm S))) (da_requestId x) of
     Some row \<Rightarrow> ap_nonce row | None \<Rightarrow> [])\<rparr>) S"

section \<open>Starting an approved call\<close>

definition consume_in_txn :: "crypto \<Rightarrow> grant_env \<Rightarrow> string \<Rightarrow> string \<Rightarrow> string \<Rightarrow> string \<Rightarrow> bool op" where
  "consume_in_txn c v i person agent h = (\<lambda>s. case consumeOnce_body c v i person agent h s of
     (Inl (ChainError _ _), s') \<Rightarrow> (Inr False, s')
   | out \<Rightarrow> out)"

definition mark_in_txn :: "crypto \<Rightarrow> grant_env \<Rightarrow> string \<Rightarrow> unit op" where
  "mark_in_txn c v i = bind_op (markUsed_body c v i) (\<lambda>w. case w of None \<Rightarrow> ret () | Some (g, st) \<Rightarrow> emit v ''used'' g st)"

fun begin_grants :: "crypto \<Rightarrow> service_env \<Rightarrow> approval_ask \<Rightarrow> string list \<Rightarrow> unit op" where
  "begin_grants c v a [] = ret ()"
| "begin_grants c v a (i # is) =
    bind_op (grant_get c i) (\<lambda>w.
    bind_op (case w of
        None \<Rightarrow> raise (Refused ''grant-mismatch'')
      | Some g \<Rightarrow>
        (if g_person g \<noteq> as_principal a \<or> g_agent g \<noteq> as_agentId a then raise (Refused ''grant-mismatch'')
         else if g_scope g = Once then
           bind_op (consume_in_txn c (sx_grant v) i (as_principal a) (as_agentId a) (as_actionHash a)) (\<lambda>b. if b then ret () else raise (Refused ''grant-used''))
         else mark_in_txn c (sx_grant v) i)) (\<lambda>_.
    begin_grants c v a is))"

definition begin_txn :: "crypto \<Rightarrow> service_env \<Rightarrow> approval_ask \<Rightarrow> string \<Rightarrow> answer \<Rightarrow> unit op" where
  "begin_txn c v a requestId an =
    bind_op (store_consume_body c (sx_store v) (bindingOf a requestId)) (\<lambda>used.
    case used of
      Inl why \<Rightarrow> raise (Refused (denial_str (StoreDenial why)))
    | Inr _ \<Rightarrow>
      bind_op (begin_grants c v a (an_grantIds an)) (\<lambda>_.
      rec_op v ''approval.consumed'' (auditFieldsOf a ([(''requestId'', JStr requestId)] @
        (case an_grantIds an of g # _ \<Rightarrow> (if g \<noteq> [] then [(''grantId'', JStr g)] else []) | [] \<Rightarrow> []) @
        (case an_scope an of Some sc \<Rightarrow> [(''scope'', JStr (scope_str sc))] | None \<Rightarrow> [])))))"

definition service_begin :: "crypto \<Rightarrow> service_env \<Rightarrow> answer \<Rightarrow> approval_ask \<Rightarrow> service \<Rightarrow> bool \<times> service" where
  "service_begin c v an a S =
    (case (an_approved an, an_requestId an) of
       (True, Some requestId) \<Rightarrow>
         (case on_perm (transaction (begin_txn c v a requestId an)) S of
            (Inr _, S1) \<Rightarrow> (True, S1)
          | (Inl e, S1) \<Rightarrow> (False, recSoft v ''approval.refused'' (auditFieldsOf a [(''requestId'', JStr requestId),
               (''reason'', JStr (case e of Refused why \<Rightarrow> why | _ \<Rightarrow> ''error''))]) (integrityFailure v e S1)))
     | _ \<Rightarrow> (False, S))"

section \<open>Reads, cancelling, the dispatcher context\<close>

definition service_list :: "crypto \<Rightarrow> service_env \<Rightarrow> approval_status option \<Rightarrow> string option \<Rightarrow> string option \<Rightarrow> string option \<Rightarrow> approval_record list op" where
  "service_list c v status who taskId sessionId =
    bind_op (store_list c (en_now (sx_store v)) status who) (\<lambda>rs. ret (filter (\<lambda>r.
      (taskId = None \<or> jget (ar_bound r) ''taskId'' = JStr (the taskId)) \<and> (sessionId = None \<or> jget (ar_bound r) ''sessionId'' = JStr (the sessionId))) rs))"

definition service_get :: "crypto \<Rightarrow> service_env \<Rightarrow> string \<Rightarrow> string option \<Rightarrow> approval_record option op" where
  "service_get c v i who = bind_op (store_get c (en_now (sx_store v)) i) (\<lambda>w. ret (case w of
     None \<Rightarrow> None
   | Some r \<Rightarrow> (if who \<noteq> None \<and> jget (ar_bound r) ''principal'' \<noteq> JStr (the who) then None else Some r)))"

definition service_cancel :: "crypto \<Rightarrow> service_env \<Rightarrow> string \<Rightarrow> string \<Rightarrow> string option \<Rightarrow> service \<Rightarrow> (exn, approval_denial option) result \<times> service" where
  "service_cancel c v i person who S =
    (case on_perm (store_get c (en_now (sx_store v)) i) S of
       (Inl e, S1) \<Rightarrow> (Inl e, S1)
     | (Inr None, S1) \<Rightarrow> (Inr (Some ApprovalMismatch), S1)
     | (Inr (Some r), S1) \<Rightarrow>
       (if jget (ar_bound r) ''principal'' \<noteq> JStr person then (Inr (Some ApprovalMismatch), S1)
        else case on_perm (transaction (cancel_txn c v i (or_default who person) [(''person'', JStr person), (''requestId'', JStr i), (''by'', JStr (or_default who person)),
               (''capability'', ar_capability r), (''actionHash'', jget (ar_bound r) ''actionHash'')])) S1 of
          (Inl e, S2) \<Rightarrow> (Inl e, S2)
        | (Inr (Some why), S2) \<Rightarrow> (Inr (Some why), S2)
        | (Inr None, S2) \<Rightarrow> (Inr None, announce c v ''approval.resolved'' i ''cancelled'' (finish i (not_approved i ''cancelled'') (drop_timer i S2)))))"

definition service_verify :: "crypto \<Rightarrow> service_env \<Rightarrow> service \<Rightarrow> (exn, (nat \<times> verify_failure) option) result \<times> service" where
  "service_verify c v S = (case on_perm (store_verify c) S of
     (Inr (Some (pos, why)), S1) \<Rightarrow> (Inr (Some (pos, why)),
        recSoft v ''approvals.integrity-failure'' [(''brokenAt'', JNum (Fin (of_nat pos))), (''failure'', JStr (failure_str why))] S1)
   | out \<Rightarrow> out)"

datatype held_rejection = HeldUnknown | HeldRevoked | HeldNotDelegable | HeldTaskMismatch | HeldForeignPerson

definition held_reason :: "stored_grant option \<Rightarrow> string \<Rightarrow> string \<Rightarrow> held_rejection option" where
  "held_reason w handoffTaskId person = (case w of
     None \<Rightarrow> Some HeldUnknown
   | Some g \<Rightarrow>
     (if g_revoked g = JBool True \<or> g_consumedAt g \<noteq> None then Some HeldRevoked
      else if g_person g \<noteq> person then Some HeldForeignPerson
      else if \<not> g_delegable g then Some HeldNotDelegable
      else if g_taskId g \<noteq> Some handoffTaskId then Some HeldTaskMismatch
      else None))"

fun verifyHeld :: "crypto \<Rightarrow> string list \<Rightarrow> string \<Rightarrow> string \<Rightarrow> (string list \<times> (string \<times> held_rejection) list) op" where
  "verifyHeld c [] handoffTaskId person = ret ([], [])"
| "verifyHeld c (i # is) handoffTaskId person =
    bind_op (grant_get c i) (\<lambda>w.
    bind_op (verifyHeld c is handoffTaskId person) (\<lambda>(valid, rejected).
    ret (case held_reason w handoffTaskId person of
       None \<Rightarrow> (i # valid, rejected)
     | Some why \<Rightarrow> (valid, (i, why) # rejected))))"

definition held_str :: "held_rejection \<Rightarrow> string" where
  "held_str h = (case h of HeldUnknown \<Rightarrow> ''unknown'' | HeldRevoked \<Rightarrow> ''revoked'' | HeldNotDelegable \<Rightarrow> ''not-delegable''
     | HeldTaskMismatch \<Rightarrow> ''task-mismatch'' | HeldForeignPerson \<Rightarrow> ''foreign-person'')"

text \<open>The part of a dispatch context that the service reads, and of the policy context that it fills in.\<close>

record dispatch_ctx =
  dc_principal :: string
  dc_agentId :: string
  dc_taskId :: "string option"
  dc_sessionId :: "string option"

record policy_part =
  pp_taskId :: "string option"
  pp_sessionId :: "string option"
  pp_deniedActionHashes :: "string list"
  pp_promptsThisHour :: nat
  pp_handoff :: "handoff option"

definition policyContext :: "crypto \<Rightarrow> service_env \<Rightarrow> dispatch_ctx \<Rightarrow> policy_part \<Rightarrow> policy_part op" where
  "policyContext c v ctx base =
    (let key = taskKeyOf (case pp_taskId base of Some t \<Rightarrow> Some t | None \<Rightarrow> dc_taskId ctx) (case pp_sessionId base of Some t \<Rightarrow> Some t | None \<Rightarrow> dc_sessionId ctx) in
     bind_op (\<lambda>s. case store_list c (en_now (sx_store v)) None (Some (dc_principal ctx)) s of
         (Inl e, s') \<Rightarrow> (Inl e, snd (integrity_op v e s')) | out \<Rightarrow> out) (\<lambda>rs0.
     let rs = filter (\<lambda>r. jget (ar_bound r) ''taskId'' = JStr key) rs0;
         denied = map (\<lambda>r. sv (jget (ar_bound r) ''actionHash'')) (filter (\<lambda>r. ar_status r = Denied_status) rs);
         prompts = length (filter (\<lambda>r. en_now (sx_store v) - HOUR_ms < ar_createdAt r) rs);
         out = base\<lparr>pp_deniedActionHashes := dedup (pp_deniedActionHashes base @ denied), pp_promptsThisHour := max (pp_promptsThisHour base) prompts\<rparr>
     in case pp_handoff base of
          None \<Rightarrow> ret out
        | Some h \<Rightarrow>
          bind_op (verifyHeld c (ho_approvalsHeld h) (ho_taskId h) (dc_principal ctx)) (\<lambda>(valid, rejected).
          bind_op (if rejected = [] then ret () else rec_op v ''approvals.held-rejected'' ([(''person'', JStr (dc_principal ctx)), (''agentId'', JStr (dc_agentId ctx)),
              (''taskId'', JStr (ho_taskId h))] @ (case dc_sessionId ctx of Some s \<Rightarrow> (if s \<noteq> [] then [(''sessionId'', JStr s)] else []) | None \<Rightarrow> []) @
              [(''rejected'', JArr (map (\<lambda>(i, w). JObj [(''id'', JStr i), (''reason'', JStr (held_str w))]) rejected))])) (\<lambda>_.
          ret (out\<lparr>pp_handoff := Some (h\<lparr>ho_approvalsHeld := valid\<rparr>)\<rparr>)))))"

definition dispose :: "crypto \<Rightarrow> service_env \<Rightarrow> service \<Rightarrow> service" where
  "dispose c v S =
    (let S1 = fold (closeAborted c v) (map fst (sv_codeRoots S)) S;
         S2 = S1\<lparr>sv_codeRoots := []\<rparr>;
         S3 = fold (\<lambda>i. finish i (not_approved i ''shutting down'')) (sv_waiters S2) S2
     in S3\<lparr>sv_expiry := []\<rparr>)"

section \<open>A sample call\<close>

text \<open>A MAC that is short, for evaluation; a call, a person's answer to it and the grant the answer creates.\<close>

definition tiny_crypto :: crypto where
  "tiny_crypto = \<lparr>cr_mac = (\<lambda>m. case m of EntryMsg _ n _ _ _ _ _ \<Rightarrow> replicate n CHR ''1'' | HeadMsg n _ \<Rightarrow> replicate n CHR ''f''),
     cr_verifySig = (\<lambda>m k s. s = m), cr_sha = (\<lambda>v. ''h'')\<rparr>"

definition sample_detail :: jsval where
  "sample_detail = JObj [(''risk'', JStr ''low''), (''flags'', JObj [(''outsideRoots'', JBool True)]), (''grantOptions'', JArr [JObj [(''scope'', JStr ''once'')]])]"

definition sample_ask :: approval_ask where
  "sample_ask = \<lparr>as_principal = ''anna'', as_agentId = ''a1'', as_subjectKind = None, as_turnId = None, as_callId = ''c1'', as_taskId = None, as_sessionId = None,
     as_actionHash = ''h1'', as_capability = ''fs.read'', as_tool = ''read_file'', as_effect = ''read'', as_risk = ''low'', as_originSurface = JNum (Fin 2),
     as_park = False, as_aborted = False, as_detail = sample_detail, as_detailBytes = 100\<rparr>"

definition quiet_env :: grant_env where
  "quiet_env = sample_env\<lparr>ge_audit := None\<rparr>"

definition sample_senv :: "string \<Rightarrow> string \<Rightarrow> service_env" where
  "sample_senv i n = \<lparr>sx_store = \<lparr>en_now = 1000, en_id = i, en_nonce = n, en_ttl = Fin 5000\<rparr>, sx_grant = quiet_env, sx_gids = (\<lambda>_. ''g1'')\<rparr>"

definition sample_decide :: decide_ask where
  "sample_decide = \<lparr>da_requestId = ''r1'', da_nonce = [], da_decision = Approve, da_person = ''anna'', da_surface = Fin 2, da_scope = None, da_delegable = False,
     da_acknowledgedUnsandboxed = False, da_attestedVia = None\<rparr>"

definition init_service :: "signer option \<Rightarrow> service" where
  "init_service sg = \<lparr>sv_perm = init_perm sg, sv_waiters = [], sv_expiry = [], sv_codeRoots = [], sv_answers = [], sv_events = []\<rparr>"

definition sample_approved :: service where
  "sample_approved = snd (decideForSession tiny_crypto (sample_senv ''r1'' ''n1'') sample_decide
     (snd (service_request tiny_crypto (sample_senv ''r1'' ''n1'') sample_ask (init_service None))))"

definition sample_answer :: answer where
  "sample_answer = no_answer\<lparr>an_approved := True, an_requestId := Some ''r1'', an_scope := Some Once, an_grantIds := [''g1'']\<rparr>"

text \<open>The same call on stores that only the stores' own operations touched, its request approved and its once grant created.\<close>

definition sample_request_input :: request_input where
  "sample_request_input = \<lparr>ri_binding = bindingOf sample_ask [], ri_capability = ''fs.read'', ri_detail = None, ri_detailBytes = 0\<rparr>"

definition sample_store_perm :: perm where
  "sample_store_perm = snd (grant_create tiny_crypto quiet_env sample_input (snd (store_decide tiny_crypto (sx_store (sample_senv ''r1'' ''n1''))
      \<lparr>di_requestId = ''r1'', di_nonce = JStr ''n1'', di_decision = Approve, di_person = ''anna'', di_surface = Fin 2, di_delegable = False\<rparr>
    (snd (store_request tiny_crypto (sx_store (sample_senv ''r1'' ''n1'')) sample_request_input (init_perm None))))))"

end
