(* ===== verification/Service_Properties.thy ===== *)
theory Service_Properties
  imports Approval_Service
begin

text \<open>
  What the approval service promises: no call is ever answered with an approval that a person did not give, and a call that starts has used up an
  approval and its once grants. And what it does not: a start that is refused after the approval was consumed leaves the cached verdict
  of the chain behind, and the next entry breaks the chain.
\<close>

section \<open>The log only grows\<close>

definition grows :: "'a op \<Rightarrow> bool" where
  "grows m \<longleftrightarrow> (\<forall>s r s'. m s = (r, s') \<longrightarrow> set (db_rows (pm_db s)) \<subseteq> set (db_rows (pm_db s')))"

named_theorems growing

lemma growsD: "grows m \<Longrightarrow> m s = (r, s') \<Longrightarrow> set (db_rows (pm_db s)) \<subseteq> set (db_rows (pm_db s'))"
  unfolding grows_def by blast

lemma grows_basic [growing]: "grows (ret x)" "grows (raise y)" "grows (query q)" "grows (Pair z)"
  by (simp_all add: grows_def)

lemma grows_bind [growing]: "grows m \<Longrightarrow> (\<And>x. grows (f x)) \<Longrightarrow> grows (bind_op m f)"
  unfolding grows_def bind_op_def by (fastforce split: prod.splits sum.splits)

lemma grows_if [growing]: "grows m \<Longrightarrow> grows m' \<Longrightarrow> grows (if P then m else m')"
  by simp

lemma grows_option [growing]: "grows m \<Longrightarrow> (\<And>x. grows (f x)) \<Longrightarrow> grows (case z of None \<Rightarrow> m | Some x \<Rightarrow> f x)"
  by (cases z) simp_all

lemma grows_prod [growing]: "(\<And>x y. grows (f x y)) \<Longrightarrow> grows (case z of (x, y) \<Rightarrow> f x y)"
  by (cases z) simp

lemma grows_sum [growing]: "(\<And>x. grows (f x)) \<Longrightarrow> (\<And>x. grows (g x)) \<Longrightarrow> grows (case z of Inl x \<Rightarrow> f x | Inr x \<Rightarrow> g x)"
  by (cases z) simp_all

lemma grows_transaction [growing]: "grows m \<Longrightarrow> grows (transaction m)"
  unfolding grows_def transaction_def by (fastforce split: prod.splits sum.splits)

lemma grows_snapshot [growing]: "grows (chain_snapshot c)"
  by (auto simp: grows_def chain_snapshot_def split: option.splits)

lemma grows_trusted [growing]: "grows (trusted c)"
  unfolding trusted_def by (intro growing)

lemma set_insert_row_eq: "insert_row e rows = Some rows' \<Longrightarrow> set rows' = insert e (set rows)"
proof -
  assume "insert_row e rows = Some rows'"
  then have "rows' = takeWhile (\<lambda>x. ce_seq x < ce_seq e) rows @ e # dropWhile (\<lambda>x. ce_seq x < ce_seq e) rows"
    by (simp add: insert_row_def split: if_splits)
  moreover have "set (takeWhile (\<lambda>x. ce_seq x < ce_seq e) rows) \<union> set (dropWhile (\<lambda>x. ce_seq x < ce_seq e) rows) = set rows"
    by (metis set_append takeWhile_dropWhile_id)
  ultimately show ?thesis by simp
qed

lemma insert_entry_Inr: "insert_entry c e s = (Inr e', s') \<Longrightarrow> e' = e \<and> set (db_rows (pm_db s')) = insert e (set (db_rows (pm_db s)))"
  by (auto simp: insert_entry_def Let_def set_insert_row_eq split: option.splits if_splits)

lemma grows_insert_entry [growing]: "grows (insert_entry c e)"
  unfolding grows_def insert_entry_def Let_def by (auto simp: set_insert_row_eq split: option.splits if_splits)

lemma grows_append [growing]: "grows (chain_append c now kind ref payload nonce)"
proof -
  have "grows (append_run c now kind ref payload nonce)" unfolding append_run_def by (intro growing)
  then show ?thesis unfolding grows_def chain_append_def by (fastforce split: prod.splits)
qed

lemma append_entry:
  assumes "chain_append c now kind ref payload nonce s = (Inr e, s')"
  shows "\<exists>sn. e = next_entry c now sn kind ref payload nonce \<and> e \<in> set (db_rows (pm_db s'))"
proof -
  obtain s1 where "append_run c now kind ref payload nonce s = (Inr e, s1)" "db_rows (pm_db s') = db_rows (pm_db s1)"
    using assms by (auto simp: chain_append_def split: prod.splits)
  moreover from this(1) obtain sn s0 where "insert_entry c (next_entry c now sn kind ref payload nonce) s0 = (Inr e, s1)"
    unfolding append_run_def by (elim bind_op_InrE) (auto split: option.splits)
  ultimately show ?thesis using insert_entry_Inr by fastforce
qed

lemma grows_tables [growing]: "grows (insert_approval i row)" "grows (update_approval i f)" "grows (update_grant j g)"
  by (auto simp: grows_def insert_approval_def update_approval_def Let_def simp del: update_grant_simps(1) simp add: update_grant_def)

lemma grows_update_grants [growing]: "grows (update (\<lambda>db. db\<lparr>db_grants := t db\<rparr>))"
  by (simp add: grows_def)

lemma grows_note [growing]: "grows (note_op v a g x)" "grows (rec_op w b l)" "grows (emit v ch g st)"
  by (auto simp: grows_def note_op_def rec_op_def emit_def Let_def split: option.splits if_splits)

lemma grows_catch [growing]: "grows m \<Longrightarrow> grows (catch_chain m)"
  unfolding grows_def catch_chain_def by (fastforce split: prod.splits sum.splits exn.splits)

lemma grows_swallow [growing]: "grows m \<Longrightarrow> grows (swallow m)"
  unfolding grows_def swallow_def by (fastforce split: prod.splits)

lemma grows_viewOf [growing]: "grows (viewOf c i)" "grows (views c rows)"
  unfolding viewOf_def views_def by (intro growing)+

lemma grows_reads [growing]: "grows (grant_get c i)" "grows (store_get c now j)" "grows (store_list c now st who)" "grows (store_verify c)"
  unfolding grant_get_def store_get_def store_list_def store_verify_def by (intro growing)+

lemma grows_create [growing]: "grows (create_body c v i d)"
  unfolding create_body_def grant_insert_def Let_def by (intro growing)

lemma grows_revoke [growing]: "grows (revoke_body c v i who reason)"
  unfolding revoke_body_def Let_def by (intro growing)

lemma grows_marks [growing]: "grows (markUsed_body c v i)" "grows (consumeOnce_body c v j p a h)"
  unfolding markUsed_body_def consumeOnce_body_def by (intro growing)+

lemma grows_store [growing]: "grows (store_request_body c v i)" "grows (store_decide_body c v d)" "grows (store_cancel_body c v r who)" "grows (store_consume_body c v b)"
  unfolding store_request_body_def store_decide_body_def store_cancel_body_def store_consume_body_def Let_def by (intro growing)+

lemma grows_create_all [growing]: "grows (create_in_txn c w i)" "grows (create_all c v n is)"
proof -
  show one: "grows (create_in_txn c w i)" for c w i unfolding create_in_txn_def by (intro growing)
  show "grows (create_all c v n is)" by (induction c v n "is" rule: create_all.induct) (simp_all add: growing one)
qed

lemma grows_once [growing]: "grows (create_once c v i)" "grows (consume_in_txn c w j p a h)"
  using grows_create_all(2) [of c v 0 "[i]"] grows_marks(2) [of c w j p a h]
  unfolding grows_def create_once_def consume_in_txn_def by (fastforce split: prod.splits sum.splits exn.splits grant_error.splits)+

lemma grows_createGrants [growing]: "grows (createGrants c v r x scope)"
  unfolding createGrants_def Let_def by (intro growing)

lemma grows_decide_txn [growing]: "grows (decide_txn c v r x scope)"
  unfolding decide_txn_def by (intro growing)

lemma grows_begin [growing]: "grows (begin_grants c v a is)"
  by (induction c v a "is" rule: begin_grants.induct) (auto intro!: growing simp: mark_in_txn_def)

lemma grows_txns [growing]: "grows (begin_txn c v a rid an)" "grows (request_txn c v a)" "grows (cancel_txn c v i who line)" "grows (integrity_op v e)"
  unfolding begin_txn_def request_txn_def cancel_txn_def integrity_op_def by (intro growing | simp add: growing split: exn.splits)+

section \<open>Approvals come from people\<close>

definition approved_by_person :: "chain_entry list \<Rightarrow> string \<Rightarrow> bool" where
  "approved_by_person es i \<longleftrightarrow> (\<exists>e\<in>set es. \<exists>who lvl. has_kind ''approval.decided'' i e \<and> jget (entry_value e) ''decision'' = JStr ''approve'' \<and>
     jget (entry_value e) ''person'' = JStr who \<and> jget (jget (entry_value e) ''bound'') ''principal'' = JStr who \<and>
     jget (entry_value e) ''surface'' = JNum lvl \<and> lvl \<in> {Fin 1, Fin 2, Fin 3})"

definition answers_backed :: "service \<Rightarrow> bool" where
  "answers_backed S \<longleftrightarrow> (\<forall>i a. (i, a) \<in> set (sv_answers S) \<longrightarrow> an_approved a \<longrightarrow>
     an_requestId a = Some i \<and> approved_by_person (db_rows (pm_db (sv_perm S))) i)"

text \<open>A step that adds no approval.\<close>

definition calm :: "service \<Rightarrow> service \<Rightarrow> bool" where
  "calm S S' \<longleftrightarrow> set (db_rows (pm_db (sv_perm S))) \<subseteq> set (db_rows (pm_db (sv_perm S'))) \<and>
     (\<forall>x\<in>set (sv_answers S'). x \<in> set (sv_answers S) \<or> \<not> an_approved (snd x))"

lemma calm_refl [simp]: "calm S S"
  by (simp add: calm_def)

lemma calm_trans: "calm S S' \<Longrightarrow> calm S' S'' \<Longrightarrow> calm S S''"
  unfolding calm_def by (meson subset_trans)

lemma calm_backed: "calm S S' \<Longrightarrow> answers_backed S \<Longrightarrow> answers_backed S'"
  unfolding calm_def answers_backed_def approved_by_person_def by fastforce

lemma calm_on_perm: "grows m \<Longrightarrow> on_perm m S = (r, S') \<Longrightarrow> calm S S'"
  using growsD [of m "sv_perm S"] by (auto simp: on_perm_def calm_def split: prod.splits)

lemma calm_fields [simp]:
  "calm S (S'\<lparr>sv_waiters := w\<rparr>) = calm S S'" "calm S (S'\<lparr>sv_expiry := e\<rparr>) = calm S S'" "calm S (S'\<lparr>sv_codeRoots := r\<rparr>) = calm S S'"
  "calm S (S'\<lparr>sv_events := x\<rparr>) = calm S S'"
  by (simp_all add: calm_def)

named_theorems calming

lemma calm_recSoft [calming]: "calm S S' \<Longrightarrow> calm S (recSoft v a l S')"
  unfolding recSoft_def by (cases "on_perm (rec_op v a l) S'") (auto intro: calm_trans calm_on_perm growing)

lemma calm_integrity [calming]: "calm S S' \<Longrightarrow> calm S (integrityFailure v e S')"
  unfolding integrityFailure_def by (cases "on_perm (integrity_op v e) S'") (auto intro: calm_trans calm_on_perm growing)

lemma calm_emit [calming]: "calm S S' \<Longrightarrow> calm S (emit_event n i w S')" "calm S S' \<Longrightarrow> calm S (drop_timer i S')"
  by (simp_all add: emit_event_def drop_timer_def)

lemma calm_finish [calming]: "calm S S' \<Longrightarrow> \<not> an_approved a \<Longrightarrow> calm S (finish i a S')"
  by (auto simp: finish_def calm_def)

lemma not_approved_simp [simp]: "an_approved (not_approved i r) = False" "an_approved no_answer = False"
  by (simp_all add: not_approved_def no_answer_def)

lemma calm_fold: "calm S S' \<Longrightarrow> (\<And>i T. calm S T \<Longrightarrow> calm S (f i T)) \<Longrightarrow> calm S (fold f is S')"
  by (induction "is" arbitrary: S') auto

lemma calm_failAll [calming]: "calm S S' \<Longrightarrow> calm S (failAll r S')"
  unfolding failAll_def by (rule calm_fold) (auto intro: calming)

lemma calm_safe_get: "calm S S' \<Longrightarrow> safe_get c v i S' = (w, S'') \<Longrightarrow> calm S S''"
  unfolding safe_get_def by (auto split: prod.splits intro: calm_trans dest: calm_on_perm [OF grows_reads(2)])

lemma calm_announce [calming]: "calm S S' \<Longrightarrow> calm S (announce c v n i w S')"
  unfolding announce_def by (auto split: prod.splits intro: calming dest: calm_safe_get)

lemma calm_announce_grants: "calm S S' \<Longrightarrow> announce_grants c gs S' = (r, S'') \<Longrightarrow> calm S S''"
proof (induction c gs S' arbitrary: r S'' rule: announce_grants.induct)
  case (2 c g gs S')
  obtain q S1 where q: "on_perm (grant_get c g) S' = (q, S1)" by fastforce
  have c1: "calm S S1" using calm_trans [OF 2(2) calm_on_perm [OF grows_reads(1) q]] .
  show ?case
  proof (cases q)
    case (Inl e)
    with 2(3) q c1 show ?thesis by simp
  next
    case (Inr w)
    have "calm S (if w = None then S1 else emit_event ''grant.changed'' g ''created'' S1)" using c1 by (auto intro: calming)
    from 2(1) [OF q [symmetric, unfolded Inr] refl this] 2(3) q Inr show ?thesis by simp
  qed
qed simp

lemma calm_request: "calm S (snd (service_request c v a S))"
proof -
  obtain r S1 where t: "on_perm (transaction (request_txn c v a)) S = (r, S1)" by fastforce
  have c1: "calm S S1" by (rule calm_on_perm [OF _ t]) (intro growing)
  show ?thesis
    unfolding service_request_def t by (auto split: sum.splits prod.splits intro!: calming simp: c1)
qed

lemma calm_park: "calm S (park c v i S)"
  unfolding park_def
  by (auto split: prod.splits intro!: calming simp: Let_def) (auto intro!: calming elim!: calm_safe_get [rotated])

lemma calm_closeAborted [calming]: "calm T S \<Longrightarrow> calm T (closeAborted c v i S)"
proof -
  assume T: "calm T S"
  obtain r S1 where t: "on_perm (transaction (cancel_txn c v i ''abort'' [(''requestId'', JStr i), (''by'', JStr ''abort'')])) S = (r, S1)" by fastforce
  have "calm S S1" by (rule calm_on_perm [OF _ t]) (intro growing)
  then have c1: "calm T S1" using T calm_trans by blast
  obtain w S2 where g: "safe_get c v i (drop_timer i S1) = (w, S2)" by fastforce
  have "calm T S2" by (rule calm_safe_get [OF _ g]) (intro calming c1)
  with c1 g show ?thesis unfolding closeAborted_def t by (auto simp: Let_def split: sum.splits intro!: calming)
qed

lemma calm_steps:
  "calm S (onAbort c v i S)" "calm S (onExpiry c v i S)" "calm S (dispose c v S)"
proof -
  show "calm S (onAbort c v i S)" unfolding onAbort_def by (auto intro!: calming)
  obtain r S1 where t: "on_perm (store_get c (en_now (sx_store v)) i) (S\<lparr>sv_expiry := filter (\<lambda>x. x \<noteq> i) (sv_expiry S)\<rparr>) = (r, S1)" by fastforce
  have "calm (S\<lparr>sv_expiry := filter (\<lambda>x. x \<noteq> i) (sv_expiry S)\<rparr>) S1" by (rule calm_on_perm [OF _ t]) (intro growing)
  then have c1: "calm S S1" by (simp add: calm_def)
  then show "calm S (onExpiry c v i S)"
    unfolding onExpiry_def Let_def t by (auto split: sum.splits option.splits intro!: calming)
  show "calm S (dispose c v S)"
    unfolding dispose_def Let_def by (auto intro!: calm_fold calming)
qed

lemma store_decide_body_Inr:
  assumes run: "store_decide_body c v d s = (Inr (Inr st), s')"
  shows "st = (if di_decision d = Approve then Approved else Denied_status) \<and> (st = Approved \<longrightarrow> approved_by_person (db_rows (pm_db s')) (di_requestId d))"
proof -
  obtain lvl where lvl: "surface_level (di_surface d) = Some lvl" using run by (cases "surface_level (di_surface d)") (simp_all add: store_decide_body_def)
  obtain sn s0 where "(let es = by_ref sn (di_requestId d) in
         case find_kind es ''approval.requested'' of
           None \<Rightarrow> ret (Inl ApprovalMismatch)
         | Some req \<Rightarrow>
           (let rp = entry_value req in
            if jget (jget rp ''bound'') ''principal'' \<noteq> JStr (di_person d) then ret (Inl ApprovalMismatch)
            else if ce_nonce req = None \<or> di_nonce d \<noteq> JStr (the (ce_nonce req)) then ret (Inl ApprovalMismatch)
            else if find_kind es ''approval.decided'' \<noteq> None then ret (Inl ApprovalUsed)
            else if find_kind es ''approval.cancelled'' \<noteq> None then ret (Inl ApprovalExpired)
            else if to_number (jget rp ''expiresAt'') \<le> Fin (en_now v) then ret (Inl ApprovalExpired)
            else
              bind_op (chain_append c (en_now v) ''approval.decided'' (di_requestId d) (decided_payload d (jget rp ''bound'')) (Some (sv (di_nonce d)))) (\<lambda>_.
              bind_op (update_approval (di_requestId d) (\<lambda>row. row\<lparr>ap_status := (if di_decision d = Approve then ''approved'' else ''denied''),
                 ap_decidedAt := Some (en_now v), ap_decidedBy := Some (di_person d), ap_decisionSurface := Some lvl,
                 ap_delegable := di_delegable d \<and> di_decision d = Approve\<rparr>)) (\<lambda>_.
              ret (Inr (if di_decision d = Approve then Approved else Denied_status)))))) s0 = (Inr (Inr st), s')"
    using run unfolding store_decide_body_def lvl option.case by (elim bind_op_InrE)
  note body = this
  obtain q where R: "find_kind (by_ref sn (di_requestId d)) ''approval.requested'' = Some q"
    using body by (cases "find_kind (by_ref sn (di_requestId d)) ''approval.requested''") simp_all
  note b1 = if_ret_Inr [OF body [unfolded Let_def R option.case]]
  have g1: "jget (jget (entry_value q) ''bound'') ''principal'' = JStr (di_person d)" using b1 by blast
  note b2 = if_ret_Inr [OF b1 [THEN conjunct2]]
  note b3 = if_ret_Inr [OF b2 [THEN conjunct2]]
  note b4 = if_ret_Inr [OF b3 [THEN conjunct2]]
  note b5 = if_ret_Inr [OF b4 [THEN conjunct2]]
  from b5 obtain e s1 where ap: "chain_append c (en_now v) ''approval.decided'' (di_requestId d) (decided_payload d (jget (entry_value q) ''bound'')) (Some (sv (di_nonce d))) s0 = (Inr e, s1)"
    and st: "st = (if di_decision d = Approve then Approved else Denied_status)" and s': "db_rows (pm_db s') = db_rows (pm_db s1)"
    by (elim conjE bind_op_InrE) (auto simp: update_approval_def)
  obtain sn' where e: "e = next_entry c (en_now v) sn' ''approval.decided'' (di_requestId d) (decided_payload d (jget (entry_value q) ''bound'')) (Some (sv (di_nonce d)))" "e \<in> set (db_rows (pm_db s1))"
    using append_entry [OF ap] by blast
  have "approved_by_person (db_rows (pm_db s')) (di_requestId d)" if "di_decision d = Approve"
    unfolding approved_by_person_def s'
    by (rule bexI [OF _ e(2)], rule exI [of _ "di_person d"], rule exI [of _ "di_surface d"])
      (use that g1 lvl in \<open>auto simp: e(1) decided_payload_def verdict_str_def jget_json_value surface_level_def is_finite_def split: if_splits\<close>)
  with st show ?thesis by auto
qed

lemma approved_mono: "approved_by_person es i \<Longrightarrow> set es \<subseteq> set es' \<Longrightarrow> approved_by_person es' i"
  unfolding approved_by_person_def by blast

lemma decide_txn_Inr:
  assumes "decide_txn c v r x scope s = (Inr (Inr st, ids), s')" and "st = Approved"
  shows "approved_by_person (db_rows (pm_db s')) (da_requestId x)"
proof -
  let ?d = "\<lparr>di_requestId = da_requestId x, di_nonce = JStr (da_nonce x), di_decision = da_decision x, di_person = da_person x,
        di_surface = da_surface x, di_delegable = da_delegable x\<rparr>"
  let ?rest = "\<lambda>res. case res of Inl why \<Rightarrow> ret (res, [])
    | Inr st \<Rightarrow> bind_op (if da_decision x = Approve then createGrants c v r x scope else ret []) (\<lambda>ids.
      bind_op (rec_op v ''approval.decided'' (decided_fields r x scope ids)) (\<lambda>_. ret (res, ids)))"
  from assms(1) obtain res s1 where d: "store_decide_body c (sx_store v) ?d s = (Inr res, s1)" and t: "?rest res s1 = (Inr (Inr st, ids), s')"
    unfolding decide_txn_def by (rule bind_op_InrE)
  obtain st1 where res: "res = Inr st1" using t by (cases res) simp_all
  have "bind_op (if da_decision x = Approve then createGrants c v r x scope else ret []) (\<lambda>ids.
      bind_op (rec_op v ''approval.decided'' (decided_fields r x scope ids)) (\<lambda>_. ret (res, ids))) s1 = (Inr (Inr st, ids), s')"
    using t by (simp add: res)
  then have "st1 = st" using res by (elim bind_op_InrE) simp
  moreover have "set (db_rows (pm_db s1)) \<subseteq> set (db_rows (pm_db s'))"
    by (rule growsD [where m = "?rest res", OF _ t]) (intro growing)
  ultimately show ?thesis using store_decide_body_Inr [OF d [unfolded res]] assms(2) approved_mono by auto
qed

lemma refuse_calm: "calm T S \<Longrightarrow> refuse v x why S = (r, S') \<Longrightarrow> calm T S'"
  unfolding refuse_def by (auto intro: calming)

lemma decide_done_backed:
  assumes b: "answers_backed S" and ok: "st = Approved \<Longrightarrow> approved_by_person (db_rows (pm_db (sv_perm S))) (da_requestId x)"
    and run: "decide_done c v x scope st ids S = (r, S')"
  shows "answers_backed S'"
proof -
  let ?i = "da_requestId x"
  define S1 where "S1 = finish ?i (if st = Approved then no_answer\<lparr>an_approved := True, an_requestId := Some ?i, an_scope := Some scope, an_grantIds := ids\<rparr>
                        else not_approved ?i ''denied by the person'') (drop_timer ?i S)"
  define S2 where "S2 = announce c v ''approval.resolved'' ?i (if st = Approved then ''approved'' else ''denied'') S1"
  have b1: "answers_backed S1"
    using b ok by (auto simp: S1_def answers_backed_def finish_def drop_timer_def)
  obtain q S3 where g: "announce_grants c ids S2 = (q, S3)" by fastforce
  have "calm S1 S2" unfolding S2_def by (intro calming) simp
  then have "calm S1 S3" using calm_announce_grants [OF _ g] by blast
  moreover have "S' = S3" using run g unfolding decide_done_def Let_def S1_def [symmetric] S2_def [symmetric] by (auto split: sum.splits)
  ultimately show ?thesis using calm_backed b1 by blast
qed

lemma decideCore_backed:
  assumes b: "answers_backed S" and run: "decideCore c v x S = (r, S')"
  shows "answers_backed S'"
proof (cases "da_surface x \<notin> {Fin 0, Fin 1, Fin 2, Fin 3}")
  case True
  then have "refuse v x (StoreDenial SurfaceUntrusted_store) S = (r, S')" using run unfolding decideCore_def by simp
  then show ?thesis using refuse_calm calm_refl calm_backed b by blast
next
  case False
  obtain q S1 where g: "on_perm (store_get c (en_now (sx_store v)) (da_requestId x)) S = (q, S1)" by fastforce
  have c1: "calm S S1" by (rule calm_on_perm [OF _ g]) (intro growing)
  show ?thesis
  proof (cases "\<exists>rc. q = Inr (Some rc) \<and> jget (ar_bound rc) ''principal'' = JStr (da_person x) \<and>
      (if da_decision x = Approve then approve_refusal S1 rc x (case da_scope x of Some sc \<Rightarrow> sc | None \<Rightarrow> Once) else None) = None")
    case N: False
    have "calm S S'"
      using run c1 N unfolding decideCore_def if_not_P [OF False] g prod.case
      by (cases q; cases "projr q") (auto simp: Let_def split: option.splits if_splits intro!: calming elim: refuse_calm [rotated])
    then show ?thesis using calm_backed b by blast
  next
    case True
    define scope where "scope = (case da_scope x of Some sc \<Rightarrow> sc | None \<Rightarrow> Once)"
    from True obtain rc where rc: "q = Inr (Some rc)" "jget (ar_bound rc) ''principal'' = JStr (da_person x)"
      "(if da_decision x = Approve then approve_refusal S1 rc x scope else None) = None" unfolding scope_def by blast
    obtain z S2 where t: "on_perm (transaction (decide_txn c v rc x scope)) S1 = (z, S2)" by fastforce
    have "calm S1 S2" by (rule calm_on_perm [OF _ t]) (intro growing)
    then have c2: "calm S S2" using c1 calm_trans by blast
    have b2: "answers_backed S2" using calm_backed [OF c2 b] .
    have run': "(case z of Inl (GrantError e) \<Rightarrow> refuse v x (if e = SurfaceTooLow then StoreDenial SurfaceUntrusted_store else ScopeUnavailable) S2
       | Inl (ChainError p w) \<Rightarrow> (Inl (ChainError p w), failAll ''integrity'' (integrityFailure v (ChainError p w) S2))
       | Inl e \<Rightarrow> (Inl e, S2)
       | Inr (Inl why, ids) \<Rightarrow> refuse v x (StoreDenial why) S2
       | Inr (Inr st, ids) \<Rightarrow> decide_done c v x scope st ids S2) = (r, S')"
      using run unfolding decideCore_def if_not_P [OF False] g rc(1) prod.case sum.case option.case Let_def scope_def [symmetric] rc(3) t
      using rc(2) by (auto split: sum.splits exn.splits prod.splits)
    show ?thesis
    proof (cases "\<exists>st ids. z = Inr (Inr st, ids)")
      case True
      then obtain st ids where z: "z = Inr (Inr st, ids)" by blast
      have txn: "decide_txn c v rc x scope (sv_perm S1) = (Inr (Inr st, ids), sv_perm S2)"
        using t z by (auto simp: on_perm_def split: prod.splits)
      show ?thesis
        by (rule decide_done_backed [OF b2 decide_txn_Inr [OF txn]]) (use run' z in auto)
    next
      case no: False
      have "calm S S'"
        using run' no c2 by (auto split: sum.splits exn.splits prod.splits intro!: calming elim: refuse_calm [rotated])
      then show ?thesis using calm_backed b by blast
    qed
  qed
qed

lemma calm_rest:
  "calm S (snd (service_begin c v an a S))" "calm S (snd (service_cancel c v i person who S))" "calm S (snd (service_verify c v S))"
proof -
  show "calm S (snd (service_begin c v an a S))"
  proof (cases "\<exists>rid. an_approved an \<and> an_requestId an = Some rid")
    case True
    then obtain rid where rid: "an_approved an = True" "an_requestId an = Some rid" by blast
    obtain r S1 where t: "on_perm (transaction (begin_txn c v a rid an)) S = (r, S1)" by fastforce
    have "calm S S1" by (rule calm_on_perm [OF _ t]) (intro growing)
    then show ?thesis by (cases r) (auto simp: service_begin_def rid t intro!: calming)
  next
    case False
    then show ?thesis by (auto simp: service_begin_def split: option.splits bool.splits)
  qed
  obtain q S1 where g: "on_perm (store_get c (en_now (sx_store v)) i) S = (q, S1)" by fastforce
  have c1: "calm S S1" by (rule calm_on_perm [OF _ g]) (intro growing)
  have c2: "calm S S2" if "on_perm (transaction (cancel_txn c v i w l)) S1 = (z, S2)" for w l z S2
    by (rule calm_trans [OF c1 calm_on_perm [OF _ that]]) (intro growing)
  show "calm S (snd (service_cancel c v i person who S))"
    unfolding service_cancel_def g
    by (auto split: sum.splits option.splits prod.splits intro!: calming simp: c1 dest: c2)
  obtain z S2 where h: "on_perm (store_verify c) S = (z, S2)" by fastforce
  have "calm S S2" by (rule calm_on_perm [OF _ h]) (intro growing)
  then show "calm S (snd (service_verify c v S))"
    unfolding service_verify_def h by (auto split: sum.splits option.splits intro!: calming)
qed

text \<open>The steps of the service, of its timers and of the other users of the two stores on the same connection.\<close>

inductive service_reach :: "crypto \<Rightarrow> service \<Rightarrow> bool" for c where
  start: "service_reach c (init_service sg)"
| request: "service_reach c S \<Longrightarrow> service_reach c (snd (service_request c v a S))"
| park: "service_reach c S \<Longrightarrow> service_reach c (park c v i S)"
| abort: "service_reach c S \<Longrightarrow> service_reach c (onAbort c v i S)"
| expiry: "service_reach c S \<Longrightarrow> service_reach c (onExpiry c v i S)"
| decide: "service_reach c S \<Longrightarrow> service_reach c (snd (service_decide c v x S))"
| decide_session: "service_reach c S \<Longrightarrow> service_reach c (snd (decideForSession c v x S))"
| begin_call: "service_reach c S \<Longrightarrow> service_reach c (snd (service_begin c v an a S))"
| cancel: "service_reach c S \<Longrightarrow> service_reach c (snd (service_cancel c v i person who S))"
| verify: "service_reach c S \<Longrightarrow> service_reach c (snd (service_verify c v S))"
| dispose: "service_reach c S \<Longrightarrow> service_reach c (dispose c v S)"
| revoke_grant: "service_reach c S \<Longrightarrow> service_reach c (snd (on_perm (grant_revoke c w i who reason) S))"
| end_task: "service_reach c S \<Longrightarrow> service_reach c (snd (on_perm (endTask c w i who) S))"
| end_session: "service_reach c S \<Longrightarrow> service_reach c (snd (on_perm (endSession c w i who) S))"

lemma calm_snd: "grows m \<Longrightarrow> calm S (snd (on_perm m S))"
  by (cases "on_perm m S") (auto dest: calm_on_perm)

lemma grows_end [growing]: "grows (endWhere c v P who reason)"
proof -
  have "grows (end_loop c v who reason is)" for "is"
    by (induction c v who reason "is" rule: end_loop.induct) (auto intro!: growing)
  then show ?thesis unfolding endWhere_def by (intro growing)
qed


section \<open>A start uses up its approval and its grants\<close>

text \<open>The rows of a later table stand for the same grants.\<close>

definition older :: "perm \<Rightarrow> perm \<Rightarrow> bool" where
  "older s s' \<longleftrightarrow> (\<forall>i r'. map_of (db_grants (pm_db s')) i = Some r' \<longrightarrow> (\<exists>r. map_of (db_grants (pm_db s)) i = Some r \<and>
     gr_person r = gr_person r' \<and> gr_agent r = gr_agent r' \<and> gr_duration r = gr_duration r' \<and> gr_actionHash r = gr_actionHash r'))"

definition dates :: "'a op \<Rightarrow> bool" where
  "dates m \<longleftrightarrow> (\<forall>s r s'. m s = (r, s') \<longrightarrow> older s s')"

named_theorems dating

lemma older_same: "db_grants (pm_db s') = db_grants (pm_db s) \<Longrightarrow> older s s'"
  by (simp add: older_def)

lemma olderE:
  assumes "older s s'" and "map_of (db_grants (pm_db s')) i = Some r'"
  obtains r where "map_of (db_grants (pm_db s)) i = Some r" "gr_person r = gr_person r'" "gr_agent r = gr_agent r'"
    "gr_duration r = gr_duration r'" "gr_actionHash r = gr_actionHash r'"
  using assms unfolding older_def by blast

lemma older_trans:
  assumes "older s s'" and "older s' s''"
  shows "older s s''"
  unfolding older_def
proof (intro allI impI)
  fix i r''
  assume "map_of (db_grants (pm_db s'')) i = Some r''"
  with assms(2) obtain r' where r': "map_of (db_grants (pm_db s')) i = Some r'" "gr_person r' = gr_person r''" "gr_agent r' = gr_agent r''"
    "gr_duration r' = gr_duration r''" "gr_actionHash r' = gr_actionHash r''" by (rule olderE)
  from assms(1) r'(1) obtain r where "map_of (db_grants (pm_db s)) i = Some r" "gr_person r = gr_person r'" "gr_agent r = gr_agent r'"
    "gr_duration r = gr_duration r'" "gr_actionHash r = gr_actionHash r'" by (rule olderE)
  with r' show "\<exists>r. map_of (db_grants (pm_db s)) i = Some r \<and> gr_person r = gr_person r'' \<and> gr_agent r = gr_agent r'' \<and>
     gr_duration r = gr_duration r'' \<and> gr_actionHash r = gr_actionHash r''" by simp
qed

lemma dates_basic [dating]: "dates (ret x)" "dates (raise y)" "dates (query q)"
  by (simp_all add: dates_def older_same)

lemma dates_bind [dating]: "dates m \<Longrightarrow> (\<And>x. dates (f x)) \<Longrightarrow> dates (bind_op m f)"
  unfolding dates_def
proof (intro allI impI)
  fix s r s''
  assume m: "\<forall>s r s'. m s = (r, s') \<longrightarrow> older s s'" and f: "\<And>x. \<forall>s r s'. f x s = (r, s') \<longrightarrow> older s s'" and run: "bind_op m f s = (r, s'')"
  obtain q s1 where q: "m s = (q, s1)" by fastforce
  show "older s s''"
  proof (cases q)
    case (Inl e)
    with run q m show ?thesis by (auto simp: bind_op_def)
  next
    case (Inr x)
    then have "f x s1 = (r, s'')" using run q by (simp add: bind_op_def)
    with m f q older_trans show ?thesis by blast
  qed
qed

lemma dates_if [dating]: "dates m \<Longrightarrow> dates m' \<Longrightarrow> dates (if P then m else m')"
  by simp

lemma dates_option [dating]: "dates m \<Longrightarrow> (\<And>x. dates (f x)) \<Longrightarrow> dates (case z of None \<Rightarrow> m | Some x \<Rightarrow> f x)"
  by (cases z) simp_all

lemma dates_prod [dating]: "(\<And>x y. dates (f x y)) \<Longrightarrow> dates (case z of (x, y) \<Rightarrow> f x y)"
  by (cases z) simp

lemma dates_snapshot [dating]: "dates (chain_snapshot c)"
  by (auto simp: dates_def chain_snapshot_def split: option.splits intro: older_same)

lemma dates_insert_entry [dating]: "dates (insert_entry c e)"
  unfolding dates_def using insert_entry_state by (blast intro: older_same)

lemma dates_append [dating]: "dates (chain_append c now kind ref payload nonce)"
proof -
  have "dates (append_run c now kind ref payload nonce)" unfolding append_run_def by (intro dating)
  then show ?thesis unfolding dates_def chain_append_def older_def by (fastforce split: prod.splits)
qed

lemma dates_update [dating]: "dates (update_grant i (\<lambda>r. r\<lparr>gr_lastUsedAt := x\<rparr>))" "dates (update_grant i (\<lambda>r. r\<lparr>gr_consumedAt := y, gr_lastUsedAt := x\<rparr>))"
  by (auto simp: dates_def older_def)

lemma dates_note [dating]: "dates (note_op v a g x)" "dates (emit v ch g st)"
  by (auto simp: dates_def note_op_def emit_def Let_def split: option.splits if_splits intro: older_same)

lemma dates_viewOf [dating]: "dates (viewOf c i)" "dates (grant_get c i)"
  unfolding grant_get_def viewOf_def by (intro dating)+

lemma dates_marks [dating]: "dates (mark_in_txn c v i)" "dates (consumeOnce_body c v j p a h)"
  unfolding mark_in_txn_def markUsed_body_def consumeOnce_body_def by (intro dating)+

lemma datesD: "dates m \<Longrightarrow> m s = (r, s') \<Longrightarrow> older s s'"
  unfolding dates_def by blast

definition grant_spent :: "perm \<Rightarrow> perm \<Rightarrow> approval_ask \<Rightarrow> string \<Rightarrow> bool" where
  "grant_spent s s' a i \<longleftrightarrow> (\<exists>r. map_of (db_grants (pm_db s)) i = Some r \<and> gr_person r = as_principal a \<and> gr_agent r = as_agentId a \<and>
     (gr_duration r = Once \<longrightarrow> gr_actionHash r = Some (as_actionHash a) \<and> (\<exists>e\<in>set (db_rows (pm_db s')). has_kind ''grant.consumed'' i e)))"

lemma grant_spent_mono:
  assumes "grant_spent s1 s2 a i" and "older s0 s1" and "set (db_rows (pm_db s2)) \<subseteq> set (db_rows (pm_db s3))"
  shows "grant_spent s0 s3 a i"
proof -
  from assms(1) obtain r where r: "map_of (db_grants (pm_db s1)) i = Some r" "gr_person r = as_principal a" "gr_agent r = as_agentId a"
    "gr_duration r = Once \<longrightarrow> gr_actionHash r = Some (as_actionHash a) \<and> (\<exists>e\<in>set (db_rows (pm_db s2)). has_kind ''grant.consumed'' i e)"
    unfolding grant_spent_def by blast
  from assms(2) r(1) obtain r0 where "map_of (db_grants (pm_db s0)) i = Some r0" "gr_person r0 = gr_person r" "gr_agent r0 = gr_agent r"
    "gr_duration r0 = gr_duration r" "gr_actionHash r0 = gr_actionHash r" by (rule olderE)
  with r assms(3) show ?thesis unfolding grant_spent_def by auto
qed

lemma mark_in_txn_inv:
  assumes "kept_inv c s" and "mark_in_txn c v i s = (Inr (), s')"
  shows "kept_inv c s'"
proof -
  from assms(2) obtain w s1 where m: "markUsed_body c v i s = (Inr w, s1)" and t: "(case w of None \<Rightarrow> ret () | Some (g, st) \<Rightarrow> emit v ''used'' g st) s1 = (Inr (), s')"
    unfolding mark_in_txn_def by (rule bind_op_InrE)
  have k: "kept_inv c s1" using markUsed_ok [of c s v i] assms(1) m by (simp add: kept_inv_def)
  show ?thesis
  proof (cases w)
    case (Some p)
    obtain g st where p: "p = (g, st)" by fastforce
    obtain x y where "emit v ''used'' g st s1 = (Inr (), s1\<lparr>pm_emitted := x, pm_notices := y\<rparr>)" using emit_state [of v "''used''" g st s1] by blast
    with t Some p k show ?thesis by auto
  qed (use t k in simp)
qed

lemma grant_step:
  assumes k: "kept_inv c s"
    and run: "bind_op (grant_get c i) (\<lambda>w. case w of
        None \<Rightarrow> raise (Refused ''grant-mismatch'')
      | Some g \<Rightarrow>
        (if g_person g \<noteq> as_principal a \<or> g_agent g \<noteq> as_agentId a then raise (Refused ''grant-mismatch'')
         else if g_scope g = Once then
           bind_op (consume_in_txn c v i (as_principal a) (as_agentId a) (as_actionHash a)) (\<lambda>b. if b then ret () else raise (Refused ''grant-used''))
         else mark_in_txn c v i)) s = (Inr (), s')"
  shows "kept_inv c s' \<and> older s s' \<and> grant_spent s s' a i"
proof -
  have p: "perm_inv c s" "signer_ok c (pm_signer s)" using k by (simp_all add: kept_inv_def)
  obtain ca where w: "viewOf c i s = (Inr (map_option (view_of (here s) i) (map_of (db_grants (pm_db s)) i)), s\<lparr>pm_cache := ca\<rparr>)"
    "chain_inv c (s\<lparr>pm_cache := ca\<rparr>)"
    by (rule viewOf_eq [OF perm_inv_chain [OF p(1)]])
  let ?s0 = "s\<lparr>pm_cache := ca\<rparr>"
  have k0: "kept_inv c ?s0" using k w(2) by (simp add: kept_inv_def perm_inv_def store_inv_def)
  have p0: "perm_inv c ?s0" "signer_ok c (pm_signer ?s0)" using k0 by (simp_all add: kept_inv_def)
  have "map_of (db_grants (pm_db s)) i \<noteq> None"
  proof
    assume "map_of (db_grants (pm_db s)) i = None"
    then have "grant_get c i s = (Inr None, ?s0)" using w(1) by (simp add: grant_get_def bind_op_def)
    then show False using run unfolding bind_op_def [of "grant_get c i"] by simp
  qed
  then obtain r where r: "map_of (db_grants (pm_db s)) i = Some r" by blast
  define g where "g = fst (view_of (here s) i r)"
  have get: "grant_get c i s = (Inr (if snd (view_of (here s) i r) = Suspended then None else Some g), ?s0)"
    using w(1) r by (simp add: grant_get_def bind_op_def g_def split: prod.splits)
  have own: "g_person g = as_principal a" "g_agent g = as_agentId a" and ns: "snd (view_of (here s) i r) \<noteq> Suspended"
    using run unfolding bind_op_def [of "grant_get c i"] get by (auto split: if_splits)
  have row: "gr_person r = as_principal a" "gr_agent r = as_agentId a" "gr_duration r = g_scope g" using own by (simp_all add: g_def view_fields)
  have o0: "older s ?s0" by (rule older_same) simp
  show ?thesis
  proof (cases "g_scope g = Once")
    case True
    have "bind_op (consume_in_txn c v i (as_principal a) (as_agentId a) (as_actionHash a)) (\<lambda>b. if b then ret () else raise (Refused ''grant-used'')) ?s0 = (Inr (), s')"
      using run own ns True unfolding bind_op_def [of "grant_get c i"] get by (simp add: bind_op_def [of "consume_in_txn c v i _ _ _"])
    then obtain b s1 where "consume_in_txn c v i (as_principal a) (as_agentId a) (as_actionHash a) ?s0 = (Inr b, s1)"
      and "(if b then ret () else raise (Refused ''grant-used'')) s1 = (Inr (), s')" by (rule bind_op_InrE)
    then have "consume_in_txn c v i (as_principal a) (as_agentId a) (as_actionHash a) ?s0 = (Inr True, s')" by (cases b) simp_all
    then have body: "consumeOnce_body c v i (as_principal a) (as_agentId a) (as_actionHash a) ?s0 = (Inr True, s')"
      by (auto simp: consume_in_txn_def split: prod.splits sum.splits exn.splits)
    from p0 body show ?thesis
    proof (cases rule: consumeE)
      case (consumed row' e)
      then have "row' = r" using r by simp
      with consumed have "grant_spent s s' a i" using r row by (auto simp: grant_spent_def consumable_def)
      moreover have "kept_inv c s'" using consumed p0 by (simp add: kept_inv_def)
      moreover have "older s s'" using older_trans [OF o0 datesD [OF dates_marks(2) body]] .
      ultimately show ?thesis by blast
    qed simp_all
  next
    case False
    then have m: "mark_in_txn c v i ?s0 = (Inr (), s')"
      using run own ns unfolding bind_op_def [of "grant_get c i"] get by simp
    have "grant_spent s s' a i" using r row False by (auto simp: grant_spent_def)
    then show ?thesis using mark_in_txn_inv [OF k0 m] older_trans [OF o0 datesD [OF dates_marks(1) m]] by blast
  qed
qed

lemma rec_op_state: "rec_op v a l s = (Inr u, s') \<Longrightarrow> \<exists>al. s' = s\<lparr>pm_audit := al\<rparr>"
  by (auto simp: rec_op_def split: option.splits if_splits intro: exI [of _ "pm_audit s"])

lemma begin_grants_spent:
  assumes "kept_inv c s" and "begin_grants c v a is s = (Inr (), s')"
  shows "kept_inv c s' \<and> older s s' \<and> (\<forall>i\<in>set is. grant_spent s s' a i)"
  using assms
proof (induction "is" arbitrary: s)
  case Nil
  then show ?case by (simp add: older_same)
next
  case (Cons i "is")
  let ?f = "\<lambda>w. case w of
        None \<Rightarrow> raise (Refused ''grant-mismatch'')
      | Some g \<Rightarrow>
        (if g_person g \<noteq> as_principal a \<or> g_agent g \<noteq> as_agentId a then raise (Refused ''grant-mismatch'')
         else if g_scope g = Once then
           bind_op (consume_in_txn c (sx_grant v) i (as_principal a) (as_agentId a) (as_actionHash a)) (\<lambda>b. if b then ret () else raise (Refused ''grant-used''))
         else mark_in_txn c (sx_grant v) i)"
  from Cons.prems(2) obtain w s0 where w: "grant_get c i s = (Inr w, s0)" "bind_op (?f w) (\<lambda>_. begin_grants c v a is) s0 = (Inr (), s')"
    unfolding begin_grants.simps by (rule bind_op_InrE)
  from w(2) obtain u s1 where u: "?f w s0 = (Inr u, s1)" "begin_grants c v a is s1 = (Inr (), s')" by (rule bind_op_InrE)
  have step: "bind_op (grant_get c i) ?f s = (Inr (), s1)" using w(1) u(1) by (simp add: bind_op_def [of "grant_get c i"])
  note st = grant_step [OF Cons.prems(1) step]
  note IH = Cons.IH [OF conjunct1 [OF st] u(2)]
  have sub: "set (db_rows (pm_db s1)) \<subseteq> set (db_rows (pm_db s'))" by (rule growsD [OF grows_begin u(2)])
  have "grant_spent s s' a j" if "j \<in> set (i # is)" for j
  proof (cases "j = i")
    case True
    with st grant_spent_mono [of s s1 a i s s'] sub show ?thesis by (simp add: older_same)
  next
    case False
    with that IH st grant_spent_mono [of s1 s' a j s s'] show ?thesis by simp
  qed
  with IH st older_trans show ?case by blast
qed


section \<open>A refused start breaks the chain\<close>

text \<open>The grant is revoked before the call starts; the start is refused; another call asks.\<close>

definition sample_revoked :: perm where
  "sample_revoked = snd (grant_revoke tiny_crypto quiet_env ''g1'' ''anna'' ''revoked'' sample_store_perm)"

definition refused_start :: "bool \<times> service" where
  "refused_start = service_begin tiny_crypto (sample_senv ''x'' ''y'') sample_answer sample_ask ((init_service None)\<lparr>sv_perm := sample_revoked\<rparr>)"

definition verdict_after :: "service \<Rightarrow> (exn, (nat \<times> verify_failure) option) result" where
  "verdict_after S = fst (service_verify tiny_crypto (sample_senv ''x'' ''y'') (snd (on_perm (store_request tiny_crypto (sx_store (sample_senv ''r2'' ''n2'')) sample_request_input) S)))"

lemma sample_store_reach: "perm_reach tiny_crypto sample_store_perm"
  unfolding sample_store_perm_def
  by (rule perm_reach.create, rule perm_reach.decide, rule perm_reach.request, rule perm_reach.start) (simp add: signer_ok_def)

lemma sample_revoked_reach: "perm_reach tiny_crypto sample_revoked"
  unfolding sample_revoked_def by (rule perm_reach.revoke) (rule sample_store_reach)


section \<open>Witnesses\<close>

lemma sample_approved_reach: "service_reach tiny_crypto sample_approved"
  unfolding sample_approved_def by (rule service_reach.decide_session, rule service_reach.request, rule service_reach.start)



end
