(* ===== verification/Ip_Address.thy ===== *)
theory Ip_Address
  imports Js_Values "HOL-Library.Word"
begin

unbundle bit_operations_syntax

text \<open>
  The address classifier of the SSRF guard, \<^verbatim>\<open>packages/core/src/tools/web/ip.ts\<close>: parsing of IPv4 and IPv6 literals in every
  spelling a resolver accepts, CIDR ranges, the registry tables, the verdict on an address and the search for the
  lowest public address of a range.

  A \<open>Uint8Array\<close> is a list of \<open>8 word\<close>; a read past its end is \<open>undefined\<close>, which every bitwise operator turns into 0. A
  \<open>bigint\<close> is an \<open>int\<close>. Numbers read by \<open>parseInt\<close> are exact integers: the code compares them with powers of 256 only, on
  which rounding does not show. The recursive search is a partial function: not returning is \<open>None\<close>.
\<close>

section \<open>Data\<close>

type_synonym uint8_array = "8 word list"

datatype ip_family = V4 | V6

record parsed_address =
  pa_family :: ip_family
  pa_bytes :: uint8_array

record ip_verdict =
  vd_public :: bool
  vd_reason :: "string option"

record cidr =
  cd_family :: ip_family
  cd_bytes :: uint8_array
  cd_prefix :: nat

definition byte_at :: "uint8_array \<Rightarrow> nat \<Rightarrow> 8 word" where
  "byte_at b i = (if i < length b then b ! i else 0)"

section \<open>Numerals and substrings\<close>

definition digit_val :: "char \<Rightarrow> int option" where
  "digit_val c = (let n = of_char c :: int in
     if 48 \<le> n \<and> n \<le> 57 then Some (n - 48)
     else if 65 \<le> n \<and> n \<le> 70 then Some (n - 55)
     else if 97 \<le> n \<and> n \<le> 102 then Some (n - 87)
     else None)"

definition digit_in :: "int \<Rightarrow> char \<Rightarrow> bool" where
  "digit_in base c = (case digit_val c of Some d \<Rightarrow> d < base | None \<Rightarrow> False)"

definition parse_int :: "int \<Rightarrow> string \<Rightarrow> int" where
  "parse_int base s = foldl (\<lambda>n c. n * base + the (digit_val c)) 0 s"

fun index_of :: "string \<Rightarrow> string \<Rightarrow> nat option" where
  "index_of p [] = (if p = [] then Some 0 else None)"
| "index_of p (c # cs) = (if prefix p (c # cs) then Some 0 else map_option Suc (index_of p cs))"

fun last_index_of :: "string \<Rightarrow> string \<Rightarrow> nat option" where
  "last_index_of p [] = (if p = [] then Some 0 else None)"
| "last_index_of p (c # cs) =
     (case last_index_of p cs of
        Some i \<Rightarrow> Some (Suc i)
      | None \<Rightarrow> if prefix p (c # cs) then Some 0 else None)"

section \<open>Parsing\<close>

definition parseV4Part :: "string \<Rightarrow> int option" where
  "parseV4Part s =
    (if 2 < length s \<and> s ! 0 = CHR ''0'' \<and> (s ! 1 = CHR ''x'' \<or> s ! 1 = CHR ''X'') \<and> list_all (digit_in 16) (drop 2 s)
     then Some (parse_int 16 (drop 2 s))
     else if s \<noteq> [] \<and> hd s = CHR ''0'' \<and> list_all (digit_in 8) (tl s)
     then Some (if length s = 1 then 0 else parse_int 8 s)
     else if s \<noteq> [] \<and> hd s \<noteq> CHR ''0'' \<and> list_all (digit_in 10) s then Some (parse_int 10 s)
     else None)"

text \<open>\<open>/^(0|[1-9][0-9]{0,2})$/\<close>.\<close>

definition canonical_part :: "string \<Rightarrow> bool" where
  "canonical_part p \<longleftrightarrow> p = ''0'' \<or> p \<noteq> [] \<and> length p \<le> 3 \<and> hd p \<noteq> CHR ''0'' \<and> list_all (digit_in 10) p"

fun v4_nums :: "bool \<Rightarrow> string list \<Rightarrow> int list option" where
  "v4_nums strict [] = Some []"
| "v4_nums strict (p # ps) =
     (if strict \<and> \<not> canonical_part p then None
      else (case parseV4Part p of
              None \<Rightarrow> None
            | Some n \<Rightarrow> map_option (Cons n) (v4_nums strict ps)))"

definition parseV4 :: "string \<Rightarrow> bool \<Rightarrow> uint8_array option" where
  "parseV4 s strict =
    (let parts = split_on (\<lambda>c. c = CHR ''.'') s in
     if 4 < length parts then None
     else if strict \<and> length parts \<noteq> 4 then None
     else (case v4_nums strict parts of
             None \<Rightarrow> None
           | Some nums \<Rightarrow>
             (let lst = last nums; lastBytes = 5 - length nums in
              if 256 ^ lastBytes \<le> lst then None
              else if list_ex (\<lambda>n. 255 < n) (butlast nums) then None
              else Some (map word_of_int (butlast nums) @
                         map (\<lambda>i. word_of_int (lst div 256 ^ i mod 256)) (rev [0..<lastBytes])))))"

definition is_group :: "string \<Rightarrow> bool" where
  "is_group h \<longleftrightarrow> h \<noteq> [] \<and> length h \<le> 4 \<and> list_all (digit_in 16) h"

definition toGroups :: "string \<Rightarrow> int list option" where
  "toGroups part =
    (if part = [] then Some []
     else (let hs = split_on (\<lambda>c. c = CHR '':'') part in
           if list_all is_group hs then Some (map (parse_int 16) hs) else None))"

text \<open>\<open>(hi << 8) | lo\<close> of two bytes.\<close>

definition pair16 :: "8 word \<Rightarrow> 8 word \<Rightarrow> int" where
  "pair16 hi lo = push_bit 8 (uint hi) OR uint lo"

text \<open>The dotted tail of an IPv6 literal: what is left of the literal, and the groups the tail gives.\<close>

definition split_tail :: "string \<Rightarrow> (string \<times> int list) option" where
  "split_tail s =
    (let lastPart = rev (takeWhile (\<lambda>c. c \<noteq> CHR '':'') (rev s));
         front = rev (dropWhile (\<lambda>c. c \<noteq> CHR '':'') (rev s))
     in if CHR ''.'' \<in> set lastPart then
          (case parseV4 lastPart True of
             None \<Rightarrow> None
           | Some v \<Rightarrow> Some (if suffix ''::'' front then front else butlast front,
                             [pair16 (byte_at v 0) (byte_at v 1), pair16 (byte_at v 2) (byte_at v 3)]))
        else Some (s, []))"

definition v6_groups :: "string \<Rightarrow> int list \<Rightarrow> int list option" where
  "v6_groups head tail =
    (let dbl = index_of ''::'' head in
     if dbl \<noteq> last_index_of ''::'' head then None
     else (case dbl of
             Some d \<Rightarrow>
               (case (toGroups (take d head), toGroups (drop (d + 2) head)) of
                  (Some a, Some b) \<Rightarrow>
                    (if 8 \<le> length a + length b + length tail then None
                     else Some (a @ replicate (8 - length a - length b - length tail) 0 @ b @ tail))
                | _ \<Rightarrow> None)
           | None \<Rightarrow> map_option (\<lambda>a. a @ tail) (toGroups head)))"

definition v6_char :: "char \<Rightarrow> bool" where
  "v6_char c \<longleftrightarrow> digit_in 16 c \<or> c = CHR '':'' \<or> c = CHR ''.''"

definition group_bytes :: "int \<Rightarrow> uint8_array" where
  "group_bytes g = [word_of_int (drop_bit 8 g), word_of_int (g AND 0xff)]"

definition parseV6 :: "string \<Rightarrow> uint8_array option" where
  "parseV6 s =
    (if s = [] \<or> \<not> list_all v6_char s \<or> CHR '':'' \<notin> set s then None
     else (case split_tail s of
             None \<Rightarrow> None
           | Some (head, tail) \<Rightarrow>
             (case v6_groups head tail of
                None \<Rightarrow> None
              | Some groups \<Rightarrow>
                if length groups \<noteq> 8 then None else Some (concat (map group_bytes groups)))))"

definition unbracket :: "string \<Rightarrow> string" where
  "unbracket s = (if prefix ''['' s \<and> suffix '']'' s then butlast (tl s) else s)"

definition parseAddress :: "string \<Rightarrow> bool \<Rightarrow> parsed_address option" where
  "parseAddress input strict =
    (let s = unbracket (js_trim input) in
     if s = [] then None
     else if CHR '':'' \<in> set s
     then map_option (\<lambda>b. \<lparr>pa_family = V6, pa_bytes = b\<rparr>) (parseV6 s)
     else map_option (\<lambda>b. \<lparr>pa_family = V4, pa_bytes = b\<rparr>) (parseV4 s strict))"

definition isV4Mapped :: "uint8_array \<Rightarrow> bool" where
  "isV4Mapped b \<longleftrightarrow> list_all (\<lambda>x. x = 0) (take 10 b) \<and> byte_at b 10 = 0xff \<and> byte_at b 11 = 0xff"

definition canonical :: "parsed_address \<Rightarrow> parsed_address" where
  "canonical a =
    (if pa_family a = V6 \<and> isV4Mapped (pa_bytes a)
     then \<lparr>pa_family = V4, pa_bytes = drop 12 (pa_bytes a)\<rparr> else a)"

section \<open>Ranges\<close>

fun cidr_loop :: "uint8_array \<Rightarrow> uint8_array \<Rightarrow> nat \<Rightarrow> nat \<Rightarrow> bool" where
  "cidr_loop a c i bits =
    (if bits = 0 then True
     else (let mask = (if 8 \<le> bits then 0xff else push_bit (8 - bits) 0xff) in
           if byte_at a i AND mask \<noteq> byte_at c i AND mask then False
           else cidr_loop a c (i + 1) (bits - 8)))"

declare cidr_loop.simps [simp del]

definition inCidr :: "parsed_address \<Rightarrow> cidr \<Rightarrow> bool" where
  "inCidr a c = (let addr = canonical a in
     pa_family addr = cd_family c \<and> cidr_loop (pa_bytes addr) (cd_bytes c) 0 (cd_prefix c))"

definition ip_width :: "ip_family \<Rightarrow> nat" where
  "ip_width f = (case f of V4 \<Rightarrow> 32 | V6 \<Rightarrow> 128)"

definition parseCidr :: "string \<Rightarrow> cidr option" where
  "parseCidr input =
    (case split_on (\<lambda>c. c = CHR ''/'') input of
       [addr] \<Rightarrow>
         map_option (\<lambda>a. \<lparr>cd_family = pa_family a, cd_bytes = pa_bytes a, cd_prefix = ip_width (pa_family a)\<rparr>)
           (parseAddress addr True)
     | [addr, p] \<Rightarrow>
         (case parseAddress addr True of
            None \<Rightarrow> None
          | Some a \<Rightarrow>
            (if p = [] \<or> 3 < length p \<or> \<not> list_all (digit_in 10) p then None
             else if int (ip_width (pa_family a)) < parse_int 10 p then None
             else Some \<lparr>cd_family = pa_family a, cd_bytes = pa_bytes a, cd_prefix = nat (parse_int 10 p)\<rparr>))
     | _ \<Rightarrow> None)"

section \<open>The registry tables\<close>

definition v4Table :: "(string \<times> string) list" where
  "v4Table =
    [(''0.0.0.0/8'', ''unspecified''), (''10.0.0.0/8'', ''private''), (''100.64.0.0/10'', ''shared-address-space''),
     (''127.0.0.0/8'', ''loopback''), (''169.254.0.0/16'', ''link-local''), (''168.63.129.16/32'', ''cloud-metadata''),
     (''172.16.0.0/12'', ''private''), (''192.0.0.0/24'', ''reserved''), (''192.0.2.0/24'', ''reserved''),
     (''192.88.99.0/24'', ''reserved''), (''192.168.0.0/16'', ''private''), (''198.18.0.0/15'', ''reserved''),
     (''198.51.100.0/24'', ''reserved''), (''203.0.113.0/24'', ''reserved''), (''224.0.0.0/4'', ''multicast''),
     (''240.0.0.0/4'', ''reserved'')]"

definition v6Table :: "(string \<times> string) list" where
  "v6Table =
    [(''::/128'', ''unspecified''), (''::1/128'', ''loopback''), (''::/96'', ''reserved''),
     (''64:ff9b:1::/48'', ''reserved''), (''100::/64'', ''reserved''), (''2001::/23'', ''reserved''),
     (''2001:db8::/32'', ''reserved''), (''3fff::/20'', ''reserved''), (''fc00::/7'', ''private''),
     (''fe80::/10'', ''link-local''), (''fec0::/10'', ''reserved''), (''ff00::/8'', ''multicast'')]"

fun add_ranges :: "(string \<times> string) list \<Rightarrow> (cidr \<times> string) list" where
  "add_ranges [] = []"
| "add_ranges ((s, reason) # rest) =
     (case parseCidr s of Some c \<Rightarrow> (c, reason) # add_ranges rest | None \<Rightarrow> add_ranges rest)"

definition v4Ranges :: "(cidr \<times> string) list" where
  "v4Ranges = add_ranges v4Table"

definition v6Ranges :: "(cidr \<times> string) list" where
  "v6Ranges = add_ranges v6Table"

definition classificationTable :: "(string \<times> string) list" where
  "classificationTable = filter (\<lambda>(s, reason). parseCidr s \<noteq> None) (v4Table @ v6Table)"

section \<open>The verdict\<close>

definition refused :: "string \<Rightarrow> ip_verdict" where
  "refused reason = \<lparr>vd_public = False, vd_reason = Some reason\<rparr>"

definition verdict_public :: ip_verdict where
  "verdict_public = \<lparr>vd_public = True, vd_reason = None\<rparr>"

definition classifyV4 :: "uint8_array \<Rightarrow> ip_verdict" where
  "classifyV4 bytes =
    (if list_all (\<lambda>x. x = 255) bytes then refused ''reserved''
     else (case List.find (\<lambda>(c, _). inCidr \<lparr>pa_family = V4, pa_bytes = bytes\<rparr> c) v4Ranges of
             Some (_, reason) \<Rightarrow> refused reason
           | None \<Rightarrow> verdict_public))"

definition classifyAddress :: "parsed_address \<Rightarrow> ip_verdict" where
  "classifyAddress input =
    (let a = canonical input; b = pa_bytes a; w = (\<lambda>i. pair16 (byte_at b i) (byte_at b (i + 1))) in
     if pa_family a = V4 then classifyV4 b
     else if w 0 = 0x64 \<and> w 2 = 0xff9b \<and> list_all (\<lambda>x. x = 0) (take 8 (drop 4 b)) then classifyV4 (drop 12 b)
     else if w 0 = 0x2002 then classifyV4 (take 4 (drop 2 b))
     else (case List.find (\<lambda>(c, _). inCidr a c) v6Ranges of
             Some (_, reason) \<Rightarrow> refused reason
           | None \<Rightarrow> if byte_at b 0 AND 0xe0 \<noteq> 0x20 then refused ''reserved'' else verdict_public))"

section \<open>The lowest public address of a range\<close>

record span =
  sp_base :: int
  sp_prefix :: nat

record family =
  fm_width :: nat
  fm_closed :: "span list"
  fm_embedded :: "span list"

definition bigOf :: "uint8_array \<Rightarrow> int" where
  "bigOf bytes = foldl (\<lambda>n b. push_bit 8 n OR uint b) 0 bytes"

definition maskTo :: "int \<Rightarrow> nat \<Rightarrow> nat \<Rightarrow> int" where
  "maskTo n width p = push_bit (width - p) (drop_bit (width - p) n)"

definition spanFrom :: "cidr \<Rightarrow> nat \<Rightarrow> span" where
  "spanFrom c width = \<lparr>sp_base = maskTo (bigOf (cd_bytes c)) width (cd_prefix c), sp_prefix = cd_prefix c\<rparr>"

definition spanOf :: "string \<Rightarrow> nat \<Rightarrow> span" where
  "spanOf s width = spanFrom (the (parseCidr s)) width"

definition covers :: "span \<Rightarrow> span \<Rightarrow> nat \<Rightarrow> bool" where
  "covers outer inner width \<longleftrightarrow>
     sp_prefix outer \<le> sp_prefix inner \<and> maskTo (sp_base inner) width (sp_prefix outer) = sp_base outer"

definition FAMILY_V4 :: family where
  "FAMILY_V4 = \<lparr>fm_width = 32,
     fm_closed = map (\<lambda>(c, _). spanFrom c 32) v4Ranges @ [spanOf ''255.255.255.255/32'' 32],
     fm_embedded = []\<rparr>"

definition FAMILY_V6 :: family where
  "FAMILY_V6 = \<lparr>fm_width = 128,
     fm_closed = map (\<lambda>(c, _). spanFrom c 128) v6Ranges @
       [spanOf ''::/3'' 128, spanOf ''4000::/2'' 128, spanOf ''8000::/1'' 128],
     fm_embedded = [spanOf ''::ffff:0:0/96'' 128, spanOf ''64:ff9b::/96'' 128, spanOf ''2002::/16'' 128]\<rparr>"

definition carried :: "nat \<Rightarrow> span \<Rightarrow> int \<Rightarrow> nat \<Rightarrow> int" where
  "carried width e base cp = maskTo (drop_bit (width - sp_prefix e - 32) base AND 0xffffffff) 32 cp"

definition put_back :: "nat \<Rightarrow> span \<Rightarrow> int \<Rightarrow> int \<Rightarrow> int" where
  "put_back width e base found =
    (let shift = width - sp_prefix e - 32 in (base AND NOT (push_bit shift 0xffffffff)) OR push_bit shift found)"

partial_function (option) firstPublic :: "family \<Rightarrow> family \<Rightarrow> int \<Rightarrow> nat \<Rightarrow> int option option" where
  [code]: "firstPublic f v4 base p =
    (let w = fm_width f; range = \<lparr>sp_base = maskTo base w p, sp_prefix = p\<rparr> in
     case List.find (\<lambda>e. covers e range w) (fm_embedded f) of
       Some e \<Rightarrow>
         (let cp = min 32 (p - sp_prefix e) in
          Option.bind (firstPublic v4 v4 (carried w e (sp_base range) cp) cp)
            (\<lambda>found. Some (map_option (put_back w e (sp_base range)) found)))
     | None \<Rightarrow>
         (let holdsEmbedded = list_ex (\<lambda>e. covers range e w) (fm_embedded f) in
          if \<not> holdsEmbedded \<and> list_ex (\<lambda>c. covers c range w) (fm_closed f) then Some None
          else if \<not> holdsEmbedded \<and> \<not> list_ex (\<lambda>c. covers range c w) (fm_closed f) then Some (Some (sp_base range))
          else if w \<le> p then Some None
          else Option.bind (firstPublic f v4 (sp_base range) (p + 1))
            (\<lambda>lower. case lower of
                Some x \<Rightarrow> Some (Some x)
              | None \<Rightarrow> firstPublic f v4 (sp_base range OR push_bit (w - p - 1) 1) (p + 1))))"

fun bytes_of :: "nat \<Rightarrow> int \<Rightarrow> uint8_array" where
  "bytes_of 0 n = []"
| "bytes_of (Suc k) n = bytes_of k (drop_bit 8 n) @ [word_of_int (n AND 0xff)]"

definition family_of :: "ip_family \<Rightarrow> family" where
  "family_of fam = (case fam of V4 \<Rightarrow> FAMILY_V4 | V6 \<Rightarrow> FAMILY_V6)"

text \<open>The outer \<open>option\<close> is returning at all, the inner one the code's \<open>null\<close>.\<close>

definition cidrContainsPublic :: "cidr \<Rightarrow> parsed_address option option" where
  "cidrContainsPublic c =
    Option.bind (firstPublic (family_of (cd_family c)) FAMILY_V4 (bigOf (cd_bytes c)) (cd_prefix c))
      (\<lambda>found. Some (map_option
         (\<lambda>n. \<lparr>pa_family = cd_family c, pa_bytes = bytes_of (fm_width (family_of (cd_family c)) div 8) n\<rparr>) found))"

end
