(* ===== verification/Ip_Search.thy ===== *)
theory Ip_Search
  imports Ip_Address
begin

text \<open>
  The search for the lowest public address of a range, against an arithmetic reading of a family: a span is the set of
  numbers with its leading bits, two spans are nested or disjoint, and \<open>fam_public\<close> says which numbers are public. The search
  returns on every family with well-formed spans, and what it returns is the least public number of the range.
\<close>

section \<open>Spans as sets of numbers\<close>

definition span_has :: "nat \<Rightarrow> span \<Rightarrow> int \<Rightarrow> bool" where
  "span_has w s n \<longleftrightarrow> maskTo n w (sp_prefix s) = sp_base s"

definition range_at :: "nat \<Rightarrow> int \<Rightarrow> nat \<Rightarrow> span" where
  "range_at w base p = \<lparr>sp_base = maskTo base w p, sp_prefix = p\<rparr>"

lemma maskTo_div: "maskTo n w p = n div 2 ^ (w - p) * 2 ^ (w - p)"
  by (simp add: maskTo_def push_bit_eq_mult drop_bit_eq_div)

lemma maskTo_eq_iff: "maskTo m w p = maskTo n w p \<longleftrightarrow> m div 2 ^ (w - p) = n div 2 ^ (w - p)"
  by (simp add: maskTo_div)

lemma maskTo_maskTo: "q \<le> p \<Longrightarrow> p \<le> w \<Longrightarrow> maskTo (maskTo n w p) w q = maskTo n w q"
proof -
  assume "q \<le> p" "p \<le> w"
  then have e: "w - q = (w - p) + (p - q)" by simp
  have "n div 2 ^ (w - p) * 2 ^ (w - p) div (2 ^ (w - q)) = n div 2 ^ (w - q)"
    unfolding e power_add by (simp add: zdiv_zmult2_eq)
  then show ?thesis unfolding maskTo_div [of _ w q] by (simp add: maskTo_div [of n w p])
qed

lemma maskTo_idem [simp]: "maskTo (maskTo n w p) w p = maskTo n w p"
  by (simp add: maskTo_div)

lemma maskTo_le: "maskTo n w p \<le> n"
  by (simp add: maskTo_div) (metis add.commute div_mult_mod_eq le_add_same_cancel2 pos_mod_sign zero_less_numeral zero_less_power)

lemma maskTo_full [simp]: "maskTo n w w = n"
  by (simp add: maskTo_div)

lemma range_has: "span_has w (range_at w base p) n \<longleftrightarrow> maskTo n w p = maskTo base w p"
  by (simp add: span_has_def range_at_def)

lemma covers_has:
  assumes "covers s t w" "sp_prefix t \<le> w" "span_has w t n"
  shows "span_has w s n"
  using assms maskTo_maskTo [of "sp_prefix s" "sp_prefix t" w n] by (auto simp: covers_def span_has_def)

lemma common_covers:
  assumes "span_has w s n" "span_has w t n" "sp_prefix s \<le> sp_prefix t" "sp_prefix t \<le> w"
  shows "covers s t w"
  using assms maskTo_maskTo [of "sp_prefix s" "sp_prefix t" w n] by (auto simp: covers_def span_has_def)

text \<open>Two spans with a common number are nested.\<close>

lemma laminar:
  assumes "span_has w s n" "span_has w t n" "sp_prefix s \<le> w" "sp_prefix t \<le> w"
  shows "covers s t w \<or> covers t s w"
  using assms common_covers [of w s n t] common_covers [of w t n s] by linarith

section \<open>Halving a range\<close>

lemma half_div:
  fixes n m :: int
  shows "n div (2 * 2 ^ k) = m \<longleftrightarrow> n div 2 ^ k = 2 * m \<or> n div 2 ^ k = 2 * m + 1"
proof -
  have "n div (2 * 2 ^ k) = n div 2 ^ k div 2"
    by (metis mult.commute zdiv_zmult2_eq zero_le_numeral)
  moreover have "q div 2 = m \<longleftrightarrow> q = 2 * m \<or> q = 2 * m + 1" for q :: int
    by presburger
  ultimately show ?thesis by simp
qed

lemma or_push_bit: "2 ^ Suc k dvd (b :: int) \<Longrightarrow> b OR push_bit k 1 = b + 2 ^ k"
proof -
  assume "2 ^ Suc k dvd b"
  then obtain m where b: "b = m * 2 ^ Suc k" by (metis dvd_div_mult_self)
  then have b': "b = push_bit (Suc k) m" by (simp only: push_bit_eq_mult)
  have "b AND push_bit k 1 = 0"
    unfolding b' by (rule bit_eqI) (auto simp: bit_push_bit_iff bit_and_iff bit_1_iff bit_exp_iff simp del: push_bit_Suc)
  then have "b OR push_bit k 1 = b + push_bit k 1" by (simp add: disjunctive_add_eq_or)
  then show ?thesis by (simp add: push_bit_eq_mult)
qed

definition lower_half :: "nat \<Rightarrow> int \<Rightarrow> nat \<Rightarrow> int" where
  "lower_half w base p = maskTo base w p"

definition upper_half :: "nat \<Rightarrow> int \<Rightarrow> nat \<Rightarrow> int" where
  "upper_half w base p = maskTo base w p OR push_bit (w - p - 1) 1"

lemma halves_div:
  assumes "p < w"
  shows "lower_half w base p div 2 ^ (w - (p + 1)) = 2 * (base div 2 ^ (w - p))"
    and "upper_half w base p div 2 ^ (w - (p + 1)) = 2 * (base div 2 ^ (w - p)) + 1"
proof -
  define k where "k = w - (p + 1)"
  have k: "w - p = Suc k" "w - p - 1 = k" using assms by (auto simp: k_def)
  have m: "maskTo base w p = base div 2 ^ (w - p) * 2 ^ Suc k" by (simp only: maskTo_div k)
  show "lower_half w base p div 2 ^ (w - (p + 1)) = 2 * (base div 2 ^ (w - p))"
    unfolding lower_half_def m k_def [symmetric] by (simp add: mult.assoc)
  have "upper_half w base p = base div 2 ^ (w - p) * 2 ^ Suc k + 2 ^ k"
    unfolding upper_half_def m k(2) by (rule or_push_bit) simp
  also have "\<dots> = (2 * (base div 2 ^ (w - p)) + 1) * 2 ^ k" by (simp add: algebra_simps)
  finally show "upper_half w base p div 2 ^ (w - (p + 1)) = 2 * (base div 2 ^ (w - p)) + 1"
    unfolding k_def [symmetric] by simp
qed

lemma halves:
  assumes "p < w"
  shows "span_has w (range_at w base p) n \<longleftrightarrow>
    span_has w (range_at w (lower_half w base p) (p + 1)) n \<or> span_has w (range_at w (upper_half w base p) (p + 1)) n"
proof -
  have k: "w - p = Suc (w - (p + 1))" using assms by simp
  show ?thesis
    unfolding range_has maskTo_eq_iff halves_div [OF assms] by (subst k) (simp only: power_Suc half_div)
qed

lemma halves_ordered:
  assumes "p < w" "span_has w (range_at w (lower_half w base p) (p + 1)) m"
    "span_has w (range_at w (upper_half w base p) (p + 1)) n"
  shows "m \<le> n"
proof (rule ccontr)
  assume "\<not> m \<le> n"
  then have "n div 2 ^ (w - (p + 1)) \<le> m div 2 ^ (w - (p + 1))"
    by (intro zdiv_mono1) auto
  with assms show False unfolding range_has maskTo_eq_iff halves_div [OF assms(1)] by simp
qed

section \<open>Least elements\<close>

definition least_of :: "(int \<Rightarrow> bool) \<Rightarrow> int option \<Rightarrow> bool" where
  "least_of P r = (case r of None \<Rightarrow> \<forall>n. \<not> P n | Some x \<Rightarrow> P x \<and> (\<forall>n. P n \<longrightarrow> x \<le> n))"

lemma least_of_None [simp]: "least_of P None \<longleftrightarrow> (\<forall>n. \<not> P n)"
  by (simp add: least_of_def)

lemma least_of_Some [simp]: "least_of P (Some x) \<longleftrightarrow> P x \<and> (\<forall>n. P n \<longrightarrow> x \<le> n)"
  by (simp add: least_of_def)

lemma least_of_cong: "(\<And>n. P n = Q n) \<Longrightarrow> least_of P r = least_of Q r"
  by (simp add: least_of_def cong: option.case_cong)

lemma least_of_halves:
  assumes p: "p < w"
    and l: "least_of (\<lambda>n. span_has w (range_at w (lower_half w base p) (p + 1)) n \<and> P n) r1"
    and u: "r1 = None \<Longrightarrow> least_of (\<lambda>n. span_has w (range_at w (upper_half w base p) (p + 1)) n \<and> P n) r2"
  shows "least_of (\<lambda>n. span_has w (range_at w base p) n \<and> P n) (case r1 of Some x \<Rightarrow> Some x | None \<Rightarrow> r2)"
proof (cases r1)
  case None
  then show ?thesis using l u
    by (cases r2) (auto simp: halves [OF p])
next
  case (Some x)
  then show ?thesis using l halves_ordered [OF p] by (auto simp: halves [OF p])
qed

section \<open>The arithmetic reading of a family\<close>

definition in_closed :: "family \<Rightarrow> int \<Rightarrow> bool" where
  "in_closed f n \<longleftrightarrow> list_ex (\<lambda>c. span_has (fm_width f) c n) (fm_closed f)"

definition carried_at :: "nat \<Rightarrow> span \<Rightarrow> int \<Rightarrow> int" where
  "carried_at w e n = n div 2 ^ (w - sp_prefix e - 32) mod 2 ^ 32"

definition fam_public :: "family \<Rightarrow> family \<Rightarrow> int \<Rightarrow> bool" where
  "fam_public f v4 n =
    (case List.find (\<lambda>e. span_has (fm_width f) e n) (fm_embedded f) of
       Some e \<Rightarrow> \<not> in_closed v4 (carried_at (fm_width f) e n)
     | None \<Rightarrow> \<not> in_closed f n)"

definition wf_spans :: "family \<Rightarrow> bool" where
  "wf_spans f \<longleftrightarrow> list_all (\<lambda>c. sp_prefix c \<le> fm_width f) (fm_closed f) \<and>
     list_all (\<lambda>e. sp_prefix e + 32 \<le> fm_width f) (fm_embedded f) \<and>
     list_all (\<lambda>e. list_all (\<lambda>e'. covers e e' (fm_width f) \<longrightarrow> e = e') (fm_embedded f)) (fm_embedded f)"

lemma wf_spansD:
  assumes "wf_spans f"
  shows "c \<in> set (fm_closed f) \<Longrightarrow> sp_prefix c \<le> fm_width f"
    and "e \<in> set (fm_embedded f) \<Longrightarrow> sp_prefix e + 32 \<le> fm_width f"
    and "e \<in> set (fm_embedded f) \<Longrightarrow> e' \<in> set (fm_embedded f) \<Longrightarrow> covers e e' (fm_width f) \<Longrightarrow> e = e'"
  using assms by (auto simp: wf_spans_def list_all_iff)

text \<open>A number has at most one embedding block.\<close>

lemma embedded_unique:
  assumes "wf_spans f" "e \<in> set (fm_embedded f)" "e' \<in> set (fm_embedded f)"
    "span_has (fm_width f) e n" "span_has (fm_width f) e' n"
  shows "e = e'"
  using laminar [of "fm_width f" e n e'] wf_spansD(2,3) [OF assms(1)] assms
  by (metis add_leD1)

lemma find_embedded:
  assumes "wf_spans f" "e \<in> set (fm_embedded f)" "span_has (fm_width f) e n"
  shows "List.find (\<lambda>e. span_has (fm_width f) e n) (fm_embedded f) = Some e"
proof (cases "List.find (\<lambda>e. span_has (fm_width f) e n) (fm_embedded f)")
  case None
  with assms show ?thesis by (auto simp: find_None_iff')
next
  case (Some e')
  then have "e' = e" using embedded_unique [OF assms(1) _ assms(2) _ assms(3)] find_SomeD by metis
  with Some show ?thesis by simp
qed

section \<open>Ranges and blocks\<close>

abbreviation outcome :: "family \<Rightarrow> family \<Rightarrow> int \<Rightarrow> nat \<Rightarrow> int option \<Rightarrow> bool" where
  "outcome f v4 base p r \<equiv>
     least_of (\<lambda>n. span_has (fm_width f) (range_at (fm_width f) base p) n \<and> fam_public f v4 n) r"

text \<open>The four ways a range relates to the blocks of a family, once it is in no embedding block.\<close>

lemma range_disjoint:
  assumes "\<not> covers s (range_at w base p) w" "\<not> covers (range_at w base p) s w" "sp_prefix s \<le> w" "p \<le> w"
    "span_has w (range_at w base p) n"
  shows "\<not> span_has w s n"
  using laminar [of w s n "range_at w base p"] assms by (auto simp: range_at_def)

lemma no_embedded:
  assumes f: "wf_spans f" and p: "p \<le> fm_width f"
    and a: "List.find (\<lambda>e. covers e (range_at (fm_width f) base p) (fm_width f)) (fm_embedded f) = None"
    and b: "\<not> list_ex (\<lambda>e. covers (range_at (fm_width f) base p) e (fm_width f)) (fm_embedded f)"
    and n: "span_has (fm_width f) (range_at (fm_width f) base p) n"
  shows "fam_public f v4 n \<longleftrightarrow> \<not> in_closed f n"
proof -
  have "\<not> span_has (fm_width f) e n" if e: "e \<in> set (fm_embedded f)" for e
    using range_disjoint [OF _ _ _ p n] a b e wf_spansD(2) [OF f e] by (auto simp: find_None_iff' list_ex_iff)
  then have "List.find (\<lambda>e. span_has (fm_width f) e n) (fm_embedded f) = None"
    by (simp add: find_None_iff')
  then show ?thesis by (simp add: fam_public_def)
qed

lemma closed_range:
  assumes "list_ex (\<lambda>c. covers c (range_at (fm_width f) base p) (fm_width f)) (fm_closed f)" "p \<le> fm_width f"
    "span_has (fm_width f) (range_at (fm_width f) base p) n"
  shows "in_closed f n"
  using assms covers_has [of _ "range_at (fm_width f) base p" "fm_width f" n]
  by (auto simp: in_closed_def list_ex_iff range_at_def)

lemma open_range:
  assumes f: "wf_spans f" and p: "p \<le> fm_width f"
    and "\<not> list_ex (\<lambda>c. covers c (range_at (fm_width f) base p) (fm_width f)) (fm_closed f)"
      "\<not> list_ex (\<lambda>c. covers (range_at (fm_width f) base p) c (fm_width f)) (fm_closed f)"
    and n: "span_has (fm_width f) (range_at (fm_width f) base p) n"
  shows "\<not> in_closed f n"
  using assms range_disjoint [OF _ _ _ p n] wf_spansD(1) [OF f] by (auto simp: in_closed_def list_ex_iff)

text \<open>A single address is inside a block or touches none, so the width check is never reached.\<close>

lemma single_covers:
  assumes "covers (range_at w base w) s w" "sp_prefix s \<le> w"
  shows "covers s (range_at w base w) w"
  using assms by (auto simp: covers_def range_at_def)

lemma range_base_has: "span_has w (range_at w base p) (maskTo base w p)"
  by (simp add: range_has)

lemma range_base_least: "span_has w (range_at w base p) n \<Longrightarrow> maskTo base w p \<le> n"
  using maskTo_le [of n w p] by (simp add: range_has)

section \<open>Inside an embedding block\<close>

lemma split_at: "(n :: int) = n div 2 ^ (s + 32) * 2 ^ (s + 32) + n div 2 ^ s mod 2 ^ 32 * 2 ^ s + n mod 2 ^ s"
proof -
  have "n div 2 ^ (s + 32) = n div 2 ^ s div 2 ^ 32"
    by (simp add: power_add zdiv_zmult2_eq)
  then have "n div 2 ^ s = n div 2 ^ (s + 32) * 2 ^ 32 + n div 2 ^ s mod 2 ^ 32" by simp
  then have "n div 2 ^ s * 2 ^ s = n div 2 ^ (s + 32) * 2 ^ (s + 32) + n div 2 ^ s mod 2 ^ 32 * 2 ^ s"
    by (simp add: power_add algebra_simps) (metis distrib_left mult.left_commute)
  then show ?thesis using div_mult_mod_eq [of n "2 ^ s"] by simp
qed

lemma put_back_sum:
  fixes base v :: int
  assumes "0 \<le> v" "v < 2 ^ 32"
  shows "(base AND NOT (push_bit s 0xffffffff)) OR push_bit s v
    = base div 2 ^ (s + 32) * 2 ^ (s + 32) + v * 2 ^ s + base mod 2 ^ s" (is "?l = ?r")
proof -
  have m: "(0xffffffff :: int) = mask 32" by (simp add: mask_eq_exp_minus_1)
  have v: "bit v i \<Longrightarrow> i < 32" for i
    using assms by (metis bit_take_bit_iff take_bit_int_eq_self)
  have r: "?r = push_bit (s + 32) (drop_bit (s + 32) base) + push_bit s v + take_bit s base"
    by (simp add: push_bit_eq_mult drop_bit_eq_div take_bit_eq_mod)
  have d: "push_bit (s + 32) (drop_bit (s + 32) base) AND push_bit s v = 0"
    by (rule bit_eqI) (auto simp: bit_simps dest: v)
  have e: "(push_bit (s + 32) (drop_bit (s + 32) base) OR push_bit s v) AND take_bit s base = 0"
    by (rule bit_eqI) (auto simp: bit_simps)
  have "?r = (push_bit (s + 32) (drop_bit (s + 32) base) OR push_bit s v) OR take_bit s base"
    unfolding r by (simp only: disjunctive_add_eq_or d e)
  also have "\<dots> = ?l"
    unfolding m by (rule bit_eqI) (auto simp: bit_simps dest: v)
  finally show ?thesis by simp
qed

lemma carried_eq: "carried w e n cp = maskTo (carried_at w e n) 32 cp"
proof -
  have m: "(0xffffffff :: int) = mask 32" by (simp add: mask_eq_exp_minus_1)
  show ?thesis
    unfolding carried_def carried_at_def m take_bit_eq_mask [symmetric] by (simp add: take_bit_eq_mod drop_bit_eq_div)
qed

lemma maskTo_32_bounds: "cp \<le> 32 \<Longrightarrow> maskTo v 32 cp = maskTo u 32 cp \<Longrightarrow> 0 \<le> u \<Longrightarrow> u < 2 ^ 32 \<Longrightarrow> 0 \<le> v \<and> v < 2 ^ 32"
proof -
  assume cp: "cp \<le> 32" and e: "maskTo v 32 cp = maskTo u 32 cp" and u: "0 \<le> u" "u < 2 ^ 32"
  have "maskTo v 32 0 = maskTo u 32 0"
    using e cp maskTo_maskTo [of 0 cp 32] by (metis le0)
  then have "v div 2 ^ 32 = 0" using u by (simp add: maskTo_eq_iff)
  then show ?thesis by (auto simp: zdiv_eq_0_iff)
qed

text \<open>The carried address of a number of the range, and the number that carries a given address.\<close>

lemma div_add_mid:
  fixes h v r :: int
  assumes "0 \<le> r" "r < 2 ^ s" "c \<le> 32" "0 \<le> v" "v < 2 ^ 32"
  shows "(h * 2 ^ (s + 32) + v * 2 ^ s + r) div 2 ^ (s + (32 - c)) = h * 2 ^ c + v div 2 ^ (32 - c)"
proof -
  have "(h * 2 ^ (s + 32) + v * 2 ^ s + r) div 2 ^ s = h * 2 ^ 32 + v"
  proof -
    have "h * 2 ^ (s + 32) + v * 2 ^ s + r = r + (h * 2 ^ 32 + v) * 2 ^ s"
      by (simp add: power_add algebra_simps)
    then show ?thesis using assms by simp
  qed
  moreover have "(h * 2 ^ 32 + v) div 2 ^ (32 - c) = h * 2 ^ c + v div 2 ^ (32 - c)"
  proof -
    have "(2 :: int) ^ 32 = 2 ^ c * 2 ^ (32 - c)" using assms by (simp flip: power_add)
    then have "h * 2 ^ 32 + v = v + h * 2 ^ c * 2 ^ (32 - c)" by (simp only: mult.assoc add.commute)
    then show ?thesis by (simp only: div_mult_self1) simp
  qed
  ultimately show ?thesis by (simp add: power_add zdiv_zmult2_eq)
qed

lemma div_unique_pair:
  fixes a b c d m :: int
  assumes "0 \<le> b" "b < m" "0 \<le> d" "d < m"
  shows "a * m + b = c * m + d \<longleftrightarrow> a = c \<and> b = d"
proof
  assume e: "a * m + b = c * m + d"
  have "(a * m + b) div m = a" "(c * m + d) div m = c" using assms by simp_all
  with e have "a = c" by simp
  with e show "a = c \<and> b = d" by simp
qed simp

lemma div_less_bound: "(v :: int) < m * d \<Longrightarrow> 0 < d \<Longrightarrow> v div d < m"
  by (metis linorder_not_less pos_imp_zdiv_pos_iff zdiv_mono1 nonzero_mult_div_cancel_right less_irrefl order_le_less_trans
      div_mult_mod_eq mult_right_mono le_add_same_cancel1 pos_mod_sign order_less_imp_le order_trans)

lemma div_at_prefix:
  fixes n b :: int
  assumes "c \<le> 32"
  shows "n div 2 ^ (s + (32 - c)) = b div 2 ^ (s + (32 - c)) \<longleftrightarrow>
    n div 2 ^ (s + 32) = b div 2 ^ (s + 32) \<and>
    n div 2 ^ s mod 2 ^ 32 div 2 ^ (32 - c) = b div 2 ^ s mod 2 ^ 32 div 2 ^ (32 - c)"
proof -
  have d: "n div 2 ^ (s + (32 - c)) = n div 2 ^ (s + 32) * 2 ^ c + n div 2 ^ s mod 2 ^ 32 div 2 ^ (32 - c)" for n :: int
    by (subst split_at [of n s], subst div_add_mid) (use assms in auto)
  have "(2 :: int) ^ 32 = 2 ^ c * 2 ^ (32 - c)" using assms by (simp flip: power_add)
  then have "n div 2 ^ s mod 2 ^ 32 div 2 ^ (32 - c) < (2 :: int) ^ c" for n :: int
    by (intro div_less_bound) (metis pos_mod_bound zero_less_numeral zero_less_power, simp)
  then show ?thesis unfolding d by (intro div_unique_pair) (simp_all add: pos_imp_zdiv_nonneg_iff)
qed

lemma least_of_map:
  assumes "\<And>n. R n \<Longrightarrow> S (V n)" "\<And>v. S v \<Longrightarrow> R (g v) \<and> V (g v) = v"
    "\<And>n v. R n \<Longrightarrow> S v \<Longrightarrow> v \<le> V n \<Longrightarrow> g v \<le> n"
    and "least_of (\<lambda>v. S v \<and> Q v) r"
  shows "least_of (\<lambda>n. R n \<and> Q (V n)) (map_option g r)"
  using assms by (cases r) auto

lemma carried_bounds: "0 \<le> carried_at w e n" "carried_at w e n < 2 ^ 32"
  by (simp_all add: carried_at_def)

lemma range_div: "b = maskTo base w p \<Longrightarrow> span_has w (range_at w base p) n \<longleftrightarrow> n div 2 ^ (w - p) = b div 2 ^ (w - p)"
  unfolding range_has by (simp add: maskTo_div)

lemma put_back_eq:
  assumes "s = w - sp_prefix e - 32" "0 \<le> v" "v < 2 ^ 32"
  shows "put_back w e b v = b div 2 ^ (s + 32) * 2 ^ (s + 32) + v * 2 ^ s + b mod 2 ^ s"
  using put_back_sum [OF assms(2,3), of b s] by (simp add: put_back_def assms(1) Let_def)

text \<open>A range that ends inside the carried address or at its end: the numbers below it are zero in its base.\<close>

lemma embedded_wide:
  assumes e: "sp_prefix e + 32 \<le> w" "sp_prefix e \<le> p" "p \<le> w" "p - sp_prefix e \<le> 32" and cp: "cp = p - sp_prefix e"
    and b: "b = maskTo base w p"
    and r: "least_of (\<lambda>v. span_has 32 (range_at 32 (carried_at w e b) cp) v \<and> Q v) r"
  shows "least_of (\<lambda>n. span_has w (range_at w base p) n \<and> Q (carried_at w e n)) (map_option (put_back w e b) r)"
proof -
  define s where "s = w - sp_prefix e - 32"
  have c: "carried_at w e n = n div 2 ^ s mod 2 ^ 32" for n by (simp add: carried_at_def s_def)
  have k: "w - p = s + (32 - cp)" and cp32: "cp \<le> 32" using e cp by (auto simp: s_def)
  have "b = base div 2 ^ (w - p) * 2 ^ (32 - cp) * 2 ^ s"
    by (simp add: b maskTo_div k power_add)
  then have b0: "b mod 2 ^ s = 0" by simp
  have R: "span_has w (range_at w base p) n \<longleftrightarrow> n div 2 ^ (s + 32) = b div 2 ^ (s + 32) \<and>
      carried_at w e n div 2 ^ (32 - cp) = carried_at w e b div 2 ^ (32 - cp)" for n
    unfolding range_div [OF b] k c by (rule div_at_prefix [OF cp32])
  let ?S = "\<lambda>v. span_has 32 (range_at 32 (carried_at w e b) cp) v"
  have S: "?S v \<longleftrightarrow> v div 2 ^ (32 - cp) = carried_at w e b div 2 ^ (32 - cp)" for v
    unfolding range_has by (rule maskTo_eq_iff)
  have Sb: "0 \<le> v" "v < 2 ^ 32" if "?S v" for v
    using maskTo_32_bounds [OF cp32, of v "carried_at w e b"] that carried_bounds by (simp_all add: range_has)
  have g: "put_back w e b v = b div 2 ^ (s + 32) * 2 ^ (s + 32) + v * 2 ^ s + 0" if "?S v" for v
    using put_back_eq [OF s_def Sb [OF that]] by (simp only: b0)
  show ?thesis
  proof (rule least_of_map [OF _ _ _ r])
    fix v assume v: "?S v"
    have "v div 2 ^ (32 - cp) = carried_at w e b div 2 ^ (32 - cp)" using v by (simp only: S)
    then show "span_has w (range_at w base p) (put_back w e b v) \<and> carried_at w e (put_back w e b v) = v"
      using div_add_mid [of 0 s 0 v "b div 2 ^ (s + 32)"] div_add_mid [of 0 s 32 v "b div 2 ^ (s + 32)"] Sb [OF v]
      unfolding R g [OF v] by (simp add: c)
  next
    fix n v assume n: "span_has w (range_at w base p) n" and v: "?S v" and le: "v \<le> carried_at w e n"
    have "v * 2 ^ s + 0 \<le> carried_at w e n * 2 ^ s + n mod 2 ^ s"
      using le by (intro add_mono mult_right_mono) simp_all
    moreover have "n div 2 ^ (s + 32) = b div 2 ^ (s + 32)" using n by (simp only: R)
    moreover note split_at [of n s, folded c]
    ultimately show "put_back w e b v \<le> n" unfolding g [OF v] by simp
  qed (simp add: R S)
qed

text \<open>A range below the carried address: all its numbers carry the same one.\<close>

lemma embedded_narrow:
  assumes e: "sp_prefix e + 32 \<le> w" "p \<le> w" "\<not> p - sp_prefix e \<le> 32"
    and b: "b = maskTo base w p"
    and r: "least_of (\<lambda>v. span_has 32 (range_at 32 (carried_at w e b) 32) v \<and> Q v) r"
  shows "least_of (\<lambda>n. span_has w (range_at w base p) n \<and> Q (carried_at w e n)) (map_option (put_back w e b) r)"
proof -
  define s where "s = w - sp_prefix e - 32"
  have c: "carried_at w e n = n div 2 ^ s mod 2 ^ 32" for n by (simp add: carried_at_def s_def)
  have k: "s = w - p + (s - (w - p))" using e by (auto simp: s_def)
  have coarse: "n div 2 ^ s = b div 2 ^ s" if "span_has w (range_at w base p) n" for n
    using that unfolding range_div [OF b] by (subst (1 2) k) (simp add: power_add zdiv_zmult2_eq)
  let ?S = "\<lambda>v. span_has 32 (range_at 32 (carried_at w e b) 32) v"
  have S: "?S v \<longleftrightarrow> v = carried_at w e b" for v
    by (simp add: range_has)
  have same: "put_back w e b v = b" if "?S v" for v
    using put_back_eq [OF s_def carried_bounds, of b w e b] split_at [of b s] that unfolding S
    by (simp only: c)
  have base: "span_has w (range_at w base p) b" using range_base_has [of w base p] by (simp only: b)
  show ?thesis
  proof (rule least_of_map [OF _ _ _ r])
    fix n assume "span_has w (range_at w base p) n"
    then show "?S (carried_at w e n)" by (simp only: S) (simp only: c coarse)
  next
    fix v assume v: "?S v"
    show "span_has w (range_at w base p) (put_back w e b v) \<and> carried_at w e (put_back w e b v) = v"
      unfolding same [OF v] using base v by (simp add: S)
  next
    fix n v assume n: "span_has w (range_at w base p) n" and v: "?S v"
    show "put_back w e b v \<le> n" using range_base_least [OF n] unfolding same [OF v] by (simp add: b)
  qed
qed

lemma embedded_least:
  assumes "sp_prefix e + 32 \<le> w" "sp_prefix e \<le> p" "p \<le> w" and cp: "cp = min 32 (p - sp_prefix e)"
    and "b = maskTo base w p"
    and "least_of (\<lambda>v. span_has 32 (range_at 32 (carried_at w e b) cp) v \<and> Q v) r"
  shows "least_of (\<lambda>n. span_has w (range_at w base p) n \<and> Q (carried_at w e n)) (map_option (put_back w e b) r)"
proof (cases "p - sp_prefix e \<le> 32")
  case True
  then have "cp = p - sp_prefix e" using cp by simp
  with True assms show ?thesis by (intro embedded_wide) auto
next
  case False
  then have "cp = 32" using cp by simp
  with False assms show ?thesis by (intro embedded_narrow) auto
qed

section \<open>The search\<close>

text \<open>What a family must promise of the IPv4 search it falls back on: it returns the least open number of each range.\<close>

definition searches :: "family \<Rightarrow> family \<Rightarrow> bool" where
  "searches f v4 \<longleftrightarrow> (\<forall>base p. p \<le> fm_width f \<longrightarrow> (\<exists>r. firstPublic f v4 base p = Some r \<and> outcome f v4 base p r))"

lemma searchesD: "searches f v4 \<Longrightarrow> p \<le> fm_width f \<Longrightarrow> \<exists>r. firstPublic f v4 base p = Some r \<and> outcome f v4 base p r"
  by (simp add: searches_def)

lemma in_embedded_block:
  assumes f: "wf_spans f" and p: "p \<le> fm_width f"
    and v4: "searches v4 v4" "fm_embedded v4 = []" "fm_width v4 = 32"
    and e: "List.find (\<lambda>e. covers e (range_at (fm_width f) base p) (fm_width f)) (fm_embedded f) = Some e"
  shows "\<exists>r. firstPublic f v4 base p = Some r \<and> outcome f v4 base p r"
proof -
  let ?w = "fm_width f"
  define cp where "cp = min 32 (p - sp_prefix e)"
  define b where "b = maskTo base ?w p"
  from e have eb: "e \<in> set (fm_embedded f)" and cov: "covers e (range_at ?w base p) ?w"
    by (auto dest: find_SomeD)
  have pub4: "fam_public v4 v4 v \<longleftrightarrow> \<not> in_closed v4 v" for v by (simp add: fam_public_def v4)
  obtain r where r: "firstPublic v4 v4 (carried ?w e b cp) cp = Some r"
    and "outcome v4 v4 (carried ?w e b cp) cp r"
    using searchesD [OF v4(1), of cp "carried ?w e b cp"] by (auto simp: v4 cp_def)
  then have "least_of (\<lambda>v. span_has 32 (range_at 32 (carried_at ?w e b) cp) v \<and> \<not> in_closed v4 v) r"
    by (simp add: v4 pub4 carried_eq range_at_def)
  then have least: "least_of (\<lambda>n. span_has ?w (range_at ?w base p) n \<and> \<not> in_closed v4 (carried_at ?w e n))
      (map_option (put_back ?w e b) r)"
    using wf_spansD(2) [OF f eb] cov p by (intro embedded_least [OF _ _ _ cp_def b_def]) (auto simp: covers_def range_at_def)
  have "fam_public f v4 n \<longleftrightarrow> \<not> in_closed v4 (carried_at ?w e n)" if "span_has ?w (range_at ?w base p) n" for n
    using find_embedded [OF f eb covers_has [OF cov _ that]] p by (simp add: fam_public_def range_at_def)
  then have out: "outcome f v4 base p (map_option (put_back ?w e b) r)"
    using least by (simp add: conj_commute cong: conj_cong least_of_cong)
  have "firstPublic f v4 base p = Some (map_option (put_back ?w e b) r)"
    using e r by (subst firstPublic.simps) (simp add: Let_def range_at_def b_def cp_def)
  with out show ?thesis by blast
qed

lemma search_step:
  assumes "List.find (\<lambda>e. covers e (range_at (fm_width f) base p) (fm_width f)) (fm_embedded f) = None"
  shows "firstPublic f v4 base p =
    (let w = fm_width f; holdsEmbedded = list_ex (\<lambda>e. covers (range_at w base p) e w) (fm_embedded f) in
     if \<not> holdsEmbedded \<and> list_ex (\<lambda>c. covers c (range_at w base p) w) (fm_closed f) then Some None
     else if \<not> holdsEmbedded \<and> \<not> list_ex (\<lambda>c. covers (range_at w base p) c w) (fm_closed f) then Some (Some (maskTo base w p))
     else if w \<le> p then Some None
     else Option.bind (firstPublic f v4 (lower_half w base p) (p + 1))
       (\<lambda>lower. case lower of Some x \<Rightarrow> Some (Some x) | None \<Rightarrow> firstPublic f v4 (upper_half w base p) (p + 1)))"
  using assms by (subst firstPublic.simps) (simp add: Let_def range_at_def lower_half_def upper_half_def)

lemma search_returns:
  assumes f: "wf_spans f"
    and v4: "fm_embedded f \<noteq> [] \<Longrightarrow> searches v4 v4" "fm_embedded v4 = []" "fm_width v4 = 32"
  shows "p \<le> fm_width f \<Longrightarrow> \<exists>r. firstPublic f v4 base p = Some r \<and> outcome f v4 base p r"
proof (induction "fm_width f - p" arbitrary: base p rule: less_induct)
  case less
  let ?w = "fm_width f" and ?R = "range_at (fm_width f) base p"
  show ?case
  proof (cases "List.find (\<lambda>e. covers e ?R ?w) (fm_embedded f)")
    case (Some e)
    then have "fm_embedded f \<noteq> []" by auto
    with Some show ?thesis using in_embedded_block [OF f less.prems v4(1) v4(2,3)] by blast
  next
    case None
    note step = search_step [OF None, of v4]
    let ?h = "list_ex (\<lambda>e. covers ?R e ?w) (fm_embedded f)"
      and ?c = "list_ex (\<lambda>c. covers c ?R ?w) (fm_closed f)" and ?t = "list_ex (\<lambda>c. covers ?R c ?w) (fm_closed f)"
    consider (closed) "\<not> ?h" "?c" | (free) "\<not> ?h" "\<not> ?c" "\<not> ?t" | (mixed) "?h \<or> \<not> ?c \<and> ?t" by blast
    then show ?thesis
    proof cases
      case closed
      then have "outcome f v4 base p None"
        using no_embedded [OF f less.prems None] closed_range [OF _ less.prems] by auto
      with closed show ?thesis by (simp add: step)
    next
      case free
      then have "outcome f v4 base p (Some (maskTo base ?w p))"
        using no_embedded [OF f less.prems None] open_range [OF f less.prems] range_base_has range_base_least by auto
      with free show ?thesis by (simp add: step)
    next
      case mixed
      have "p \<noteq> ?w"
      proof
        assume "p = ?w"
        with mixed None single_covers [of ?w base] wf_spansD(1,2) [OF f] show False
          by (fastforce simp: list_ex_iff find_None_iff')
      qed
      with less.prems have p: "p < ?w" by simp
      then have IH: "\<exists>r. firstPublic f v4 base' (p + 1) = Some r \<and> outcome f v4 base' (p + 1) r" for base'
        using less.hyps [of "p + 1" base'] by simp
      from IH obtain r1 where r1: "firstPublic f v4 (lower_half ?w base p) (p + 1) = Some r1"
        "outcome f v4 (lower_half ?w base p) (p + 1) r1" by blast
      from IH obtain r2 where r2: "firstPublic f v4 (upper_half ?w base p) (p + 1) = Some r2"
        "outcome f v4 (upper_half ?w base p) (p + 1) r2" by blast
      have "outcome f v4 base p (case r1 of Some x \<Rightarrow> Some x | None \<Rightarrow> r2)"
        by (rule least_of_halves [OF p r1(2)]) (rule r2(2))
      moreover have "firstPublic f v4 base p = Some (case r1 of Some x \<Rightarrow> Some x | None \<Rightarrow> r2)"
        using mixed p r1(1) r2(1) by (auto simp: step Let_def split: option.split)
      ultimately show ?thesis by blast
    qed
  qed
qed

text \<open>Both families of the code meet this once their spans are well formed.\<close>

lemma searches_plain: "wf_spans f \<Longrightarrow> fm_embedded f = [] \<Longrightarrow> fm_width f = 32 \<Longrightarrow> searches f f"
  unfolding searches_def using search_returns [of f f] by blast

lemma searches_embedding:
  "wf_spans f \<Longrightarrow> searches v4 v4 \<Longrightarrow> fm_embedded v4 = [] \<Longrightarrow> fm_width v4 = 32 \<Longrightarrow> searches f v4"
  unfolding searches_def [of f] using search_returns [of f v4] by blast

end
