(* ===== verification/Ip_Theorems.thy ===== *)
theory Ip_Theorems
  imports Ip_Search
begin

text \<open>
  The classifier and the search read the same ranges: \<open>inCidr\<close> compares bytes, the search compares the leading bits of one
  number, and the two agree; hence the verdict of \<open>classifyAddress\<close> is the arithmetic one, and \<open>cidrContainsPublic\<close> returns the
  lowest address of the range that \<open>classifyAddress\<close> calls public.
\<close>

section \<open>Bytes and numbers\<close>

lemma uint_bounds: "0 \<le> uint (b :: 8 word)" "uint (b :: 8 word) < 256"
  using uint_lt2p [of b] by simp_all

lemma take_bit_uint: "take_bit 8 (uint (b :: 8 word)) = uint b"
  using uint_bounds [of b] by (simp add: take_bit_int_eq_self_iff)

lemma or_shifted: "(push_bit 8 (n :: int)) OR uint (b :: 8 word) = n * 256 + uint b"
proof -
  have "push_bit 8 n AND uint b = 0"
    by (subst take_bit_uint [symmetric], rule bit_eqI) (auto simp: bit_simps)
  then have "push_bit 8 n OR uint b = push_bit 8 n + uint b" by (simp add: disjunctive_add_eq_or)
  then show ?thesis by (simp add: push_bit_eq_mult)
qed

lemma bigOf_Nil [simp]: "bigOf [] = 0"
  by (simp add: bigOf_def)

lemma bigOf_snoc: "bigOf (bs @ [b]) = bigOf bs * 256 + uint b"
  by (simp add: bigOf_def or_shifted)

lemma bigOf_append: "bigOf (xs @ ys) = bigOf xs * 256 ^ length ys + bigOf ys"
proof (induction ys rule: rev_induct)
  case (snoc y ys)
  then show ?case by (simp add: bigOf_snoc algebra_simps flip: append_assoc)
qed simp

lemma bigOf_single [simp]: "bigOf [b] = uint b"
  using bigOf_snoc [of "[]" b] by simp

lemma bigOf_Cons: "bigOf (b # bs) = uint b * 256 ^ length bs + bigOf bs"
  using bigOf_append [of "[b]" bs] by simp

lemma bigOf_bounds: "0 \<le> bigOf bs" "bigOf bs < 256 ^ length bs"
proof -
  have "0 \<le> bigOf bs \<and> bigOf bs < 256 ^ length bs"
  proof (induction bs rule: rev_induct)
    case (snoc b bs)
    then show ?case using uint_bounds [of b] by (auto simp: bigOf_snoc)
  qed simp
  then show "0 \<le> bigOf bs" "bigOf bs < 256 ^ length bs" by simp_all
qed

lemma bigOf_inj: "length xs = length ys \<Longrightarrow> bigOf xs = bigOf ys \<longleftrightarrow> xs = ys"
proof (induction xs ys rule: list_induct2)
  case (Cons x xs y ys)
  then show ?case
    using div_unique_pair [of "bigOf xs" "256 ^ length ys" "bigOf ys" "uint x" "uint y"] bigOf_bounds [of xs] bigOf_bounds [of ys]
    by (simp add: bigOf_Cons word_uint_eq_iff)
qed simp

lemma bigOf_split:
  assumes "length bs = k + m"
  shows "bigOf bs div 256 ^ m = bigOf (take k bs)" "bigOf bs mod 256 ^ m = bigOf (drop k bs)"
proof -
  have "bigOf bs = bigOf (take k bs) * 256 ^ m + bigOf (drop k bs)"
    using bigOf_append [of "take k bs" "drop k bs"] assms by simp
  moreover have "0 \<le> bigOf (drop k bs)" "bigOf (drop k bs) < 256 ^ m"
    using bigOf_bounds [of "drop k bs"] assms by simp_all
  ultimately show "bigOf bs div 256 ^ m = bigOf (take k bs)" "bigOf bs mod 256 ^ m = bigOf (drop k bs)"
    by simp_all
qed

lemma bytes_of_length [simp]: "length (bytes_of k n) = k"
  by (induction k arbitrary: n) auto

lemma bytes_of_bigOf: "bytes_of (length bs) (bigOf bs) = bs"
proof (induction bs rule: rev_induct)
  case (snoc b bs)
  have "drop_bit 8 (bigOf (bs @ [b])) = bigOf bs"
    using uint_bounds [of b] by (simp add: bigOf_snoc drop_bit_eq_div)
  moreover have "word_of_int (bigOf (bs @ [b]) AND 0xff) = b"
  proof -
    have m: "(0xff :: int) = mask 8" by (simp add: mask_eq_exp_minus_1)
    have "bigOf (bs @ [b]) AND 0xff = uint b"
      unfolding m take_bit_eq_mask [symmetric] using uint_bounds [of b] by (simp add: bigOf_snoc take_bit_eq_mod mod_simps)
    then show ?thesis by simp
  qed
  ultimately show ?case using snoc by simp
qed simp

lemma bigOf_bytes_of: "0 \<le> n \<Longrightarrow> n < 256 ^ k \<Longrightarrow> bigOf (bytes_of k n) = n"
proof (induction k arbitrary: n)
  case (Suc k)
  have m: "(0xff :: int) = mask 8" by (simp add: mask_eq_exp_minus_1)
  have "n div 256 < 256 ^ k" using Suc.prems by (intro div_less_bound) (simp_all add: mult.commute)
  then have "bigOf (bytes_of k (drop_bit 8 n)) = n div 256"
    using Suc.IH [of "drop_bit 8 n"] Suc.prems by (simp add: drop_bit_eq_div pos_imp_zdiv_nonneg_iff)
  moreover have "uint (word_of_int (n AND 0xff) :: 8 word) = n mod 256"
    unfolding m take_bit_eq_mask [symmetric] by (simp add: uint_word_of_int take_bit_eq_mod)
  ultimately show ?case by (simp add: bigOf_snoc)
qed simp

section \<open>The byte loop\<close>

lemma byte_at_Cons [simp]: "byte_at (x # xs) 0 = x" "byte_at (x # xs) (Suc i) = byte_at xs i"
  by (simp_all add: byte_at_def)

lemma cidr_loop_shift: "cidr_loop (x # a) (y # c) (Suc i) bits = cidr_loop a c i bits"
proof (induction a c i bits rule: cidr_loop.induct)
  case (1 a c i bits)
  then show ?case by (subst (1 2) cidr_loop.simps) (simp add: Let_def)
qed

lemma masked_eq:
  fixes x y :: "8 word"
  shows "x AND push_bit k 0xff = y AND push_bit k 0xff \<longleftrightarrow> uint x div 2 ^ k = uint y div 2 ^ k"
proof -
  have m: "(0xff :: 8 word) = mask 8" by (simp add: mask_eq_exp_minus_1)
  have "x AND push_bit k 0xff = y AND push_bit k 0xff \<longleftrightarrow> (\<forall>n<8. k \<le> n \<longrightarrow> bit x n = bit y n)"
    by (auto simp: m bit_eq_iff bit_and_iff bit_push_bit_iff bit_mask_iff)
  also have "\<dots> \<longleftrightarrow> (\<forall>n. k \<le> n \<longrightarrow> bit x n = bit y n)"
    using bit_imp_le_length [of x] bit_imp_le_length [of y] by auto
  also have "\<dots> \<longleftrightarrow> (\<forall>i. bit x (k + i) = bit y (k + i))"
    by (simp add: le_iff_add) blast
  also have "\<dots> \<longleftrightarrow> drop_bit k (uint x) = drop_bit k (uint y)"
    using bit_imp_le_length [of x] bit_imp_le_length [of y] by (auto simp: bit_eq_iff bit_drop_bit_eq bit_uint_iff)
  finally show ?thesis by (simp add: drop_bit_eq_div)
qed

lemma cidr_loop_Cons:
  "cidr_loop (x # a) (y # c) 0 bits \<longleftrightarrow>
     bits = 0 \<or> uint x div 2 ^ (8 - bits) = uint y div 2 ^ (8 - bits) \<and> cidr_loop a c 0 (bits - 8)"
proof -
  have "(if 8 \<le> bits then 0xff else push_bit (8 - bits) 0xff) = push_bit (8 - bits) (0xff :: 8 word)" by simp
  then show ?thesis
    using masked_eq [of x "8 - bits" y] cidr_loop_shift [of x a y c 0]
    by (subst cidr_loop.simps) (simp add: Let_def)
qed

lemma add_div_low:
  fixes x r :: int
  shows "k \<le> m \<Longrightarrow> (x * 2 ^ m + r) div 2 ^ k = x * 2 ^ (m - k) + r div 2 ^ k"
proof -
  assume "k \<le> m"
  then have "(2 :: int) ^ m = 2 ^ (m - k) * 2 ^ k" by (simp flip: power_add)
  then have "x * 2 ^ m + r = r + x * 2 ^ (m - k) * 2 ^ k" by (simp only: mult.assoc add.commute)
  then show ?thesis by (simp only: div_mult_self1) simp
qed

lemma add_div_high:
  fixes x r :: int
  shows "0 \<le> r \<Longrightarrow> r < 2 ^ m \<Longrightarrow> (x * 2 ^ m + r) div 2 ^ (m + j) = x div 2 ^ j"
  by (simp add: power_add zdiv_zmult2_eq)

lemma cidr_loop_div:
  assumes "length a = length c" "bits \<le> 8 * length c"
  shows "cidr_loop a c 0 bits \<longleftrightarrow> bigOf a div 2 ^ (8 * length c - bits) = bigOf c div 2 ^ (8 * length c - bits)"
  using assms
proof (induction a c arbitrary: bits rule: list_induct2)
  case Nil
  then show ?case by (simp add: cidr_loop.simps)
next
  case (Cons x a y c)
  let ?m = "8 * length c"
  have p: "(256 :: int) ^ length c = 2 ^ ?m" by (simp add: power_mult)
  have b: "bigOf a < 2 ^ ?m" "bigOf c < 2 ^ ?m" "0 \<le> bigOf a" "0 \<le> bigOf c"
    using bigOf_bounds [of a] bigOf_bounds [of c] Cons.hyps by (simp_all add: p)
  have e: "bigOf (x # a) = uint x * 2 ^ ?m + bigOf a" "bigOf (y # c) = uint y * 2 ^ ?m + bigOf c"
    using Cons.hyps by (simp_all add: bigOf_Cons p)
  show ?case
  proof (cases "8 \<le> bits")
    case True
    define k where "k = ?m - (bits - 8)"
    have k: "8 * length (y # c) - bits = k" "k \<le> ?m" "?m - k = bits - 8" using True Cons.prems by (auto simp: k_def)
    have small: "r div 2 ^ k < 2 ^ (?m - k)" if "r < 2 ^ ?m" for r :: int
      using that k(2) by (intro div_less_bound) (simp_all flip: power_add)
    have "uint x * 2 ^ (?m - k) + bigOf a div 2 ^ k = uint y * 2 ^ (?m - k) + bigOf c div 2 ^ k \<longleftrightarrow>
        uint x = uint y \<and> bigOf a div 2 ^ k = bigOf c div 2 ^ k"
      using b by (intro div_unique_pair small) (simp_all add: pos_imp_zdiv_nonneg_iff)
    moreover have "cidr_loop a c 0 (bits - 8) \<longleftrightarrow> bigOf a div 2 ^ k = bigOf c div 2 ^ k"
      using Cons.IH [of "bits - 8"] Cons.prems by (simp add: k_def)
    ultimately show ?thesis
      unfolding k(1) e add_div_low [OF k(2)] cidr_loop_Cons using True by simp
  next
    case False
    then have k: "8 * length (y # c) - bits = ?m + (8 - bits)" by simp
    have "cidr_loop a c 0 (bits - 8)" using False by (simp add: cidr_loop.simps)
    moreover have "uint z div 256 = 0" for z :: "8 word" using uint_bounds [of z] by simp
    ultimately show ?thesis
      unfolding k e add_div_high [OF b(3,1)] add_div_high [OF b(4,2)] cidr_loop_Cons by (cases "bits = 0") auto
  qed
qed

section \<open>Parsed addresses and ranges are well formed\<close>

definition wf_address :: "parsed_address \<Rightarrow> bool" where
  "wf_address a \<longleftrightarrow> length (pa_bytes a) = ip_width (pa_family a) div 8"

definition wf_cidr :: "cidr \<Rightarrow> bool" where
  "wf_cidr c \<longleftrightarrow> length (cd_bytes c) = ip_width (cd_family c) div 8 \<and> cd_prefix c \<le> ip_width (cd_family c)"

lemma ip_width_simps [simp]: "ip_width V4 = 32" "ip_width V6 = 128"
  by (simp_all add: ip_width_def)

lemma v4_nums_length: "v4_nums strict ps = Some ns \<Longrightarrow> length ns = length ps"
  by (induction ps arbitrary: ns) (auto split: if_splits option.splits)

lemma parseV4_length: "parseV4 s strict = Some b \<Longrightarrow> length b = 4"
proof -
  assume a: "parseV4 s strict = Some b"
  let ?ps = "split_on (\<lambda>c. c = CHR ''.'') s"
  obtain ns where "v4_nums strict ?ps = Some ns" using a
    by (auto simp: parseV4_def Let_def split: if_splits option.splits)
  moreover from this have "length ns = length ?ps" by (rule v4_nums_length)
  moreover have "1 \<le> length ?ps" by (simp add: Suc_leI)
  ultimately show ?thesis using a by (auto simp: parseV4_def Let_def split: if_splits)
qed

lemma parseV6_length: "parseV6 s = Some b \<Longrightarrow> length b = 16"
  by (auto simp: parseV6_def group_bytes_def length_concat o_def sum_list_triv split: if_splits option.splits)

lemma parseAddress_wf: "parseAddress s strict = Some a \<Longrightarrow> wf_address a"
  by (auto simp: parseAddress_def Let_def wf_address_def dest: parseV4_length parseV6_length split: if_splits)

lemma parseCidr_wf: "parseCidr s = Some c \<Longrightarrow> wf_cidr c"
  by (auto simp: parseCidr_def wf_cidr_def wf_address_def dest!: parseAddress_wf split: list.splits if_splits option.splits)

lemma add_ranges_wf: "(c, reason) \<in> set (add_ranges t) \<Longrightarrow> wf_cidr c"
  by (induction t rule: add_ranges.induct) (auto dest: parseCidr_wf split: option.splits)

lemma table_families:
  "list_all (\<lambda>(c, _). cd_family c = V4) v4Ranges" "list_all (\<lambda>(c, _). cd_family c = V6) v6Ranges"
  by code_simp+

lemma v4Ranges_wf: "(c, reason) \<in> set v4Ranges \<Longrightarrow> wf_cidr c \<and> cd_family c = V4"
  using table_families(1) add_ranges_wf [of c reason v4Table] by (auto simp: v4Ranges_def list_all_iff)

lemma v6Ranges_wf: "(c, reason) \<in> set v6Ranges \<Longrightarrow> wf_cidr c \<and> cd_family c = V6"
  using table_families(2) add_ranges_wf [of c reason v6Table] by (auto simp: v6Ranges_def list_all_iff)

section \<open>The verdict is the arithmetic one\<close>

lemma loop_span:
  assumes "wf_cidr c" "length b = length (cd_bytes c)"
  shows "cidr_loop b (cd_bytes c) 0 (cd_prefix c) \<longleftrightarrow>
    span_has (ip_width (cd_family c)) (spanFrom c (ip_width (cd_family c))) (bigOf b)"
proof -
  have w: "8 * length (cd_bytes c) = ip_width (cd_family c)"
    using assms(1) by (cases "cd_family c") (simp_all add: wf_cidr_def)
  show ?thesis
    using cidr_loop_div [OF assms(2)] assms(1) maskTo_eq_iff [of "bigOf b" _ _ "bigOf (cd_bytes c)"]
    by (simp add: w wf_cidr_def span_has_def spanFrom_def)
qed

lemma special_spans:
  "spanOf ''255.255.255.255/32'' 32 = \<lparr>sp_base = 0xffffffff, sp_prefix = 32\<rparr>"
  "spanOf ''::/3'' 128 = \<lparr>sp_base = 0, sp_prefix = 3\<rparr>"
  "spanOf ''4000::/2'' 128 = \<lparr>sp_base = 0x40000000000000000000000000000000, sp_prefix = 2\<rparr>"
  "spanOf ''8000::/1'' 128 = \<lparr>sp_base = 0x80000000000000000000000000000000, sp_prefix = 1\<rparr>"
  "spanOf ''::ffff:0:0/96'' 128 = \<lparr>sp_base = 0xffff00000000, sp_prefix = 96\<rparr>"
  "spanOf ''64:ff9b::/96'' 128 = \<lparr>sp_base = 0x0064ff9b000000000000000000000000, sp_prefix = 96\<rparr>"
  "spanOf ''2002::/16'' 128 = \<lparr>sp_base = 0x20020000000000000000000000000000, sp_prefix = 16\<rparr>"
  by code_simp+

lemma canonical_V4 [simp]: "canonical \<lparr>pa_family = V4, pa_bytes = b\<rparr> = \<lparr>pa_family = V4, pa_bytes = b\<rparr>"
  by (simp add: canonical_def)

lemma all_255: "length b = 4 \<Longrightarrow> list_all (\<lambda>x. x = 255) b \<longleftrightarrow> bigOf b = 0xffffffff"
proof -
  assume l: "length b = 4"
  then have "list_all (\<lambda>x. x = 255) b \<longleftrightarrow> b = replicate 4 255"
    by (auto simp: list_all_iff intro!: replicate_eqI)
  also have "\<dots> \<longleftrightarrow> bigOf b = bigOf (replicate 4 255)" using l by (simp add: bigOf_inj)
  also have "bigOf (replicate 4 255) = 0xffffffff" by code_simp
  finally show ?thesis .
qed

lemma find_pair_None: "List.find (\<lambda>(c, _). P c) xs = None \<longleftrightarrow> (\<forall>(c, r)\<in>set xs. \<not> P c)"
  by (auto simp: find_None_iff')

lemma classifyV4_iff:
  assumes l: "length b = 4"
  shows "vd_public (classifyV4 b) \<longleftrightarrow> \<not> in_closed FAMILY_V4 (bigOf b)"
proof -
  have "inCidr \<lparr>pa_family = V4, pa_bytes = b\<rparr> c \<longleftrightarrow> span_has 32 (spanFrom c 32) (bigOf b)"
    if "(c, r) \<in> set v4Ranges" for c r
    using v4Ranges_wf [OF that] loop_span [of c b] l by (auto simp: inCidr_def wf_cidr_def)
  then have f: "List.find (\<lambda>(c, _). inCidr \<lparr>pa_family = V4, pa_bytes = b\<rparr> c) v4Ranges = None \<longleftrightarrow>
      (\<forall>(c, r)\<in>set v4Ranges. \<not> span_has 32 (spanFrom c 32) (bigOf b))"
    by (auto simp: find_pair_None)
  have "in_closed FAMILY_V4 (bigOf b) \<longleftrightarrow>
      bigOf b = 0xffffffff \<or> (\<exists>(c, r)\<in>set v4Ranges. span_has 32 (spanFrom c 32) (bigOf b))"
    by (auto simp: in_closed_def FAMILY_V4_def list_ex_iff special_spans span_has_def)
  then show ?thesis
    using f by (auto simp: classifyV4_def all_255 [OF l] refused_def verdict_public_def split: option.split)
qed

text \<open>Blocks on a byte boundary are a prefix of the bytes.\<close>

lemma pow_256: "(256 :: int) ^ m = 2 ^ (8 * m)"
  by (simp add: power_mult)

lemma span_has_take:
  assumes "length b = 16" "k \<le> 16" "length v = k"
  shows "span_has 128 \<lparr>sp_base = bigOf v * 2 ^ (8 * (16 - k)), sp_prefix = 8 * k\<rparr> (bigOf b) \<longleftrightarrow> take k b = v"
proof -
  have w: "128 - 8 * k = 8 * (16 - k)" by simp
  have "bigOf b div 2 ^ (8 * (16 - k)) = bigOf (take k b)"
    using bigOf_split(1) [of b k "16 - k"] assms by (simp add: pow_256)
  then show ?thesis
    using assms by (simp add: span_has_def maskTo_div w bigOf_inj)
qed

lemma embedded_V6: "fm_embedded FAMILY_V6 =
  [\<lparr>sp_base = bigOf [0, 0, 0, 0, 0, 0, 0, 0, 0, 0, 0xff, 0xff] * 2 ^ (8 * (16 - 12)), sp_prefix = 8 * 12\<rparr>,
   \<lparr>sp_base = bigOf [0, 0x64, 0xff, 0x9b, 0, 0, 0, 0, 0, 0, 0, 0] * 2 ^ (8 * (16 - 12)), sp_prefix = 8 * 12\<rparr>,
   \<lparr>sp_base = bigOf [0x20, 2] * 2 ^ (8 * (16 - 2)), sp_prefix = 8 * 2\<rparr>]"
  by code_simp

lemma bytes16:
  assumes "length b = 16"
  obtains b0 b1 b2 b3 b4 b5 b6 b7 b8 b9 ba bb bc bd be bf
  where "b = [b0, b1, b2, b3, b4, b5, b6, b7, b8, b9, ba, bb, bc, bd, be, bf]"
  using assms by (auto simp: numeral_eq_Suc length_Suc_conv)

lemma byte_at_numeral [simp]: "byte_at (x # xs) (numeral k) = byte_at xs (pred_numeral k)"
  by (simp add: numeral_eq_Suc)

lemma pair16_eq: "pair16 x y = bigOf [x, y]"
  by (simp add: pair16_def bigOf_def)

lemma pair16_iff: "pair16 x y = pair16 u v \<longleftrightarrow> x = u \<and> y = v"
  unfolding pair16_eq by (simp add: bigOf_inj)

lemma pair16_values: "(0x64 :: int) = pair16 0 0x64" "(0xff9b :: int) = pair16 0xff 0x9b" "(0x2002 :: int) = pair16 0x20 2"
  by code_simp+

lemma mapped_iff: "length b = 16 \<Longrightarrow> isV4Mapped b \<longleftrightarrow> take 12 b = [0, 0, 0, 0, 0, 0, 0, 0, 0, 0, 0xff, 0xff]"
  by (elim bytes16) (simp add: isV4Mapped_def)

lemma nat64_iff:
  "length b = 16 \<Longrightarrow>
    pair16 (byte_at b 0) (byte_at b 1) = 0x64 \<and> pair16 (byte_at b 2) (byte_at b 3) = 0xff9b \<and> list_all (\<lambda>x. x = 0) (take 8 (drop 4 b))
    \<longleftrightarrow> take 12 b = [0, 0x64, 0xff, 0x9b, 0, 0, 0, 0, 0, 0, 0, 0]"
  by (elim bytes16) (simp add: pair16_values pair16_iff conj_assoc)

lemma sixtofour_iff: "length b = 16 \<Longrightarrow> pair16 (byte_at b 0) (byte_at b 1) = 0x2002 \<longleftrightarrow> take 2 b = [0x20, 2]"
  by (elim bytes16) (simp add: pair16_values pair16_iff)

lemma carried_bytes:
  assumes "length b = 16"
  shows "sp_prefix e = 8 * 12 \<Longrightarrow> carried_at 128 e (bigOf b) = bigOf (drop 12 b)"
    and "sp_prefix e = 8 * 2 \<Longrightarrow> carried_at 128 e (bigOf b) = bigOf (take 4 (drop 2 b))"
proof -
  show "sp_prefix e = 8 * 12 \<Longrightarrow> carried_at 128 e (bigOf b) = bigOf (drop 12 b)"
    using bigOf_split(2) [of b 12 4] assms by (simp add: carried_at_def)
  have "bigOf b div 256 ^ 10 = bigOf (take 6 b)" using bigOf_split(1) [of b 6 10] assms by simp
  moreover have "bigOf (take 6 b) mod 256 ^ 4 = bigOf (drop 2 (take 6 b))"
    using bigOf_split(2) [of "take 6 b" 2 4] assms by simp
  ultimately show "sp_prefix e = 8 * 2 \<Longrightarrow> carried_at 128 e (bigOf b) = bigOf (take 4 (drop 2 b))"
    by (simp add: carried_at_def drop_take)
qed

text \<open>Global unicast: the complement of \<open>2000::/3\<close> is the three added blocks.\<close>

lemma not_global_unicast:
  assumes "length b = 16"
  shows "byte_at b 0 AND 0xe0 \<noteq> 0x20 \<longleftrightarrow>
    span_has 128 (spanOf ''::/3'' 128) (bigOf b) \<or> span_has 128 (spanOf ''4000::/2'' 128) (bigOf b) \<or>
    span_has 128 (spanOf ''8000::/1'' 128) (bigOf b)"
proof -
  define t where "t = bigOf b div 2 ^ 125"
  have first: "bigOf b div 2 ^ 120 = uint (byte_at b 0)"
    using bigOf_split(1) [of b 1 15] assms by (cases b) simp_all
  have t: "t = uint (byte_at b 0) div 2 ^ 5"
    unfolding t_def first [symmetric] by (simp flip: zdiv_zmult2_eq)
  have "0 \<le> t" "t < 8" using uint_bounds [of "byte_at b 0"] unfolding t by (simp_all add: pos_imp_zdiv_nonneg_iff)
  have m: "push_bit 5 (0xff :: 8 word) = 0xe0" "0x20 AND (0xe0 :: 8 word) = 0x20" by code_simp+
  have "byte_at b 0 AND 0xe0 = 0x20 \<longleftrightarrow> t = 1"
    using masked_eq [of "byte_at b 0" 5 "0x20"] unfolding m t by simp
  moreover have "span_has 128 (spanOf ''::/3'' 128) (bigOf b) \<longleftrightarrow> t = 0"
    unfolding special_spans span_has_def maskTo_div by (simp add: t_def)
  moreover have "span_has 128 (spanOf ''4000::/2'' 128) (bigOf b) \<longleftrightarrow> t div 2 = 1"
  proof -
    have "bigOf b div 2 ^ 126 = t div 2" unfolding t_def by (simp flip: zdiv_zmult2_eq)
    then show ?thesis unfolding special_spans span_has_def maskTo_div by simp
  qed
  moreover have "span_has 128 (spanOf ''8000::/1'' 128) (bigOf b) \<longleftrightarrow> t div 4 = 1"
  proof -
    have "bigOf b div 2 ^ 127 = t div 4" unfolding t_def by (simp flip: zdiv_zmult2_eq)
    then show ?thesis unfolding special_spans span_has_def maskTo_div by simp
  qed
  moreover have "t \<noteq> 1 \<longleftrightarrow> t = 0 \<or> t div 2 = 1 \<or> t div 4 = 1"
    using \<open>0 \<le> t\<close> \<open>t < 8\<close> by presburger
  ultimately show ?thesis by simp
qed

lemma in_closed_V6:
  assumes l: "length b = 16"
  shows "in_closed FAMILY_V6 (bigOf b) \<longleftrightarrow>
    (\<exists>(c, r)\<in>set v6Ranges. span_has 128 (spanFrom c 128) (bigOf b)) \<or> byte_at b 0 AND 0xe0 \<noteq> 0x20"
  unfolding not_global_unicast [OF l] by (auto simp: in_closed_def FAMILY_V6_def list_ex_iff)

lemma v6Ranges_has:
  assumes l: "length b = 16" and u: "\<not> isV4Mapped b"
  shows "List.find (\<lambda>(c, _). inCidr \<lparr>pa_family = V6, pa_bytes = b\<rparr> c) v6Ranges = None \<longleftrightarrow>
    \<not> (\<exists>(c, r)\<in>set v6Ranges. span_has 128 (spanFrom c 128) (bigOf b))"
proof -
  have "inCidr \<lparr>pa_family = V6, pa_bytes = b\<rparr> c \<longleftrightarrow> span_has 128 (spanFrom c 128) (bigOf b)"
    if "(c, r) \<in> set v6Ranges" for c r
    using v6Ranges_wf [OF that] loop_span [of c b] l u by (auto simp: inCidr_def canonical_def wf_cidr_def)
  then show ?thesis by (auto simp: find_pair_None)
qed

lemma embedded_blocks:
  assumes l: "length b = 16"
  obtains e1 e2 e3 where "fm_embedded FAMILY_V6 = [e1, e2, e3]"
    "span_has 128 e1 (bigOf b) \<longleftrightarrow> take 12 b = [0, 0, 0, 0, 0, 0, 0, 0, 0, 0, 0xff, 0xff]"
    "span_has 128 e2 (bigOf b) \<longleftrightarrow> take 12 b = [0, 0x64, 0xff, 0x9b, 0, 0, 0, 0, 0, 0, 0, 0]"
    "span_has 128 e3 (bigOf b) \<longleftrightarrow> take 2 b = [0x20, 2]"
    "carried_at 128 e1 (bigOf b) = bigOf (drop 12 b)" "carried_at 128 e2 (bigOf b) = bigOf (drop 12 b)"
    "carried_at 128 e3 (bigOf b) = bigOf (take 4 (drop 2 b))"
  by (rule that [OF embedded_V6 span_has_take [OF l] span_has_take [OF l] span_has_take [OF l] carried_bytes(1) [OF l]
      carried_bytes(1) [OF l] carried_bytes(2) [OF l]]) simp_all

lemma classify_V6_iff:
  assumes l: "length b = 16"
  shows "vd_public (classifyAddress \<lparr>pa_family = V6, pa_bytes = b\<rparr>) \<longleftrightarrow> fam_public FAMILY_V6 FAMILY_V4 (bigOf b)"
proof -
  have w: "fm_width FAMILY_V6 = 128" by (simp add: FAMILY_V6_def)
  let ?m = "take 12 b = [0, 0, 0, 0, 0, 0, 0, 0, 0, 0, 0xff, 0xff]"
    and ?n = "take 12 b = [0, 0x64, 0xff, 0x9b, 0, 0, 0, 0, 0, 0, 0, 0]" and ?s = "take 2 b = [0x20, 2]"
  obtain e1 e2 e3 where e: "fm_embedded FAMILY_V6 = [e1, e2, e3]"
    "span_has 128 e1 (bigOf b) \<longleftrightarrow> ?m" "span_has 128 e2 (bigOf b) \<longleftrightarrow> ?n" "span_has 128 e3 (bigOf b) \<longleftrightarrow> ?s"
    "carried_at 128 e1 (bigOf b) = bigOf (drop 12 b)" "carried_at 128 e2 (bigOf b) = bigOf (drop 12 b)"
    "carried_at 128 e3 (bigOf b) = bigOf (take 4 (drop 2 b))"
    by (rule embedded_blocks [OF l])
  have pub: "fam_public FAMILY_V6 FAMILY_V4 (bigOf b) \<longleftrightarrow>
      (if ?m \<or> ?n then \<not> in_closed FAMILY_V4 (bigOf (drop 12 b))
       else if ?s then \<not> in_closed FAMILY_V4 (bigOf (take 4 (drop 2 b))) else \<not> in_closed FAMILY_V6 (bigOf b))"
    unfolding fam_public_def w e(1) List.find.simps e(2-4) by (simp add: e(5-7))
  have v4: "vd_public (classifyV4 (drop 12 b)) \<longleftrightarrow> \<not> in_closed FAMILY_V4 (bigOf (drop 12 b))"
    "vd_public (classifyV4 (take 4 (drop 2 b))) \<longleftrightarrow> \<not> in_closed FAMILY_V4 (bigOf (take 4 (drop 2 b)))"
    using l by (simp_all add: classifyV4_iff)
  show ?thesis
  proof (cases "isV4Mapped b")
    case True
    then have "canonical \<lparr>pa_family = V6, pa_bytes = b\<rparr> = \<lparr>pa_family = V4, pa_bytes = drop 12 b\<rparr>"
      by (simp add: canonical_def)
    with True show ?thesis using v4(1) mapped_iff [OF l] unfolding pub by (simp add: classifyAddress_def)
  next
    case False
    then have "canonical \<lparr>pa_family = V6, pa_bytes = b\<rparr> = \<lparr>pa_family = V6, pa_bytes = b\<rparr>"
      by (simp add: canonical_def)
    moreover have "\<not> ?m" using False mapped_iff [OF l] by simp
    ultimately show ?thesis
      using v4 v6Ranges_has [OF l False] nat64_iff [OF l] sixtofour_iff [OF l] in_closed_V6 [OF l] unfolding pub
      by (cases "List.find (\<lambda>(c, _). inCidr \<lparr>pa_family = V6, pa_bytes = b\<rparr> c) v6Ranges")
        (simp_all add: classifyAddress_def refused_def verdict_public_def split: prod.split)
  qed
qed

text \<open>The verdict for either family, over the number of the address.\<close>

lemma classify_iff:
  assumes "wf_address a"
  shows "vd_public (classifyAddress a) \<longleftrightarrow> fam_public (family_of (pa_family a)) FAMILY_V4 (bigOf (pa_bytes a))"
proof (cases "pa_family a")
  case V4
  then have "length (pa_bytes a) = 4" using assms by (simp add: wf_address_def)
  moreover have "classifyAddress a = classifyV4 (pa_bytes a)"
    by (simp add: classifyAddress_def canonical_def V4)
  moreover have "fam_public FAMILY_V4 FAMILY_V4 n \<longleftrightarrow> \<not> in_closed FAMILY_V4 n" for n
    by (simp add: fam_public_def FAMILY_V4_def)
  ultimately show ?thesis using classifyV4_iff by (simp add: V4 family_of_def)
next
  case V6
  then obtain b where a: "a = \<lparr>pa_family = V6, pa_bytes = b\<rparr>" by (cases a) simp
  with assms have "length b = 16" by (simp add: wf_address_def)
  then show ?thesis using classify_V6_iff [of b] by (simp add: a family_of_def)
qed

section \<open>The lowest public address\<close>

lemma families_wf: "wf_spans FAMILY_V4" "wf_spans FAMILY_V6"
  by code_simp+

lemma families_search: "searches (family_of f) FAMILY_V4"
proof -
  have v4: "searches FAMILY_V4 FAMILY_V4"
    by (rule searches_plain [OF families_wf(1)]) (simp_all add: FAMILY_V4_def)
  then have "searches FAMILY_V6 FAMILY_V4"
    by (rule searches_embedding [OF families_wf(2)]) (simp_all add: FAMILY_V4_def)
  with v4 show ?thesis by (simp add: family_of_def split: ip_family.split)
qed

lemma family_width: "fm_width (family_of f) = ip_width f"
  by (simp add: family_of_def FAMILY_V4_def FAMILY_V6_def split: ip_family.split)

lemma in_range_iff:
  assumes "wf_cidr c" "length b = length (cd_bytes c)"
  shows "cidr_loop b (cd_bytes c) 0 (cd_prefix c) \<longleftrightarrow>
    span_has (ip_width (cd_family c)) (range_at (ip_width (cd_family c)) (bigOf (cd_bytes c)) (cd_prefix c)) (bigOf b)"
  using loop_span [OF assms] by (simp add: spanFrom_def range_at_def)

lemma range_bounds:
  assumes "span_has w (range_at w base p) n" "p \<le> w" "0 \<le> base" "base < 2 ^ w"
  shows "0 \<le> n \<and> n < 2 ^ w"
proof -
  have "maskTo n w 0 = maskTo base w 0"
    using assms(1,2) maskTo_maskTo [of 0 p w] unfolding range_has by (metis le0)
  then have "n div 2 ^ w = 0" using assms by (simp add: maskTo_eq_iff)
  then have "n = n mod 2 ^ w" using div_mult_mod_eq [of n "2 ^ w"] by simp
  then show ?thesis by (metis pos_mod_bound pos_mod_sign zero_less_numeral zero_less_power)
qed

text \<open>The addresses of a range, as \<open>inCidr\<close> compares bytes (without turning an IPv4-mapped address into IPv4 first).\<close>

definition in_block :: "cidr \<Rightarrow> uint8_array \<Rightarrow> bool" where
  "in_block c b \<longleftrightarrow> length b = length (cd_bytes c) \<and> cidr_loop b (cd_bytes c) 0 (cd_prefix c)"

lemma search_outcome:
  assumes c: "wf_cidr c"
  obtains r where "cidrContainsPublic c = Some (map_option (\<lambda>n. \<lparr>pa_family = cd_family c, pa_bytes = bytes_of (length (cd_bytes c)) n\<rparr>) r)"
    and "outcome (family_of (cd_family c)) FAMILY_V4 (bigOf (cd_bytes c)) (cd_prefix c) r"
proof -
  have p: "cd_prefix c \<le> fm_width (family_of (cd_family c))" and l: "fm_width (family_of (cd_family c)) div 8 = length (cd_bytes c)"
    using c by (simp_all add: family_width wf_cidr_def)
  show ?thesis
    using searchesD [OF families_search p, of "bigOf (cd_bytes c)"] that by (auto simp: cidrContainsPublic_def l)
qed

lemma public_number:
  assumes c: "wf_cidr c" and l: "length b = length (cd_bytes c)"
  shows "in_block c b \<and> vd_public (classifyAddress \<lparr>pa_family = cd_family c, pa_bytes = b\<rparr>) \<longleftrightarrow>
    span_has (fm_width (family_of (cd_family c))) (range_at (fm_width (family_of (cd_family c))) (bigOf (cd_bytes c)) (cd_prefix c)) (bigOf b) \<and>
    fam_public (family_of (cd_family c)) FAMILY_V4 (bigOf b)"
  using in_range_iff [OF c l] classify_iff [of "\<lparr>pa_family = cd_family c, pa_bytes = b\<rparr>"] c l
  by (simp add: in_block_def family_width wf_address_def wf_cidr_def)

lemma range_number:
  assumes c: "wf_cidr c"
    and n: "span_has (fm_width (family_of (cd_family c))) (range_at (fm_width (family_of (cd_family c))) (bigOf (cd_bytes c)) (cd_prefix c)) n"
  shows "bigOf (bytes_of (length (cd_bytes c)) n) = n"
proof -
  have w: "(256 :: int) ^ length (cd_bytes c) = 2 ^ ip_width (cd_family c)"
    using c by (cases "cd_family c") (simp_all add: wf_cidr_def)
  have "bigOf (cd_bytes c) < 2 ^ ip_width (cd_family c)" using bigOf_bounds [of "cd_bytes c"] by (simp only: w)
  then have "0 \<le> n \<and> n < 2 ^ ip_width (cd_family c)"
    using n c bigOf_bounds [of "cd_bytes c"] unfolding family_width
    by (intro range_bounds [of _ "bigOf (cd_bytes c)" "cd_prefix c"]) (simp_all add: wf_cidr_def)
  then show ?thesis by (intro bigOf_bytes_of) (simp_all add: w)
qed

text \<open>
  (C20) For every well-formed range \<open>cidrContainsPublic\<close> returns. When it answers null, \<open>classifyAddress\<close> calls no address of the
  range public; otherwise the answer has the range's family and length, lies in the range, is public for
  \<open>classifyAddress\<close>, and no public address of the range is lower. So the two restated families mirror the classifier.
\<close>

theorem cidrContainsPublic_lowest:
  assumes "wf_cidr c"
  shows "\<exists>r. cidrContainsPublic c = Some r \<and>
    (case r of
       None \<Rightarrow> \<forall>b. in_block c b \<longrightarrow> \<not> vd_public (classifyAddress \<lparr>pa_family = cd_family c, pa_bytes = b\<rparr>)
     | Some a \<Rightarrow> pa_family a = cd_family c \<and> in_block c (pa_bytes a) \<and> vd_public (classifyAddress a) \<and>
         (\<forall>b. in_block c b \<and> vd_public (classifyAddress \<lparr>pa_family = cd_family c, pa_bytes = b\<rparr>) \<longrightarrow>
              bigOf (pa_bytes a) \<le> bigOf b))"
proof -
  obtain r where r: "cidrContainsPublic c = Some (map_option (\<lambda>n. \<lparr>pa_family = cd_family c, pa_bytes = bytes_of (length (cd_bytes c)) n\<rparr>) r)"
    and out: "outcome (family_of (cd_family c)) FAMILY_V4 (bigOf (cd_bytes c)) (cd_prefix c) r"
    by (rule search_outcome [OF assms])
  have len: "in_block c b \<Longrightarrow> length b = length (cd_bytes c)" for b by (simp add: in_block_def)
  show ?thesis
  proof (cases r)
    case None
    then show ?thesis using r out public_number [OF assms len] by auto
  next
    case (Some n)
    let ?b = "bytes_of (length (cd_bytes c)) n"
    from Some out have n: "bigOf ?b = n" by (intro range_number [OF assms]) simp
    have "in_block c ?b \<and> vd_public (classifyAddress \<lparr>pa_family = cd_family c, pa_bytes = ?b\<rparr>)"
      using public_number [OF assms, of ?b] out Some n by simp
    moreover have "n \<le> bigOf b"
      if "in_block c b \<and> vd_public (classifyAddress \<lparr>pa_family = cd_family c, pa_bytes = b\<rparr>)" for b
      using public_number [OF assms len, of b] out Some that by simp
    ultimately show ?thesis using r Some n by simp
  qed
qed

theorem cidrContainsPublic_lowest_witness:
  "parseCidr ''172.16.0.0/11'' = Some \<lparr>cd_family = V4, cd_bytes = [172, 16, 0, 0], cd_prefix = 11\<rparr> \<and>
   cidrContainsPublic \<lparr>cd_family = V4, cd_bytes = [172, 16, 0, 0], cd_prefix = 11\<rparr> = Some (Some \<lparr>pa_family = V4, pa_bytes = [172, 0, 0, 0]\<rparr>) \<and>
   vd_public (classifyAddress \<lparr>pa_family = V4, pa_bytes = [172, 0, 0, 0]\<rparr>)"
proof -
  have p: "parseCidr ''172.16.0.0/11'' = Some \<lparr>cd_family = V4, cd_bytes = [172, 16, 0, 0], cd_prefix = 11\<rparr>" by code_simp
  moreover have "cidrContainsPublic \<lparr>cd_family = V4, cd_bytes = [172, 16, 0, 0], cd_prefix = 11\<rparr>
      = Some (Some \<lparr>pa_family = V4, pa_bytes = [172, 0, 0, 0]\<rparr>)" by code_simp
  ultimately show ?thesis
    using cidrContainsPublic_lowest [OF parseCidr_wf [OF p]] by auto
qed



end
