(* ===== verification/Egress_Guard.thy ===== *)
theory Egress_Guard
  imports Ip_Theorems Policy_Paths
begin

text \<open>
  What the core may connect to: the SSRF guard that resolves a host to one pinned address (\<^verbatim>\<open>packages/core/src/tools/web/guard.ts\<close>),
  the egress policy (\<^verbatim>\<open>packages/core/src/egress/policy.ts\<close>, \<^verbatim>\<open>packages/core/src/egress/model-downloads.ts\<close>) and the per-hop gate
  (\<^verbatim>\<open>packages/core/src/egress/gate.ts\<close>).

  Name resolution and \<open>domainToASCII\<close> of the platform are parameters. A failure keeps its code and, for a denial of the gate,
  its reason; the message texts are left out. A URL is the parts the code reads of it, as the URL parser gives them.
\<close>

section \<open>Failures and URLs\<close>

datatype deny_kind = DInvalidUrl | DScheme | DPort | DHostNotAllowed | DLoopback | DPrivateAddress | DNotFound

datatype web_code = InvalidArguments | InvalidUrl | PrivateAddress | EgressDenied | NotFound | Gone | AuthRequired | Paywall
  | Captcha | RateLimited | TimedOut | TooLarge | UnsupportedType | TlsError | NeedsRender | TooManyRedirects
  | RobotsDisallowed | NetworkError | HttpError | CursorExpired | NoProvider | ProviderFailed | InternalError

record web_failure =
  wf_code :: web_code
  wf_reason :: "deny_kind option"

definition web_failure_of :: "web_code \<Rightarrow> web_failure" where
  "web_failure_of k = \<lparr>wf_code = k, wf_reason = None\<rparr>"

definition egress_denial :: "deny_kind \<Rightarrow> web_failure" where
  "egress_denial reason =
    \<lparr>wf_code = (if reason = DPrivateAddress then PrivateAddress else EgressDenied), wf_reason = Some reason\<rparr>"

record url =
  u_protocol :: string
  u_hostname :: string
  u_port :: string
  u_username :: string
  u_password :: string
  u_href :: string

section \<open>Printing an address\<close>

definition digit_char :: "int \<Rightarrow> char" where
  "digit_char d = char_of (if d < 10 then 48 + d else 87 + d)"

function num_str :: "int \<Rightarrow> int \<Rightarrow> string" where
  "num_str base n =
    (if base < 2 \<or> n < base then [digit_char n]
     else num_str base (n div base) @ [digit_char (n mod base)])"
  by pat_completeness auto

termination
proof (relation "measure (\<lambda>(base, n). nat n)")
  fix base n :: int
  assume "\<not> (base < 2 \<or> n < base)"
  then have "n div base < n" by (intro int_div_less_self) auto
  with \<open>\<not> (base < 2 \<or> n < base)\<close> show "((base, n div base), (base, n)) \<in> measure (\<lambda>(base, n). nat n)"
    by auto
qed simp

declare num_str.simps [simp del]

fun pairs :: "uint8_array \<Rightarrow> int list" where
  "pairs (x # y # rest) = pair16 x y # pairs rest"
| "pairs _ = []"

definition formatAddress :: "parsed_address \<Rightarrow> string" where
  "formatAddress a =
    (let c = canonical a in
     if pa_family c = V4 then join CHR ''.'' (map (\<lambda>b. num_str 10 (uint b)) (pa_bytes c))
     else join CHR '':'' (map (num_str 16) (pairs (take 16 (pa_bytes c)))))"

section \<open>The SSRF guard\<close>

record resolved_address =
  ra_address :: string
  ra_family :: ip_family

text \<open>A rejected lookup is \<open>None\<close>.\<close>

type_synonym resolver = "string \<Rightarrow> resolved_address list option"

record address_policy =
  ap_allow :: "cidr list"
  ap_deny :: "cidr list"
  ap_forHost :: "string \<Rightarrow> cidr list"

fun parse_cidrs :: "string list \<Rightarrow> cidr list option" where
  "parse_cidrs [] = Some []"
| "parse_cidrs (s # ss) =
     (case parseCidr s of None \<Rightarrow> None | Some c \<Rightarrow> map_option (Cons c) (parse_cidrs ss))"

definition makeAddressPolicy :: "string list \<Rightarrow> address_policy option" where
  "makeAddressPolicy allowCidrs =
     map_option (\<lambda>cs. \<lparr>ap_allow = cs, ap_deny = [], ap_forHost = (\<lambda>_. [])\<rparr>) (parse_cidrs allowCidrs)"

definition admit :: "parsed_address \<Rightarrow> address_policy \<Rightarrow> string \<Rightarrow> (web_failure, resolved_address) result" where
  "admit a policy host =
    (let c = canonical a in
     if list_ex (inCidr c) (ap_deny policy) then Inl (web_failure_of PrivateAddress)
     else if \<not> vd_public (classifyAddress c) \<and> \<not> list_ex (inCidr c) (ap_allow policy) \<and>
             \<not> list_ex (inCidr c) (ap_forHost policy host)
     then Inl (web_failure_of PrivateAddress)
     else Inr \<lparr>ra_address = formatAddress c, ra_family = pa_family c\<rparr>)"

definition drop_dot :: "string \<Rightarrow> string" where
  "drop_dot s = (if suffix ''.'' s then butlast s else s)"

definition guarded_name :: "string \<Rightarrow> string" where
  "guarded_name host = drop_dot (unbracket (js_lower (js_trim host)))"

definition bad_name :: "string \<Rightarrow> bool" where
  "bad_name n \<longleftrightarrow> n = [] \<or> 253 < length n \<or>
     list_ex (\<lambda>c. js_space c \<or> c = CHR ''/'' \<or> c = CHR 0x5C \<or> c = CHR ''@'') n"

fun admit_all :: "address_policy \<Rightarrow> string \<Rightarrow> resolved_address list \<Rightarrow> (web_failure, resolved_address list) result" where
  "admit_all policy name [] = Inr []"
| "admit_all policy name (r # rs) =
     (case parseAddress (ra_address r) False of
        None \<Rightarrow> Inl (web_failure_of PrivateAddress)
      | Some a \<Rightarrow>
        (case admit a policy name of
           Inl e \<Rightarrow> Inl e
         | Inr x \<Rightarrow> (case admit_all policy name rs of Inl e \<Rightarrow> Inl e | Inr xs \<Rightarrow> Inr (x # xs))))"

definition resolveGuarded :: "string \<Rightarrow> resolver \<Rightarrow> address_policy \<Rightarrow> (web_failure, resolved_address) result" where
  "resolveGuarded host resolver policy =
    (let name = guarded_name host in
     if bad_name name then Inl (web_failure_of InvalidUrl)
     else (case parseAddress name False of
             Some literal \<Rightarrow> admit literal policy name
           | None \<Rightarrow>
             if name = ''localhost'' \<or> suffix ''.localhost'' name
             then admit (the (parseAddress ''127.0.0.1'' False)) policy name
             else (case resolver name of
                     None \<Rightarrow> Inl (web_failure_of NotFound)
                   | Some answers \<Rightarrow>
                     if answers = [] then Inl (web_failure_of NotFound)
                     else (case admit_all policy name answers of
                             Inl e \<Rightarrow> Inl e
                           | Inr admitted \<Rightarrow> Inr (hd admitted)))))"

section \<open>The egress policy\<close>

text \<open>The live configuration is not trusted to be well typed.\<close>

record egress_config =
  ec_allowHosts :: jsval
  ec_allowPorts :: jsval
  ec_allowLoopback :: jsval
  ec_modelDownloads :: jsval

datatype host_rule = ExactHost string | SuffixHost string | AnyName | IpHost string

datatype config_error = HostsNotList | PortsNotList | EntryNotString | NotCanonicalIp string | BadWildcard string
  | BadHostName string | BadPort jsval

record egress_policy =
  ep_hostRules :: "host_rule list"
  ep_allowPorts :: "jsval list"
  ep_allowLoopback :: bool
  ep_errors :: "config_error list"
  ep_allowHosts :: "string list"

definition lower_alnum :: "char \<Rightarrow> bool" where
  "lower_alnum c \<longleftrightarrow> is_digit c \<or> 97 \<le> code c \<and> code c \<le> 122"

definition label_ok :: "string \<Rightarrow> bool" where
  "label_ok l \<longleftrightarrow> l \<noteq> [] \<and> length l \<le> 63 \<and> lower_alnum (hd l) \<and> lower_alnum (last l) \<and>
     list_all (\<lambda>c. lower_alnum c \<or> c = CHR ''-'') l"

definition name_char_bad :: "char \<Rightarrow> bool" where
  "name_char_bad c \<longleftrightarrow> code c < 0x21 \<or> code c = 0x7f \<or> c \<in> set ''/@:?#%'' \<or> c = CHR 0x5C \<or> js_space c"

definition normaliseName :: "(string \<Rightarrow> string) \<Rightarrow> string \<Rightarrow> string option" where
  "normaliseName domainToASCII raw =
    (let n = drop_dot (js_lower (js_trim raw)) in
     if n = [] \<or> 253 < length n \<or> list_ex name_char_bad n then None
     else (let ascii = domainToASCII n in
           if ascii = [] \<or> 253 < length ascii then None
           else (let labels = split_on (\<lambda>c. c = CHR ''.'') ascii in
                 if \<not> list_all label_ok labels then None
                 else if list_all is_digit (last labels) then None
                 else Some ascii)))"

definition compileHost :: "(string \<Rightarrow> string) \<Rightarrow> jsval \<Rightarrow> (config_error, host_rule) result" where
  "compileHost domainToASCII entry =
    (case entry of
       JStr raw \<Rightarrow>
         (let e = js_trim raw in
          if e = ''*'' then Inr AnyName
          else if parseAddress e False \<noteq> None then
            (case parseAddress e True of
               None \<Rightarrow> Inl (NotCanonicalIp (take 64 e))
             | Some a \<Rightarrow>
               if prefix ''['' e \<noteq> (pa_family a = V6) then Inl (NotCanonicalIp (take 64 e))
               else Inr (IpHost (formatAddress a)))
          else if prefix ''*.'' e then
            (case normaliseName domainToASCII (drop 2 e) of
               None \<Rightarrow> Inl (BadWildcard (take 64 e))
             | Some s \<Rightarrow> if CHR ''*'' \<in> set (drop 2 e) then Inl (BadWildcard (take 64 e)) else Inr (SuffixHost s))
          else
            (case (if CHR ''*'' \<in> set e then None else normaliseName domainToASCII e) of
               None \<Rightarrow> Inl (BadHostName (take 64 e))
             | Some n \<Rightarrow> Inr (ExactHost n)))
     | _ \<Rightarrow> Inl EntryNotString)"

definition js_list :: "jsval \<Rightarrow> jsval list option" where
  "js_list v = (case v of JArr xs \<Rightarrow> Some xs | _ \<Rightarrow> None)"

definition bad_port :: "jsval \<Rightarrow> bool" where
  "bad_port p = (case p of
     JNum n \<Rightarrow> \<not> is_integer n \<or> n < Fin 1 \<or> Fin 65535 < n
   | _ \<Rightarrow> True)"

text \<open>\<open>ports.find(bad)\<close>: no bad port and a bad port that is \<open>undefined\<close> look the same to the code.\<close>

definition port_errors :: "jsval list \<Rightarrow> config_error list" where
  "port_errors ports = (case List.find bad_port ports of
     None \<Rightarrow> [] | Some p \<Rightarrow> if p = JUndef then [] else [BadPort p])"

fun compile_hosts :: "(string \<Rightarrow> string) \<Rightarrow> jsval list \<Rightarrow> config_error list \<times> host_rule list" where
  "compile_hosts dta [] = ([], [])"
| "compile_hosts dta (x # xs) =
     (let (es, rs) = compile_hosts dta xs in
      case compileHost dta x of Inl e \<Rightarrow> (e # es, rs) | Inr r \<Rightarrow> (es, r # rs))"

definition rule_text :: "host_rule \<Rightarrow> string" where
  "rule_text r = (case r of ExactHost h \<Rightarrow> h | SuffixHost s \<Rightarrow> ''*.'' @ s | AnyName \<Rightarrow> ''*'' | IpHost a \<Rightarrow> a)"

definition compileEgressPolicy :: "(string \<Rightarrow> string) \<Rightarrow> egress_config \<Rightarrow> egress_policy" where
  "compileEgressPolicy dta cfg =
    (let hosts = (case js_list (ec_allowHosts cfg) of Some xs \<Rightarrow> xs | None \<Rightarrow> []);
         ports = (case js_list (ec_allowPorts cfg) of Some xs \<Rightarrow> xs | None \<Rightarrow> []);
         (hostErrors, rules) = compile_hosts dta hosts;
         errors = (if js_list (ec_allowHosts cfg) = None then [HostsNotList] else []) @
                  (if js_list (ec_allowPorts cfg) = None then [PortsNotList] else []) @ hostErrors @ port_errors ports;
         failed = (errors \<noteq> [])
     in \<lparr>ep_hostRules = (if failed then [] else rules),
         ep_allowPorts = (if failed then [] else ports),
         ep_allowLoopback = (ec_allowLoopback cfg = JBool True \<and> \<not> failed),
         ep_errors = errors,
         ep_allowHosts = (if failed then [] else map rule_text rules)\<rparr>)"

definition rule_allows :: "bool \<Rightarrow> bool \<Rightarrow> string \<Rightarrow> host_rule \<Rightarrow> bool" where
  "rule_allows explicitOnly exactOnly h r =
    (if exactOnly then r = ExactHost h
     else (case r of
             AnyName \<Rightarrow> \<not> explicitOnly
           | ExactHost x \<Rightarrow> x = h
           | SuffixHost s \<Rightarrow> suffix (CHR ''.'' # s) h
           | IpHost _ \<Rightarrow> False))"

definition hostAllowed :: "egress_policy \<Rightarrow> string \<Rightarrow> bool \<Rightarrow> bool \<Rightarrow> bool" where
  "hostAllowed p host explicitOnly exactOnly =
    (let h = drop_dot (js_lower host) in
     case parseAddress h False of
       Some lit \<Rightarrow> list_ex (\<lambda>r. r = IpHost (formatAddress (canonical lit))) (ep_hostRules p)
     | None \<Rightarrow> list_ex (rule_allows explicitOnly exactOnly h) (ep_hostRules p))"

definition MODEL_DOWNLOAD_HOSTS :: "string list" where
  "MODEL_DOWNLOAD_HOSTS = [''huggingface.co'', ''us.aws.cdn.hf.co'']"

text \<open>\<open>raw?.allowHosts ?? MODEL_DOWNLOAD_HOSTS\<close>, where \<open>raw\<close> is the \<open>modelDownloads\<close> entry of the configuration.\<close>

definition model_entries :: "jsval \<Rightarrow> jsval" where
  "model_entries raw = (case jget raw ''allowHosts'' of
     JUndef \<Rightarrow> JArr (map JStr MODEL_DOWNLOAD_HOSTS) | JNull \<Rightarrow> JArr (map JStr MODEL_DOWNLOAD_HOSTS) | v \<Rightarrow> v)"

text \<open>Reading \<open>enabled\<close> of a null entry throws: \<open>None\<close>.\<close>

definition modelDownloadPolicy :: "egress_config \<Rightarrow> egress_config option" where
  "modelDownloadPolicy config =
    (let raw = ec_modelDownloads config;
         entries = model_entries raw;
         enabled = (raw = JUndef \<or> jget raw ''enabled'' = JBool True)
     in if raw = JNull then None else Some (config\<lparr>ec_allowHosts :=
         (case js_list entries of
            Some xs \<Rightarrow> if enabled \<and> list_all (\<lambda>h. h \<in> JStr ` set MODEL_DOWNLOAD_HOSTS) xs then JArr xs else JArr []
          | None \<Rightarrow> JArr [])\<rparr>))"

section \<open>The per-hop gate\<close>

definition bareHost :: "url \<Rightarrow> string" where
  "bareHost url =
    drop_dot (js_lower (if prefix ''['' (u_hostname url) then butlast (tl (u_hostname url)) else u_hostname url))"

definition isLoopbackHost :: "string \<Rightarrow> bool" where
  "isLoopbackHost host \<longleftrightarrow> host = ''localhost'' \<or> suffix ''.localhost'' host \<or>
     (case parseAddress host False of
        Some a \<Rightarrow> vd_reason (classifyAddress a) = Some ''loopback''
      | None \<Rightarrow> False)"

definition effectivePort :: "url \<Rightarrow> int" where
  "effectivePort url =
    (if u_port url \<noteq> [] then parse_int 10 (u_port url) else if u_protocol url = ''https:'' then 443 else 80)"

definition empty_label :: "string \<Rightarrow> bool" where
  "empty_label host \<longleftrightarrow> prefix ''.'' host \<or> suffix ''.'' host \<or> index_of ''..'' host \<noteq> None"

text \<open>The reason of the denial, or \<open>None\<close> when the hook returns.\<close>

definition beforeResolve :: "egress_policy \<Rightarrow> url \<Rightarrow> deny_kind option" where
  "beforeResolve policy url =
    (let host = bareHost url;
         loopbackOk = (ep_allowLoopback policy \<and> isLoopbackHost host)
     in if u_protocol url \<noteq> ''https:'' \<and> \<not> (u_protocol url = ''http:'' \<and> loopbackOk) then Some DScheme
        else if host = [] then Some DInvalidUrl
        else if u_username url \<noteq> [] \<or> u_password url \<noteq> [] then Some DInvalidUrl
        else if empty_label host then Some DInvalidUrl
        else if JNum (Fin (of_int (effectivePort url))) \<notin> set (ep_allowPorts policy) then Some DPort
        else if \<not> hostAllowed policy host False False then Some DHostNotAllowed
        else if ep_allowLoopback policy \<and> isLoopbackHost host \<and> \<not> hostAllowed policy host True False
        then Some DHostNotAllowed
        else None)"

definition afterResolve :: "egress_policy \<Rightarrow> url \<Rightarrow> resolved_address \<Rightarrow> deny_kind option" where
  "afterResolve policy url pin =
    (let host = bareHost url;
         loopbackPin = (case parseAddress (ra_address pin) False of
                          Some a \<Rightarrow> vd_reason (classifyAddress a) = Some ''loopback''
                        | None \<Rightarrow> False)
     in if loopbackPin \<and> \<not> ep_allowLoopback policy then Some DLoopback
        else if loopbackPin \<and> \<not> isLoopbackHost host then Some DLoopback
        else if u_protocol url = ''http:'' \<and> \<not> loopbackPin then Some DScheme
        else None)"

end
