(* ===== verification/Egress_Theorems.thy ===== *)
theory Egress_Theorems
  imports Egress_Guard
begin

text \<open>
  Printing and reading an address back, and what the guard promises of the address it pins.
\<close>

section \<open>Digits\<close>

lemma digit_val_char: "0 \<le> d \<Longrightarrow> d < 16 \<Longrightarrow> digit_val (digit_char d) = Some d"
proof -
  assume "0 \<le> d" "d < 16"
  then have "d \<in> set [0..15]" by simp
  moreover have "list_all (\<lambda>d. digit_val (digit_char d) = Some d) [0..15]" by code_simp
  ultimately show ?thesis by (simp only: list_all_iff)
qed

lemma digit_in_char: "0 \<le> d \<Longrightarrow> d < base \<Longrightarrow> base \<le> 16 \<Longrightarrow> digit_in base (digit_char d)"
  by (simp add: digit_in_def digit_val_char)

lemma num_str_step:
  "2 \<le> base \<Longrightarrow> n < base \<Longrightarrow> num_str base n = [digit_char n]"
  "2 \<le> base \<Longrightarrow> base \<le> n \<Longrightarrow> num_str base n = num_str base (n div base) @ [digit_char (n mod base)]"
  by (subst num_str.simps, simp)+

lemma num_str_induct [consumes 2, case_names digit more]:
  assumes "2 \<le> base" "0 \<le> n"
    and "\<And>n. 0 \<le> n \<Longrightarrow> n < base \<Longrightarrow> P n"
    and "\<And>n. base \<le> n \<Longrightarrow> P (n div base) \<Longrightarrow> P n"
  shows "P (n :: int)"
  using assms(2)
proof (induction "nat n" arbitrary: n rule: less_induct)
  case less
  show ?case
  proof (cases "n < base")
    case True
    with less.prems assms(3) show ?thesis by blast
  next
    case False
    then have "n div base < n" "0 \<le> n div base"
      using assms(1) less.prems by (auto intro!: int_div_less_self simp: pos_imp_zdiv_nonneg_iff)
    with less have "P (n div base)" by simp
    with False assms(4) show ?thesis by simp
  qed
qed

lemma parse_int_snoc: "parse_int base (s @ [c]) = parse_int base s * base + the (digit_val c)"
  by (simp add: parse_int_def)

lemma parse_num_str:
  assumes b: "2 \<le> base" "base \<le> 16" and n: "0 \<le> n"
  shows "parse_int base (num_str base n) = n"
  using b(1) n
proof (induction n rule: num_str_induct)
  case (digit n)
  then show ?case using b by (simp add: num_str_step parse_int_def digit_val_char)
next
  case (more n)
  have "0 \<le> n mod base" "n mod base < base" using b by simp_all
  then have "digit_val (digit_char (n mod base)) = Some (n mod base)"
    using b(2) by (intro digit_val_char) linarith+
  with more show ?case using b by (simp add: num_str_step parse_int_snoc)
qed

lemma num_str_digits:
  assumes b: "2 \<le> base" "base \<le> 16" and n: "0 \<le> n"
  shows "num_str base n \<noteq> [] \<and> list_all (digit_in base) (num_str base n)"
  using b(1) n
proof (induction n rule: num_str_induct)
  case (digit n)
  then show ?case using b by (simp add: num_str_step digit_in_char)
next
  case (more n)
  then show ?case using b by (simp add: num_str_step digit_in_char)
qed

lemma num_str_length:
  assumes b: "2 \<le> base"
  shows "0 \<le> n \<Longrightarrow> n < base ^ Suc k \<Longrightarrow> length (num_str base n) \<le> Suc k"
proof (induction k arbitrary: n)
  case (Suc k)
  show ?case
  proof (cases "n < base")
    case False
    have "n div base < base ^ Suc k" using Suc.prems b by (intro div_less_bound) (simp_all add: mult.commute)
    moreover have "0 \<le> n div base" using Suc.prems b by (simp add: pos_imp_zdiv_nonneg_iff)
    ultimately show ?thesis using Suc.IH [of "n div base"] False b by (simp add: num_str_step)
  qed (simp add: num_str_step b)
qed (simp add: num_str_step b)

lemma digit_char_zero: "0 \<le> d \<Longrightarrow> d < 16 \<Longrightarrow> digit_char d = CHR ''0'' \<longleftrightarrow> d = 0"
proof -
  assume "0 \<le> d" "d < 16"
  then have "d \<in> set [0..15]" by simp
  moreover have "list_all (\<lambda>d. digit_char d = CHR ''0'' \<longleftrightarrow> d = 0) [0..15]" by code_simp
  ultimately show ?thesis by (simp only: list_all_iff)
qed

lemma num_str_hd:
  assumes b: "2 \<le> base" "base \<le> 16" and n: "0 \<le> n"
  shows "0 < n \<longrightarrow> hd (num_str base n) \<noteq> CHR ''0''"
  using b(1) n
proof (induction n rule: num_str_induct)
  case (digit n)
  then show ?case using b by (simp add: num_str_step digit_char_zero)
next
  case (more n)
  then have "0 < n div base" using b by (simp add: pos_imp_zdiv_pos_iff)
  with more show ?case
    using b num_str_digits [OF b, of "n div base"] by (simp add: num_str_step)
qed

text \<open>The characters of a number: no separator, no bracket, no space.\<close>

definition plain_char :: "char \<Rightarrow> bool" where
  "plain_char c \<longleftrightarrow> \<not> js_space c \<and> c \<notin> {CHR ''.'', CHR '':'', CHR ''['', CHR '']''}"

lemma digit_plain: "digit_in base c \<Longrightarrow> plain_char c"
proof -
  assume a: "digit_in base c"
  define n where "n = (of_char c :: nat)"
  have i: "(of_char c :: int) = int n" by (simp add: n_def of_nat_of_char)
  have "48 \<le> n \<and> n \<le> 57 \<or> 65 \<le> n \<and> n \<le> 70 \<or> 97 \<le> n \<and> n \<le> 102"
    using a by (auto simp: digit_in_def digit_val_def i Let_def split: if_splits)
  then have "n \<notin> {9, 10, 11, 12, 13, 32, 46, 58, 91, 93, 160}" by auto
  then show ?thesis by (auto simp: plain_char_def js_space_def n_def)
qed

section \<open>Reading a printed address\<close>

lemma trim_id: "s \<noteq> [] \<Longrightarrow> \<not> js_space (hd s) \<Longrightarrow> \<not> js_space (last s) \<Longrightarrow> js_trim s = s"
proof -
  assume s: "s \<noteq> []" "\<not> js_space (hd s)" "\<not> js_space (last s)"
  have d: "dropWhile P xs = xs" if "xs \<noteq> []" "\<not> P (hd xs)" for P and xs :: string
    using that by (cases xs) auto
  have "dropWhile js_space (rev s) = rev s" using s by (intro d) (simp_all add: hd_rev)
  then show ?thesis using d [of s js_space] s by (simp add: js_trim_def)
qed

lemma canonical_num:
  assumes "0 \<le> n" "n < 256"
  shows "canonical_part (num_str 10 n) \<and> parseV4Part (num_str 10 n) = Some n"
proof (cases "n = 0")
  case True
  show ?thesis unfolding True by code_simp
next
  case False
  note d = num_str_digits [of 10 n] and h = num_str_hd [of 10 n]
  have l: "length (num_str 10 n) \<le> 3" using num_str_length [of 10 n 2] assms by simp
  have "num_str 10 n ! 0 \<noteq> CHR ''0''" using d h assms False by (simp add: hd_conv_nth)
  then show ?thesis
    using d h l assms False parse_num_str [of 10 n] by (simp add: canonical_part_def parseV4Part_def)
qed

lemma v4_nums_printed: "list_all (\<lambda>n. 0 \<le> n \<and> n < 256) ns \<Longrightarrow> v4_nums strict (map (num_str 10) ns) = Some ns"
  by (induction ns) (auto simp: canonical_num)


lemma printed_free:
  assumes "2 \<le> base" "base \<le> 16" "0 \<le> n"
  shows "\<not> list_ex (\<lambda>c. c = CHR ''.'') (num_str base n)" "\<not> list_ex (\<lambda>c. c = CHR '':'') (num_str base n)"
  using num_str_digits [OF assms] digit_plain by (auto simp: list_ex_iff list_all_iff plain_char_def)

text \<open>Joining printed numbers: what comes between the ends, and the characters at the ends.\<close>

lemma join_hd: "ss \<noteq> [] \<Longrightarrow> hd ss \<noteq> [] \<Longrightarrow> join c ss \<noteq> [] \<and> hd (join c ss) = hd (hd ss)"
  by (induction c ss rule: join.induct) auto

lemma join_last: "ss \<noteq> [] \<Longrightarrow> last ss \<noteq> [] \<Longrightarrow> join c ss \<noteq> [] \<and> last (join c ss) = last (last ss)"
  by (induction c ss rule: join.induct) auto

lemma join_sep: "2 \<le> length ss \<Longrightarrow> c \<in> set (join c ss)"
  by (induction c ss rule: join.induct) auto

lemma join_printed_ends:
  assumes "ns \<noteq> []" "2 \<le> base" "base \<le> 16" "\<forall>n\<in>set ns. 0 \<le> n"
  shows "join c (map (num_str base) ns) \<noteq> []" "plain_char (hd (join c (map (num_str base) ns)))"
    "plain_char (last (join c (map (num_str base) ns)))"
proof -
  have d: "num_str base n \<noteq> []" "\<forall>x\<in>set (num_str base n). plain_char x" if "n \<in> set ns" for n
    using num_str_digits [of base n] assms that digit_plain by (auto simp: list_all_iff)
  have h: "hd ns \<in> set ns" "last ns \<in> set ns" using assms by simp_all
  show "join c (map (num_str base) ns) \<noteq> []" "plain_char (hd (join c (map (num_str base) ns)))"
    using join_hd [of "map (num_str base) ns" c] d [OF h(1)] assms(1) by (auto simp: hd_map)
  show "plain_char (last (join c (map (num_str base) ns)))"
    using join_last [of "map (num_str base) ns" c] d [OF h(2)] assms(1) by (auto simp: last_map)
qed

lemma read_literal:
  assumes "s \<noteq> []" "plain_char (hd s)" "plain_char (last s)"
  shows "unbracket (js_trim s) = s"
proof -
  have "js_trim s = s" using assms by (intro trim_id) (auto simp: plain_char_def)
  moreover have "\<not> prefix ''['' s" using assms by (cases s) (auto simp: plain_char_def)
  ultimately show ?thesis by (simp add: unbracket_def)
qed

lemma bytes_nums: "list_all (\<lambda>n. 0 \<le> n \<and> n < 256) (map uint (b :: uint8_array))"
  using uint_bounds by (auto simp: list_all_iff)

lemma parse_printed_V4:
  assumes l: "length b = 4"
  shows "parseAddress (join CHR ''.'' (map (\<lambda>x. num_str 10 (uint x)) b)) strict = Some \<lparr>pa_family = V4, pa_bytes = b\<rparr>"
proof -
  define s where "s = join CHR ''.'' (map (num_str 10) (map uint b))"
  have s: "s = join CHR ''.'' (map (\<lambda>x. num_str 10 (uint x)) b)" by (simp add: s_def o_def)
  have ne: "map uint b \<noteq> []" using l by auto
  have pos: "\<forall>n\<in>set (map uint b). 0 \<le> n" using uint_bounds by auto
  note ends = join_printed_ends [OF ne _ _ pos, of 10 "CHR ''.''", folded s_def, simplified]
  have colon: "CHR '':'' \<notin> set s"
    using printed_free(2) [of 10] pos unfolding s_def by (auto simp: list_ex_iff dest!: join_chars)
  have split: "split_on (\<lambda>c. c = CHR ''.'') s = map (num_str 10) (map uint b)"
    unfolding s_def using ne pos printed_free(1) [of 10] by (intro split_on_join) auto
  have "parseV4 s strict = Some b"
  proof -
    have last: "last (map uint b) < 256" "0 \<le> last (map uint b)" using uint_bounds ne by (auto simp: last_map)
    have "map word_of_int (butlast (map uint b)) @ [word_of_int (last (map uint b))] = b"
      using ne by (simp add: map_butlast [symmetric] last_map o_def)
    moreover have "\<not> list_ex (\<lambda>n. 255 < n) (butlast (map uint b))"
    proof -
      have "\<not> 255 < uint x" for x :: "8 word" using uint_bounds(2) [of x] by linarith
      then show ?thesis by (auto simp: list_ex_iff map_butlast [symmetric])
    qed
    moreover have "v4_nums strict (split_on (\<lambda>c. c = CHR ''.'') s) = Some (map uint b)"
      unfolding split by (rule v4_nums_printed [OF bytes_nums])
    moreover have "length (split_on (\<lambda>c. c = CHR ''.'') s) = 4" unfolding split using l by simp
    ultimately show ?thesis using l last by (simp add: parseV4_def Let_def)
  qed
  then show ?thesis
    using ends colon unfolding s [symmetric] by (simp add: parseAddress_def read_literal Let_def)
qed

text \<open>No double colon in a joined list of non-empty groups.\<close>

lemma no_double_append:
  assumes "CHR '':'' \<notin> set w"
  shows "last_index_of ''::'' t = None \<Longrightarrow> last_index_of ''::'' (w @ t) = None"
    and "index_of ''::'' t = None \<Longrightarrow> index_of ''::'' (w @ t) = None"
  using assms by (induction w) auto

lemma no_double_join:
  assumes "\<forall>w\<in>set ws. w \<noteq> [] \<and> CHR '':'' \<notin> set w"
  shows "last_index_of ''::'' (join CHR '':'' ws) = None \<and> index_of ''::'' (join CHR '':'' ws) = None"
  using assms
proof (induction "CHR '':''" ws rule: join.induct)
  case (2 s)
  then show ?case using no_double_append [of s "[]"] by simp
next
  case (3 s t ss)
  then have IH: "last_index_of ''::'' (join CHR '':'' (t # ss)) = None" "index_of ''::'' (join CHR '':'' (t # ss)) = None"
    by auto
  obtain x xs where j: "join CHR '':'' (t # ss) = x # xs" and x: "x \<noteq> CHR '':''"
    using join_hd [of "t # ss" "CHR '':''"] 3 by (cases "join CHR '':'' (t # ss)") (auto, metis hd_in_set)
  have "last_index_of ''::'' (CHR '':'' # join CHR '':'' (t # ss)) = None" "index_of ''::'' (CHR '':'' # join CHR '':'' (t # ss)) = None"
    using IH x unfolding j by auto
  then show ?case using no_double_append [of s] 3 by simp
qed simp

lemma pair16_sum: "pair16 x y = uint x * 256 + uint y"
  by (simp add: pair16_eq bigOf_Cons)

lemma pair16_bounds: "0 \<le> pair16 x y" "pair16 x y < 65536"
  using uint_bounds [of x] uint_bounds [of y] by (simp_all add: pair16_sum)

lemma group_bytes_pair: "group_bytes (pair16 x y) = [x, y]"
proof -
  have m: "(0xff :: int) = mask 8" by (simp add: mask_eq_exp_minus_1)
  have "drop_bit 8 (pair16 x y) = uint x" using uint_bounds [of y] by (simp add: pair16_sum drop_bit_eq_div)
  moreover have "pair16 x y AND 0xff = uint y"
    unfolding m take_bit_eq_mask [symmetric] using uint_bounds [of y] by (simp add: pair16_sum take_bit_eq_mod mod_simps)
  ultimately show ?thesis by (simp add: group_bytes_def)
qed

lemma pairs_bounds: "list_all (\<lambda>n. 0 \<le> n \<and> n < 65536) (pairs b)"
  by (induction b rule: pairs.induct) (simp_all add: pair16_bounds)

lemma pairs_bytes: "even (length b) \<Longrightarrow> concat (map group_bytes (pairs b)) = b \<and> length (pairs b) = length b div 2"
  by (induction b rule: pairs.induct) (auto simp: group_bytes_pair)

lemma group_printed:
  assumes "0 \<le> n" "n < 65536"
  shows "is_group (num_str 16 n)"
  using num_str_digits [of 16 n] num_str_length [of 16 n 3] assms by (simp add: is_group_def)

lemma parse_printed_V6:
  assumes l: "length b = 16"
  shows "parseAddress (join CHR '':'' (map (num_str 16) (pairs b))) strict = Some \<lparr>pa_family = V6, pa_bytes = b\<rparr>"
proof -
  define g where "g = pairs b"
  define s where "s = join CHR '':'' (map (num_str 16) g)"
  have g: "length g = 8" "concat (map group_bytes g) = b" "\<forall>n\<in>set g. 0 \<le> n \<and> n < 65536"
    using pairs_bytes [of b] pairs_bounds [of b] l by (simp_all add: g_def list_all_iff)
  have ne: "g \<noteq> []" and pos: "\<forall>n\<in>set g. 0 \<le> n" using g by auto
  note ends = join_printed_ends [OF ne _ _ pos, of 16 "CHR '':''", folded s_def, simplified]
  have free: "CHR '':'' \<notin> set (num_str 16 n)" "CHR ''.'' \<notin> set (num_str 16 n)" "list_all (digit_in 16) (num_str 16 n)"
    if "n \<in> set g" for n
    using printed_free [of 16 n] num_str_digits [of 16 n] pos that by (auto simp: list_ex_iff)
  have chars: "x \<in> set s \<Longrightarrow> x = CHR '':'' \<or> digit_in 16 x" for x
    unfolding s_def using free(3) by (auto simp: list_all_iff dest!: join_chars)
  have "list_all v6_char s" using chars by (auto simp: list_all_iff v6_char_def)
  moreover have "CHR '':'' \<in> set s" unfolding s_def using g by (intro join_sep) simp
  moreover have "split_tail s = Some (s, [])"
  proof -
    have "CHR ''.'' \<notin> set s" unfolding s_def using free(2) by (auto dest!: join_chars)
    then have "CHR ''.'' \<notin> set (rev (takeWhile (\<lambda>c. c \<noteq> CHR '':'') (rev s)))"
      by (auto dest!: set_takeWhileD)
    then show ?thesis by (simp add: split_tail_def)
  qed
  moreover have "v6_groups s [] = Some g"
  proof -
    have "last_index_of ''::'' s = None \<and> index_of ''::'' s = None"
      unfolding s_def using free(1) num_str_digits [of 16] pos by (intro no_double_join) auto
    moreover have "split_on (\<lambda>c. c = CHR '':'') s = map (num_str 16) g"
      unfolding s_def using ne free(1) by (intro split_on_join) (auto simp: list_ex_iff)
    moreover have "map (parse_int 16) (map (num_str 16) g) = g" using parse_num_str [of 16] pos by (simp add: map_idI)
    ultimately show ?thesis
      using ends(1) group_printed g(3) by (simp add: v6_groups_def toGroups_def list_all_iff)
  qed
  ultimately have "parseV6 s = Some b" using g ends(1) by (simp add: parseV6_def)
  with \<open>CHR '':'' \<in> set s\<close> show ?thesis
    using ends unfolding g_def [symmetric] s_def [symmetric] by (simp add: parseAddress_def read_literal Let_def)
qed

lemma canonical_wf: "wf_address a \<Longrightarrow> wf_address (canonical a)"
  by (auto simp: canonical_def wf_address_def)

lemma canonical_idem [simp]: "canonical (canonical a) = canonical a"
  by (simp add: canonical_def)

lemma read_printed:
  assumes "wf_address a"
  shows "parseAddress (formatAddress a) strict = Some (canonical a)"
proof (cases "canonical a")
  case (fields f b)
  have w: "wf_address \<lparr>pa_family = f, pa_bytes = b\<rparr>" using canonical_wf [OF assms] by (simp add: fields)
  show ?thesis
  proof (cases f)
    case V4
    with w fields show ?thesis using parse_printed_V4 [of b strict] by (simp add: formatAddress_def wf_address_def)
  next
    case V6
    with w fields show ?thesis using parse_printed_V6 [of b strict] by (simp add: formatAddress_def wf_address_def)
  qed
qed

text \<open>
  (C22) An address is read back from its printed form: for every well-formed address, parsing what \<open>formatAddress\<close> prints
  gives the canonical form of that address, in the strict and in the liberal reading alike. So the address that is pinned
  for a connection and the address that the gate judges from its text are the same.
\<close>

theorem formatAddress_roundtrip:
  assumes "wf_address a"
  shows "parseAddress (formatAddress a) strict = Some (canonical a)"
  by (rule read_printed [OF assms])

theorem formatAddress_roundtrip_witness:
  "formatAddress \<lparr>pa_family = V6, pa_bytes = [0xfe, 0x80, 0, 0, 0, 0, 0, 0, 0, 0, 0, 0, 0, 0xab, 0, 1]\<rparr> = ''fe80:0:0:0:0:0:ab:1'' \<and>
   parseAddress ''fe80:0:0:0:0:0:ab:1'' True =
     Some \<lparr>pa_family = V6, pa_bytes = [0xfe, 0x80, 0, 0, 0, 0, 0, 0, 0, 0, 0, 0, 0, 0xab, 0, 1]\<rparr>"
proof -
  let ?a = "\<lparr>pa_family = V6, pa_bytes = [0xfe, 0x80, 0, 0, 0, 0, 0, 0, 0, 0, 0, 0, 0, 0xab, 0, 1]\<rparr>"
  have "formatAddress ?a = ''fe80:0:0:0:0:0:ab:1''" "canonical ?a = ?a" by code_simp+
  then show ?thesis using formatAddress_roundtrip [of ?a True] by (simp add: wf_address_def)
qed

end
