(* ===== verification/Egress_Service.thy ===== *)
theory Egress_Service
  imports Egress_Theorems
begin

text \<open>
  The guarded HTTP client's hop loop (\<^verbatim>\<open>packages/core/src/tools/web/http.ts\<close>) and the egress service around it
  (\<^verbatim>\<open>packages/core/src/egress/service.ts\<close>): request validation, the redirect loop with the gate and the guard on every hop, the dry run
  and the decision counters.

  The network is the environment: per hop it gives the state of the abort signal, the name resolver, what the exchange with
  the pinned address answers and what the redirect callback says. Parsing a URL (alone and relative to another) is the
  platform's. A response is its status and its \<open>location\<close>; the bodies are not modelled. The connections that are opened are
  recorded in order.
\<close>

section \<open>The request\<close>

datatype redirect_mode = Follow | Manual | ErrorMode

datatype request_body = TextBody string | ByteBody uint8_array

record http_options =
  ho_method :: "string option"
  ho_headers :: "(string \<times> jsval) list"
  ho_body :: "request_body option"
  ho_maxRequestBytes :: "nat option"
  ho_maxRedirects :: "nat option"
  ho_redirect :: "redirect_mode option"
  ho_safeRedirectHeaders :: bool
  ho_modelDownload :: bool

definition METHODS :: "string list" where
  "METHODS = [''GET'', ''HEAD'', ''POST'', ''PUT'', ''PATCH'', ''DELETE'']"

definition RESERVED_HEADERS :: "string list" where
  "RESERVED_HEADERS = [''host'', ''connection'', ''content-length'', ''transfer-encoding'', ''te'', ''trailer'', ''upgrade'',
     ''keep-alive'', ''expect'', ''proxy-authorization'', ''proxy-connection'', ''accept-encoding'', ''cookie'']"

definition DEFAULT_MAX_BYTES :: nat where
  "DEFAULT_MAX_BYTES = 20 * 1024 * 1024"

definition token_char :: "char \<Rightarrow> bool" where
  "token_char c \<longleftrightarrow> is_digit c \<or> is_alpha c \<or> c \<in> set ''!#$%&*+.^_|~-'' \<or> code c = 39 \<or> code c = 96"

definition header_value_ok :: "jsval \<Rightarrow> bool" where
  "header_value_ok v = (case v of JStr s \<Rightarrow> \<not> list_ex (\<lambda>c. code c = 13 \<or> code c = 10 \<or> code c = 0) s | _ \<Rightarrow> False)"

definition header_ok :: "string \<times> jsval \<Rightarrow> bool" where
  "header_ok h = (let name = js_lower (fst h) in
     name \<noteq> [] \<and> list_all token_char name \<and> name \<notin> set RESERVED_HEADERS \<and> \<not> prefix ''proxy-'' name \<and> header_value_ok (snd h))"

definition body_bytes :: "request_body \<Rightarrow> nat" where
  "body_bytes b = (case b of TextBody s \<Rightarrow> byte_length s | ByteBody bytes \<Rightarrow> length bytes)"

text \<open>\<open>toUpperCase\<close>; a Latin-1 character whose upper case leaves Latin-1 never gives a method of the set.\<close>

definition method_upper :: "string \<Rightarrow> string" where
  "method_upper s = map upper_ascii s"

record request_parts =
  rp_method :: string
  rp_headers :: "(string \<times> jsval) list"
  rp_body :: "request_body option"

definition requestParts :: "http_options \<Rightarrow> (web_failure, request_parts) result" where
  "requestParts opts =
    (let meth = method_upper (case ho_method opts of Some m \<Rightarrow> m | None \<Rightarrow> ''GET'');
         headers = fold (\<lambda>(k, v) hs. map_set (js_lower k) v hs) (ho_headers opts) []
     in if meth \<notin> set METHODS then Inl (web_failure_of InvalidUrl)
        else if \<not> list_all header_ok (ho_headers opts) then Inl (web_failure_of InvalidUrl)
        else (case ho_body opts of
                None \<Rightarrow> Inr \<lparr>rp_method = meth, rp_headers = headers, rp_body = None\<rparr>
              | Some b \<Rightarrow>
                if meth = ''GET'' \<or> meth = ''HEAD'' then Inl (web_failure_of InvalidUrl)
                else if (case ho_maxRequestBytes opts of Some n \<Rightarrow> n | None \<Rightarrow> DEFAULT_MAX_BYTES) < body_bytes b
                then Inl (web_failure_of TooLarge)
                else Inr \<lparr>rp_method = meth, rp_headers = headers, rp_body = Some b\<rparr>))"

definition follows :: "http_options \<Rightarrow> request_parts \<Rightarrow> bool" where
  "follows opts parts \<longleftrightarrow>
     (case ho_redirect opts of Some m \<Rightarrow> m | None \<Rightarrow> Follow) = Follow \<and>
     (rp_method parts = ''GET'' \<or> rp_method parts = ''HEAD'') \<and> rp_body parts = None \<and>
     (rp_headers parts = [] \<or>
      ho_safeRedirectHeaders opts \<and> list_all (\<lambda>(k, _). k \<in> {''accept'', ''user-agent'', ''range''}) (rp_headers parts))"

definition max_redirects :: "http_options \<Rightarrow> request_parts \<Rightarrow> nat" where
  "max_redirects opts parts =
    (if follows opts parts then (case ho_maxRedirects opts of Some n \<Rightarrow> n | None \<Rightarrow> 10) else 0)"

section \<open>The hop loop\<close>

record http_response =
  rs_url :: string
  rs_status :: int
  rs_redirects :: "string list"

text \<open>What the outside does during one hop.\<close>

record hop_env =
  he_aborted :: bool
  he_resolver :: resolver
  he_resolve_aborted :: bool
  he_exchange :: "url \<Rightarrow> resolved_address \<Rightarrow> (web_failure, int \<times> string option) result"
  he_onRedirect :: "url \<Rightarrow> web_failure option"
  he_late_abort :: bool

record http_env =
  ht_parse :: "string \<Rightarrow> url option"
  ht_resolve :: "string \<Rightarrow> url \<Rightarrow> url option"
  ht_hop :: "nat \<Rightarrow> hop_env"

definition REDIRECT :: "int set" where
  "REDIRECT = {301, 302, 303, 307, 308}"

definition parseTarget :: "(string \<Rightarrow> url option) \<Rightarrow> string \<Rightarrow> (web_failure, url) result" where
  "parseTarget parse raw =
    (case parse raw of
       None \<Rightarrow> Inl (web_failure_of InvalidUrl)
     | Some url \<Rightarrow>
       if u_protocol url \<noteq> ''http:'' \<and> u_protocol url \<noteq> ''https:'' then Inl (web_failure_of EgressDenied)
       else if u_username url \<noteq> [] \<or> u_password url \<noteq> [] then Inl (web_failure_of InvalidUrl)
       else if u_hostname url = [] then Inl (web_failure_of InvalidUrl)
       else Inr url)"

text \<open>The decision counters, and a gate hook that records its decision.\<close>

record egress_state =
  es_allowed :: nat
  es_denied :: "(deny_kind \<times> nat) list"

definition record_decision :: "deny_kind option \<Rightarrow> egress_state \<Rightarrow> egress_state" where
  "record_decision d st =
    (case d of
       None \<Rightarrow> st\<lparr>es_allowed := es_allowed st + 1\<rparr>
     | Some r \<Rightarrow> st\<lparr>es_denied := map_set r ((case map_of (es_denied st) r of Some n \<Rightarrow> n | None \<Rightarrow> 0) + 1) (es_denied st)\<rparr>)"

definition gate_before :: "egress_policy option \<Rightarrow> url \<Rightarrow> egress_state \<Rightarrow> web_failure option \<times> egress_state" where
  "gate_before gate url st =
    (case gate of
       None \<Rightarrow> (None, st)
     | Some p \<Rightarrow>
       (case beforeResolve p url of
          Some r \<Rightarrow> (Some (egress_denial r), record_decision (Some r) st)
        | None \<Rightarrow> (None, st)))"

definition gate_after :: "egress_policy option \<Rightarrow> url \<Rightarrow> resolved_address \<Rightarrow> egress_state \<Rightarrow> web_failure option \<times> egress_state" where
  "gate_after gate url pin st =
    (case gate of
       None \<Rightarrow> (None, st)
     | Some p \<Rightarrow>
       (case afterResolve p url pin of
          Some r \<Rightarrow> (Some (egress_denial r), record_decision (Some r) st)
        | None \<Rightarrow> (None, record_decision None st)))"

text \<open>The part of a hop before the connection is opened.\<close>

definition hop_pin :: "hop_env \<Rightarrow> address_policy \<Rightarrow> egress_policy option \<Rightarrow> url \<Rightarrow> egress_state \<Rightarrow>
    (web_failure, resolved_address) result \<times> egress_state" where
  "hop_pin h policy gate url st =
    (if he_aborted h then (Inl (web_failure_of TimedOut), st)
     else (case gate_before gate url st of
             (Some e, st1) \<Rightarrow> (Inl e, st1)
           | (None, st1) \<Rightarrow>
             if he_resolve_aborted h then (Inl (web_failure_of TimedOut), st1)
             else (case resolveGuarded (u_hostname url) (he_resolver h) policy of
                     Inl e \<Rightarrow> (Inl e, st1)
                   | Inr pin \<Rightarrow>
                     (case gate_after gate url pin st1 of
                        (Some e, st2) \<Rightarrow> (Inl e, st2)
                      | (None, st2) \<Rightarrow> (Inr pin, st2)))))"

text \<open>Where a redirect leads, or why it is refused.\<close>

definition next_target :: "http_env \<Rightarrow> hop_env \<Rightarrow> string \<Rightarrow> url \<Rightarrow> (web_failure, url) result" where
  "next_target env h location url =
    (case ht_resolve env location url of
       None \<Rightarrow> Inl (web_failure_of InvalidUrl)
     | Some u \<Rightarrow>
       (case parseTarget (ht_parse env) (u_href u) of
          Inl e \<Rightarrow> Inl e
        | Inr u' \<Rightarrow> (case he_onRedirect h u' of Some e \<Rightarrow> Inl e | None \<Rightarrow> Inr u')))"

definition is_redirect :: "int \<Rightarrow> string option \<Rightarrow> bool" where
  "is_redirect status location \<longleftrightarrow> status \<in> REDIRECT \<and> location \<noteq> None \<and> location \<noteq> Some []"

definition caught :: "hop_env \<Rightarrow> web_failure \<Rightarrow> web_failure" where
  "caught h e = (if he_late_abort h \<and> wf_code e \<noteq> TimedOut then web_failure_of TimedOut else e)"

type_synonym request_end = "(web_failure, http_response) result \<times> egress_state \<times> (url \<times> resolved_address) list"

function request_loop :: "http_env \<Rightarrow> redirect_mode \<Rightarrow> bool \<Rightarrow> nat \<Rightarrow> address_policy \<Rightarrow> egress_policy option \<Rightarrow>
    string list \<Rightarrow> url \<Rightarrow> egress_state \<Rightarrow> request_end" where
  "request_loop env mode follow maxRedirects policy gate redirects url st =
    (let h = ht_hop env (length redirects) in
     case hop_pin h policy gate url st of
       (Inl e, st1) \<Rightarrow> (Inl (caught h e), st1, [])
     | (Inr pin, st1) \<Rightarrow>
       (case he_exchange h url pin of
          Inl e \<Rightarrow> (Inl (caught h e), st1, [(url, pin)])
        | Inr (status, location) \<Rightarrow>
          if status \<in> REDIRECT \<and> mode = ErrorMode then (Inl (caught h (web_failure_of InvalidUrl)), st1, [(url, pin)])
          else if follow \<and> is_redirect status location then
            (if maxRedirects \<le> length redirects then (Inl (caught h (web_failure_of TooManyRedirects)), st1, [(url, pin)])
             else (case next_target env h (the location) url of
                     Inl e \<Rightarrow> (Inl (caught h e), st1, [(url, pin)])
                   | Inr u \<Rightarrow>
                     (case request_loop env mode follow maxRedirects policy gate (redirects @ [u_href url]) u st1 of
                        (r, st2, conns) \<Rightarrow> (r, st2, (url, pin) # conns))))
          else (Inr \<lparr>rs_url = u_href url, rs_status = status, rs_redirects = redirects\<rparr>, st1, [(url, pin)])))"
  by pat_completeness auto

termination
  by (relation "measure (\<lambda>(env, mode, follow, m, policy, gate, redirects, url, st). m - length redirects)") auto

declare request_loop.simps [simp del]

definition guardedRequest :: "http_env \<Rightarrow> http_options \<Rightarrow> address_policy \<Rightarrow> egress_policy option \<Rightarrow> string \<Rightarrow> egress_state \<Rightarrow> request_end" where
  "guardedRequest env opts policy gate rawUrl st =
    (case requestParts opts of
       Inl e \<Rightarrow> (Inl e, st, [])
     | Inr parts \<Rightarrow>
       (case parseTarget (ht_parse env) rawUrl of
          Inl e \<Rightarrow> (Inl (caught (ht_hop env 0) e), st, [])
        | Inr url \<Rightarrow>
          request_loop env (case ho_redirect opts of Some m \<Rightarrow> m | None \<Rightarrow> Follow) (follows opts parts)
            (max_redirects opts parts) policy gate [] url st))"

section \<open>The egress service\<close>

definition cidrs_of :: "string list \<Rightarrow> cidr list" where
  "cidrs_of ss = (case makeAddressPolicy ss of Some p \<Rightarrow> ap_allow p | None \<Rightarrow> [])"

definition loopback_cidrs :: "cidr list" where
  "loopback_cidrs = cidrs_of [''127.0.0.0/8'', ''::1/128'']"

definition tailnet_cidrs :: "cidr list" where
  "tailnet_cidrs = cidrs_of [''100.64.0.0/10'', ''fd7a:115c:a1e0::/48'']"

definition metadata_cidrs :: "cidr list" where
  "metadata_cidrs = cidrs_of [''100.100.100.200/32'']"

definition addressPolicy :: "egress_policy \<Rightarrow> bool \<Rightarrow> address_policy" where
  "addressPolicy p a2a = \<lparr>ap_allow = [], ap_deny = metadata_cidrs, ap_forHost = (\<lambda>h.
     if ep_allowLoopback p \<and> isLoopbackHost h then loopback_cidrs
     else if a2a \<and> hostAllowed p h False True then tailnet_cidrs else [])\<rparr>"

text \<open>A thrown error that is no web failure is \<open>None\<close>.\<close>

definition egress_request :: "(string \<Rightarrow> string) \<Rightarrow> http_env \<Rightarrow> egress_config \<Rightarrow> http_options \<Rightarrow> string \<Rightarrow> egress_state \<Rightarrow> request_end option" where
  "egress_request dta env config opts url st =
    (case (if ho_modelDownload opts then modelDownloadPolicy config else Some config) of
       None \<Rightarrow> None
     | Some cfg \<Rightarrow>
       (let policy = compileEgressPolicy dta cfg in
        case guardedRequest env opts (addressPolicy policy False) (Some policy) url st of
          (Inl e, st1, conns) \<Rightarrow>
            Some (Inl e, if wf_code e = PrivateAddress then record_decision (Some DPrivateAddress) st1 else st1, conns)
        | r \<Rightarrow> Some r))"

datatype dry_run = DryAllowed string int string ip_family | DryDenied deny_kind

definition failure_reason :: "web_failure \<Rightarrow> deny_kind" where
  "failure_reason e =
    (case wf_reason e of
       Some r \<Rightarrow> r
     | None \<Rightarrow> if wf_code e = PrivateAddress then DPrivateAddress else if wf_code e = NotFound then DNotFound else DInvalidUrl)"

definition dry_failure :: "web_failure \<Rightarrow> egress_state \<Rightarrow> dry_run \<times> egress_state" where
  "dry_failure e st =
    (DryDenied (failure_reason e), if failure_reason e = DPrivateAddress then record_decision (Some DPrivateAddress) st else st)"

definition egress_decide :: "(string \<Rightarrow> string) \<Rightarrow> (string \<Rightarrow> url option) \<Rightarrow> resolver \<Rightarrow> egress_config \<Rightarrow> bool \<Rightarrow> string \<Rightarrow>
    egress_state \<Rightarrow> dry_run \<times> egress_state" where
  "egress_decide dta parse resolver config a2a raw st =
    (let policy = compileEgressPolicy dta config in
     case parse raw of
       None \<Rightarrow> (DryDenied DInvalidUrl, record_decision (Some DInvalidUrl) st)
     | Some url \<Rightarrow>
       (case gate_before (Some policy) url st of
          (Some e, st1) \<Rightarrow> dry_failure e st1
        | (None, st1) \<Rightarrow>
          if a2a \<and> \<not> hostAllowed policy (bareHost url) False True
          then (DryDenied DHostNotAllowed, record_decision (Some DHostNotAllowed) st1)
          else (case resolveGuarded (u_hostname url) resolver (addressPolicy policy a2a) of
                  Inl e \<Rightarrow> dry_failure e st1
                | Inr pin \<Rightarrow>
                  (case gate_after (Some policy) url pin st1 of
                     (Some e, st2) \<Rightarrow> dry_failure e st2
                   | (None, st2) \<Rightarrow> (DryAllowed (bareHost url) (effectivePort url) (ra_address pin) (ra_family pin), st2)))))"

record status_report =
  st_valid :: bool
  st_allowed :: nat
  st_deniedTotal :: nat
  st_byReason :: "(deny_kind \<times> nat) list"

definition egress_status :: "(string \<Rightarrow> string) \<Rightarrow> egress_config \<Rightarrow> egress_state \<Rightarrow> status_report" where
  "egress_status dta config st =
    \<lparr>st_valid = (ep_errors (compileEgressPolicy dta config) = []), st_allowed = es_allowed st,
     st_deniedTotal = sum_list (map snd (es_denied st)), st_byReason = es_denied st\<rparr>"

end
