(* ===== verification/Egress_Properties.thy ===== *)
theory Egress_Properties
  imports Egress_Service
begin

text \<open>
  What the guard, the gate and the hop loop promise together: every connection a request opens, redirects included, is to an
  address that was judged, the number of hops is bounded, and the dry run agrees with the request.
\<close>

section \<open>The guard\<close>

definition admitted :: "parsed_address \<Rightarrow> address_policy \<Rightarrow> string \<Rightarrow> bool" where
  "admitted a policy name \<longleftrightarrow> \<not> list_ex (inCidr a) (ap_deny policy) \<and>
     (vd_public (classifyAddress a) \<or> list_ex (inCidr a) (ap_allow policy) \<or> list_ex (inCidr a) (ap_forHost policy name))"

lemma admit_sound:
  assumes "admit a policy name = Inr pin" "wf_address a"
  shows "parseAddress (ra_address pin) False = Some (canonical a) \<and> ra_family pin = pa_family (canonical a) \<and>
    admitted (canonical a) policy name"
proof -
  have "pin = \<lparr>ra_address = formatAddress (canonical a), ra_family = pa_family (canonical a)\<rparr>"
    and "admitted (canonical a) policy name"
    using assms(1) by (auto simp: admit_def admitted_def Let_def split: if_splits)
  then show ?thesis using read_printed [OF canonical_wf [OF assms(2)], of False] by simp
qed

text \<open>A name is refused when any of its addresses is: every answer is admitted, the first one is pinned.\<close>

lemma admit_all_sound:
  "admit_all policy name rs = Inr xs \<Longrightarrow>
    length xs = length rs \<and> (\<forall>r\<in>set rs. \<exists>a x. parseAddress (ra_address r) False = Some a \<and> admit a policy name = Inr x) \<and>
    (\<forall>x\<in>set xs. \<exists>a. wf_address a \<and> admit a policy name = Inr x)"
proof (induction rs arbitrary: xs)
  case (Cons r rs)
  obtain a where a: "parseAddress (ra_address r) False = Some a" using Cons.prems by (auto split: option.splits)
  then obtain x where x: "admit a policy name = Inr x" using Cons.prems by (auto split: sum.splits)
  with a obtain ys where ys: "admit_all policy name rs = Inr ys" "xs = x # ys" using Cons.prems by (auto split: sum.splits)
  show ?case using Cons.IH [OF ys(1)] ys(2) a x parseAddress_wf [OF a] by auto
qed simp

lemma local_address_wf: "wf_address (the (parseAddress ''127.0.0.1'' False))"
  by code_simp

lemma resolveGuarded_admits:
  assumes "resolveGuarded host resolver policy = Inr pin"
  shows "\<exists>a. wf_address a \<and> admit a policy (guarded_name host) = Inr pin"
proof (cases "parseAddress (guarded_name host) False")
  case (Some a)
  with assms parseAddress_wf [OF Some] show ?thesis by (auto simp: resolveGuarded_def Let_def split: if_splits)
next
  case None
  show ?thesis
  proof (cases "guarded_name host = ''localhost'' \<or> suffix ''.localhost'' (guarded_name host)")
    case True
    with None assms have "admit (the (parseAddress ''127.0.0.1'' False)) policy (guarded_name host) = Inr pin"
      by (simp add: resolveGuarded_def Let_def split: if_splits)
    with local_address_wf show ?thesis by blast
  next
    case False
    with None assms obtain rs xs where "rs \<noteq> []" "admit_all policy (guarded_name host) rs = Inr xs" "pin = hd xs"
      by (auto simp: resolveGuarded_def Let_def split: if_splits option.splits sum.splits)
    then show ?thesis using admit_all_sound [of policy "guarded_name host" rs xs] by (cases xs) auto
  qed
qed

lemma resolveGuarded_sound:
  assumes "resolveGuarded host resolver policy = Inr pin"
  obtains a where "wf_address a" "canonical a = a" "parseAddress (ra_address pin) False = Some a" "ra_family pin = pa_family a"
    "admitted a policy (guarded_name host)"
  using resolveGuarded_admits [OF assms] admit_sound canonical_wf that by (metis canonical_idem)

section \<open>Loopback\<close>

lemma loopback_table: "loopback_cidrs =
  [\<lparr>cd_family = V4, cd_bytes = [127, 0, 0, 0], cd_prefix = 8\<rparr>,
   \<lparr>cd_family = V6, cd_bytes = [0, 0, 0, 0, 0, 0, 0, 0, 0, 0, 0, 0, 0, 0, 0, 1], cd_prefix = 128\<rparr>]"
  by code_simp

lemma v4Ranges_upto_loopback:
  "\<exists>rest. v4Ranges =
    (\<lparr>cd_family = V4, cd_bytes = [0, 0, 0, 0], cd_prefix = 8\<rparr>, ''unspecified'') #
    (\<lparr>cd_family = V4, cd_bytes = [10, 0, 0, 0], cd_prefix = 8\<rparr>, ''private'') #
    (\<lparr>cd_family = V4, cd_bytes = [100, 64, 0, 0], cd_prefix = 10\<rparr>, ''shared-address-space'') #
    (\<lparr>cd_family = V4, cd_bytes = [127, 0, 0, 0], cd_prefix = 8\<rparr>, ''loopback'') # rest"
proof -
  have "take 4 v4Ranges =
    [(\<lparr>cd_family = V4, cd_bytes = [0, 0, 0, 0], cd_prefix = 8\<rparr>, ''unspecified''),
     (\<lparr>cd_family = V4, cd_bytes = [10, 0, 0, 0], cd_prefix = 8\<rparr>, ''private''),
     (\<lparr>cd_family = V4, cd_bytes = [100, 64, 0, 0], cd_prefix = 10\<rparr>, ''shared-address-space''),
     (\<lparr>cd_family = V4, cd_bytes = [127, 0, 0, 0], cd_prefix = 8\<rparr>, ''loopback'')]" by code_simp
  then show ?thesis using append_take_drop_id [of 4 v4Ranges, symmetric] by (metis append_Cons append_Nil)
qed

lemma and_255: "(x :: 8 word) AND 255 = x"
proof -
  have "(255 :: 8 word) = - 1" by simp
  then show ?thesis by (simp only: and.right_neutral)
qed

lemma loopback_V4:
  assumes "cidr_loop b [127, 0, 0, 0] 0 8"
  shows "vd_reason (classifyV4 b) = Some ''loopback''"
proof -
  have b: "byte_at b 0 = 127" using assms by (subst (asm) cidr_loop.simps) (simp add: Let_def and_255 split: if_splits)
  obtain rest where t: "v4Ranges =
    (\<lparr>cd_family = V4, cd_bytes = [0, 0, 0, 0], cd_prefix = 8\<rparr>, ''unspecified'') #
    (\<lparr>cd_family = V4, cd_bytes = [10, 0, 0, 0], cd_prefix = 8\<rparr>, ''private'') #
    (\<lparr>cd_family = V4, cd_bytes = [100, 64, 0, 0], cd_prefix = 10\<rparr>, ''shared-address-space'') #
    (\<lparr>cd_family = V4, cd_bytes = [127, 0, 0, 0], cd_prefix = 8\<rparr>, ''loopback'') # rest"
    using v4Ranges_upto_loopback by blast
  have loop: "\<not> cidr_loop b [0, 0, 0, 0] 0 8" "\<not> cidr_loop b [10, 0, 0, 0] 0 8" "\<not> cidr_loop b [100, 64, 0, 0] 0 10"
    by (subst cidr_loop.simps, simp add: b)+
  have "\<not> list_all (\<lambda>x. x = 255) b" using b by (cases b) (auto simp: byte_at_def split: if_splits)
  then show ?thesis using assms loop by (simp add: classifyV4_def t inCidr_def refused_def)
qed

lemma loopback_reason:
  assumes a: "wf_address a" "canonical a = a" and c: "c \<in> set loopback_cidrs" "inCidr a c"
  shows "vd_reason (classifyAddress a) = Some ''loopback''"
proof (cases "pa_family a")
  case V4
  then have "cidr_loop (pa_bytes a) [127, 0, 0, 0] 0 8"
    using c a(2) by (auto simp: loopback_table inCidr_def)
  then show ?thesis using V4 a(2) loopback_V4 by (simp add: classifyAddress_def)
next
  case V6
  let ?one = "[0, 0, 0, 0, 0, 0, 0, 0, 0, 0, 0, 0, 0, 0, 0, 1] :: uint8_array"
  have "cidr_loop (pa_bytes a) ?one 0 128" using V6 c a(2) by (auto simp: loopback_table inCidr_def)
  moreover have "length (pa_bytes a) = 16" using a(1) V6 by (simp add: wf_address_def)
  ultimately have "bigOf (pa_bytes a) = bigOf ?one" by (simp add: cidr_loop_div)
  with \<open>length (pa_bytes a) = 16\<close> have "pa_bytes a = ?one" by (subst (asm) bigOf_inj) simp_all
  with V6 have "a = \<lparr>pa_family = V6, pa_bytes = ?one\<rparr>" by (cases a) simp
  moreover have "vd_reason (classifyAddress \<lparr>pa_family = V6, pa_bytes = ?one\<rparr>) = Some ''loopback''" by code_simp
  ultimately show ?thesis by simp
qed

lemma public_no_reason:
  assumes "vd_public (classifyAddress a)"
  shows "vd_reason (classifyAddress a) = None"
proof -
  have v4: "vd_public (classifyV4 b) \<Longrightarrow> vd_reason (classifyV4 b) = None" for b
    by (auto simp: classifyV4_def refused_def verdict_public_def split: if_splits option.splits)
  show ?thesis
    using assms v4 by (auto simp: classifyAddress_def Let_def refused_def verdict_public_def split: if_splits option.splits)
qed

section \<open>Safe connections\<close>

text \<open>What a connection of the egress service has been through.\<close>

definition safe_connection :: "egress_policy \<Rightarrow> url \<Rightarrow> resolved_address \<Rightarrow> bool" where
  "safe_connection p url pin \<longleftrightarrow>
     ep_errors p = [] \<and> JNum (Fin (of_int (effectivePort url))) \<in> set (ep_allowPorts p) \<and>
     hostAllowed p (bareHost url) False False \<and>
     (\<exists>a. parseAddress (ra_address pin) False = Some a \<and> pa_family a = ra_family pin \<and> \<not> list_ex (inCidr a) metadata_cidrs \<and>
        (vd_public (classifyAddress a) \<and> u_protocol url = ''https:'' \<or>
         vd_reason (classifyAddress a) = Some ''loopback'' \<and> ep_allowLoopback p \<and> isLoopbackHost (bareHost url) \<and>
         hostAllowed p (bareHost url) True False \<and> u_protocol url \<in> {''http:'', ''https:''}))"

lemma compiled_ports: "ep_allowPorts (compileEgressPolicy dta cfg) \<noteq> [] \<Longrightarrow> ep_errors (compileEgressPolicy dta cfg) = []"
  by (cases "compile_hosts dta (case js_list (ec_allowHosts cfg) of Some xs \<Rightarrow> xs | None \<Rightarrow> [])")
    (simp add: compileEgressPolicy_def Let_def split: if_splits)

lemma gate_before_None: "fst (gate_before (Some p) url st) = None \<longleftrightarrow> beforeResolve p url = None"
  by (simp add: gate_before_def split: option.split)

lemma gate_after_None: "fst (gate_after (Some p) url pin st) = None \<longleftrightarrow> afterResolve p url pin = None"
  by (simp add: gate_after_def split: option.split)

lemma beforeResolve_passed:
  assumes "beforeResolve p url = None"
  shows "u_protocol url = ''https:'' \<or> u_protocol url = ''http:'' \<and> ep_allowLoopback p \<and> isLoopbackHost (bareHost url)"
    and "JNum (Fin (of_int (effectivePort url))) \<in> set (ep_allowPorts p)"
    and "hostAllowed p (bareHost url) False False"
    and "ep_allowLoopback p \<Longrightarrow> isLoopbackHost (bareHost url) \<Longrightarrow> hostAllowed p (bareHost url) True False"
    and "bareHost url \<noteq> []" "u_username url = []" "u_password url = []"
  using assms unfolding beforeResolve_def Let_def by (simp_all split: if_splits) blast+

lemma afterResolve_passed:
  assumes "afterResolve p url pin = None" "parseAddress (ra_address pin) False = Some a"
  shows "vd_reason (classifyAddress a) = Some ''loopback'' \<Longrightarrow> ep_allowLoopback p \<and> isLoopbackHost (bareHost url)"
    and "u_protocol url = ''http:'' \<Longrightarrow> vd_reason (classifyAddress a) = Some ''loopback''"
  using assms unfolding afterResolve_def Let_def by (simp_all split: if_splits)

lemma forHost_request: "ap_forHost (addressPolicy p False) name = (if ep_allowLoopback p \<and> isLoopbackHost name then loopback_cidrs else [])"
  by (simp add: addressPolicy_def)

lemma hop_safe:
  assumes p: "p = compileEgressPolicy dta cfg" and b: "beforeResolve p url = None"
    and res: "resolveGuarded (u_hostname url) resolver (addressPolicy p False) = Inr pin"
    and af: "afterResolve p url pin = None"
  shows "safe_connection p url pin"
proof -
  obtain a where a: "wf_address a" "canonical a = a" "parseAddress (ra_address pin) False = Some a" "ra_family pin = pa_family a"
    and adm: "admitted a (addressPolicy p False) (guarded_name (u_hostname url))"
    by (rule resolveGuarded_sound [OF res])
  have meta: "\<not> list_ex (inCidr a) metadata_cidrs" using adm by (simp add: admitted_def addressPolicy_def)
  have err: "ep_errors p = []" using compiled_ports [of dta cfg] beforeResolve_passed(2) [OF b] unfolding p by force
  consider (public) "vd_public (classifyAddress a)" | (loop) "vd_reason (classifyAddress a) = Some ''loopback''"
    using adm loopback_reason [OF a(1,2)] unfolding admitted_def forHost_request
    by (auto simp: addressPolicy_def list_ex_iff split: if_splits)
  then show ?thesis
  proof cases
    case public
    then have "u_protocol url \<noteq> ''http:''" using public_no_reason afterResolve_passed(2) [OF af a(3)] by auto
    with public show ?thesis
      using beforeResolve_passed(1-3) [OF b] a meta err unfolding safe_connection_def by auto
  next
    case loop
    then show ?thesis
      using beforeResolve_passed(1-4) [OF b] afterResolve_passed(1) [OF af a(3)] a meta err
      unfolding safe_connection_def by auto
  qed
qed

section \<open>The hop loop\<close>

lemma hop_pin_Inr:
  assumes "hop_pin h policy gate url st = (Inr pin, st')"
  shows "\<exists>st1. fst (gate_before gate url st) = None \<and> resolveGuarded (u_hostname url) (he_resolver h) policy = Inr pin \<and>
    fst (gate_after gate url pin st1) = None"
proof -
  obtain e st1 where b: "gate_before gate url st = (e, st1)" by fastforce
  have "e = None" and res: "resolveGuarded (u_hostname url) (he_resolver h) policy = Inr pin"
    using assms b by (auto simp: hop_pin_def split: if_splits option.splits sum.splits prod.splits)
  obtain e' st2 where "gate_after gate url pin st1 = (e', st2)" by fastforce
  moreover from this have "e' = None" using assms b res \<open>e = None\<close> by (auto simp: hop_pin_def split: if_splits option.splits)
  ultimately show ?thesis using b res \<open>e = None\<close> by (metis fst_conv)
qed

text \<open>One turn of the loop.\<close>

lemma request_loop_turn:
  assumes "request_loop env mode follow m policy gate redirects url st = (r, st', conns)"
  obtains (refused) e e0 st1 where "hop_pin (ht_hop env (length redirects)) policy gate url st = (Inl e0, st1)" "conns = []" "r = Inl e"
  | (stop) pin st1 where "hop_pin (ht_hop env (length redirects)) policy gate url st = (Inr pin, st1)" "conns = [(url, pin)]"
      "\<And>resp. r = Inr resp \<Longrightarrow> rs_redirects resp = redirects"
  | (onward) pin st1 u conns' where "hop_pin (ht_hop env (length redirects)) policy gate url st = (Inr pin, st1)"
      "follow" "length redirects < m" "conns = (url, pin) # conns'"
      "request_loop env mode follow m policy gate (redirects @ [u_href url]) u st1 = (r, st', conns')"
proof (cases "hop_pin (ht_hop env (length redirects)) policy gate url st")
  case (Pair res st1)
  show ?thesis
  proof (cases res)
    case (Inl e)
    note no = Pair [unfolded Inl]
    with assms show ?thesis by (intro refused [OF no]) (auto simp: request_loop.simps [of env] Let_def)
  next
    case (Inr pin)
    note pin = Pair [unfolded Inr]
    let ?h = "ht_hop env (length redirects)"
    show ?thesis
    proof (cases "he_exchange ?h url pin")
      case (Inl e)
      with pin assms show ?thesis by (intro stop [OF pin]) (auto simp: request_loop.simps [of env] Let_def)
    next
      case ex: (Inr resp)
      obtain status location where ans: "he_exchange ?h url pin = Inr (status, location)" using ex by (cases resp) simp
      show ?thesis
      proof (cases "\<not> (status \<in> REDIRECT \<and> mode = ErrorMode) \<and> follow \<and> is_redirect status location \<and> length redirects < m \<and>
          (\<exists>u. next_target env ?h (the location) url = Inr u)")
        case True
        then obtain u where u: "next_target env ?h (the location) url = Inr u" by blast
        obtain r' st2 conns' where rec: "request_loop env mode follow m policy gate (redirects @ [u_href url]) u st1 = (r', st2, conns')"
          by (cases "request_loop env mode follow m policy gate (redirects @ [u_href url]) u st1") auto
        have "(r, st', conns) = (r', st2, (url, pin) # conns')"
          using assms True pin ans u rec by (subst (asm) request_loop.simps) (auto simp: Let_def)
        with True rec show ?thesis by (intro onward [OF pin]) auto
      next
        case False
        then have "conns = [(url, pin)] \<and> (\<forall>resp. r = Inr resp \<longrightarrow> rs_redirects resp = redirects)"
          using assms pin ans by (subst (asm) request_loop.simps) (auto simp: Let_def not_less split: if_splits sum.splits)
        then show ?thesis by (intro stop [OF pin]) auto
      qed
    qed
  qed
qed

text \<open>
  The interface between a hop and its loop: whatever passes the gate, the guard and the gate again is safe to connect to.
  Given that, every connection the loop opens is safe, and the connections are as many as the URLs it asked.
\<close>

locale dial_contract =
  fixes gate :: "egress_policy option" and policy :: address_policy and safe :: "url \<Rightarrow> resolved_address \<Rightarrow> bool"
  assumes hop: "fst (gate_before gate url st) = None \<Longrightarrow> resolveGuarded (u_hostname url) resolver policy = Inr pin \<Longrightarrow>
    fst (gate_after gate url pin st') = None \<Longrightarrow> safe url pin"
begin

lemma pin_safe: "hop_pin h policy gate url st = (Inr pin, st') \<Longrightarrow> safe url pin"
  using hop_pin_Inr hop by blast

lemma loop_safe:
  "request_loop env mode follow m policy gate redirects url st = (r, st', conns) \<Longrightarrow> \<forall>(u, pin)\<in>set conns. safe u pin"
proof (induction "m - length redirects" arbitrary: redirects url st conns rule: less_induct)
  case less
  from less.prems show ?case
  proof (cases rule: request_loop_turn)
    case (stop pin st1)
    then show ?thesis using pin_safe [OF stop(1)] by simp
  next
    case (onward pin st1 u conns')
    then have "\<forall>(u, pin)\<in>set conns'. safe u pin" by (intro less.hyps [OF _ onward(5)]) simp
    then show ?thesis using pin_safe [OF onward(1)] onward(4) by auto
  qed simp
qed

lemma request_safe:
  "guardedRequest env opts policy gate raw st = (r, st', conns) \<Longrightarrow> (url, pin) \<in> set conns \<Longrightarrow> safe url pin"
  using loop_safe by (fastforce simp: guardedRequest_def split: sum.splits)

end

text \<open>The egress service keeps the contract for every compiled policy.\<close>

interpretation egress: dial_contract "Some (compileEgressPolicy dta cfg)" "addressPolicy (compileEgressPolicy dta cfg) False"
  "safe_connection (compileEgressPolicy dta cfg)" for dta cfg
  by unfold_locales (unfold gate_before_None gate_after_None, rule hop_safe [OF refl])

text \<open>The web tools without a gate: public addresses and the configured exceptions only.\<close>

definition web_safe :: "cidr list \<Rightarrow> url \<Rightarrow> resolved_address \<Rightarrow> bool" where
  "web_safe allow url pin \<longleftrightarrow> (\<exists>a. parseAddress (ra_address pin) False = Some a \<and>
     (vd_public (classifyAddress a) \<or> list_ex (inCidr a) allow))"

interpretation web: dial_contract None "\<lparr>ap_allow = allow, ap_deny = [], ap_forHost = (\<lambda>_. [])\<rparr>" "web_safe allow" for allow
  by unfold_locales (auto simp: web_safe_def admitted_def elim!: resolveGuarded_sound)

text \<open>
  (C23) Every connection that a request of the egress service opens, the first and those of redirects, is safe: the
  configuration compiled without an error, port and host are allowed, and the pinned address is public over https, or it is
  loopback, loopback is allowed, and the host is a loopback spelling listed by name. The cloud metadata address is never among
  them. This holds for every answer of name resolution, of the network and of the redirect targets.
\<close>

theorem egress_connections_safe:
  assumes "(if ho_modelDownload opts then modelDownloadPolicy config else Some config) = Some cfg"
    and "egress_request dta env config opts raw st = Some (r, st', conns)" and "(url, pin) \<in> set conns"
  shows "safe_connection (compileEgressPolicy dta cfg) url pin"
proof -
  let ?p = "compileEgressPolicy dta cfg"
  obtain r0 st0 where "guardedRequest env opts (addressPolicy ?p False) (Some ?p) raw st = (r0, st0, conns)"
    using assms(1,2) by (auto simp: egress_request_def Let_def split: sum.splits prod.splits)
  then show ?thesis using assms(3) by (rule egress.request_safe)
qed

text \<open>A configuration with one allowed name and two pages, the first of which redirects to the second.\<close>

definition sample_url :: "string \<Rightarrow> url" where
  "sample_url href = \<lparr>u_protocol = ''https:'', u_hostname = ''a.b'', u_port = [], u_username = [], u_password = [], u_href = href\<rparr>"

definition sample_pin :: resolved_address where
  "sample_pin = \<lparr>ra_address = ''8.8.8.8'', ra_family = V4\<rparr>"

definition sample_hop :: "(int \<times> string option) \<Rightarrow> hop_env" where
  "sample_hop answer = \<lparr>he_aborted = False, he_resolver = (\<lambda>_. Some [sample_pin]), he_resolve_aborted = False,
     he_exchange = (\<lambda>_ _. Inr answer), he_onRedirect = (\<lambda>_. None), he_late_abort = False\<rparr>"

definition sample_http :: http_env where
  "sample_http = \<lparr>ht_parse = (\<lambda>s. Some (sample_url s)), ht_resolve = (\<lambda>l _. Some (sample_url l)),
     ht_hop = (\<lambda>k. sample_hop (if k = 0 then (302, Some ''2'') else (200, None)))\<rparr>"

definition sample_config :: egress_config where
  "sample_config = \<lparr>ec_allowHosts = JArr [JStr ''a.b''], ec_allowPorts = JArr [JNum (Fin 443)], ec_allowLoopback = JBool False,
     ec_modelDownloads = JUndef\<rparr>"

definition sample_options :: http_options where
  "sample_options = \<lparr>ho_method = None, ho_headers = [], ho_body = None, ho_maxRequestBytes = None, ho_maxRedirects = None,
     ho_redirect = None, ho_safeRedirectHeaders = False, ho_modelDownload = False\<rparr>"

lemma sample_request:
  "egress_request id sample_http sample_config sample_options ''1'' \<lparr>es_allowed = 0, es_denied = []\<rparr> =
    Some (Inr \<lparr>rs_url = ''2'', rs_status = 200, rs_redirects = [''1'']\<rparr>, \<lparr>es_allowed = 2, es_denied = []\<rparr>,
      [(sample_url ''1'', sample_pin), (sample_url ''2'', sample_pin)])"
  by code_simp

theorem egress_connections_safe_witness:
  "(sample_url ''2'', sample_pin) \<in> set [(sample_url ''1'', sample_pin), (sample_url ''2'', sample_pin)] \<and>
   safe_connection (compileEgressPolicy id sample_config) (sample_url ''2'') sample_pin"
  using egress_connections_safe [OF _ sample_request, of sample_config "sample_url ''2''" sample_pin]
  by (simp add: sample_options_def)

section \<open>Bounds\<close>

lemma loop_bounded:
  "request_loop env mode follow m policy gate redirects url st = (r, st', conns) \<Longrightarrow> length redirects \<le> m \<Longrightarrow>
    length conns \<le> Suc (m - length redirects) \<and>
    (\<forall>resp. r = Inr resp \<longrightarrow> Suc (length (rs_redirects resp)) = length redirects + length conns)"
proof (induction "m - length redirects" arbitrary: redirects url st conns rule: less_induct)
  case less
  from less.prems(1) show ?case
  proof (cases rule: request_loop_turn)
    case (refused e)
    then show ?thesis by simp
  next
    case (stop pin st1)
    then show ?thesis by auto
  next
    case (onward pin st1 u conns')
    have "length conns' \<le> Suc (m - length (redirects @ [u_href url])) \<and>
        (\<forall>resp. r = Inr resp \<longrightarrow> Suc (length (rs_redirects resp)) = length (redirects @ [u_href url]) + length conns')"
      using onward(3) by (intro less.hyps [OF _ onward(5)]) simp_all
    with onward(3,4) show ?thesis by auto
  qed
qed

text \<open>
  (C24) The redirect loop ends after at most \<open>maxRedirects + 1\<close> connections, one per URL it reports, whatever the servers answer.
  A request with a body, with another method than GET or HEAD, or with a header beyond accept, user-agent and range opens at
  most one connection: none of it is sent to a host the request was not addressed to.
\<close>

theorem request_hops_bounded:
  assumes "requestParts opts = Inr parts" and "guardedRequest env opts policy gate raw st = (r, st', conns)"
  shows "length conns \<le> Suc (max_redirects opts parts) \<and>
    (\<forall>resp. r = Inr resp \<longrightarrow> length conns = Suc (length (rs_redirects resp))) \<and>
    (rp_body parts \<noteq> None \<or> rp_method parts \<notin> {''GET'', ''HEAD''} \<or>
     (\<exists>h\<in>set (rp_headers parts). fst h \<notin> {''accept'', ''user-agent'', ''range''}) \<longrightarrow> length conns \<le> 1)"
proof -
  have none: "max_redirects opts parts = 0"
    if "rp_body parts \<noteq> None \<or> rp_method parts \<notin> {''GET'', ''HEAD''} \<or>
     (\<exists>h\<in>set (rp_headers parts). fst h \<notin> {''accept'', ''user-agent'', ''range''})"
    using that unfolding max_redirects_def follows_def by (auto simp: list_all_iff split: if_splits)
  have bound: "length conns \<le> Suc (max_redirects opts parts) \<and> (\<forall>resp. r = Inr resp \<longrightarrow> length conns = Suc (length (rs_redirects resp)))"
  proof (cases "parseTarget (ht_parse env) raw")
    case (Inl e)
    with assms show ?thesis by (auto simp: guardedRequest_def)
  next
    case (Inr url)
    with assms show ?thesis using loop_bounded [where redirects = "[]"] by (fastforce simp: guardedRequest_def)
  qed
  then have "length conns \<le> 1" if "max_redirects opts parts = 0" using that by simp
  with none bound show ?thesis by blast
qed

theorem request_hops_bounded_witness:
  "length (snd (snd (guardedRequest sample_http (sample_options\<lparr>ho_method := Some ''post''\<rparr>)
     (addressPolicy (compileEgressPolicy id sample_config) False) None ''1'' \<lparr>es_allowed = 0, es_denied = []\<rparr>))) \<le> 1"
proof -
  let ?opts = "sample_options\<lparr>ho_method := Some ''post''\<rparr>" and ?parts = "\<lparr>rp_method = ''POST'', rp_headers = [], rp_body = None\<rparr>"
  obtain r st' conns where run: "guardedRequest sample_http ?opts (addressPolicy (compileEgressPolicy id sample_config) False) None ''1''
     \<lparr>es_allowed = 0, es_denied = []\<rparr> = (r, st', conns)" by (metis prod_cases3)
  have "requestParts ?opts = Inr ?parts" by code_simp
  from request_hops_bounded [OF this run] run show ?thesis by simp
qed

section \<open>The dry run\<close>

lemma decide_outcome:
  assumes "egress_decide dta parse resolver config False raw st = (d, st')"
  shows "(\<exists>url pin. parse raw = Some url \<and> beforeResolve (compileEgressPolicy dta config) url = None \<and>
      resolveGuarded (u_hostname url) resolver (addressPolicy (compileEgressPolicy dta config) False) = Inr pin \<and>
      afterResolve (compileEgressPolicy dta config) url pin = None \<and>
      d = DryAllowed (bareHost url) (effectivePort url) (ra_address pin) (ra_family pin)) \<or>
    (\<exists>k. d = DryDenied k) \<and> (\<forall>url pin. parse raw = Some url \<longrightarrow> beforeResolve (compileEgressPolicy dta config) url = None \<longrightarrow>
      resolveGuarded (u_hostname url) resolver (addressPolicy (compileEgressPolicy dta config) False) = Inr pin \<longrightarrow>
      afterResolve (compileEgressPolicy dta config) url pin \<noteq> None)"
  using assms unfolding egress_decide_def Let_def
  by (auto simp: gate_before_def gate_after_def dry_failure_def split: option.splits sum.splits prod.splits)

lemma first_hop:
  assumes "\<not> he_aborted h" "\<not> he_resolve_aborted h"
  shows "(\<exists>st'. hop_pin h policy (Some p) url st = (Inr pin, st')) \<longleftrightarrow>
    beforeResolve p url = None \<and> resolveGuarded (u_hostname url) (he_resolver h) policy = Inr pin \<and> afterResolve p url pin = None"
  using assms by (auto simp: hop_pin_def gate_before_def gate_after_def split: option.splits sum.splits)

lemma first_connection:
  assumes "guardedRequest env opts policy (Some p) raw st = (r, st', conns)" and "requestParts opts = Inr parts"
    and "\<not> he_aborted (ht_hop env 0)" "\<not> he_resolve_aborted (ht_hop env 0)"
  shows "(\<exists>rest. conns = (url, pin) # rest) \<longleftrightarrow> ht_parse env raw = Some url \<and> beforeResolve p url = None \<and>
    resolveGuarded (u_hostname url) (he_resolver (ht_hop env 0)) policy = Inr pin \<and> afterResolve p url pin = None"
    (is "?l \<longleftrightarrow> ht_parse env raw = Some url \<and> ?ok url")
proof -
  have target: "parseTarget (ht_parse env) raw = Inr url" if "ht_parse env raw = Some url" "beforeResolve p url = None" for url
  proof -
    have "u_hostname url \<noteq> []" using beforeResolve_passed(5) [OF that(2)] by (auto simp: bareHost_def js_lower_def drop_dot_def)
    with beforeResolve_passed(1,6,7) [OF that(2)] that(1) show ?thesis by (auto simp: parseTarget_def)
  qed
  have parsed: "ht_parse env raw = Some u" if "parseTarget (ht_parse env) raw = Inr u" for u
    using that by (auto simp: parseTarget_def split: option.splits if_splits)
  show ?thesis
  proof (cases "parseTarget (ht_parse env) raw")
    case (Inl e)
    then have "conns = []" using assms(1,2) by (simp add: guardedRequest_def)
    with Inl target show ?thesis by auto
  next
    case (Inr u)
    then obtain mode follow m where loop: "request_loop env mode follow m policy (Some p) [] u st = (r, st', conns)"
      using assms(1,2) by (auto simp: guardedRequest_def)
    have hop: "(\<exists>st'. hop_pin (ht_hop env 0) policy (Some p) u st = (Inr pin, st')) \<longleftrightarrow> ?ok u"
      by (rule first_hop [OF assms(3,4)])
    from loop have "?l \<longleftrightarrow> url = u \<and> (\<exists>st'. hop_pin (ht_hop env 0) policy (Some p) u st = (Inr pin, st'))"
      by (cases rule: request_loop_turn) auto
    with hop parsed [OF Inr] show ?thesis by auto
  qed
qed



section \<open>Configurations the code does not expect\<close>

text \<open>An undefined entry hides every invalid port behind it, so port 0 stays allowed.\<close>

lemma undefined_port_hides_errors: "bad_port (JNum (Fin 0)) \<and> port_errors [JUndef, JNum (Fin 0)] = []"
  by (simp add: bad_port_def port_errors_def is_integer_def)

text \<open>A null entry makes the request throw before anything is checked.\<close>

lemma null_model_downloads_throws:
  "ec_modelDownloads config = JNull \<Longrightarrow> ho_modelDownload opts \<Longrightarrow> egress_request dta env config opts raw st = None"
  by (simp add: egress_request_def modelDownloadPolicy_def)

end
