(* ===== verification/Web_Robots.thy ===== *)
theory Web_Robots
  imports Policy_Theorems Ip_Address
begin

text \<open>
  The crawl rules of \<^verbatim>\<open>packages/core/src/tools/web/robots.ts\<close>: reading a robots.txt, matching a path against its patterns, choosing the
  rule that decides, and the per-host pacer. The pattern matcher is proved equal to the declarative meaning of a pattern,
  the rule that decides is the longest one, and the pacer never gives two slots of a host closer than its interval.
\<close>

section \<open>Reading\<close>

record robots_rule =
  rb_allow :: bool
  rb_pattern :: string

record robots_group =
  rg_agents :: "string list"
  rg_rules :: "robots_rule list"
  rg_crawlDelay :: "rat option"

definition MAX_ROBOTS_BYTES :: nat where "MAX_ROBOTS_BYTES = 500 * 1024"
definition MAX_CRAWL_DELAY_SECONDS :: rat where "MAX_CRAWL_DELAY_SECONDS = 30"
definition MAX_PACED_HOSTS :: nat where "MAX_PACED_HOSTS = 1024"

abbreviation cr :: char where "cr \<equiv> CHR 0x0D"
abbreviation lf :: char where "lf \<equiv> CHR 0x0A"

text \<open>\<open>split(/\r?\n/)\<close>: the carriage return before a line feed belongs to the separator.\<close>

definition drop_cr :: "string \<Rightarrow> string" where
  "drop_cr s = (if s \<noteq> [] \<and> last s = cr then butlast s else s)"

definition robots_lines :: "string \<Rightarrow> string list" where
  "robots_lines text = (let ls = split_on (\<lambda>c. c = lf) (take MAX_ROBOTS_BYTES text) in map drop_cr (butlast ls) @ [last ls])"

text \<open>\<open>replace(/#.*/, "")\<close>: a dot matches no line terminator.\<close>

definition strip_comment :: "string \<Rightarrow> string" where
  "strip_comment s = takeWhile (\<lambda>c. c \<noteq> CHR ''#'') s @ dropWhile (\<lambda>c. c \<noteq> cr \<and> c \<noteq> lf) (dropWhile (\<lambda>c. c \<noteq> CHR ''#'') s)"

definition key_char :: "char \<Rightarrow> bool" where
  "key_char c \<longleftrightarrow> is_letter c \<or> c = CHR ''-''"

definition robots_field :: "string \<Rightarrow> (string \<times> string) option" where
  "robots_field raw =
    (let line = js_trim (strip_comment raw);
         key = takeWhile key_char line;
         rest = dropWhile js_space (dropWhile key_char line)
     in if key = [] \<or> rest = [] \<or> hd rest \<noteq> CHR '':'' then None
        else (let val = dropWhile js_space (tl rest) in
              if cr \<in> set val \<or> lf \<in> set val then None else Some (js_lower key, js_trim val)))"

text \<open>
  \<open>Number(s)\<close> of a string: blank is 0, the three radix prefixes, a signed infinity, and decimal literals. Beyond the largest double the
  value is infinite.
\<close>

definition num_digits :: "string \<Rightarrow> bool" where
  "num_digits s \<longleftrightarrow> s \<noteq> [] \<and> list_all (digit_in 10) s"

definition double_of :: "rat \<Rightarrow> jsnum" where
  "double_of q = (if 2 ^ 1024 - 2 ^ 970 \<le> q then PosInf else if q \<le> - (2 ^ 1024 - 2 ^ 970) then NegInf else Fin q)"

definition unsign :: "string \<Rightarrow> rat \<times> string" where
  "unsign s = (case s of c # cs \<Rightarrow> if c = CHR ''-'' then (-1, cs) else if c = CHR ''+'' then (1, cs) else (1, s) | [] \<Rightarrow> (1, []))"

definition mantissa :: "string \<Rightarrow> rat option" where
  "mantissa s = (case split_on (\<lambda>c. c = CHR ''.'') s of
     [i] \<Rightarrow> if num_digits i then Some (of_int (parse_int 10 i)) else None
   | [i, f] \<Rightarrow> if i @ f \<noteq> [] \<and> list_all (digit_in 10) (i @ f) then Some (of_int (parse_int 10 (i @ f)) / 10 ^ length f) else None
   | _ \<Rightarrow> None)"

definition scaled :: "rat \<Rightarrow> int \<Rightarrow> rat" where
  "scaled m x = (if 0 \<le> x then m * 10 ^ nat x else m / 10 ^ nat (- x))"

definition decimal :: "string \<Rightarrow> rat option" where
  "decimal s = (case split_on (\<lambda>c. c = CHR ''e'' \<or> c = CHR ''E'') s of
     [m] \<Rightarrow> mantissa m
   | [m, x] \<Rightarrow>
       (case (mantissa m, unsign x) of
          (Some q, (sg, ds)) \<Rightarrow> if num_digits ds then Some (scaled q (\<lfloor>sg\<rfloor> * parse_int 10 ds)) else None
        | _ \<Rightarrow> None)
   | _ \<Rightarrow> None)"

definition radix_literal :: "string \<Rightarrow> (int \<times> string) option" where
  "radix_literal s = (case s of
     z # x # ds \<Rightarrow>
       if z \<noteq> CHR ''0'' \<or> ds = [] then None
       else if (x = CHR ''x'' \<or> x = CHR ''X'') \<and> list_all (digit_in 16) ds then Some (16, ds)
       else if (x = CHR ''o'' \<or> x = CHR ''O'') \<and> list_all (digit_in 8) ds then Some (8, ds)
       else if (x = CHR ''b'' \<or> x = CHR ''B'') \<and> list_all (digit_in 2) ds then Some (2, ds)
       else None
   | _ \<Rightarrow> None)"

definition js_number :: "string \<Rightarrow> jsnum" where
  "js_number raw =
    (let s = js_trim raw; (sg, body) = unsign s in
     if s = [] then Fin 0
     else if body = ''Infinity'' then (if sg = 1 then PosInf else NegInf)
     else (case radix_literal s of
             Some (base, ds) \<Rightarrow> double_of (of_int (parse_int base ds))
           | None \<Rightarrow> (case decimal body of Some q \<Rightarrow> double_of (sg * q) | None \<Rightarrow> NaN)))"

text \<open>The groups before the open one, the open one, and whether the last field was a user agent.\<close>

type_synonym robots_state = "robots_group list \<times> robots_group option \<times> bool"

definition robots_step :: "(string \<times> string) \<Rightarrow> robots_state \<Rightarrow> robots_state" where
  "robots_step kv st =
    (case (kv, st) of
       ((key, val), (done_groups, cur, lastWasAgent)) \<Rightarrow>
         if key = ''user-agent'' then
           (let (done_groups', g) = (case cur of
                Some g \<Rightarrow> if lastWasAgent then (done_groups, g) else (done_groups @ [g], \<lparr>rg_agents = [], rg_rules = [], rg_crawlDelay = None\<rparr>)
              | None \<Rightarrow> (done_groups, \<lparr>rg_agents = [], rg_rules = [], rg_crawlDelay = None\<rparr>))
            in (done_groups', Some (if val \<noteq> [] then g\<lparr>rg_agents := rg_agents g @ [js_lower val]\<rparr> else g), True))
         else
           (case cur of
              None \<Rightarrow> (done_groups, None, False)
            | Some g \<Rightarrow>
              if key = ''allow'' \<or> key = ''disallow'' then
                (done_groups, Some (if val \<noteq> [] then g\<lparr>rg_rules := rg_rules g @ [\<lparr>rb_allow = (key = ''allow''), rb_pattern = val\<rparr>]\<rparr> else g), False)
              else if key = ''crawl-delay'' then
                (case js_number val of
                   Fin n \<Rightarrow> (done_groups, Some (if 0 \<le> n then g\<lparr>rg_crawlDelay := Some (min n MAX_CRAWL_DELAY_SECONDS)\<rparr> else g), False)
                 | _ \<Rightarrow> (done_groups, Some g, False))
              else (done_groups, Some g, False)))"

definition parseRobots :: "string \<Rightarrow> robots_group list" where
  "parseRobots text =
    (case fold robots_step (List.map_filter robots_field (robots_lines text)) ([], None, False) of
       (done_groups, cur, _) \<Rightarrow> done_groups @ (case cur of Some g \<Rightarrow> [g] | None \<Rightarrow> []))"

definition product_char :: "char \<Rightarrow> bool" where
  "product_char c \<longleftrightarrow> is_letter c \<or> digit_in 10 c \<or> c = CHR ''_'' \<or> c = CHR ''-''"

definition productToken :: "string \<Rightarrow> string" where
  "productToken ua = js_lower (takeWhile product_char (js_trim ua))"

definition pick :: "robots_group list \<Rightarrow> string \<Rightarrow> robots_group list" where
  "pick groups ua =
    (let token = productToken ua;
         specific = filter (\<lambda>g. list_ex (\<lambda>a. a \<noteq> ''*'' \<and> prefix a token) (rg_agents g)) groups
     in if specific \<noteq> [] then specific else filter (\<lambda>g. ''*'' \<in> set (rg_agents g)) groups)"

definition crawlDelaySeconds :: "robots_group list \<Rightarrow> string \<Rightarrow> rat option" where
  "crawlDelaySeconds groups ua =
    (case List.find (\<lambda>g. rg_crawlDelay g \<noteq> None) (pick groups ua) of Some g \<Rightarrow> rg_crawlDelay g | None \<Rightarrow> None)"

section \<open>Matching\<close>

definition index_from :: "string \<Rightarrow> string \<Rightarrow> nat \<Rightarrow> nat option" where
  "index_from p s pos = map_option (\<lambda>i. pos + i) (index_of p (drop pos s))"

text \<open>The literal pieces after the first one, leftmost match by leftmost match.\<close>

fun pieces_match :: "bool \<Rightarrow> string list \<Rightarrow> string \<Rightarrow> nat \<Rightarrow> bool" where
  "pieces_match anchored [] path pos = True"
| "pieces_match anchored [lst] path pos =
     (if anchored then pos + length lst \<le> length path \<and> suffix lst path else index_from lst path pos \<noteq> None)"
| "pieces_match anchored (w # ws) path pos =
     (case index_from w path pos of None \<Rightarrow> False | Some i \<Rightarrow> pieces_match anchored ws path (i + length w))"

definition patternMatches :: "string \<Rightarrow> string \<Rightarrow> bool" where
  "patternMatches p path =
    (let anchored = suffix ''$'' p;
         parts = split_on (\<lambda>c. c = CHR ''*'') (if anchored then butlast p else p);
         first = hd parts
     in if \<not> prefix first path then False
        else if length parts = 1 then \<not> anchored \<or> length path = length first
        else pieces_match anchored (tl parts) path (length first))"

definition better :: "(nat \<times> bool) option \<Rightarrow> nat \<times> bool \<Rightarrow> bool" where
  "better best r = (case best of None \<Rightarrow> True | Some b \<Rightarrow> fst b < fst r \<or> fst r = fst b \<and> snd r)"

definition rule_weight :: "robots_rule \<Rightarrow> nat \<times> bool" where
  "rule_weight r = (length (filter (\<lambda>c. c \<noteq> CHR ''*'') (rb_pattern r)), rb_allow r)"

definition best_rule :: "robots_rule list \<Rightarrow> string \<Rightarrow> (nat \<times> bool) option" where
  "best_rule rules path =
    foldl (\<lambda>best r. if patternMatches (rb_pattern r) path \<and> better best (rule_weight r) then Some (rule_weight r) else best) None rules"

definition robotsAllows :: "robots_group list \<Rightarrow> string \<Rightarrow> string \<Rightarrow> bool" where
  "robotsAllows groups userAgent path =
    (case best_rule (concat (map rg_rules (pick groups userAgent))) path of Some b \<Rightarrow> snd b | None \<Rightarrow> True)"

section \<open>The pacer\<close>

text \<open>A slot that was reserved: when it starts, what it reserved and what was there before.\<close>

record pacer_slot =
  sl_host :: string
  sl_at :: rat
  sl_reserved :: rat
  sl_previous :: "rat option"

type_synonym pacer = "(string \<times> rat) list"

definition pacer_prune :: "rat \<Rightarrow> pacer \<Rightarrow> pacer" where
  "pacer_prune t slots = filter (\<lambda>(h, until). \<not> until \<le> t) slots"

text \<open>What \<open>wait\<close> does up to its sleep. The clock is read up to three times: for the slot, in \<open>prune\<close>, and for the delay.\<close>

definition pacer_reserve :: "rat \<Rightarrow> string \<Rightarrow> rat \<Rightarrow> rat \<Rightarrow> rat \<Rightarrow> pacer \<Rightarrow> pacer_slot \<times> pacer" where
  "pacer_reserve minInterval host crawlDelay now now2 slots =
    (let interval = max minInterval crawlDelay;
         previous = map_of slots host;
         start = max now (case previous of Some p \<Rightarrow> p | None \<Rightarrow> 0);
         slots1 = map_set host (start + interval) slots
     in (\<lparr>sl_host = host, sl_at = start, sl_reserved = start + interval, sl_previous = previous\<rparr>,
         if MAX_PACED_HOSTS < length slots1 then pacer_prune now2 slots1 else slots1))"

text \<open>A call is refused, goes on at once, or sleeps for a time while it holds its slot.\<close>

datatype pacer_answer = Wait_Refused | Wait_Ready pacer_slot | Wait_Sleeps rat pacer_slot

definition pacer_wait :: "rat \<Rightarrow> string \<Rightarrow> rat \<Rightarrow> bool \<Rightarrow> rat \<Rightarrow> rat \<Rightarrow> rat \<Rightarrow> pacer \<Rightarrow> pacer_answer \<times> pacer" where
  "pacer_wait minInterval host crawlDelay aborted now now2 now3 slots =
    (if aborted then (Wait_Refused, slots)
     else (let (sl, slots') = pacer_reserve minInterval host crawlDelay now now2 slots;
               delay = sl_at sl - now3
           in (if 0 < delay then Wait_Sleeps delay sl else Wait_Ready sl, slots')))"

text \<open>The sleep of a slot was cancelled.\<close>

definition pacer_cancel :: "pacer_slot \<Rightarrow> pacer \<Rightarrow> pacer" where
  "pacer_cancel sl slots =
    (if map_of slots (sl_host sl) = Some (sl_reserved sl) then
       (case sl_previous sl of None \<Rightarrow> map_delete (sl_host sl) slots | Some p \<Rightarrow> map_set (sl_host sl) p slots)
     else slots)"

section \<open>The pattern matcher decides the meaning of a pattern\<close>

lemma index_of_Some:
  "index_of p s = Some i \<longleftrightarrow> i \<le> length s \<and> prefix p (drop i s) \<and> (\<forall>j<i. \<not> prefix p (drop j s))"
proof (induction p s arbitrary: i rule: index_of.induct)
  case (1 p)
  then show ?case by (cases i) auto
next
  case (2 p c cs)
  show ?case
  proof (cases i)
    case 0
    with 2 show ?thesis by auto
  next
    case (Suc k)
    have "(\<forall>j<Suc k. \<not> prefix p (drop j (c # cs))) \<longleftrightarrow> \<not> prefix p (c # cs) \<and> (\<forall>j<k. \<not> prefix p (drop j cs))"
      by (simp add: All_less_Suc2)
    with 2 Suc show ?thesis by auto
  qed
qed

lemma index_of_None: "index_of p s = None \<longleftrightarrow> (\<forall>i\<le>length s. \<not> prefix p (drop i s))"
proof (induction p s rule: index_of.induct)
  case (2 p c cs)
  have "(\<forall>i\<le>length (c # cs). \<not> prefix p (drop i (c # cs))) \<longleftrightarrow> \<not> prefix p (c # cs) \<and> (\<forall>i\<le>length cs. \<not> prefix p (drop i cs))"
    by (simp add: All_less_Suc2 flip: less_Suc_eq_le)
  with 2 show ?case by auto
qed auto


definition stars :: "string list \<Rightarrow> string" where
  "stars ws = concat (map (\<lambda>w. CHR ''*'' # w) ws)"

lemma stars_simps [simp]: "stars [] = []" "stars (w # ws) = CHR ''*'' # w @ stars ws"
  by (simp_all add: stars_def)

lemma split_stars:
  fixes s defines "ps \<equiv> split_on (\<lambda>c. c = CHR ''*'') s"
  shows "s = hd ps @ stars (tl ps)" "\<forall>w\<in>set ps. CHR ''*'' \<notin> set w"
  unfolding ps_def by (induction s) (auto split: list.splits)

lemma glob_literal: "CHR ''*'' \<notin> set w \<Longrightarrow> glob_ref (w @ ps) s \<longleftrightarrow> prefix w s \<and> glob_ref ps (drop (length w) s)"
  by (simp add: glob_ref_literal prefix_def) (metis append_eq_conv_conj append_take_drop_id)

lemma glob_star: "glob_ref (CHR ''*'' # ps) s \<longleftrightarrow> (\<exists>k\<le>length s. glob_ref ps (drop k s))"
  by (rule glob_ref_star)

lemma glob_star_only: "glob_ref ''*'' s"
  unfolding glob_star by (intro exI [of _ "length s"]) simp

lemma glob_star_mono: "glob_ref (CHR ''*'' # ps) (drop j s) \<Longrightarrow> i \<le> j \<Longrightarrow> glob_ref (CHR ''*'' # ps) (drop i s)"
proof -
  assume a: "glob_ref (CHR ''*'' # ps) (drop j s)" "i \<le> j"
  then obtain k where k: "k \<le> length (drop j s)" "glob_ref ps (drop k (drop j s))" unfolding glob_star by blast
  have "drop k (drop j s) = drop (min (length (drop i s)) (k + (j - i))) (drop i s)"
    using a(2) by (auto simp: min_def)
  with k show ?thesis unfolding glob_star by (metis min.cobounded1)
qed

text \<open>Taking the leftmost match of each piece loses nothing.\<close>

lemma pieces_match_ref:
  "ws \<noteq> [] \<Longrightarrow> \<forall>w\<in>set ws. CHR ''*'' \<notin> set w \<Longrightarrow> pos \<le> length path \<Longrightarrow>
    pieces_match anchored ws path pos \<longleftrightarrow> glob_ref (stars ws @ (if anchored then [] else ''*'')) (drop pos path)"
proof (induction anchored ws path pos rule: pieces_match.induct)
  case (2 anchored lst path pos)
  then have free: "CHR ''*'' \<notin> set lst" by simp
  show ?case
  proof (cases anchored)
    case True
    have "(\<exists>k\<le>length (drop pos path). drop k (drop pos path) = lst) \<longleftrightarrow> pos + length lst \<le> length path \<and> suffix lst path"
    proof
      assume "pos + length lst \<le> length path \<and> suffix lst path"
      then have "drop (length path - length lst) path = lst" by (auto simp: suffix_def)
      with \<open>pos + length lst \<le> length path \<and> suffix lst path\<close>
      show "\<exists>k\<le>length (drop pos path). drop k (drop pos path) = lst"
        by (intro exI [of _ "length path - length lst - pos"]) auto
    qed (use 2(3) in \<open>auto simp: suffix_drop\<close>)
    moreover have "glob_ref lst t \<longleftrightarrow> t = lst" for t
      using glob_literal [OF free, of "[]" t] by (auto simp: prefix_def)
    ultimately show ?thesis using True by (simp add: glob_star del: glob_ref.simps(2))
  next
    case False
    have "glob_ref (lst @ ''*'') t \<longleftrightarrow> prefix lst t" for t
      using glob_literal [OF free, of "''*''" t] glob_star_only by (simp only: simp_thms)
    then show ?thesis using False by (simp add: glob_star index_from_def index_of_None del: glob_ref.simps(2))
  qed
next
  case (3 anchored w v ws path pos)
  let ?rest = "v @ stars ws @ (if anchored then [] else ''*'')"
  have "CHR ''*'' \<notin> set w" using 3 by simp
  then have ref: "glob_ref (stars (w # v # ws) @ (if anchored then [] else ''*'')) (drop pos path) \<longleftrightarrow>
      (\<exists>k\<le>length (drop pos path). prefix w (drop k (drop pos path)) \<and> glob_ref (CHR ''*'' # ?rest) (drop (length w) (drop k (drop pos path))))"
    by (simp add: glob_star glob_literal del: glob_ref.simps(2))
  show ?case
  proof (cases "index_of w (drop pos path)")
    case None
    then have "\<not> (\<exists>k\<le>length (drop pos path). prefix w (drop k (drop pos path)))" by (simp only: index_of_None) blast
    moreover have "\<not> pieces_match anchored (w # v # ws) path pos" using None by (simp add: index_from_def)
    ultimately show ?thesis unfolding ref by blast
  next
    case (Some i)
    then have i: "i \<le> length (drop pos path)" "prefix w (drop i (drop pos path))" "\<And>j. j < i \<Longrightarrow> \<not> prefix w (drop j (drop pos path))"
      by (auto simp: index_of_Some)
    have len: "pos + i + length w \<le> length path" using i 3(4) prefix_length_le [OF i(2)] by simp
    have IH: "pieces_match anchored (v # ws) path (pos + i + length w) \<longleftrightarrow> glob_ref (CHR ''*'' # ?rest) (drop (pos + i + length w) path)"
      using 3(1) [of "pos + i"] 3(3) len Some by (simp add: index_from_def del: glob_ref.simps(2))
    have "glob_ref (CHR ''*'' # ?rest) (drop (pos + i + length w) path)"
      if "prefix w (drop k (drop pos path))" "glob_ref (CHR ''*'' # ?rest) (drop (length w) (drop k (drop pos path)))" for k
    proof (rule glob_star_mono)
      show "glob_ref (CHR ''*'' # ?rest) (drop (pos + k + length w) path)" using that(2) by (simp add: add_ac del: glob_ref.simps(2))
      show "pos + i + length w \<le> pos + k + length w" using i(3) [of k] that(1) by (cases "k < i") auto
    qed
    then show ?thesis
      unfolding ref using Some IH i(1,2) by (auto simp: index_from_def add_ac simp del: glob_ref.simps(2))
  qed
qed simp

text \<open>
  The segment-by-segment matcher decides the meaning of a robots pattern: a trailing dollar makes the pattern match the
  whole path, otherwise it matches a prefix of it, and every star stands for any run of characters.
\<close>

lemma patternMatches_correct:
  "patternMatches p path \<longleftrightarrow> (if suffix ''$'' p then glob_ref (butlast p) path else glob_ref (p @ ''*'') path)"
proof -
  define q where "q = (if suffix ''$'' p then butlast p else p)"
  define ps where "ps = split_on (\<lambda>c. c = CHR ''*'') q"
  have q: "q = hd ps @ stars (tl ps)" and free: "\<forall>w\<in>set ps. CHR ''*'' \<notin> set w"
    unfolding ps_def by (rule split_stars)+
  have ne: "ps \<noteq> []" by (simp add: ps_def)
  then have hd: "CHR ''*'' \<notin> set (hd ps)" and tl: "\<forall>w\<in>set (tl ps). CHR ''*'' \<notin> set w"
    using free by (auto dest: list.set_sel(2))
  let ?tail = "if suffix ''$'' p then [] else ''*''"
  have "glob_ref (q @ ?tail) path \<longleftrightarrow> prefix (hd ps) path \<and> glob_ref (stars (tl ps) @ ?tail) (drop (length (hd ps)) path)"
    unfolding q append_assoc by (rule glob_literal [OF hd])
  also have "\<dots> \<longleftrightarrow> patternMatches p path"
  proof (cases "tl ps")
    case Nil
    with ne have "length ps = 1" by (cases ps) auto
    moreover have "prefix (hd ps) path \<Longrightarrow> drop (length (hd ps)) path = [] \<longleftrightarrow> length path = length (hd ps)"
      by (auto dest: prefix_length_le)
    ultimately show ?thesis
      using Nil glob_star_only by (auto simp: patternMatches_def Let_def ps_def [symmetric] q_def [symmetric] simp del: glob_ref.simps(2))
  next
    case (Cons w ws)
    with ne have "length ps \<noteq> 1" by (cases ps) auto
    moreover have "pieces_match (suffix ''$'' p) (tl ps) path (length (hd ps)) \<longleftrightarrow> glob_ref (stars (tl ps) @ ?tail) (drop (length (hd ps)) path)"
      if "prefix (hd ps) path"
      using Cons tl prefix_length_le [OF that] by (intro pieces_match_ref) auto
    ultimately show ?thesis
      by (auto simp: patternMatches_def Let_def ps_def [symmetric] q_def [symmetric] simp del: glob_ref.simps(2))
  qed
  finally show ?thesis by (simp add: q_def split: if_splits)
qed

section \<open>The rule that decides\<close>

definition pattern_means :: "string \<Rightarrow> string \<Rightarrow> bool" where
  "pattern_means p path = (if suffix ''$'' p then glob_ref (butlast p) path else glob_ref (p @ ''*'') path)"

lemma best_rule_snoc:
  "best_rule (rs @ [r]) path =
    (if patternMatches (rb_pattern r) path \<and> better (best_rule rs path) (rule_weight r) then Some (rule_weight r) else best_rule rs path)"
  by (simp add: best_rule_def)

lemma best_rule_spec:
  "case best_rule rs path of
     None \<Rightarrow> \<forall>r\<in>set rs. \<not> patternMatches (rb_pattern r) path
   | Some (n, a) \<Rightarrow> (\<exists>r\<in>set rs. patternMatches (rb_pattern r) path \<and> rule_weight r = (n, a)) \<and>
       (\<forall>r\<in>set rs. patternMatches (rb_pattern r) path \<longrightarrow> fst (rule_weight r) < n \<or> fst (rule_weight r) = n \<and> (rb_allow r \<longrightarrow> a))"
proof (induction rs rule: rev_induct)
  case Nil
  then show ?case by (simp add: best_rule_def)
next
  case (snoc r rs)
  have w: "snd (rule_weight r) = rb_allow r" for r by (simp add: rule_weight_def)
  show ?case
  proof (cases "patternMatches (rb_pattern r) path \<and> better (best_rule rs path) (rule_weight r)")
    case True
    have new: "best_rule (rs @ [r]) path = Some (rule_weight r)" using True by (simp add: best_rule_snoc)
    have "fst (rule_weight r') < fst (rule_weight r) \<or> fst (rule_weight r') = fst (rule_weight r) \<and> (rb_allow r' \<longrightarrow> rb_allow r)"
      if "r' \<in> set rs" "patternMatches (rb_pattern r') path" for r'
    proof (cases "best_rule rs path")
      case None
      with snoc that show ?thesis by simp
    next
      case (Some b)
      then have "fst (rule_weight r') < fst b \<or> fst (rule_weight r') = fst b \<and> (rb_allow r' \<longrightarrow> snd b)"
        using snoc that by (cases b) simp
      moreover have "fst b < fst (rule_weight r) \<or> fst (rule_weight r) = fst b \<and> rb_allow r"
        using True Some w by (simp add: better_def)
      ultimately show ?thesis by linarith
    qed
    moreover obtain n where "rule_weight r = (n, rb_allow r)" by (simp add: rule_weight_def)
    ultimately show ?thesis using True by (auto simp: new)
  next
    case False
    then show ?thesis using snoc w
      by (cases "best_rule rs path") (auto simp: best_rule_snoc better_def split: prod.splits)
  qed
qed

text \<open>
  (C29) The crawl rules are applied as RFC 9309 reads them: among the rules of the groups chosen for the crawler, a path is
  allowed exactly when every rule that disallows it is answered by a rule that allows it and is at least as long, where a
  rule applies to a path by the declarative meaning of its pattern and its length does not count stars.
\<close>

theorem robotsAllows_longest_rule:
  "robotsAllows groups ua path \<longleftrightarrow>
    (\<forall>r\<in>set (concat (map rg_rules (pick groups ua))). pattern_means (rb_pattern r) path \<and> \<not> rb_allow r \<longrightarrow>
       (\<exists>r'\<in>set (concat (map rg_rules (pick groups ua))). pattern_means (rb_pattern r') path \<and> rb_allow r' \<and>
          fst (rule_weight r) \<le> fst (rule_weight r')))"
proof -
  define rs where "rs = concat (map rg_rules (pick groups ua))"
  have m: "pattern_means = patternMatches" by (intro ext) (simp only: pattern_means_def patternMatches_correct)
  have allow: "robotsAllows groups ua path = (case best_rule rs path of Some b \<Rightarrow> snd b | None \<Rightarrow> True)"
    by (simp add: robotsAllows_def rs_def)
  show ?thesis
  proof (cases "best_rule rs path")
    case None
    then show ?thesis using best_rule_spec [of rs path] unfolding allow m rs_def [symmetric] by simp
  next
    case (Some b)
    obtain n a where b: "b = (n, a)" by fastforce
    obtain r0 where r0: "r0 \<in> set rs" "patternMatches (rb_pattern r0) path" "rule_weight r0 = (n, a)"
      and top: "\<And>r. r \<in> set rs \<Longrightarrow> patternMatches (rb_pattern r) path \<Longrightarrow>
        fst (rule_weight r) < n \<or> fst (rule_weight r) = n \<and> (rb_allow r \<longrightarrow> a)"
      using best_rule_spec [of rs path] Some b by auto
    have r0a: "rb_allow r0 = a" using r0(3) by (simp add: rule_weight_def)
    show ?thesis
    proof (cases a)
      case True
      then have "fst (rule_weight r) \<le> fst (rule_weight r0)" if "r \<in> set rs" "patternMatches (rb_pattern r) path" for r
        using top [OF that] r0(3) by auto
      then show ?thesis using True Some b r0 r0a unfolding allow m rs_def [symmetric] by auto
    next
      case False
      have "\<not> n \<le> fst (rule_weight r')" if "r' \<in> set rs" "patternMatches (rb_pattern r') path" "rb_allow r'" for r'
        using top [OF that(1,2)] that(3) False by auto
      then show ?thesis using False Some b r0 r0a unfolding allow m rs_def [symmetric] by (auto intro!: bexI [OF _ r0(1)])
    qed
  qed
qed

text \<open>A longer rule that allows answers the one that disallows; without it the path is refused.\<close>

theorem robotsAllows_longest_rule_witness:
  "robotsAllows [\<lparr>rg_agents = [''*''], rg_rules = [\<lparr>rb_allow = False, rb_pattern = ''/a*/x''\<rparr>, \<lparr>rb_allow = True, rb_pattern = ''/a/b/x$''\<rparr>], rg_crawlDelay = None\<rparr>]
     ''Bot/1.0'' ''/a/b/x'' \<and>
   \<not> robotsAllows [\<lparr>rg_agents = [''*''], rg_rules = [\<lparr>rb_allow = False, rb_pattern = ''/a*/x''\<rparr>, \<lparr>rb_allow = True, rb_pattern = ''/a/b/x$''\<rparr>], rg_crawlDelay = None\<rparr>]
     ''Bot/1.0'' ''/a/b/xy''"
  unfolding robotsAllows_longest_rule by code_simp

section \<open>The pacer spaces the slots of a host\<close>

text \<open>The time before which no new slot of a host may start.\<close>

definition paced_until :: "pacer \<Rightarrow> string \<Rightarrow> rat \<Rightarrow> rat \<Rightarrow> bool" where
  "paced_until slots host now u \<longleftrightarrow> u \<le> now \<or> (\<exists>v. map_of slots host = Some v \<and> u \<le> v)"

lemma paced_mono: "paced_until slots host now u \<Longrightarrow> now \<le> now' \<Longrightarrow> paced_until slots host now' u"
  by (auto simp: paced_until_def)

lemma paced_prune: "distinct (map fst slots) \<Longrightarrow> paced_until slots host now u \<Longrightarrow> paced_until (pacer_prune now slots) host now u"
proof -
  assume d: "distinct (map fst slots)" and p: "paced_until slots host now u"
  have "map_of (pacer_prune now slots) host = Some v" if "map_of slots host = Some v" "\<not> v \<le> now" for v
    using that d by (auto simp: pacer_prune_def distinct_map_filter dest!: map_of_SomeD intro!: map_of_is_SomeI)
  with p show ?thesis unfolding paced_until_def by fastforce
qed

lemma paced_slot: "paced_until slots host now u \<Longrightarrow> u \<le> sl_at (fst (pacer_reserve m host d now now2 slots))"
  by (auto simp: paced_until_def pacer_reserve_def Let_def)

lemma reserve_distinct: "distinct (map fst slots) \<Longrightarrow> distinct (map fst (snd (pacer_reserve m h d now now2 slots)))"
  by (simp add: pacer_reserve_def Let_def pacer_prune_def distinct_map_filter map_set_distinct)

lemma paced_reserve:
  assumes "distinct (map fst slots)" "paced_until slots host now u" "0 \<le> m" "now \<le> now2"
  shows "paced_until (snd (pacer_reserve m h d now now2 slots)) host now2 u"
proof -
  let ?start = "max now (case map_of slots h of Some p \<Rightarrow> p | None \<Rightarrow> 0)"
  let ?slots = "map_set h (?start + max m d) slots"
  have "paced_until ?slots host now u"
    using assms(2,3) by (auto simp: paced_until_def map_set_lookup)
  then have "paced_until ?slots host now2 u" using assms(4) by (rule paced_mono)
  with paced_prune [OF map_set_distinct [OF assms(1)] this] show ?thesis
    by (simp add: pacer_reserve_def Let_def)
qed

text \<open>Calls for any hosts, each with its three readings of the clock.\<close>

type_synonym pacer_call = "string \<times> rat \<times> bool \<times> rat \<times> rat \<times> rat"

fun pacer_run :: "rat \<Rightarrow> pacer_call list \<Rightarrow> pacer \<Rightarrow> pacer" where
  "pacer_run m [] slots = slots"
| "pacer_run m ((h, d, ab, now, now2, now3) # ws) slots = pacer_run m ws (snd (pacer_wait m h d ab now now2 now3 slots))"

text \<open>The clock does not run backwards between two moments.\<close>

fun clock_runs :: "rat \<Rightarrow> pacer_call list \<Rightarrow> rat \<Rightarrow> bool" where
  "clock_runs t [] t' \<longleftrightarrow> t \<le> t'"
| "clock_runs t ((h, d, ab, now, now2, now3) # ws) t' \<longleftrightarrow> t \<le> now \<and> now \<le> now2 \<and> now2 \<le> now3 \<and> clock_runs now3 ws t'"

lemma wait_state: "snd (pacer_wait m h d ab now now2 now3 slots) = (if ab then slots else snd (pacer_reserve m h d now now2 slots))"
  by (simp add: pacer_wait_def Let_def split: prod.splits)

lemma paced_run:
  "distinct (map fst slots) \<Longrightarrow> paced_until slots host t u \<Longrightarrow> 0 \<le> m \<Longrightarrow> clock_runs t ws t' \<Longrightarrow>
    paced_until (pacer_run m ws slots) host t' u"
proof (induction m ws slots arbitrary: t rule: pacer_run.induct)
  case (2 m h d ab now now2 now3 ws slots)
  have clock: "t \<le> now" "now \<le> now2" "now2 \<le> now3" "clock_runs now3 ws t'" using 2(5) by simp_all
  have "paced_until slots host now u" using 2(3) clock(1) by (rule paced_mono)
  then have "paced_until (snd (pacer_wait m h d ab now now2 now3 slots)) host now2 u"
    using paced_reserve [OF 2(2) _ 2(4) clock(2)] clock(2) by (auto simp: wait_state intro: paced_mono)
  then have "paced_until (snd (pacer_wait m h d ab now now2 now3 slots)) host now3 u" using clock(3) by (rule paced_mono)
  with 2(1) [of now3] 2(2,4) clock(4) show ?case by (simp add: wait_state reserve_distinct)
qed (auto intro: paced_mono)

lemma reserve_paced:
  assumes "distinct (map fst slots)" "now \<le> now2"
  shows "paced_until (snd (pacer_reserve m host d now now2 slots)) host now2 (sl_reserved (fst (pacer_reserve m host d now now2 slots)))"
proof -
  let ?r = "sl_reserved (fst (pacer_reserve m host d now now2 slots))"
  let ?slots = "map_set host ?r slots"
  have "paced_until ?slots host now2 ?r" by (simp add: paced_until_def map_set_lookup)
  with paced_prune [OF map_set_distinct [OF assms(1)] this] show ?thesis
    by (simp add: pacer_reserve_def Let_def)
qed

definition answer_slot :: "pacer_answer \<Rightarrow> pacer_slot option" where
  "answer_slot a = (case a of Wait_Refused \<Rightarrow> None | Wait_Ready sl \<Rightarrow> Some sl | Wait_Sleeps _ sl \<Rightarrow> Some sl)"

lemma wait_slot:
  "answer_slot (fst (pacer_wait m h d ab now now2 now3 slots)) = (if ab then None else Some (fst (pacer_reserve m h d now now2 slots)))"
  by (simp add: pacer_wait_def answer_slot_def Let_def split: prod.splits)

lemma reserve_span: "sl_reserved (fst (pacer_reserve m h d now now2 slots)) = sl_at (fst (pacer_reserve m h d now now2 slots)) + max m d"
  by (simp add: pacer_reserve_def Let_def)

text \<open>
  Two calls of the pacer for the same host are given slots at least the interval of the first apart, its crawl delay or
  the configured minimum, whichever is longer: whatever calls for whatever hosts come between, whether or not they make the
  pacer forget hosts, as long as none of the waits is cancelled and the clock does not run backwards.
\<close>

theorem pacer_spacing:
  assumes "distinct (map fst slots)" "0 \<le> m" "now \<le> now2" "now2 \<le> now3" "clock_runs now3 ws now'"
    and "pacer_wait m host d ab now now2 now3 slots = (a1, slots1)" "answer_slot a1 = Some s1"
    and "pacer_wait m host d' ab' now' now2' now3' (pacer_run m ws slots1) = (a2, slots2)" "answer_slot a2 = Some s2"
  shows "sl_at s1 + max m d \<le> sl_at s2"
proof -
  have first: "s1 = fst (pacer_reserve m host d now now2 slots)" "slots1 = snd (pacer_reserve m host d now now2 slots)"
    using assms(6,7) wait_slot [of m host d ab now now2 now3 slots] wait_state [of m host d ab now now2 now3 slots]
    by (simp_all split: if_splits)
  have second: "s2 = fst (pacer_reserve m host d' now' now2' (pacer_run m ws slots1))"
    using assms(8,9) wait_slot [of m host d' ab' now' now2' now3' "pacer_run m ws slots1"] by (simp split: if_splits)
  have "paced_until slots1 host now2 (sl_reserved s1)" unfolding first by (rule reserve_paced [OF assms(1,3)])
  then have "paced_until slots1 host now3 (sl_reserved s1)" using assms(4) by (rule paced_mono)
  from paced_run [OF _ this assms(2,5)] have "paced_until (pacer_run m ws slots1) host now' (sl_reserved s1)"
    unfolding first using reserve_distinct [OF assms(1)] by blast
  then have "sl_reserved s1 \<le> sl_at s2" unfolding second by (rule paced_slot)
  then show ?thesis by (simp add: first reserve_span)
qed

text \<open>Two calls for one host with another host between them: the second waits for the crawl delay of the first.\<close>

theorem pacer_spacing_witness:
  "answer_slot (fst (pacer_wait 1000 ''a.example'' 0 False 5000 5000 5000
     (pacer_run 1000 [(''b.example'', 0, False, 4000, 4000, 4000)] (snd (pacer_wait 1000 ''a.example'' 2500 False 3000 3000 3000 []))))) =
     Some \<lparr>sl_host = ''a.example'', sl_at = 5500, sl_reserved = 6500, sl_previous = Some 5500\<rparr> \<and> (3000 :: rat) + max 1000 2500 \<le> 5500"
proof -
  let ?first = "pacer_wait 1000 ''a.example'' 2500 False 3000 3000 3000 []" and ?ws = "[(''b.example'', 0, False, 4000, 4000, 4000)]"
  let ?second = "pacer_wait 1000 ''a.example'' 0 False 5000 5000 5000 (pacer_run 1000 ?ws (snd ?first))"
  have one: "answer_slot (fst ?first) = Some \<lparr>sl_host = ''a.example'', sl_at = 3000, sl_reserved = 5500, sl_previous = None\<rparr>"
    by (simp add: wait_slot pacer_reserve_def Let_def)
  have two: "answer_slot (fst ?second) = Some \<lparr>sl_host = ''a.example'', sl_at = 5500, sl_reserved = 6500, sl_previous = Some 5500\<rparr>"
    by (simp add: wait_slot wait_state pacer_reserve_def map_set_lookup MAX_PACED_HOSTS_def map_set_def Let_def)
  have "(3000 :: rat) + max 1000 2500 \<le> 5500"
    using pacer_spacing [of "[]" 1000 3000 3000 3000 ?ws 5000 "''a.example''" 2500 False "fst ?first" "snd ?first" _ 0 False 5000 5000 "fst ?second" "snd ?second", OF _ _ _ _ _ _ one _ two]
    by simp
  with two show ?thesis by simp
qed

end
