(* ===== verification/Js_Date.thy ===== *)
theory Js_Date
  imports Js_Values
begin

text \<open>
  The calendar of a JavaScript \<open>Date\<close> in UTC, as ECMAScript defines it: the number of days before a year, the year of a day (the
  largest year that does not begin after it), month and day within the year, the day of the week and \<open>Date.UTC\<close> with its reading of
  two-digit years. The two directions are proved inverse to each other.
\<close>

abbreviation ms_day :: int where "ms_day \<equiv> 86400000"
abbreviation ms_hour :: int where "ms_hour \<equiv> 3600000"
abbreviation ms_minute :: int where "ms_minute \<equiv> 60000"

section \<open>Days and years\<close>

lemma minute_floor: "t div 60000 * 60000 \<le> t \<and> t < t div 60000 * 60000 + 60000" for t :: int
  using div_mult_mod_eq [of t 60000] pos_mod_sign [of 60000 t] pos_mod_bound [of 60000 t] by linarith

lemma day_floor: "g div 1440 * 1440 \<le> g \<and> g < g div 1440 * 1440 + 1440" for g :: int
  using div_mult_mod_eq [of g 1440] pos_mod_sign [of 1440 g] pos_mod_bound [of 1440 g] by linarith

definition leap :: "int \<Rightarrow> bool" where
  "leap y \<longleftrightarrow> y mod 4 = 0 \<and> (y mod 100 \<noteq> 0 \<or> y mod 400 = 0)"

definition day_from_year :: "int \<Rightarrow> int" where
  "day_from_year y = 365 * (y - 1970) + (y - 1969) div 4 - (y - 1901) div 100 + (y - 1601) div 400"

lemma div_step: "0 < k \<Longrightarrow> (x + 1) div k = x div k + (if (x + 1) mod k = 0 then 1 else 0)" for k x :: int
proof -
  assume k: "0 < k"
  show ?thesis
  proof (cases "(x + 1) mod k = 0")
    case True
    then obtain q where q: "x + 1 = k * q" by (auto simp: mod_eq_0_iff_dvd dvd_def)
    then have "x = k * (q - 1) + (k - 1)" by (simp add: algebra_simps)
    then have "x div k = q - 1" using k by (simp add: int_div_pos_eq)
    with q k True show ?thesis by simp
  next
    case False
    have "x + 1 = k * ((x + 1) div k) + ((x + 1) mod k - 1) + 1" by simp
    moreover have "1 \<le> (x + 1) mod k" "(x + 1) mod k < k" using False k pos_mod_bound [of k "x + 1"] pos_mod_sign [of k "x + 1"] by linarith+
    ultimately have "x div k = (x + 1) div k" using k by (intro int_div_pos_eq [of _ _ _ "(x + 1) mod k - 1"]) linarith+
    with False show ?thesis by simp
  qed
qed

lemma mod_shift: "(y - c + 1) mod k = 0 \<longleftrightarrow> y mod k = (c - 1) mod k" for y c k :: int
proof -
  have "(y - c + 1) mod k = 0 \<longleftrightarrow> k dvd y - (c - 1)" by (simp add: mod_eq_0_iff_dvd algebra_simps)
  then show ?thesis by (simp add: mod_eq_dvd_iff)
qed

lemma day_from_year_Suc: "day_from_year (y + 1) = day_from_year y + (if leap y then 366 else 365)"
proof -
  have step: "(y + 1 - c) div k = (y - c) div k + (if y mod k = (c - 1) mod k then 1 else 0)" if "0 < k" for c k
    using div_step [OF that, of "y - c"] mod_shift [of y c k] by (simp add: algebra_simps)
  have s4: "(y + 1 - 1969) div 4 = (y - 1969) div 4 + (if y mod 4 = 0 then 1 else 0)" using step [of 4 1969] by simp
  have s100: "(y + 1 - 1901) div 100 = (y - 1901) div 100 + (if y mod 100 = 0 then 1 else 0)" using step [of 100 1901] by simp
  have s400: "(y + 1 - 1601) div 400 = (y - 1601) div 400 + (if y mod 400 = 0 then 1 else 0)" using step [of 400 1601] by simp
  have "y mod 100 = 0 \<Longrightarrow> y mod 4 = 0" "y mod 400 = 0 \<Longrightarrow> y mod 100 = 0" by presburger+
  then show ?thesis unfolding day_from_year_def leap_def s4 s100 s400 by (cases "y mod 4 = 0"; cases "y mod 100 = 0"; cases "y mod 400 = 0") simp_all
qed

lemma day_from_year_Suc_le: "day_from_year y + 365 \<le> day_from_year (y + 1)" "day_from_year (y + 1) \<le> day_from_year y + 366"
  by (simp_all add: day_from_year_Suc)

lemma day_from_year_bounds: "day_from_year y + 365 * int n \<le> day_from_year (y + int n) \<and> day_from_year (y + int n) \<le> day_from_year y + 366 * int n"
proof (induction n)
  case (Suc n)
  have "y + int (Suc n) = y + int n + 1" by simp
  moreover have "int (Suc n) = int n + 1" by simp
  ultimately show ?case using Suc day_from_year_Suc_le [of "y + int n"] by (simp only: distrib_left) linarith
qed simp

lemma day_from_year_mono: "y \<le> z \<Longrightarrow> day_from_year y + 365 * (z - y) \<le> day_from_year z \<and> day_from_year z \<le> day_from_year y + 366 * (z - y)"
  using day_from_year_bounds [of y "nat (z - y)"] by simp

function year_search :: "int \<Rightarrow> int \<Rightarrow> int" where
  "year_search n y = (if day_from_year (y + 1) \<le> n then year_search n (y + 1) else y)"
  by auto
termination
proof (relation "measure (\<lambda>(n, y). nat (n - day_from_year y))")
  fix n y assume "day_from_year (y + 1) \<le> n"
  with day_from_year_Suc_le [of y] show "((n, y + 1), n, y) \<in> measure (\<lambda>(n, y). nat (n - day_from_year y))" by simp
qed simp

declare year_search.simps [simp del]

text \<open>The search starts at a year that begins no later than the day.\<close>

definition year_from_day :: "int \<Rightarrow> int" where
  "year_from_day n = year_search n (1970 + (if n < 0 then n div 365 else n div 366))"

lemma year_search_spec: "day_from_year y \<le> n \<Longrightarrow> day_from_year (year_search n y) \<le> n \<and> n < day_from_year (year_search n y + 1)"
  by (induction n y rule: year_search.induct) (subst (1 2) year_search.simps, simp)

lemma year_from_day_spec: "day_from_year (year_from_day n) \<le> n" "n < day_from_year (year_from_day n + 1)"
proof -
  let ?y = "1970 + (if n < 0 then n div 365 else n div 366)"
  have z: "day_from_year 1970 = 0" by (simp add: day_from_year_def)
  have "day_from_year ?y \<le> n"
  proof (cases "n < 0")
    case True
    then have "n div 365 < 0" by presburger
    with day_from_year_mono [of "1970 + n div 365" 1970] z have "day_from_year (1970 + n div 365) \<le> 365 * (n div 365)" by simp
    also have "\<dots> \<le> n" by presburger
    finally show ?thesis using True by simp
  next
    case False
    then have "0 \<le> n div 366" by presburger
    with day_from_year_mono [of 1970 "1970 + n div 366"] z have "day_from_year (1970 + n div 366) \<le> 366 * (n div 366)" by simp
    also have "\<dots> \<le> n" by presburger
    finally show ?thesis using False by simp
  qed
  from year_search_spec [OF this] show "day_from_year (year_from_day n) \<le> n" "n < day_from_year (year_from_day n + 1)"
    by (simp_all add: year_from_day_def)
qed

lemma year_from_day_unique: "day_from_year y \<le> n \<Longrightarrow> n < day_from_year (y + 1) \<Longrightarrow> year_from_day n = y"
proof -
  assume a: "day_from_year y \<le> n" "n < day_from_year (y + 1)"
  have "\<not> year_from_day n < y" using day_from_year_mono [of "year_from_day n + 1" y] year_from_day_spec [of n] a by linarith
  moreover have "\<not> y < year_from_day n" using day_from_year_mono [of "y + 1" "year_from_day n"] year_from_day_spec [of n] a by linarith
  ultimately show ?thesis by linarith
qed

section \<open>Months\<close>

definition month_lengths :: "bool \<Rightarrow> int list" where
  "month_lengths lp = [31, if lp then 29 else 28, 31, 30, 31, 30, 31, 31, 30, 31, 30, 31]"

fun month_in :: "int list \<Rightarrow> int \<Rightarrow> int \<times> int" where
  "month_in [] d = (0, d)"
| "month_in (l # ls) d = (if d < l then (0, d) else (let (m, r) = month_in ls (d - l) in (m + 1, r)))"

definition days_before :: "bool \<Rightarrow> int \<Rightarrow> int" where
  "days_before lp m = sum_list (take (nat m) (month_lengths lp))"

lemma month_in_spec:
  "0 \<le> d \<Longrightarrow> d < sum_list ls \<Longrightarrow> month_in ls d = (m, r) \<Longrightarrow>
    0 \<le> m \<and> m < int (length ls) \<and> 0 \<le> r \<and> r < ls ! nat m \<and> sum_list (take (nat m) ls) + r = d"
proof (induction ls d arbitrary: m rule: month_in.induct)
  case (2 l ls d)
  show ?case
  proof (cases "d < l")
    case False
    obtain m' where m': "month_in ls (d - l) = (m', r)" "m = m' + 1" using 2(4) False by (auto split: prod.splits)
    from 2(1) [OF False _ _ m'(1)] 2(2,3) False
    have "0 \<le> m' \<and> m' < int (length ls) \<and> 0 \<le> r \<and> r < ls ! nat m' \<and> sum_list (take (nat m') ls) + r = d - l" by simp
    then show ?thesis by (simp add: m'(2) nat_add_distrib)
  qed (use 2 in auto)
qed simp

lemma month_in_unique:
  "\<forall>l\<in>set ls. 0 \<le> l \<Longrightarrow> m < length ls \<Longrightarrow> 0 \<le> r \<Longrightarrow> r < ls ! m \<Longrightarrow> month_in ls (sum_list (take m ls) + r) = (int m, r)"
proof (induction ls arbitrary: m)
  case (Cons l ls)
  show ?case
  proof (cases m)
    case (Suc k)
    have "0 \<le> sum_list (take k ls)" using Cons.prems(1) by (intro sum_list_nonneg) (auto dest: in_set_takeD)
    moreover have "month_in ls (sum_list (take k ls) + r) = (int k, r)" using Cons Suc by simp
    ultimately show ?thesis using Suc Cons.prems(3) by (simp add: algebra_simps)
  qed (use Cons.prems in simp)
qed simp

lemma month_lengths_simps: "length (month_lengths lp) = 12" "sum_list (month_lengths lp) = (if lp then 366 else 365)" "\<forall>l\<in>set (month_lengths lp). 0 \<le> l"
  by (simp_all add: month_lengths_def)

section \<open>Civil dates\<close>

text \<open>Year, month from 1 and day of the month of a day number.\<close>

definition civil_of_day :: "int \<Rightarrow> int \<times> int \<times> int" where
  "civil_of_day n =
    (let y = year_from_day n; (m, r) = month_in (month_lengths (leap y)) (n - day_from_year y) in (y, m + 1, r + 1))"

text \<open>\<open>MakeDay\<close>: the month counts from 0 and carries into the year; the day of the month is simply added.\<close>

definition make_day :: "int \<Rightarrow> int \<Rightarrow> int \<Rightarrow> int" where
  "make_day y m d = (let ym = y + m div 12 in day_from_year ym + days_before (leap ym) (m mod 12) + d - 1)"

definition week_day :: "int \<Rightarrow> int" where
  "week_day n = (n + 4) mod 7"

definition valid_civil :: "int \<Rightarrow> int \<Rightarrow> int \<Rightarrow> bool" where
  "valid_civil y mo d \<longleftrightarrow> 1 \<le> mo \<and> mo \<le> 12 \<and> 1 \<le> d \<and> d \<le> month_lengths (leap y) ! nat (mo - 1)"

lemma civil_of_day_spec:
  assumes "civil_of_day n = (y, mo, d)"
  shows "valid_civil y mo d" "make_day y (mo - 1) d = n" "y = year_from_day n"
proof -
  show y: "y = year_from_day n" using assms by (auto simp: civil_of_day_def Let_def split: prod.splits)
  obtain m r where mr: "month_in (month_lengths (leap y)) (n - day_from_year y) = (m, r)" "mo = m + 1" "d = r + 1"
    using assms y by (auto simp: civil_of_day_def Let_def split: prod.splits)
  have "0 \<le> n - day_from_year y" "n - day_from_year y < sum_list (month_lengths (leap y))"
    using year_from_day_spec [of n] day_from_year_Suc [of y] by (auto simp: y month_lengths_simps)
  from month_in_spec [OF this mr(1)]
  have m: "0 \<le> m" "m < 12" "0 \<le> r" "r < month_lengths (leap y) ! nat m" "sum_list (take (nat m) (month_lengths (leap y))) + r = n - day_from_year y"
    by (simp_all add: month_lengths_simps)
  then show "valid_civil y mo d" by (simp add: valid_civil_def mr)
  show "make_day y (mo - 1) d = n" using m by (simp add: make_day_def days_before_def mr)
qed

lemma civil_of_make_day:
  assumes "valid_civil y mo d"
  shows "civil_of_day (make_day y (mo - 1) d) = (y, mo, d)"
proof -
  let ?ls = "month_lengths (leap y)" and ?m = "nat (mo - 1)"
  have v: "1 \<le> mo" "mo \<le> 12" "1 \<le> d" "d - 1 < ?ls ! ?m" using assms by (simp_all add: valid_civil_def)
  have m: "?m < length ?ls" using v(1,2) by (simp add: month_lengths_simps)
  have n: "make_day y (mo - 1) d = day_from_year y + (sum_list (take ?m ?ls) + (d - 1))"
    using v(1,2) by (simp add: make_day_def days_before_def)
  have "month_in ?ls (sum_list (take ?m ?ls) + (d - 1)) = (int ?m, d - 1)"
    using v m by (intro month_in_unique) (simp_all add: month_lengths_simps)
  moreover have lo: "0 \<le> sum_list (take ?m ?ls)"
    using month_lengths_simps(3) [of "leap y"] by (intro sum_list_nonneg) (auto dest: in_set_takeD)
  moreover have hi: "sum_list (take ?m ?ls) + (d - 1) < sum_list ?ls"
  proof -
    have "?ls = take ?m ?ls @ ?ls ! ?m # drop (Suc ?m) ?ls" using m by (simp add: id_take_nth_drop [symmetric])
    then have "sum_list ?ls = sum_list (take ?m ?ls) + (?ls ! ?m + sum_list (drop (Suc ?m) ?ls))"
      by (metis sum_list_append sum_list.Cons)
    moreover have "0 \<le> sum_list (drop (Suc ?m) ?ls)"
      using month_lengths_simps(3) [of "leap y"] by (intro sum_list_nonneg) (auto dest: in_set_dropD)
    ultimately show ?thesis using v(4) by linarith
  qed
  ultimately have "year_from_day (make_day y (mo - 1) d) = y"
    using v(3) by (intro year_from_day_unique) (simp_all add: n day_from_year_Suc month_lengths_simps)
  with \<open>month_in ?ls _ = _\<close> show ?thesis using v(1) by (simp add: civil_of_day_def Let_def n)
qed

lemma civil_year_late: "-1 \<le> n \<Longrightarrow> civil_of_day n = (y, mo, d) \<Longrightarrow> 1969 \<le> y"
proof -
  assume n: "-1 \<le> n" "civil_of_day n = (y, mo, d)"
  have y: "y = year_from_day n" by (rule civil_of_day_spec(3) [OF n(2)])
  have "\<not> year_from_day n < 1969"
  proof
    assume "year_from_day n < 1969"
    then have "day_from_year (year_from_day n + 1) \<le> day_from_year 1969"
      using day_from_year_mono [of "year_from_day n + 1" 1969] by linarith
    also have "\<dots> = -365" by (simp add: day_from_year_def)
    finally show False using year_from_day_spec(2) [of n] n(1) by linarith
  qed
  with y show ?thesis by simp
qed

section \<open>\<open>Date.UTC\<close>\<close>

definition full_year :: "int \<Rightarrow> int" where
  "full_year y = (if 0 \<le> y \<and> y \<le> 99 then 1900 + y else y)"

definition date_utc :: "int \<Rightarrow> int \<Rightarrow> int \<Rightarrow> int \<Rightarrow> int \<Rightarrow> int" where
  "date_utc y m d h mi = make_day (full_year y) m d * ms_day + h * ms_hour + mi * ms_minute"

end
