(* ===== verification/Cron.thy ===== *)
theory Cron
  imports Js_Date Policy_Theorems Ip_Address
begin

text \<open>
  The cron evaluator of \<^verbatim>\<open>packages/core/src/dreams/cron.ts\<close>: the five fields, the conversion between instants and wall clock times of
  a zone, and the search for the next firing. The formatter of the platform (\<open>Intl.DateTimeFormat\<close>) is a parameter: for a zone it
  knows, the parts it prints for an instant. Instants are whole milliseconds in the range a \<open>Date\<close> holds. The cache of formatters is not
  observable and is left out.
\<close>

section \<open>Fields\<close>

record cron =
  cr_minutes :: "int list"
  cr_hours :: "int list"
  cr_doms :: "int list"
  cr_months :: "int list"
  cr_dows :: "int list"
  cr_domRestricted :: bool
  cr_dowRestricted :: bool

datatype cron_error =
    Invalid_Expression string
  | Invalid_Field string string
  | Invalid_Step string string
  | Out_Of_Range string string
  | Unknown_Zone string

definition RANGES :: "(string \<times> int \<times> int) list" where
  "RANGES = [(''minute'', 0, 59), (''hour'', 0, 23), (''day-of-month'', 1, 31), (''month'', 1, 12), (''day-of-week'', 0, 7)]"

text \<open>The loop over a range by steps; the code only enters it with a step of at least one.\<close>

function values_from :: "int \<Rightarrow> int \<Rightarrow> int \<Rightarrow> int list" where
  "values_from v hi stp = (if v \<le> hi \<and> 1 \<le> stp then v # values_from (v + stp) hi stp else [])"
  by auto
termination
  by (relation "measure (\<lambda>(v, hi, stp). nat (hi + 1 - v))") auto

declare values_from.simps [simp del]

definition all_digits :: "string \<Rightarrow> bool" where
  "all_digits s \<longleftrightarrow> s \<noteq> [] \<and> list_all (digit_in 10) s"

text \<open>The two numbers of a range, of which the second may be missing.\<close>

definition cron_range :: "string \<Rightarrow> (int \<times> int option) option" where
  "cron_range s = (case split_on (\<lambda>c. c = CHR ''-'') s of
     [a] \<Rightarrow> if all_digits a then Some (parse_int 10 a, None) else None
   | [a, b] \<Rightarrow> if all_digits a \<and> all_digits b then Some (parse_int 10 a, Some (parse_int 10 b)) else None
   | _ \<Rightarrow> None)"

definition part_values :: "string \<Rightarrow> string \<Rightarrow> int \<Rightarrow> int \<Rightarrow> string \<Rightarrow> cron_error + int list" where
  "part_values src name lo hi part =
    (let pieces = split_on (\<lambda>c. c = CHR ''/'') part;
         rangeSrc = hd pieces;
         stepSrc = (if 2 \<le> length pieces then Some (pieces ! 1) else None)
     in if rangeSrc = [] \<or> 3 \<le> length pieces then Inl (Invalid_Field name src)
        else (case (case stepSrc of
                      None \<Rightarrow> Some 1
                    | Some st \<Rightarrow> if \<not> all_digits st \<or> parse_int 10 st < 1 then None else Some (parse_int 10 st)) of
                None \<Rightarrow> Inl (Invalid_Step name src)
              | Some stp \<Rightarrow>
                  if rangeSrc = ''*'' then Inr (values_from lo hi stp)
                  else (case cron_range rangeSrc of
                          None \<Rightarrow> Inl (Invalid_Field name src)
                        | Some (from, till) \<Rightarrow>
                            (let to = (case till of Some b \<Rightarrow> b | None \<Rightarrow> if stepSrc \<noteq> None then hi else from) in
                             if from < lo \<or> hi < to \<or> to < from then Inl (Out_Of_Range name src)
                             else Inr (values_from from to stp)))))"

fun parts_values :: "string \<Rightarrow> string \<Rightarrow> int \<Rightarrow> int \<Rightarrow> string list \<Rightarrow> cron_error + int list" where
  "parts_values src name lo hi [] = Inr []"
| "parts_values src name lo hi (p # ps) =
     (case part_values src name lo hi p of
        Inl e \<Rightarrow> Inl e
      | Inr vs \<Rightarrow> (case parts_values src name lo hi ps of Inl e \<Rightarrow> Inl e | Inr ws \<Rightarrow> Inr (vs @ ws)))"

definition parseField :: "string \<Rightarrow> string \<Rightarrow> int \<Rightarrow> int \<Rightarrow> cron_error + (int list \<times> bool)" where
  "parseField src name lo hi =
    (case parts_values src name lo hi (split_on (\<lambda>c. c = CHR '','') src) of
       Inl e \<Rightarrow> Inl e
     | Inr vs \<Rightarrow> Inr (sort (remdups vs), \<not> prefix ''*'' src))"

fun parse_fields :: "string list \<Rightarrow> (string \<times> int \<times> int) list \<Rightarrow> cron_error + (int list \<times> bool) list" where
  "parse_fields (f # fs) ((name, lo, hi) # rs) =
     (case parseField f name lo hi of
        Inl e \<Rightarrow> Inl e
      | Inr v \<Rightarrow> (case parse_fields fs rs of Inl e \<Rightarrow> Inl e | Inr vs \<Rightarrow> Inr (v # vs)))"
| "parse_fields _ _ = Inr []"

text \<open>\<open>split(/\s+/)\<close> of a trimmed string: the runs between white space.\<close>

definition words_of :: "string \<Rightarrow> string list" where
  "words_of s = filter (\<lambda>w. w \<noteq> []) (split_on js_space s)"

definition parseCron :: "string \<Rightarrow> cron_error + cron" where
  "parseCron expr =
    (let fields_of = words_of (js_trim expr) in
     if js_trim expr = [] \<or> length fields_of \<noteq> 5 then Inl (Invalid_Expression expr)
     else (case parse_fields fields_of RANGES of
             Inl e \<Rightarrow> Inl e
           | Inr parsed \<Rightarrow>
               Inr \<lparr>cr_minutes = fst (parsed ! 0), cr_hours = fst (parsed ! 1), cr_doms = fst (parsed ! 2), cr_months = fst (parsed ! 3),
                    cr_dows = sort (remdups (map (\<lambda>d. d mod 7) (fst (parsed ! 4)))),
                    cr_domRestricted = snd (parsed ! 2), cr_dowRestricted = snd (parsed ! 4)\<rparr>))"

section \<open>Wall clocks\<close>

record wall =
  w_y :: int
  w_mo :: int
  w_d :: int
  w_h :: int
  w_mi :: int

text \<open>What the formatter of a zone prints for an instant.\<close>

type_synonym formatter = "int \<Rightarrow> wall"

type_synonym platform_zones = "string \<Rightarrow> formatter option"

definition isValidTimezone :: "platform_zones \<Rightarrow> string \<Rightarrow> bool" where
  "isValidTimezone zones tz \<longleftrightarrow> zones tz \<noteq> None"

definition wallOf :: "formatter \<Rightarrow> int \<Rightarrow> wall" where
  "wallOf fmt ms = (fmt ms)\<lparr>w_h := w_h (fmt ms) mod 24\<rparr>"

definition wall_utc :: "wall \<Rightarrow> int" where
  "wall_utc w = date_utc (w_y w) (w_mo w - 1) (w_d w) (w_h w) (w_mi w)"

definition offsetMs :: "formatter \<Rightarrow> int \<Rightarrow> int" where
  "offsetMs fmt ms = wall_utc (wallOf fmt ms) - ms div 60000 * 60000"

definition same_wall :: "wall \<Rightarrow> wall \<Rightarrow> bool" where
  "same_wall a b \<longleftrightarrow> w_y a = w_y b \<and> w_mo a = w_mo b \<and> w_d a = w_d b \<and> w_h a = w_h b \<and> w_mi a = w_mi b"

definition wall_probe :: "formatter \<Rightarrow> wall \<Rightarrow> int \<Rightarrow> int option \<Rightarrow> int option" where
  "wall_probe fmt w probe best =
    (let t = wall_utc w - offsetMs fmt probe in
     if same_wall (wallOf fmt t) w \<and> (case best of None \<Rightarrow> True | Some b \<Rightarrow> t < b) then Some t else best)"

definition wallToUtc :: "formatter \<Rightarrow> wall \<Rightarrow> int option" where
  "wallToUtc fmt w = wall_probe fmt w (wall_utc w + 86400000) (wall_probe fmt w (wall_utc w - 86400000) None)"

section \<open>The next firing\<close>

definition dayMatches :: "cron \<Rightarrow> bool \<Rightarrow> bool \<Rightarrow> bool" where
  "dayMatches c domOk dowOk = (if cr_domRestricted c \<and> cr_dowRestricted c then domOk \<or> dowOk else domOk \<and> dowOk)"

definition day_fires :: "cron \<Rightarrow> int \<Rightarrow> bool" where
  "day_fires c cursor =
    (case civil_of_day cursor of (y, mo, d) \<Rightarrow>
       mo \<in> set (cr_months c) \<and> dayMatches c (d \<in> set (cr_doms c)) (week_day cursor \<in> set (cr_dows c)))"

definition day_walls :: "cron \<Rightarrow> int \<Rightarrow> wall list" where
  "day_walls c cursor =
    (case civil_of_day cursor of (y, mo, d) \<Rightarrow>
       if day_fires c cursor
       then concat (map (\<lambda>h. map (\<lambda>mi. \<lparr>w_y = y, w_mo = mo, w_d = d, w_h = h, w_mi = mi\<rparr>) (cr_minutes c)) (cr_hours c)) else [])"

fun first_after :: "formatter \<Rightarrow> int \<Rightarrow> wall list \<Rightarrow> int option" where
  "first_after fmt from [] = None"
| "first_after fmt from (w # ws) =
     (case wallToUtc fmt w of
        Some t \<Rightarrow> if from < t then Some t else first_after fmt from ws
      | None \<Rightarrow> first_after fmt from ws)"

abbreviation search_days :: int where "search_days \<equiv> 366 * 8"

function day_search :: "formatter \<Rightarrow> cron \<Rightarrow> int \<Rightarrow> int \<Rightarrow> int \<Rightarrow> int option" where
  "day_search fmt c from day cursor =
    (if day < search_days then
       (case first_after fmt from (day_walls c cursor) of
          Some t \<Rightarrow> Some t
        | None \<Rightarrow> day_search fmt c from (day + 1) (cursor + 1))
     else None)"
  by auto
termination
  by (relation "measure (\<lambda>(fmt, c, from, day, cursor). nat (search_days - day))") auto

declare day_search.simps [simp del]

definition nextAfter :: "platform_zones \<Rightarrow> cron \<Rightarrow> string \<Rightarrow> int \<Rightarrow> cron_error + int option" where
  "nextAfter zones c tz fromMs =
    (case zones tz of
       None \<Rightarrow> Inl (Unknown_Zone tz)
     | Some fmt \<Rightarrow>
         (let start = wallOf fmt fromMs;
              cursor = date_utc (w_y start) (w_mo start - 1) (w_d start) 0 0 div ms_day
          in Inr (day_search fmt c fromMs 0 cursor)))"

end
