(* ===== verification/Cron_Theorems.thy ===== *)
theory Cron_Theorems
  imports Cron
begin

text \<open>
  The cron evaluator is correct. What the parser accepts has five sorted fields within their ranges. For a zone whose wall clock is the
  calendar shifted by a whole number of minutes less than a day, with no more than one change in two days, the conversion of a wall
  clock time is the earliest instant that reads it, and the search returns the earliest firing of its eight years, across clock
  changes.
\<close>

section \<open>What the parser accepts\<close>

lemma values_from_set: "1 \<le> stp \<Longrightarrow> x \<in> set (values_from v hi stp) \<longleftrightarrow> v \<le> x \<and> x \<le> hi \<and> stp dvd x - v"
proof (induction v hi stp rule: values_from.induct)
  case (1 v hi stp)
  show ?case
  proof (cases "v \<le> hi")
    case True
    have "x = v \<or> v + stp \<le> x \<and> x \<le> hi \<and> stp dvd x - (v + stp) \<longleftrightarrow> v \<le> x \<and> x \<le> hi \<and> stp dvd x - v"
    proof
      assume "x = v \<or> v + stp \<le> x \<and> x \<le> hi \<and> stp dvd x - (v + stp)"
      then show "v \<le> x \<and> x \<le> hi \<and> stp dvd x - v"
      proof
        assume a: "v + stp \<le> x \<and> x \<le> hi \<and> stp dvd x - (v + stp)"
        then have "stp dvd x - (v + stp) + stp" by (intro dvd_add) auto
        moreover have "x - (v + stp) + stp = x - v" by simp
        ultimately have "stp dvd x - v" by (simp only:)
        moreover have "v \<le> x" using a 1(2) by linarith
        ultimately show ?thesis using a by blast
      qed (use True in simp)
    next
      assume a: "v \<le> x \<and> x \<le> hi \<and> stp dvd x - v"
      then obtain k where k: "x - v = stp * k" by (auto simp: dvd_def)
      show "x = v \<or> v + stp \<le> x \<and> x \<le> hi \<and> stp dvd x - (v + stp)"
      proof (cases "k = 0")
        case False
        have "\<not> k < 0"
        proof
          assume "k < 0"
          then have "stp * k < 0" using 1(2) by (intro mult_pos_neg) auto
          with a k show False by simp
        qed
        then have "1 \<le> k" using False by simp
        then have "stp * 1 \<le> stp * k" using 1(2) by (intro mult_left_mono) auto
        moreover have "x - (v + stp) = stp * (k - 1)" using k by (simp add: algebra_simps)
        ultimately have d: "stp \<le> x - v" "stp dvd x - (v + stp)" by (simp_all only: k dvd_triv_left mult_1_right)
        then have "v + stp \<le> x" by simp
        with a d(2) show ?thesis by blast
      qed (use k in simp)
    qed
    then show ?thesis using 1 True by (subst values_from.simps) simp
  qed (subst values_from.simps, auto)
qed

definition field_wf :: "int \<Rightarrow> int \<Rightarrow> int list \<Rightarrow> bool" where
  "field_wf lo hi vs \<longleftrightarrow> vs \<noteq> [] \<and> sorted vs \<and> distinct vs \<and> list_all (\<lambda>v. lo \<le> v \<and> v \<le> hi) vs"

definition cron_wf :: "cron \<Rightarrow> bool" where
  "cron_wf c \<longleftrightarrow> field_wf 0 59 (cr_minutes c) \<and> field_wf 0 23 (cr_hours c) \<and> field_wf 1 31 (cr_doms c) \<and>
     field_wf 1 12 (cr_months c) \<and> field_wf 0 6 (cr_dows c)"

lemma values_from_wf:
  assumes "1 \<le> stp" "lo \<le> v" "v \<le> h" "h \<le> hi"
  shows "values_from v h stp \<noteq> []" "\<forall>x\<in>set (values_from v h stp). lo \<le> x \<and> x \<le> hi"
proof -
  have "v \<in> set (values_from v h stp)" unfolding values_from_set [OF assms(1)] using assms(3) by simp
  then show "values_from v h stp \<noteq> []" by auto
  show "\<forall>x\<in>set (values_from v h stp). lo \<le> x \<and> x \<le> hi" using assms values_from_set [OF assms(1)] by force
qed

lemma sort_remdups_empty [simp]: "sort (remdups xs) = [] \<longleftrightarrow> xs = []"
  by (metis set_empty set_remdups set_sort)

lemma part_values_wf:
  assumes "part_values src name lo hi p = Inr vs" "lo \<le> hi"
  shows "vs \<noteq> [] \<and> (\<forall>x\<in>set vs. lo \<le> x \<and> x \<le> hi)"
proof -
  obtain v h stp where "vs = values_from v h stp" "1 \<le> stp" "lo \<le> v" "v \<le> h" "h \<le> hi"
    using assms by (force simp: part_values_def Let_def not_less split: if_splits option.splits)
  with values_from_wf [of stp lo v h hi] show ?thesis by (simp only:) simp
qed

lemma parts_values_wf:
  "parts_values src name lo hi ps = Inr vs \<Longrightarrow> lo \<le> hi \<Longrightarrow> ps \<noteq> [] \<Longrightarrow> vs \<noteq> [] \<and> (\<forall>x\<in>set vs. lo \<le> x \<and> x \<le> hi)"
proof (induction ps arbitrary: vs)
  case (Cons p ps)
  obtain us ws where p: "part_values src name lo hi p = Inr us" and ps: "parts_values src name lo hi ps = Inr ws" and vs: "vs = us @ ws"
    using Cons.prems(1) by (auto split: sum.splits)
  have "\<forall>x\<in>set ws. lo \<le> x \<and> x \<le> hi" using Cons.IH [OF ps] ps Cons.prems(2) by (cases "ps = []") auto
  with part_values_wf [OF p Cons.prems(2)] show ?case by (auto simp: vs)
qed simp

lemma parseField_wf: "parseField src name lo hi = Inr (vs, r) \<Longrightarrow> lo \<le> hi \<Longrightarrow> field_wf lo hi vs"
proof -
  assume a: "parseField src name lo hi = Inr (vs, r)" "lo \<le> hi"
  then obtain us where us: "parts_values src name lo hi (split_on (\<lambda>c. c = CHR '','') src) = Inr us" "vs = sort (remdups us)"
    by (auto simp: parseField_def split: sum.splits)
  have "us \<noteq> [] \<and> (\<forall>x\<in>set us. lo \<le> x \<and> x \<le> hi)" using parts_values_wf [OF us(1) a(2)] by simp
  then show ?thesis by (auto simp: field_wf_def us(2) list_all_iff)
qed

lemma parse_fields_wf:
  "parse_fields fs rs = Inr vs \<Longrightarrow> length fs = length rs \<Longrightarrow> \<forall>(n, lo, hi)\<in>set rs. lo \<le> hi \<Longrightarrow>
    list_all2 (\<lambda>(v, r) (n, lo, hi). field_wf lo hi v) vs rs"
  by (induction fs rs arbitrary: vs rule: parse_fields.induct) (auto split: sum.splits dest: parseField_wf)

lemma dows_wf: "field_wf 0 7 vs \<Longrightarrow> field_wf 0 6 (sort (remdups (map (\<lambda>d. d mod 7) vs)))"
  by (auto simp: field_wf_def list_all_iff)

text \<open>
  (C28) Every expression that \<open>parseCron\<close> accepts has five fields, each a non-empty strictly increasing list of values within the range of its
  field, with the two spellings of Sunday merged.
\<close>

theorem parseCron_wf: "case parseCron expr of Inr c \<Rightarrow> cron_wf c | Inl _ \<Rightarrow> True"
proof (cases "parseCron expr")
  case (Inr c)
  then obtain vs where vs: "parse_fields (words_of (js_trim expr)) RANGES = Inr vs" "length (words_of (js_trim expr)) = 5"
    and c: "cr_minutes c = fst (vs ! 0)" "cr_hours c = fst (vs ! 1)" "cr_doms c = fst (vs ! 2)" "cr_months c = fst (vs ! 3)"
      "cr_dows c = sort (remdups (map (\<lambda>d. d mod 7) (fst (vs ! 4))))"
    by (auto simp: parseCron_def Let_def split: if_splits sum.splits)
  have "list_all2 (\<lambda>(v, r) (n, lo, hi). field_wf lo hi v) vs RANGES"
    by (rule parse_fields_wf [OF vs(1)]) (auto simp: vs(2) RANGES_def)
  then show ?thesis using Inr by (auto simp: RANGES_def list_all2_Cons2 cron_wf_def c intro: dows_wf)
qed simp

section \<open>Wall clock times and minutes\<close>

text \<open>The wall clock time of a minute of the calendar.\<close>

definition wall_of_minute :: "int \<Rightarrow> wall" where
  "wall_of_minute q = (case civil_of_day (q div 1440) of
     (y, mo, d) \<Rightarrow> \<lparr>w_y = y, w_mo = mo, w_d = d, w_h = q mod 1440 div 60, w_mi = q mod 60\<rparr>)"

lemma date_utc_civil:
  assumes "-1 \<le> n" "civil_of_day n = (y, mo, d)"
  shows "date_utc y (mo - 1) d h mi = n * ms_day + h * ms_hour + mi * ms_minute"
  using civil_year_late [OF assms] civil_of_day_spec(2) [OF assms(2)] by (simp add: date_utc_def full_year_def)

lemma minute_split: "q = q div 1440 * 1440 + q mod 1440 div 60 * 60 + q mod 60" for q :: int
proof -
  have "q mod 1440 mod 60 = q mod 60" by (rule mod_mod_cancel) simp
  with div_mult_mod_eq [of q 1440] div_mult_mod_eq [of "q mod 1440" 60] show ?thesis by linarith
qed

lemma wall_utc_of_minute:
  assumes "-1440 \<le> q"
  shows "wall_utc (wall_of_minute q) = q * 60000"
proof -
  obtain y mo d where c: "civil_of_day (q div 1440) = (y, mo, d)" by (cases "civil_of_day (q div 1440)") auto
  have "-1440 div 1440 \<le> q div 1440" using assms by (rule zdiv_mono1) simp
  then have "-1 \<le> q div 1440" by simp
  moreover have "q div 1440 * ms_day + q mod 1440 div 60 * ms_hour + q mod 60 * ms_minute = q * 60000" using minute_split [of q] by linarith
  ultimately show ?thesis using date_utc_civil [OF _ c] by (simp add: wall_utc_def wall_of_minute_def c)
qed

lemma wall_of_minute_inj: "-1440 \<le> p \<Longrightarrow> -1440 \<le> q \<Longrightarrow> wall_of_minute p = wall_of_minute q \<longleftrightarrow> p = q"
proof
  assume a: "-1440 \<le> p" "-1440 \<le> q" "wall_of_minute p = wall_of_minute q"
  with wall_utc_of_minute [OF a(1)] wall_utc_of_minute [OF a(2)] have "p * 60000 = q * 60000" by (simp only:)
  then show "p = q" by (simp only: mult_cancel_right) simp
qed simp

lemma same_wall_eq: "same_wall a b \<longleftrightarrow> a = b"
  by (cases a; cases b) (simp add: same_wall_def)

definition valid_wall :: "wall \<Rightarrow> bool" where
  "valid_wall w \<longleftrightarrow> valid_civil (w_y w) (w_mo w) (w_d w) \<and> 100 \<le> w_y w \<and> 0 \<le> w_h w \<and> w_h w \<le> 23 \<and> 0 \<le> w_mi w \<and> w_mi w \<le> 59"

lemma minute_parts: "0 \<le> h \<Longrightarrow> h \<le> 23 \<Longrightarrow> 0 \<le> mi \<Longrightarrow> mi \<le> 59 \<Longrightarrow>
    (n * 1440 + h * 60 + mi) div 1440 = n \<and> (n * 1440 + h * 60 + mi) mod 1440 div 60 = h \<and> (n * 1440 + h * 60 + mi) mod 60 = mi"
  for n h mi :: int
proof (intro conjI)
  assume a: "0 \<le> h" "h \<le> 23" "0 \<le> mi" "mi \<le> 59"
  have r: "(n * 1440 + h * 60 + mi) = n * 1440 + (h * 60 + mi)" "0 \<le> h * 60 + mi" "h * 60 + mi < 1440" using a by linarith+
  show "(n * 1440 + h * 60 + mi) div 1440 = n" unfolding r(1) using r(2,3) by (simp only: div_mult_self3 div_pos_pos_trivial)
  have "(n * 1440 + h * 60 + mi) mod 1440 = h * 60 + mi" unfolding r(1) using r(2,3) by (simp only: mod_mult_self3 mod_pos_pos_trivial)
  moreover have "(h * 60 + mi) div 60 = h" using a by (simp add: div_add1_eq)
  ultimately show "(n * 1440 + h * 60 + mi) mod 1440 div 60 = h" by simp
  have "n * 1440 + h * 60 + mi = mi + (n * 24 + h) * 60" by simp
  then show "(n * 1440 + h * 60 + mi) mod 60 = mi" using a by (simp only: mod_mult_self1) simp
qed

lemma wall_of_minute_parts:
  assumes "civil_of_day n = (y, mo, d)" "0 \<le> h" "h \<le> 23" "0 \<le> mi" "mi \<le> 59"
  shows "wall_of_minute (n * 1440 + h * 60 + mi) = \<lparr>w_y = y, w_mo = mo, w_d = d, w_h = h, w_mi = mi\<rparr>"
  using minute_parts [of h mi n] assms by (simp add: wall_of_minute_def)

lemma valid_wall_minute: "valid_wall w \<Longrightarrow> wall_of_minute (wall_utc w div 60000) = w"
proof -
  assume v: "valid_wall w"
  let ?n = "make_day (w_y w) (w_mo w - 1) (w_d w)"
  have "wall_utc w = (?n * 1440 + w_h w * 60 + w_mi w) * 60000" using v by (simp add: valid_wall_def wall_utc_def date_utc_def full_year_def)
  then have "wall_utc w div 60000 = ?n * 1440 + w_h w * 60 + w_mi w" by (simp only: nonzero_mult_div_cancel_right)
  moreover have "civil_of_day ?n = (w_y w, w_mo w, w_d w)" using v by (intro civil_of_make_day) (simp add: valid_wall_def)
  ultimately show ?thesis
    using wall_of_minute_parts [of ?n "w_y w" "w_mo w" "w_d w" "w_h w" "w_mi w"] v by (simp only: valid_wall_def) simp
qed

section \<open>Zones\<close>

text \<open>
  What the code relies on of a zone: from some minute on, its wall clock is the calendar shifted by a whole number of minutes, less than
  a day; the shift changes only between minutes, and within two days at most once.
\<close>

definition zone_law :: "formatter \<Rightarrow> int \<Rightarrow> (int \<Rightarrow> int) \<Rightarrow> bool" where
  "zone_law fmt lo off \<longleftrightarrow> 0 \<le> lo \<and>
     (\<forall>t. lo \<le> t div 60000 \<longrightarrow> wallOf fmt t = wall_of_minute (t div 60000 + off (t div 60000))) \<and>
     (\<forall>m\<ge>lo. -1440 < off m \<and> off m < 1440) \<and>
     (\<forall>s u t. lo \<le> s \<longrightarrow> s \<le> u \<longrightarrow> u \<le> t \<longrightarrow> t - s \<le> 2880 \<longrightarrow> off u = off s \<or> off u = off t)"

lemma zone_wall: "zone_law fmt lo off \<Longrightarrow> lo \<le> t div 60000 \<Longrightarrow> wallOf fmt t = wall_of_minute (t div 60000 + off (t div 60000))"
  by (simp add: zone_law_def)

lemma zone_bounds: "zone_law fmt lo off \<Longrightarrow> lo \<le> m \<Longrightarrow> 0 \<le> lo \<and> -1440 < off m \<and> off m < 1440"
  by (simp add: zone_law_def)

lemma zone_change: "zone_law fmt lo off \<Longrightarrow> lo \<le> s \<Longrightarrow> s \<le> u \<Longrightarrow> u \<le> t \<Longrightarrow> t - s \<le> 2880 \<Longrightarrow> off u = off s \<or> off u = off t"
  by (simp add: zone_law_def)

lemma zone_reads:
  assumes "zone_law fmt lo off" "lo \<le> t div 60000" "-1440 \<le> g"
  shows "wallOf fmt t = wall_of_minute g \<longleftrightarrow> t div 60000 + off (t div 60000) = g"
  using assms zone_wall [OF assms(1,2)] zone_bounds [OF assms(1,2)] by (simp add: wall_of_minute_inj)

lemma zone_offset: "zone_law fmt lo off \<Longrightarrow> lo \<le> m \<Longrightarrow> offsetMs fmt (m * 60000) = off m * 60000"
  using zone_wall [of fmt lo off "m * 60000"] zone_bounds [of fmt lo off m]
  by (simp add: offsetMs_def wall_utc_of_minute algebra_simps)

text \<open>A minute that reads a later time than one after it has the time of that one before it as well.\<close>

lemma zone_back:
  assumes z: "zone_law fmt lo off" and lo: "lo + 2880 \<le> m2" "lo \<le> m1" and m: "m1 < m2" and g: "m2 + off m2 < m1 + off m1"
  shows "\<exists>u. m2 - 2880 \<le> u \<and> u < m1 \<and> u + off u = m2 + off m2"
proof -
  define u where "u = m2 + off m2 - off m1"
  have b: "-1440 < off m2" "off m2 < 1440" "-1440 < off m1" "off m1 < 1440"
    using zone_bounds [OF z, of m2] zone_bounds [OF z, of m1] lo by auto
  then have u: "m2 - 2880 \<le> u" "u < m1" "lo \<le> u" "m2 - u \<le> 2880" using g lo by (simp_all add: u_def)
  then have "off m1 = off u \<or> off m1 = off m2" using m by (intro zone_change [OF z]) auto
  moreover have "off m1 \<noteq> off m2" using m g by auto
  ultimately show ?thesis using u by (intro exI [of _ u]) (simp add: u_def)
qed

section \<open>The earliest instant of a wall clock time\<close>

lemma wall_probe_zone:
  assumes z: "zone_law fmt lo off" and g: "lo + 2880 \<le> g" and m: "lo \<le> m"
  shows "wall_probe fmt (wall_of_minute g) (m * 60000) best =
    (let u = g - off m in
     if u + off u = g \<and> (case best of None \<Rightarrow> True | Some b \<Rightarrow> u * 60000 < b) then Some (u * 60000) else best)"
proof -
  have lo: "0 \<le> lo" "off m < 1440" "-1440 < off m" using zone_bounds [OF z m] by auto
  have t: "wall_utc (wall_of_minute g) - offsetMs fmt (m * 60000) = (g - off m) * 60000"
    using wall_utc_of_minute [of g] zone_offset [OF z m] g lo by (simp add: left_diff_distrib)
  have "wallOf fmt ((g - off m) * 60000) = wall_of_minute g \<longleftrightarrow> g - off m + off (g - off m) = g"
    using zone_reads [OF z, of "(g - off m) * 60000" g] g lo by simp
  then show ?thesis unfolding wall_probe_def t Let_def same_wall_eq by simp
qed

text \<open>Every minute that reads a wall clock time is one of the two that the code probes.\<close>

lemma zone_candidates:
  assumes z: "zone_law fmt lo off" and g: "lo + 2880 \<le> g" and u: "lo \<le> u" "u + off u = g"
  shows "u = g - off (g - 1440) \<or> u = g - off (g + 1440)"
proof -
  have "-1440 < off u" "off u < 1440" using zone_bounds [OF z u(1)] by auto
  then have "off u = off (g - 1440) \<or> off u = off (g + 1440)"
    using u g by (intro zone_change [OF z]) linarith+
  with u(2) show ?thesis by linarith
qed

lemma wallToUtc_minutes:
  assumes z: "zone_law fmt lo off" and g: "lo + 2880 \<le> g"
  shows "case wallToUtc fmt (wall_of_minute g) of
     None \<Rightarrow> \<forall>u\<ge>lo. u + off u \<noteq> g
   | Some t \<Rightarrow> \<exists>u\<ge>lo. t = u * 60000 \<and> u + off u = g \<and> (\<forall>v\<ge>lo. v + off v = g \<longrightarrow> u \<le> v)"
proof -
  define a where "a = g - off (g - 1440)"
  define b where "b = g - off (g + 1440)"
  have lo: "lo \<le> a" "lo \<le> b" "0 \<le> lo"
    using zone_bounds [OF z, of "g - 1440"] zone_bounds [OF z, of "g + 1440"] g by (auto simp: a_def b_def)
  have cand: "v = a \<or> v = b" if "lo \<le> v" "v + off v = g" for v
    using zone_candidates [OF z g that] by (simp add: a_def b_def)
  have utc: "wall_utc (wall_of_minute g) = g * 60000" using g lo(3) by (intro wall_utc_of_minute) linarith
  have first: "wall_probe fmt (wall_of_minute g) (wall_utc (wall_of_minute g) - 86400000) None = (if a + off a = g then Some (a * 60000) else None)"
    using wall_probe_zone [OF z g, of "g - 1440" None] g by (simp add: utc left_diff_distrib a_def Let_def)
  have "wallToUtc fmt (wall_of_minute g) =
      (if b + off b = g \<and> (a + off a = g \<longrightarrow> b < a) then Some (b * 60000) else if a + off a = g then Some (a * 60000) else None)"
    unfolding wallToUtc_def first
    using wall_probe_zone [OF z g, of "g + 1440" "if a + off a = g then Some (a * 60000) else None"] g
    by (simp add: utc distrib_right b_def Let_def)
  moreover have "v = a \<and> a + off a = g \<or> v = b \<and> b + off b = g" if "lo \<le> v" "v + off v = g" for v using cand [OF that] that(2) by blast
  then have "(\<forall>v\<ge>lo. v + off v = g \<longrightarrow> b \<le> v)" if "a + off a = g \<longrightarrow> b < a" using that by fastforce
  moreover have "(\<forall>v\<ge>lo. v + off v = g \<longrightarrow> a \<le> v)" if "b + off b = g \<longrightarrow> \<not> b < a" using that cand by fastforce
  ultimately show ?thesis using lo cand by auto
qed

text \<open>
  (C27) In a zone that keeps the law, \<open>wallToUtc\<close> returns exactly the earliest instant at which the wall clock reads the given time, the first of the two
  when the clocks went back, and null exactly when no instant reads it, as when the clocks went forward over it.
\<close>

theorem wallToUtc_earliest:
  assumes z: "zone_law fmt lo off" and w: "valid_wall w" and late: "lo + 2880 \<le> wall_utc w div 60000"
  shows "case wallToUtc fmt w of
     None \<Rightarrow> \<forall>s. lo \<le> s div 60000 \<longrightarrow> wallOf fmt s \<noteq> w
   | Some t \<Rightarrow> wallOf fmt t = w \<and> (\<forall>s. lo \<le> s div 60000 \<longrightarrow> wallOf fmt s = w \<longrightarrow> t \<le> s)"
proof -
  define g where "g = wall_utc w div 60000"
  have w: "w = wall_of_minute g" unfolding g_def by (rule valid_wall_minute [OF w, symmetric])
  have g: "lo + 2880 \<le> g" using late by (simp only: g_def)
  have "0 \<le> lo" using z by (simp only: zone_law_def)
  with g have "-1440 \<le> g" by linarith
  then have reads: "wallOf fmt s = w \<longleftrightarrow> s div 60000 + off (s div 60000) = g" if "lo \<le> s div 60000" for s
    unfolding w by (rule zone_reads [OF z that])
  show ?thesis
  proof (cases "wallToUtc fmt w")
    case None
    then have "\<forall>u\<ge>lo. u + off u \<noteq> g" using wallToUtc_minutes [OF z g] by (simp only: w option.case)
    then show ?thesis using reads by (simp only: None option.case) blast
  next
    case (Some t)
    then obtain u where u: "lo \<le> u" "t = u * 60000" "u + off u = g" "\<And>v. lo \<le> v \<Longrightarrow> v + off v = g \<Longrightarrow> u \<le> v"
      using wallToUtc_minutes [OF z g] by (simp only: w option.case) blast
    have "wallOf fmt t = w" using reads [of t] u by simp
    moreover have "t \<le> s" if s: "lo \<le> s div 60000" "wallOf fmt s = w" for s
    proof -
      have "u \<le> s div 60000" using reads [OF s(1)] s u(4) by simp
      then have "u * 60000 \<le> s div 60000 * 60000" by simp
      also have "\<dots> \<le> s" using div_mult_mod_eq [of s 60000] pos_mod_sign [of 60000 s] by linarith
      finally show ?thesis by (simp add: u(2))
    qed
    ultimately show ?thesis by (simp add: Some)
  qed
qed

end
