(* ===== verification/Cron_Next.thy ===== *)
theory Cron_Next
  imports Cron_Theorems
begin

text \<open>
  The search of \<open>nextAfter\<close> over days, hours and minutes returns the earliest firing: first occurrences of wall clock times follow each other in the
  order of the times, also where the clocks go back, so that the first hit of the search is the earliest one.
\<close>

section \<open>What fires\<close>

definition cron_matches :: "cron \<Rightarrow> wall \<Rightarrow> bool" where
  "cron_matches c w \<longleftrightarrow> w_mi w \<in> set (cr_minutes c) \<and> w_h w \<in> set (cr_hours c) \<and> w_mo w \<in> set (cr_months c) \<and>
     dayMatches c (w_d w \<in> set (cr_doms c)) (week_day (make_day (w_y w) (w_mo w - 1) (w_d w)) \<in> set (cr_dows c))"

text \<open>An instant fires when its wall clock time matches and it is the first in two days to read it.\<close>

definition fires :: "formatter \<Rightarrow> cron \<Rightarrow> int \<Rightarrow> bool" where
  "fires fmt c t \<longleftrightarrow> cron_matches c (wallOf fmt t) \<and> (\<forall>s. t - 2 * ms_day \<le> s \<longrightarrow> s < t \<longrightarrow> wallOf fmt s \<noteq> wallOf fmt t)"

section \<open>The times of the search\<close>

definition day_minutes :: "cron \<Rightarrow> int \<Rightarrow> int list" where
  "day_minutes c n = (if day_fires c n then concat (map (\<lambda>h. map (\<lambda>mi. n * 1440 + h * 60 + mi) (cr_minutes c)) (cr_hours c)) else [])"

lemma cron_field_bounds:
  assumes "cron_wf c"
  shows "h \<in> set (cr_hours c) \<Longrightarrow> 0 \<le> h \<and> h \<le> 23" "mi \<in> set (cr_minutes c) \<Longrightarrow> 0 \<le> mi \<and> mi \<le> 59"
    "sorted_wrt (<) (cr_hours c)" "sorted_wrt (<) (cr_minutes c)"
  using assms by (auto simp: cron_wf_def field_wf_def list_all_iff strict_sorted_iff)

lemma day_walls_minutes: "cron_wf c \<Longrightarrow> day_walls c n = map wall_of_minute (day_minutes c n)"
proof -
  assume wf: "cron_wf c"
  obtain y mo d where c: "civil_of_day n = (y, mo, d)" by (cases "civil_of_day n") auto
  have "\<lparr>w_y = y, w_mo = mo, w_d = d, w_h = h, w_mi = mi\<rparr> = wall_of_minute (n * 1440 + h * 60 + mi)"
    if "h \<in> set (cr_hours c)" "mi \<in> set (cr_minutes c)" for h mi
    using cron_field_bounds(1,2) [OF wf] that by (intro wall_of_minute_parts [OF c, symmetric]) blast+
  then show ?thesis by (simp add: day_walls_def day_minutes_def c map_concat cong: map_cong)
qed

lemma day_minutes_set:
  assumes wf: "cron_wf c"
  shows "g \<in> set (day_minutes c n) \<longleftrightarrow> g div 1440 = n \<and> cron_matches c (wall_of_minute g)"
proof -
  obtain y mo d where c: "civil_of_day (g div 1440) = (y, mo, d)" by (cases "civil_of_day (g div 1440)") auto
  have day: "day_fires c (g div 1440) \<longleftrightarrow> mo \<in> set (cr_months c) \<and> dayMatches c (d \<in> set (cr_doms c)) (week_day (g div 1440) \<in> set (cr_dows c))"
    by (simp add: day_fires_def c)
  have m: "cron_matches c (wall_of_minute g) \<longleftrightarrow> g mod 60 \<in> set (cr_minutes c) \<and> g mod 1440 div 60 \<in> set (cr_hours c) \<and> day_fires c (g div 1440)"
    using civil_of_day_spec(2) [OF c] by (simp add: cron_matches_def wall_of_minute_def c day)
  have parts: "g = g div 1440 * 1440 + g mod 1440 div 60 * 60 + g mod 60" by (rule minute_split)
  have "g div 1440 = n \<and> g mod 1440 div 60 = h \<and> g mod 60 = mi"
    if "g = n * 1440 + h * 60 + mi" "h \<in> set (cr_hours c)" "mi \<in> set (cr_minutes c)" for h mi
    unfolding that(1) using cron_field_bounds(1,2) [OF wf] that(2,3) by (intro minute_parts) blast+
  then show ?thesis unfolding m day_minutes_def using parts by auto
qed

lemma day_minutes_sorted:
  assumes wf: "cron_wf c"
  shows "sorted_wrt (<) (day_minutes c n)"
proof -
  have "sorted_wrt (<) (concat (map (\<lambda>h. map (\<lambda>mi. n * 1440 + h * 60 + mi) (cr_minutes c)) hs))"
    if "sorted_wrt (<) hs" "set hs \<subseteq> set (cr_hours c)" for hs
    using that
  proof (induction hs)
    case (Cons h hs)
    have "sorted_wrt (<) (map (\<lambda>mi. n * 1440 + h * 60 + mi) (cr_minutes c))"
      using cron_field_bounds(4) [OF wf] by (simp add: sorted_wrt_map)
    moreover have "n * 1440 + h * 60 + mi < n * 1440 + h' * 60 + mi'"
      if "h' \<in> set hs" "mi \<in> set (cr_minutes c)" "mi' \<in> set (cr_minutes c)" for h' mi mi'
    proof -
      have "h < h'" using Cons.prems(1) that(1) by simp
      moreover have "mi \<le> 59" "0 \<le> mi'" using cron_field_bounds(2) [OF wf] that(2,3) by blast+
      ultimately show ?thesis by linarith
    qed
    ultimately show ?case using Cons by (simp add: sorted_wrt_append)
  qed simp
  then show ?thesis using cron_field_bounds(3) [OF wf] by (simp add: day_minutes_def)
qed

definition search_minutes :: "cron \<Rightarrow> int \<Rightarrow> int \<Rightarrow> int list" where
  "search_minutes c n k = concat (map (day_minutes c) [n..n + k - 1])"

lemma search_minutes_set: "cron_wf c \<Longrightarrow> g \<in> set (search_minutes c n k) \<longleftrightarrow> n \<le> g div 1440 \<and> g div 1440 < n + k \<and> cron_matches c (wall_of_minute g)"
  by (auto simp: search_minutes_def day_minutes_set)

lemma search_minutes_sorted:
  assumes wf: "cron_wf c"
  shows "sorted_wrt (<) (search_minutes c n k)"
proof -
  have "sorted_wrt (<) (concat (map (day_minutes c) ns))" if "sorted_wrt (<) ns" for ns
    using that
  proof (induction ns)
    case (Cons n ns)
    have "g < g'" if "g \<in> set (day_minutes c n)" "n' \<in> set ns" "g' \<in> set (day_minutes c n')" for g g' n'
    proof -
      have "g div 1440 < g' div 1440" using that Cons.prems by (simp add: day_minutes_set [OF wf])
      then show ?thesis by (meson leD linorder_le_less_linear zdiv_mono1 zero_less_numeral)
    qed
    then show ?case using Cons by (auto simp: sorted_wrt_append day_minutes_sorted [OF wf])
  qed simp
  moreover have "sorted_wrt (<) [n..n + k - 1]" by (simp add: strict_sorted_iff)
  ultimately show ?thesis by (simp add: search_minutes_def)
qed

lemma first_after_append:
  "first_after fmt fromMs (xs @ ys) = (case first_after fmt fromMs xs of Some t \<Rightarrow> Some t | None \<Rightarrow> first_after fmt fromMs ys)"
  by (induction xs) (auto split: option.splits)

lemma day_search_minutes:
  "cron_wf c \<Longrightarrow> day_search fmt c fromMs day cursor = first_after fmt fromMs (map wall_of_minute (search_minutes c cursor (search_days - day)))"
proof (induction fmt c fromMs day cursor rule: day_search.induct)
  case (1 fmt c fromMs day cursor)
  show ?case
  proof (cases "day < search_days")
    case True
    then have "search_minutes c cursor (search_days - day) = day_minutes c cursor @ search_minutes c (cursor + 1) (search_days - (day + 1))"
      by (simp add: search_minutes_def upto_rec1)
    with 1 True show ?thesis
      by (subst day_search.simps) (auto simp: first_after_append day_walls_minutes split: option.splits)
  qed (simp add: day_search.simps search_minutes_def)
qed

section \<open>First occurrences\<close>

text \<open>\<open>first_of off lo g t\<close>: \<open>t\<close> is the first instant whose minute reads \<open>g\<close>.\<close>

definition first_of :: "(int \<Rightarrow> int) \<Rightarrow> int \<Rightarrow> int \<Rightarrow> int \<Rightarrow> bool" where
  "first_of off lo g t \<longleftrightarrow> (\<exists>u\<ge>lo. t = u * 60000 \<and> u + off u = g \<and> (\<forall>v\<ge>lo. v + off v = g \<longrightarrow> u \<le> v))"

lemma wallToUtc_first_of:
  assumes z: "zone_law fmt lo off" and g: "lo + 2880 \<le> g"
  shows "wallToUtc fmt (wall_of_minute g) = Some t \<longleftrightarrow> first_of off lo g t"
proof
  assume "wallToUtc fmt (wall_of_minute g) = Some t"
  with wallToUtc_minutes [OF z g] show "first_of off lo g t" by (simp only: option.case first_of_def)
next
  assume f: "first_of off lo g t"
  then obtain u where u: "lo \<le> u" "t = u * 60000" "u + off u = g" "\<And>v. lo \<le> v \<Longrightarrow> v + off v = g \<Longrightarrow> u \<le> v"
    by (auto simp: first_of_def)
  show "wallToUtc fmt (wall_of_minute g) = Some t"
  proof (cases "wallToUtc fmt (wall_of_minute g)")
    case None
    with wallToUtc_minutes [OF z g] have "\<forall>u\<ge>lo. u + off u \<noteq> g" by (simp only: option.case)
    with u(1,3) show ?thesis by blast
  next
    case (Some t')
    with wallToUtc_minutes [OF z g] obtain u' where u': "lo \<le> u'" "t' = u' * 60000" "u' + off u' = g" "\<And>v. lo \<le> v \<Longrightarrow> v + off v = g \<Longrightarrow> u' \<le> v"
      by (simp only: option.case) blast
    have "u' = u" using u(4) [OF u'(1,3)] u'(4) [OF u(1,3)] by simp
    with Some u'(2) u(2) show ?thesis by simp
  qed
qed

lemma first_of_mono:
  assumes z: "zone_law fmt lo off" and g: "lo + 4320 \<le> g1" "g1 < g2" and f: "first_of off lo g1 t1" "first_of off lo g2 t2"
  shows "t1 < t2"
proof -
  obtain u1 where u1: "lo \<le> u1" "t1 = u1 * 60000" "u1 + off u1 = g1" "\<And>v. lo \<le> v \<Longrightarrow> v + off v = g1 \<Longrightarrow> u1 \<le> v"
    using f(1) by (auto simp: first_of_def)
  obtain u2 where u2: "lo \<le> u2" "t2 = u2 * 60000" "u2 + off u2 = g2" using f(2) by (auto simp: first_of_def)
  have "u1 < u2"
  proof (rule ccontr)
    assume "\<not> u1 < u2"
    then have lt: "u2 < u1" using u1(3) u2(3) g(2) by (cases "u1 = u2") auto
    have lo: "lo + 2880 \<le> u1" using zone_bounds [OF z u1(1)] u1(3) g(1) by linarith
    obtain u where "u1 - 2880 \<le> u" "u < u2" "u + off u = g1"
      using zone_back [OF z lo u2(1) lt] u1(3) u2(3) g(2) by auto
    with u1(4) [of u] lt lo show False by linarith
  qed
  then show ?thesis by (simp add: u1(2) u2(2))
qed

lemma fires_first_of:
  assumes z: "zone_law fmt lo off" and t: "lo + 4320 \<le> t div 60000"
  defines "g \<equiv> t div 60000 + off (t div 60000)"
  shows "fires fmt c t \<longleftrightarrow> cron_matches c (wall_of_minute g) \<and> first_of off lo g t"
proof -
  define m where "m = t div 60000"
  have m: "lo + 4320 \<le> m" using t by (simp only: m_def)
  have b: "0 \<le> lo" "-1440 < off m" "off m < 1440" using zone_bounds [OF z, of m] m by auto
  have g: "m + off m = g" by (simp add: g_def m_def)
  have wt: "wallOf fmt t = wall_of_minute g" unfolding g_def using t by (intro zone_wall [OF z]) linarith
  have reads: "wallOf fmt s = wall_of_minute g \<longleftrightarrow> s div 60000 + off (s div 60000) = g" if "lo \<le> s div 60000" for s
    using zone_reads [OF z that, of g] g m b by linarith
  have fl: "m * 60000 \<le> t" "t < m * 60000 + 60000" using minute_floor [of t] by (simp_all only: m_def)
  have "(\<forall>s. t - 2 * ms_day \<le> s \<longrightarrow> s < t \<longrightarrow> wallOf fmt s \<noteq> wallOf fmt t) \<longleftrightarrow> first_of off lo g t"
  proof
    assume f: "\<forall>s. t - 2 * ms_day \<le> s \<longrightarrow> s < t \<longrightarrow> wallOf fmt s \<noteq> wallOf fmt t"
    have "wallOf fmt (m * 60000) = wallOf fmt t" unfolding wt using reads [of "m * 60000"] g m by simp
    moreover have "t - 2 * ms_day \<le> m * 60000" using fl by linarith
    ultimately have tm: "t = m * 60000" using f fl(1) by force
    have "m \<le> v" if v: "lo \<le> v" "v + off v = g" for v
    proof (rule ccontr)
      assume lt: "\<not> m \<le> v"
      have "m - 2880 \<le> v" using zone_bounds [OF z v(1)] v(2) g b by linarith
      then have "t - 2 * ms_day \<le> v * 60000" "v * 60000 < t" using lt tm by linarith+
      moreover have "wallOf fmt (v * 60000) = wallOf fmt t" unfolding wt using reads [of "v * 60000"] v by simp
      ultimately show False using f by blast
    qed
    with tm g m show "first_of off lo g t" unfolding first_of_def by (intro exI [of _ m]) auto
  next
    assume "first_of off lo g t"
    then obtain u where u: "lo \<le> u" "t = u * 60000" "\<And>v. lo \<le> v \<Longrightarrow> v + off v = g \<Longrightarrow> u \<le> v" by (auto simp: first_of_def)
    then have um: "u = m" by (simp add: m_def)
    show "\<forall>s. t - 2 * ms_day \<le> s \<longrightarrow> s < t \<longrightarrow> wallOf fmt s \<noteq> wallOf fmt t"
    proof (intro allI impI notI)
      fix s assume s: "t - 2 * ms_day \<le> s" "s < t" "wallOf fmt s = wallOf fmt t"
      have fs: "s div 60000 * 60000 \<le> s" "s < s div 60000 * 60000 + 60000" using minute_floor [of s] by simp_all
      then have lo: "lo \<le> s div 60000" using s(1) u(2) m unfolding um by linarith
      have "u \<le> s div 60000" using s(3) u(3) [OF lo] reads [OF lo] by (simp only: wt)
      then show False using fs s(2) u(2) by linarith
    qed
  qed
  then show ?thesis by (simp only: fires_def wt)
qed

lemma first_after_min:
  assumes "sorted_wrt (<) gs" "\<And>g g' t t'. g \<in> set gs \<Longrightarrow> g' \<in> set gs \<Longrightarrow> g < g' \<Longrightarrow> wallToUtc fmt (w g) = Some t \<Longrightarrow> wallToUtc fmt (w g') = Some t' \<Longrightarrow> t < t'"
  shows "case first_after fmt fromMs (map w gs) of
     None \<Rightarrow> \<forall>g\<in>set gs. \<forall>t. wallToUtc fmt (w g) = Some t \<longrightarrow> t \<le> fromMs
   | Some t \<Rightarrow> fromMs < t \<and> (\<exists>g\<in>set gs. wallToUtc fmt (w g) = Some t) \<and> (\<forall>g\<in>set gs. \<forall>t'. wallToUtc fmt (w g) = Some t' \<longrightarrow> fromMs < t' \<longrightarrow> t \<le> t')"
  using assms
proof (induction gs)
  case (Cons g gs)
  have IH: "case first_after fmt fromMs (map w gs) of
     None \<Rightarrow> \<forall>g\<in>set gs. \<forall>t. wallToUtc fmt (w g) = Some t \<longrightarrow> t \<le> fromMs
   | Some t \<Rightarrow> fromMs < t \<and> (\<exists>g\<in>set gs. wallToUtc fmt (w g) = Some t) \<and> (\<forall>g\<in>set gs. \<forall>t'. wallToUtc fmt (w g) = Some t' \<longrightarrow> fromMs < t' \<longrightarrow> t \<le> t')"
    using Cons.prems by (intro Cons.IH) auto
  show ?case
  proof (cases "\<exists>t. wallToUtc fmt (w g) = Some t \<and> fromMs < t")
    case True
    then obtain t where t: "wallToUtc fmt (w g) = Some t" "fromMs < t" by blast
    have "t \<le> t'" if "g' \<in> set gs" "wallToUtc fmt (w g') = Some t'" for g' t'
      using Cons.prems(2) [of g g' t t'] Cons.prems(1) that t(1) by simp
    then show ?thesis using t by auto
  next
    case False
    then have "first_after fmt fromMs (map w (g # gs)) = first_after fmt fromMs (map w gs)" by (auto split: option.splits)
    with IH False show ?thesis by (cases "first_after fmt fromMs (map w gs)") auto
  qed
qed simp

section \<open>The earliest firing\<close>

lemma div_less_imp: "a div 1440 < b div 1440 \<Longrightarrow> a < b" for a b :: int
  by (meson leD linorder_le_less_linear zdiv_mono1 zero_less_numeral)

lemma cursor_day:
  assumes "-1440 \<le> q"
  shows "date_utc (w_y (wall_of_minute q)) (w_mo (wall_of_minute q) - 1) (w_d (wall_of_minute q)) 0 0 div ms_day = q div 1440"
proof -
  obtain y mo d where c: "civil_of_day (q div 1440) = (y, mo, d)" by (cases "civil_of_day (q div 1440)") auto
  have "-1440 div 1440 \<le> q div 1440" using assms by (rule zdiv_mono1) simp
  then have "date_utc y (mo - 1) d 0 0 = q div 1440 * ms_day" using date_utc_civil [OF _ c, of 0 0] by simp
  then show ?thesis by (simp add: wall_of_minute_def c)
qed

text \<open>The day of the calendar that the wall clock of a zone shows.\<close>

definition wall_day :: "formatter \<Rightarrow> int \<Rightarrow> int" where
  "wall_day fmt t = make_day (w_y (wallOf fmt t)) (w_mo (wallOf fmt t) - 1) (w_d (wallOf fmt t))"

lemma wall_day_zone: "zone_law fmt lo off \<Longrightarrow> lo \<le> t div 60000 \<Longrightarrow> wall_day fmt t = (t div 60000 + off (t div 60000)) div 1440"
  using civil_of_day_spec(2) by (auto simp: wall_day_def zone_wall wall_of_minute_def split: prod.splits)

lemma fires_not_before:
  assumes z: "zone_law fmt lo off" and lo: "lo + 4320 \<le> fromMs div 60000" and s: "fires fmt c s" "fromMs < s"
  shows "wall_day fmt fromMs \<le> wall_day fmt s"
proof (rule ccontr)
  let ?m1 = "fromMs div 60000" and ?m2 = "s div 60000"
  have le: "?m1 \<le> ?m2" using s(2) by (intro zdiv_mono1) auto
  assume "\<not> wall_day fmt fromMs \<le> wall_day fmt s"
  moreover have "wall_day fmt fromMs = (?m1 + off ?m1) div 1440" "wall_day fmt s = (?m2 + off ?m2) div 1440"
    using lo le by (auto intro!: wall_day_zone [OF z])
  ultimately have "(?m2 + off ?m2) div 1440 < (?m1 + off ?m1) div 1440" by linarith
  then have g: "?m2 + off ?m2 < ?m1 + off ?m1" by (rule div_less_imp)
  have "?m1 \<noteq> ?m2" using g by (metis less_irrefl)
  with le have lt: "?m1 < ?m2" by linarith
  obtain u where u: "?m2 - 2880 \<le> u" "u < ?m1" "u + off u = ?m2 + off ?m2"
  proof -
    have "lo + 2880 \<le> ?m2" "lo \<le> ?m1" using lo le by linarith+
    from zone_back [OF z this lt g] that show ?thesis by blast
  qed
  have "lo + 4320 \<le> ?m2" using lo le by linarith
  then have "first_of off lo (?m2 + off ?m2) s" using s(1) fires_first_of [OF z, of s c] by blast
  then obtain v where v: "s = v * 60000" "\<And>u. lo \<le> u \<Longrightarrow> u + off u = ?m2 + off ?m2 \<Longrightarrow> v \<le> u" unfolding first_of_def by blast
  have "v \<le> u" using v(2) [of u] u lo le by linarith
  moreover have "?m2 = v" by (simp add: v(1))
  ultimately show False using u(2) lt by linarith
qed

text \<open>The instants that fire and the hits of the search correspond to each other.\<close>

lemma fires_hit:
  assumes z: "zone_law fmt lo off" and lo: "lo + 8640 \<le> fromMs div 60000" and s: "fires fmt c s" "fromMs < s"
  shows "\<exists>g. g div 1440 = wall_day fmt s \<and> wall_day fmt fromMs \<le> g div 1440 \<and> cron_matches c (wall_of_minute g) \<and> first_of off lo g s"
proof -
  let ?m = "s div 60000"
  have "fromMs div 60000 \<le> ?m" using s(2) by (intro zdiv_mono1) auto
  then have m: "lo + 4320 \<le> ?m" using lo by linarith
  have day: "wall_day fmt s = (?m + off ?m) div 1440" using m by (intro wall_day_zone [OF z]) linarith
  have "wall_day fmt fromMs \<le> wall_day fmt s" using lo by (intro fires_not_before [OF z _ s]) linarith
  moreover have "cron_matches c (wall_of_minute (?m + off ?m)) \<and> first_of off lo (?m + off ?m) s" using fires_first_of [OF z m] s(1) by blast
  ultimately show ?thesis using day by (intro exI [of _ "?m + off ?m"]) simp
qed

lemma hit_fires:
  assumes z: "zone_law fmt lo off" and lo: "lo + 8640 \<le> fromMs div 60000" and t: "fromMs < t" "first_of off lo g t" "cron_matches c (wall_of_minute g)"
  shows "fires fmt c t"
proof -
  obtain u where u: "t = u * 60000" "u + off u = g" using t(2) by (auto simp: first_of_def)
  then have m: "t div 60000 = u" by simp
  have "fromMs div 60000 \<le> t div 60000" using t(1) by (intro zdiv_mono1) auto
  then have "lo + 4320 \<le> t div 60000" using lo by linarith
  from fires_first_of [OF z this, of c] show ?thesis using t(2,3) by (simp only: m u(2))
qed

text \<open>Where the search starts, and that its hits come in the order of time.\<close>

lemma nextAfter_search:
  assumes z: "zone_law fmt lo off" and wf: "cron_wf c" and tz: "zones tz = Some fmt" and lo: "lo + 8640 \<le> fromMs div 60000"
  shows "nextAfter zones c tz fromMs = Inr (first_after fmt fromMs (map wall_of_minute (search_minutes c (wall_day fmt fromMs) search_days)))"
proof -
  let ?m = "fromMs div 60000"
  have "lo \<le> ?m" using lo by linarith
  note day = wall_day_zone [OF z this] and w = zone_wall [OF z this] and b = zone_bounds [OF z this]
  have "-1440 \<le> ?m + off ?m" using b lo by linarith
  from cursor_day [OF this] show ?thesis by (simp add: nextAfter_def tz w day day_search_minutes [OF wf] Let_def)
qed

lemma search_late:
  assumes z: "zone_law fmt lo off" and lo: "lo + 8640 \<le> fromMs div 60000" and g: "wall_day fmt fromMs \<le> g div 1440"
  shows "lo + 4320 \<le> g"
proof -
  let ?m = "fromMs div 60000"
  have "lo \<le> ?m" using lo by linarith
  note day = wall_day_zone [OF z this] and b = zone_bounds [OF z this]
  show ?thesis using g b lo day_floor [of g] day_floor [of "?m + off ?m"] unfolding day by linarith
qed


section \<open>Two zones\<close>

text \<open>The formatter of a zone given by its shift, Berlin in the autumn of 2026, and UTC.\<close>

definition shifted :: "(int \<Rightarrow> int) \<Rightarrow> formatter" where
  "shifted off t = wall_of_minute (t div 60000 + off (t div 60000))"

definition berlin_shift :: "int \<Rightarrow> int" where
  "berlin_shift m = (if m < 29881500 then 120 else 60)"

definition utc_shift :: "int \<Rightarrow> int" where
  "utc_shift m = 0"

lemma wallOf_shifted: "wallOf (shifted off) t = wall_of_minute (t div 60000 + off (t div 60000))"
proof -
  have "q mod 1440 div 60 mod 24 = q mod 1440 div 60" for q :: int
  proof (rule mod_pos_pos_trivial)
    have "q mod 1440 < 1440" "0 \<le> q mod 1440" by (simp_all add: pos_mod_bound pos_mod_sign)
    then show "0 \<le> q mod 1440 div 60" "q mod 1440 div 60 < 24"
      using div_mult_mod_eq [of "q mod 1440" 60] pos_mod_sign [of 60 "q mod 1440"] pos_mod_bound [of 60 "q mod 1440"] by linarith+
  qed
  then show ?thesis by (simp add: wallOf_def shifted_def wall_of_minute_def split: prod.splits)
qed

lemma berlin_law: "zone_law (shifted berlin_shift) 0 berlin_shift"
  by (auto simp: zone_law_def wallOf_shifted berlin_shift_def)

lemma utc_law: "zone_law (shifted utc_shift) 0 utc_shift"
  by (auto simp: zone_law_def wallOf_shifted utc_shift_def)

definition half_past_two :: cron where
  "half_past_two = \<lparr>cr_minutes = [30], cr_hours = [2], cr_doms = [1..31], cr_months = [1..12], cr_dows = [0..6],
     cr_domRestricted = False, cr_dowRestricted = False\<rparr>"

lemma half_past_two_parsed: "parseCron ''30 2 * * *'' = Inr half_past_two"
  by code_simp


theorem wallToUtc_earliest_witness:
  "wallToUtc (shifted berlin_shift) \<lparr>w_y = 2026, w_mo = 10, w_d = 25, w_h = 2, w_mi = 30\<rparr> = Some (29881470 * 60000) \<and>
   wallOf (shifted berlin_shift) (29881470 * 60000) = \<lparr>w_y = 2026, w_mo = 10, w_d = 25, w_h = 2, w_mi = 30\<rparr>"
proof -
  let ?w = "\<lparr>w_y = 2026, w_mo = 10, w_d = 25, w_h = 2, w_mi = 30\<rparr>"
  have eval: "wallToUtc (shifted berlin_shift) ?w = Some (29881470 * 60000)" by code_simp
  have "valid_wall ?w" "0 + 2880 \<le> wall_utc ?w div 60000" by code_simp+
  from wallToUtc_earliest [OF berlin_law this] eval show ?thesis by simp
qed

section \<open>An expression that the search gives up on\<close>

text \<open>
  \<open>0 0 29 2 */7\<close> asks for a 29th of February that is a Sunday. From March 2016 the search ends without a result, although the expression fires again in 2032.
\<close>

definition leap_sunday :: cron where
  "leap_sunday = \<lparr>cr_minutes = [0], cr_hours = [0], cr_doms = [29], cr_months = [2], cr_dows = [0], cr_domRestricted = True, cr_dowRestricted = False\<rparr>"

lemma leap_sunday_parsed: "parseCron ''0 0 29 2 */7'' = Inr leap_sunday"
  by code_simp

lemma leap_sunday_rare:
  assumes "16861 \<le> n" "n < 16861 + 366 * 8" "civil_of_day n = (y, 2, 29)"
  shows "week_day n \<noteq> 0"
proof -
  have v: "valid_civil y 2 29" and n: "make_day y 1 29 = n" and y: "y = year_from_day n" using civil_of_day_spec [OF assms(3)] by simp_all
  have "leap y" using v by (auto simp: valid_civil_def month_lengths_def split: if_splits)
  have "2016 \<le> y"
  proof (rule ccontr)
    assume "\<not> 2016 \<le> y"
    then have "day_from_year (y + 1) \<le> day_from_year 2016" using day_from_year_mono [of "y + 1" 2016] by linarith
    also have "\<dots> = 16801" by (simp add: day_from_year_def)
    finally show False using year_from_day_spec(2) [of n] assms(1) by (simp add: y)
  qed
  moreover have "y < 2025"
  proof (rule ccontr)
    assume "\<not> y < 2025"
    then have "day_from_year 2025 \<le> day_from_year y" using day_from_year_mono [of 2025 y] by linarith
    moreover have "day_from_year 2025 = 20089" by (simp add: day_from_year_def)
    ultimately show False using year_from_day_spec(1) [of n] assms(2) by (simp add: y)
  qed
  ultimately have "y \<in> {2016, 2017, 2018, 2019, 2020, 2021, 2022, 2023, 2024}" by auto
  with \<open>leap y\<close> have "y = 2016 \<or> y = 2020 \<or> y = 2024" by (auto simp: leap_def)
  then show ?thesis
    using n assms(1) by (elim disjE) (auto simp: make_day_def day_from_year_def days_before_def month_lengths_def leap_def week_day_def)
qed

lemma leap_sunday_given_up:
  "nextAfter (\<lambda>_. Some (shifted utc_shift)) leap_sunday ''UTC'' (24279840 * 60000) = Inr None"
  "fires (shifted utc_shift) leap_sunday (32693760 * 60000)"
proof -
  have wf: "cron_wf leap_sunday" by code_simp
  have day: "wall_day (shifted utc_shift) (24279840 * 60000) = 16861" by code_simp
  have "\<not> cron_matches leap_sunday (wall_of_minute g)" if "16861 \<le> g div 1440" "g div 1440 < 16861 + 366 * 8" for g
    using leap_sunday_rare [OF that] civil_of_day_spec(2) [of "g div 1440"]
    by (auto simp: cron_matches_def wall_of_minute_def leap_sunday_def dayMatches_def split: prod.splits)
  then have "g \<notin> set (search_minutes leap_sunday 16861 search_days)" for g unfolding search_minutes_set [OF wf] by blast
  then have "search_minutes leap_sunday 16861 search_days = []" by (metis list.set_intros(1) neq_Nil_conv)
  then show "nextAfter (\<lambda>_. Some (shifted utc_shift)) leap_sunday ''UTC'' (24279840 * 60000) = Inr None"
    using nextAfter_search [OF utc_law wf, of "\<lambda>_. Some (shifted utc_shift)" "''UTC''" "24279840 * 60000"] day by simp
  have "cron_matches leap_sunday (wall_of_minute 32693760)" by code_simp
  moreover have "first_of utc_shift 0 32693760 (32693760 * 60000)"
    unfolding first_of_def utc_shift_def by (intro exI [of _ 32693760]) simp
  ultimately show "fires (shifted utc_shift) leap_sunday (32693760 * 60000)"
    by (intro hit_fires [OF utc_law, of "24279840 * 60000" _ 32693760]) simp_all
qed

end
