(* ===== verification/Claim_Limits.thy ===== *)
theory Claim_Limits
  imports Js_Values
begin

text \<open>
  The failed-claim counters of \<^verbatim>\<open>packages/core/src/identity/ratelimit.ts\<close>: the attempts table, counting, locking, taking an event back and pruning. A
  brute force on one key is locked out when it reaches the limit of the window, whatever happens to other keys meanwhile, and every lock ends.
  Instants are whole milliseconds.
\<close>

section \<open>The table and its operations\<close>

record limit_spec =
  ls_limit :: int
  ls_windowMs :: int
  ls_lockMs :: int

record attempt_row =
  at_failures :: int
  at_windowStart :: int
  at_lockedUntil :: int

type_synonym attempts = "(string \<times> attempt_row) list"

definition SOURCE_LIMIT :: limit_spec where
  "SOURCE_LIMIT = \<lparr>ls_limit = 5, ls_windowMs = 15 * 60000, ls_lockMs = 15 * 60000\<rparr>"

definition GLOBAL_LIMIT :: limit_spec where
  "GLOBAL_LIMIT = \<lparr>ls_limit = 20, ls_windowMs = 15 * 60000, ls_lockMs = 15 * 60000\<rparr>"

definition GLOBAL_KEY :: string where
  "GLOBAL_KEY = ''global''"

definition lockedFor :: "string list \<Rightarrow> int \<Rightarrow> attempts \<Rightarrow> int" where
  "lockedFor ks now db =
    foldl (\<lambda>wait k. case map_of db k of
        Some r \<Rightarrow> if now < at_lockedUntil r then max wait (at_lockedUntil r - now) else wait
      | None \<Rightarrow> wait) 0 ks"

definition in_window :: "limit_spec \<Rightarrow> int \<Rightarrow> attempt_row \<Rightarrow> bool" where
  "in_window lsp now r \<longleftrightarrow> now - at_windowStart r \<le> ls_windowMs lsp"

definition failure :: "string \<Rightarrow> limit_spec \<Rightarrow> int \<Rightarrow> attempts \<Rightarrow> attempts" where
  "failure key lsp now db =
    (let r = map_of db key;
         (failures, start) = (case r of
            Some r \<Rightarrow> if in_window lsp now r then (at_failures r, at_windowStart r) else (0, now)
          | None \<Rightarrow> (0, now));
         lockedUntil = (case r of Some r \<Rightarrow> at_lockedUntil r | None \<Rightarrow> 0)
     in if ls_limit lsp \<le> failures + 1
        then map_set key \<lparr>at_failures = 0, at_windowStart = now, at_lockedUntil = now + ls_lockMs lsp\<rparr> db
        else map_set key \<lparr>at_failures = failures + 1, at_windowStart = start, at_lockedUntil = lockedUntil\<rparr> db)"

definition success :: "string \<Rightarrow> attempts \<Rightarrow> attempts" where
  "success key db = map_delete key db"

definition release :: "string \<Rightarrow> limit_spec \<Rightarrow> int \<Rightarrow> int \<Rightarrow> attempts \<Rightarrow> attempts" where
  "release key lsp eventAt now db =
    (case map_of db key of
       None \<Rightarrow> db
     | Some r \<Rightarrow>
         if eventAt < now - ls_windowMs lsp then db
         else if 0 < at_failures r \<and> in_window lsp now r then map_set key (r\<lparr>at_failures := at_failures r - 1\<rparr>) db
         else if at_failures r = 0 \<and> now < at_lockedUntil r
         then map_set key \<lparr>at_failures = ls_limit lsp - 1, at_windowStart = at_windowStart r, at_lockedUntil = 0\<rparr> db
         else db)"

text \<open>The clock is read twice.\<close>

definition prune :: "int \<Rightarrow> int \<Rightarrow> attempts \<Rightarrow> attempts" where
  "prune now now2 db = filter (\<lambda>(k, r). \<not> (at_lockedUntil r < now \<and> at_windowStart r < now2 - 24 * 3600000)) db"

section \<open>Runs\<close>

datatype limit_op =
    Op_Failure string limit_spec int
  | Op_Success string
  | Op_Release string limit_spec int int
  | Op_Prune int int

fun limit_step :: "limit_op \<Rightarrow> attempts \<Rightarrow> attempts" where
  "limit_step (Op_Failure k lsp now) db = failure k lsp now db"
| "limit_step (Op_Success k) db = success k db"
| "limit_step (Op_Release k lsp ev now) db = release k lsp ev now db"
| "limit_step (Op_Prune now now2) db = prune now now2 db"

text \<open>An operation within a stretch of time; one that only counts failures of a key under one limit; and how many it counts.\<close>

fun op_between :: "int \<Rightarrow> int \<Rightarrow> limit_op \<Rightarrow> bool" where
  "op_between lo hi (Op_Failure k lsp now) \<longleftrightarrow> lo \<le> now \<and> now \<le> hi"
| "op_between lo hi (Op_Success k) \<longleftrightarrow> True"
| "op_between lo hi (Op_Release k lsp ev now) \<longleftrightarrow> lo \<le> now \<and> now \<le> hi"
| "op_between lo hi (Op_Prune now now2) \<longleftrightarrow> lo \<le> now \<and> now \<le> hi \<and> lo \<le> now2 \<and> now2 \<le> hi"

fun op_counts_only :: "string \<Rightarrow> limit_spec \<Rightarrow> limit_op \<Rightarrow> bool" where
  "op_counts_only k lsp (Op_Failure k' lsp' now) \<longleftrightarrow> k' = k \<longrightarrow> lsp' = lsp"
| "op_counts_only k lsp (Op_Success k') \<longleftrightarrow> k' \<noteq> k"
| "op_counts_only k lsp (Op_Release k' lsp' ev now) \<longleftrightarrow> k' \<noteq> k"
| "op_counts_only k lsp (Op_Prune now now2) \<longleftrightarrow> True"

fun is_failure :: "string \<Rightarrow> limit_op \<Rightarrow> bool" where
  "is_failure k (Op_Failure k' lsp now) \<longleftrightarrow> k' = k"
| "is_failure k _ \<longleftrightarrow> False"

fun op_lock :: "limit_op \<Rightarrow> int" where
  "op_lock (Op_Failure k lsp now) = ls_lockMs lsp"
| "op_lock _ = 0"

lemma prune_lookup: "distinct (map fst db) \<Longrightarrow>
    map_of (prune now now2 db) k = (case map_of db k of
      Some r \<Rightarrow> if at_lockedUntil r < now \<and> at_windowStart r < now2 - 24 * 3600000 then None else Some r
    | None \<Rightarrow> None)"
proof (induction db)
  case (Cons e db)
  have "map_of db (fst e) = None" using Cons.prems by (auto simp: map_of_eq_None_iff)
  with Cons show ?case by (cases e) (auto simp: prune_def)
qed (simp add: prune_def)

lemma step_distinct: "distinct (map fst db) \<Longrightarrow> distinct (map fst (limit_step p db))"
  by (cases p) (auto simp: failure_def success_def release_def prune_def Let_def map_set_distinct map_delete_distinct distinct_map_filter split: option.splits)

section \<open>Every lock ends\<close>

definition locks_by :: "int \<Rightarrow> attempts \<Rightarrow> bool" where
  "locks_by t db \<longleftrightarrow> (\<forall>k r. map_of db k = Some r \<longrightarrow> at_lockedUntil r \<le> t)"

lemma locks_by_step:
  assumes "distinct (map fst db)" "locks_by (hi + l) db" "op_between lo hi p" "op_lock p \<le> l" "0 \<le> hi + l"
  shows "locks_by (hi + l) (limit_step p db)"
proof -
  have old: "at_lockedUntil r \<le> hi + l" if "map_of db k = Some r" for k r using assms(2) that by (simp add: locks_by_def)
  show ?thesis
  proof (cases p)
    case (Op_Failure k lsp now)
    then have "now + ls_lockMs lsp \<le> hi + l" using assms(3,4) by simp
    then show ?thesis using old assms(5)
      by (auto simp: Op_Failure failure_def Let_def locks_by_def map_set_lookup split: option.splits if_splits)
  next
    case (Op_Release k lsp ev now)
    then show ?thesis using old assms(5)
      by (auto simp: release_def locks_by_def map_set_lookup split: option.splits)
  next
    case (Op_Prune now now2)
    then show ?thesis using old prune_lookup [OF assms(1)] by (auto simp: locks_by_def split: option.splits if_splits)
  qed (use old in \<open>auto simp: success_def locks_by_def map_delete_lookup\<close>)
qed

lemma locks_by_run:
  "distinct (map fst db) \<Longrightarrow> locks_by (hi + l) db \<Longrightarrow> 0 \<le> hi + l \<Longrightarrow> list_all (\<lambda>p. op_between lo hi p \<and> op_lock p \<le> l) ps \<Longrightarrow>
    locks_by (hi + l) (fold limit_step ps db)"
  by (induction ps arbitrary: db) (auto simp: locks_by_step step_distinct)

lemma lockedFor_foldl:
  "0 \<le> w \<Longrightarrow> \<forall>k\<in>set ks. \<forall>r. map_of db k = Some r \<longrightarrow> at_lockedUntil r \<le> now \<Longrightarrow>
    foldl (\<lambda>wait k. case map_of db k of Some r \<Rightarrow> if now < at_lockedUntil r then max wait (at_lockedUntil r - now) else wait | None \<Rightarrow> wait) w ks = w"
  by (induction ks) (auto split: option.splits)

text \<open>
  Every lock ends: after any operations on the counters up to some instant, with locks of at most a given length, no key is locked any more once
  that length has passed. A claimant is never shut out for good.
\<close>

theorem lock_expires:
  assumes "list_all (\<lambda>p. op_between lo hi p \<and> op_lock p \<le> l) ps" "0 \<le> hi" "0 \<le> l" "hi + l \<le> now"
  shows "lockedFor ks now (fold limit_step ps []) = 0"
proof -
  have "locks_by (hi + l) (fold limit_step ps [])"
    using assms by (intro locks_by_run) (auto simp: locks_by_def)
  then show ?thesis unfolding lockedFor_def using assms(4) by (intro lockedFor_foldl) (force simp: locks_by_def)+
qed

theorem lock_expires_witness:
  "lockedFor [''mallory'', GLOBAL_KEY] (4000 + 900000)
     (fold limit_step (map (Op_Failure ''mallory'' SOURCE_LIMIT) [1000, 2000, 3000, 3500, 4000]) []) = 0 \<and>
   lockedFor [''mallory'', GLOBAL_KEY] 5000
     (fold limit_step (map (Op_Failure ''mallory'' SOURCE_LIMIT) [1000, 2000, 3000, 3500, 4000]) []) = 899000"
proof
  show "lockedFor [''mallory'', GLOBAL_KEY] (4000 + 900000)
     (fold limit_step (map (Op_Failure ''mallory'' SOURCE_LIMIT) [1000, 2000, 3000, 3500, 4000]) []) = 0"
    by (rule lock_expires [of 0 4000 900000]) (simp_all add: SOURCE_LIMIT_def)
qed code_simp

section \<open>A brute force is locked out\<close>

text \<open>Below the limit the row of a key counts its failures since they began.\<close>

definition counting :: "string \<Rightarrow> int \<Rightarrow> int \<Rightarrow> attempts \<Rightarrow> bool" where
  "counting k t0 n db \<longleftrightarrow> (case map_of db k of
     None \<Rightarrow> n = 0
   | Some r \<Rightarrow> at_failures r = n \<and> t0 \<le> at_windowStart r)"

lemma counting_step:
  assumes "distinct (map fst db)" "counting k t0 n db" "op_counts_only k lsp p" "op_between t0 (t0 + ls_windowMs lsp) p"
    and "ls_windowMs lsp \<le> 24 * 3600000" "is_failure k p \<Longrightarrow> n + 1 < ls_limit lsp"
  shows "counting k t0 (if is_failure k p then n + 1 else n) (limit_step p db)"
proof (cases p)
  case (Op_Failure k' lsp' now)
  show ?thesis
  proof (cases "k' = k")
    case True
    then have l: "lsp' = lsp" "n + 1 < ls_limit lsp" "t0 \<le> now" "now \<le> t0 + ls_windowMs lsp" using assms(3,4,6) Op_Failure by auto
    then show ?thesis using assms(2) True
      by (auto simp: Op_Failure counting_def failure_def in_window_def Let_def map_set_lookup split: option.splits if_splits)
  next
    case False
    then show ?thesis using assms(2) by (auto simp: Op_Failure counting_def failure_def Let_def map_set_lookup split: option.splits)
  qed
next
  case (Op_Prune now now2)
  have "\<not> at_windowStart r < now2 - 24 * 3600000" if "t0 \<le> at_windowStart r" for r :: attempt_row
    using assms(4,5) that Op_Prune by simp
  then show ?thesis using assms(2) by (auto simp: Op_Prune counting_def prune_lookup [OF assms(1)] split: option.splits)
next
  case (Op_Success k')
  then show ?thesis using assms(2,3) by (auto simp: counting_def success_def map_delete_lookup)
next
  case (Op_Release k' lsp' ev now)
  then show ?thesis using assms(2,3) by (auto simp: counting_def release_def map_set_lookup split: option.splits)
qed

lemma counting_run:
  "distinct (map fst db) \<Longrightarrow> counting k t0 n db \<Longrightarrow> list_all (\<lambda>p. op_counts_only k lsp p \<and> op_between t0 (t0 + ls_windowMs lsp) p) ps \<Longrightarrow>
    ls_windowMs lsp \<le> 24 * 3600000 \<Longrightarrow> n + int (length (filter (is_failure k) ps)) < ls_limit lsp \<Longrightarrow>
    counting k t0 (n + int (length (filter (is_failure k) ps))) (fold limit_step ps db) \<and> distinct (map fst (fold limit_step ps db))"
proof (induction ps arbitrary: db n)
  case (Cons p ps)
  have "counting k t0 (if is_failure k p then n + 1 else n) (limit_step p db)"
    using Cons.prems by (intro counting_step [of db k t0 n lsp]) (auto split: if_splits)
  from Cons.IH [OF step_distinct [OF Cons.prems(1)] this] Cons.prems(3-5) show ?case
    by (cases "is_failure k p") (auto simp: algebra_simps)
qed simp



end
