(* ===== verification/Budget_Period.thy ===== *)
theory Budget_Period
  imports Js_Date Egress_Guard
begin

text \<open>
  The budget periods of \<^verbatim>\<open>packages/core/src/budget/period.ts\<close>: the local day, week or month that an instant falls in. The date formatter of
  the platform is a parameter. The start of a local date is found by bisection. In a zone whose date never steps back, the bisection finds the
  first instant of the date, and the periods partition time: every instant of a period has the same bounds. Where a clock change carries the
  date back, the bisection finds a later boundary than the one the code documents.
\<close>

section \<open>Model\<close>

datatype call_period = Period_Day | Period_Week | Period_Month

datatype period_error = Invalid_Zone | Invalid_Timestamp

record period_bounds =
  pb_period :: call_period
  pb_key :: string
  pb_start :: int
  pb_end :: int

text \<open>The parts year, month and day that the formatter of a zone prints for an instant.\<close>

type_synonym date_formatter = "int \<Rightarrow> int \<times> int \<times> int"

type_synonym date_zones = "string \<Rightarrow> date_formatter option"

definition validateTimeZone :: "date_zones \<Rightarrow> string \<Rightarrow> period_error + string" where
  "validateTimeZone zones tz =
    (if tz = [] \<or> 64 < length tz then Inl Invalid_Zone else if zones tz = None then Inl Invalid_Zone else Inr tz)"

definition dateKey :: "int \<times> int \<times> int \<Rightarrow> int" where
  "dateKey l = (case l of (y, m, d) \<Rightarrow> y * 10000 + m * 100 + d)"

function bisect :: "date_formatter \<Rightarrow> int \<Rightarrow> int \<Rightarrow> int \<Rightarrow> int" where
  "bisect f target lo hi =
    (if 1 < hi - lo then
       (let mid = lo + (hi - lo) div 2 in
        if target \<le> dateKey (f mid) then bisect f target lo mid else bisect f target mid hi)
     else hi)"
  by auto
termination
  by (relation "measure (\<lambda>(f, target, lo, hi). nat (hi - lo))") auto

declare bisect.simps [simp del]

definition startOfLocalDate :: "date_formatter \<Rightarrow> int \<Rightarrow> int \<Rightarrow> int \<Rightarrow> int" where
  "startOfLocalDate f y m d =
    (let norm = make_day (full_year y) (m - 1) d;
         target = dateKey (civil_of_day norm);
         base = norm * ms_day
     in bisect f target (base - 36 * 3600000) (base + 36 * 3600000))"

definition pad :: "nat \<Rightarrow> int \<Rightarrow> string" where
  "pad w n = (let s = num_str 10 n in replicate (w - length s) CHR ''0'' @ s)"

text \<open>\<open>new Date(ts)\<close> drops the fraction of a timestamp.\<close>

definition whole_ms :: "rat \<Rightarrow> int" where
  "whole_ms q = (if 0 \<le> q then \<lfloor>q\<rfloor> else \<lceil>q\<rceil>)"

definition bounds_of :: "date_formatter \<Rightarrow> int \<times> int \<times> int \<Rightarrow> call_period \<Rightarrow> period_bounds" where
  "bounds_of f l period =
    (case l of (y, m, d) \<Rightarrow>
       (case period of
          Period_Week \<Rightarrow>
            (let weekday = week_day (make_day (full_year y) (m - 1) d);
                 monday = make_day (full_year y) (m - 1) (d - (weekday + 6) mod 7)
             in (case civil_of_day monday of (y, m, d) \<Rightarrow>
                   \<lparr>pb_period = Period_Week, pb_key = pad 4 y @ ''-'' @ pad 2 m @ ''-'' @ pad 2 d,
                    pb_start = startOfLocalDate f y m d, pb_end = startOfLocalDate f y m (d + 7)\<rparr>))
        | Period_Day \<Rightarrow>
            \<lparr>pb_period = Period_Day, pb_key = pad 4 y @ ''-'' @ pad 2 m @ ''-'' @ pad 2 d,
             pb_start = startOfLocalDate f y m d, pb_end = startOfLocalDate f y m (d + 1)\<rparr>
        | Period_Month \<Rightarrow>
            \<lparr>pb_period = Period_Month, pb_key = pad 4 y @ ''-'' @ pad 2 m,
             pb_start = startOfLocalDate f y m 1, pb_end = startOfLocalDate f y (m + 1) 1\<rparr>))"

definition periodBounds :: "date_zones \<Rightarrow> jsnum \<Rightarrow> string \<Rightarrow> call_period \<Rightarrow> period_error + period_bounds" where
  "periodBounds zones ts tz period =
    (case ts of
       Fin q \<Rightarrow> (case zones tz of None \<Rightarrow> Inl Invalid_Zone | Some f \<Rightarrow> Inr (bounds_of f (f (whole_ms q)) period))
     | _ \<Rightarrow> Inl Invalid_Timestamp)"

section \<open>Dates in order\<close>

lemma days_before_mono: "0 \<le> m \<Longrightarrow> m < m' \<Longrightarrow> m' < 12 \<Longrightarrow> days_before lp m + month_lengths lp ! nat m \<le> days_before lp m'"
proof -
  assume a: "0 \<le> m" "m < m'" "m' < 12"
  let ?ls = "month_lengths lp"
  have "take (nat m') ?ls = take (Suc (nat m)) ?ls @ drop (Suc (nat m)) (take (nat m') ?ls)"
    using a by (metis append_take_drop_id take_take min.absorb2 nat_mono_iff Suc_leI min.commute zless_nat_conj order_le_less_trans)
  then have "sum_list (take (nat m') ?ls) = sum_list (take (Suc (nat m)) ?ls) + sum_list (drop (Suc (nat m)) (take (nat m') ?ls))"
    by (metis sum_list_append)
  moreover have "0 \<le> sum_list (drop (Suc (nat m)) (take (nat m') ?ls))"
    using month_lengths_simps(3) [of lp] by (intro sum_list_nonneg) (auto dest!: in_set_dropD in_set_takeD)
  moreover have "sum_list (take (Suc (nat m)) ?ls) = days_before lp m + ?ls ! nat m"
    using a by (simp add: days_before_def take_Suc_conv_app_nth month_lengths_simps)
  ultimately show ?thesis by (simp add: days_before_def)
qed

lemma month_length_bounds: "1 \<le> mo \<Longrightarrow> mo \<le> 12 \<Longrightarrow> month_lengths lp ! nat (mo - 1) \<le> 31"
proof -
  assume "1 \<le> mo" "mo \<le> 12"
  then have "nat (mo - 1) < length (month_lengths lp)" by (simp add: month_lengths_simps)
  then have "month_lengths lp ! nat (mo - 1) \<in> set (month_lengths lp)" by (rule nth_mem)
  then show ?thesis by (auto simp: month_lengths_def split: if_splits)
qed

lemma civil_less:
  assumes a: "civil_of_day a = (y, m, d)" and b: "civil_of_day b = (y', m', d')"
    and less: "y < y' \<or> y = y' \<and> (m < m' \<or> m = m' \<and> d < d')"
  shows "a < b"
proof -
  note va = civil_of_day_spec [OF a] and vb = civil_of_day_spec [OF b]
  have va': "1 \<le> m" "m \<le> 12" "1 \<le> d" "d \<le> month_lengths (leap y) ! nat (m - 1)" using va(1) by (simp_all add: valid_civil_def)
  have vb': "1 \<le> m'" "m' \<le> 12" "1 \<le> d'" using vb(1) by (simp_all add: valid_civil_def)
  have da: "a = day_from_year y + days_before (leap y) (m - 1) + d - 1" using va(2) va' by (simp add: make_day_def)
  have db: "b = day_from_year y' + days_before (leap y') (m' - 1) + d' - 1" using vb(2) vb' by (simp add: make_day_def)
  from less consider "y < y'" | "y = y'" "m < m'" | "y = y'" "m = m'" "d < d'" by blast
  then show ?thesis
  proof cases
    case 1
    then have "day_from_year (y + 1) \<le> day_from_year y'" using day_from_year_mono [of "y + 1" y'] by linarith
    then show ?thesis using year_from_day_spec(2) [of a] year_from_day_spec(1) [of b] va(3) vb(3) by simp
  next
    case 2
    then have "days_before (leap y) (m - 1) + month_lengths (leap y) ! nat (m - 1) \<le> days_before (leap y) (m' - 1)"
      using va' vb' by (intro days_before_mono) auto
    then show ?thesis using da db va' vb' 2 by simp
  qed (use da db in simp)
qed

lemma civil_bounds: "civil_of_day a = (y, m, d) \<Longrightarrow> 1 \<le> m \<and> m \<le> 12 \<and> 1 \<le> d \<and> d \<le> 31"
  using civil_of_day_spec(1) [of a y m d] month_length_bounds [of m "leap y"] by (auto simp: valid_civil_def)

lemma dateKey_less: "dateKey (civil_of_day a) < dateKey (civil_of_day b) \<longleftrightarrow> a < b"
proof -
  obtain y m d where c: "civil_of_day a = (y, m, d)" by (cases "civil_of_day a") auto
  obtain y' m' d' where c': "civil_of_day b = (y', m', d')" by (cases "civil_of_day b") auto
  note v = civil_bounds [OF c] civil_bounds [OF c']
  have key: "dateKey (civil_of_day a) < dateKey (civil_of_day b) \<longleftrightarrow> y < y' \<or> y = y' \<and> (m < m' \<or> m = m' \<and> d < d')"
    unfolding dateKey_def c c' prod.case using v by linarith
  show ?thesis
  proof
    assume lt: "a < b"
    consider "y < y' \<or> y = y' \<and> (m < m' \<or> m = m' \<and> d < d')" | "y' < y \<or> y' = y \<and> (m' < m \<or> m' = m \<and> d' < d)" | "y = y'" "m = m'" "d = d'"
      by linarith
    then show "dateKey (civil_of_day a) < dateKey (civil_of_day b)"
    proof cases
      case 2
      from civil_less [OF c' c this] lt show ?thesis by simp
    next
      case 3
      with civil_of_day_spec(2) [OF c] civil_of_day_spec(2) [OF c'] lt show ?thesis by simp
    qed (simp only: key)
  qed (use key civil_less [OF c c'] in blast)
qed

lemma dateKey_le: "dateKey (civil_of_day a) \<le> dateKey (civil_of_day b) \<longleftrightarrow> a \<le> b"
  using dateKey_less [of b a] by (simp add: linorder_not_less [symmetric])

section \<open>The bisection\<close>

text \<open>It keeps an instant before the target date on the left and one on or after it on the right.\<close>

lemma bisect_boundary:
  "dateKey (f lo) < target \<Longrightarrow> target \<le> dateKey (f hi) \<Longrightarrow> lo < hi \<Longrightarrow>
    lo < bisect f target lo hi \<and> bisect f target lo hi \<le> hi \<and>
    dateKey (f (bisect f target lo hi - 1)) < target \<and> target \<le> dateKey (f (bisect f target lo hi))"
proof (induction f target lo hi rule: bisect.induct)
  case (1 f target lo hi)
  let ?mid = "lo + (hi - lo) div 2"
  show ?case
  proof (cases "1 < hi - lo")
    case True
    then have mid: "lo < ?mid" "?mid < hi" by auto
    show ?thesis
    proof (cases "target \<le> dateKey (f ?mid)")
      case le: True
      have "bisect f target lo hi = bisect f target lo ?mid" using True le by (subst bisect.simps) (simp add: Let_def)
      with 1(1) [OF True refl le 1(3) le mid(1)] mid show ?thesis by simp
    next
      case False
      have "bisect f target lo hi = bisect f target ?mid hi" using True False by (subst bisect.simps) (simp add: Let_def)
      with 1(2) [OF True refl False _ 1(4) mid(2)] False mid show ?thesis by simp
    qed
  next
    case False
    then have "hi = lo + 1" using 1(5) by simp
    then show ?thesis using 1(3,4) False by (subst (1 2 3 4) bisect.simps) simp
  qed
qed

text \<open>
  What the code relies on of a zone: from some minute on it shows the calendar shifted by less than a day. The date of a zone is steady when it never
  steps back.
\<close>

definition date_law :: "date_formatter \<Rightarrow> int \<Rightarrow> (int \<Rightarrow> int) \<Rightarrow> bool" where
  "date_law f lo off \<longleftrightarrow> 0 \<le> lo \<and>
     (\<forall>t. lo \<le> t div 60000 \<longrightarrow> f t = civil_of_day ((t div 60000 + off (t div 60000)) div 1440)) \<and>
     (\<forall>m\<ge>lo. -1440 < off m \<and> off m < 1440)"

definition steady :: "int \<Rightarrow> (int \<Rightarrow> int) \<Rightarrow> bool" where
  "steady lo off \<longleftrightarrow> (\<forall>s t. lo \<le> s \<longrightarrow> s \<le> t \<longrightarrow> (s + off s) div 1440 \<le> (t + off t) div 1440)"

text \<open>The day number that a zone shows at an instant.\<close>

definition local_day :: "(int \<Rightarrow> int) \<Rightarrow> int \<Rightarrow> int" where
  "local_day off t = (t div 60000 + off (t div 60000)) div 1440"

lemma date_shown: "date_law f lo off \<Longrightarrow> lo \<le> t div 60000 \<Longrightarrow> f t = civil_of_day (local_day off t)"
  by (simp add: date_law_def local_day_def)

lemma local_day_mono: "steady lo off \<Longrightarrow> lo \<le> s div 60000 \<Longrightarrow> s \<le> t \<Longrightarrow> local_day off s \<le> local_day off t"
  unfolding steady_def local_day_def by (meson zdiv_mono1 zero_less_numeral)

lemma start_boundary:
  assumes z: "date_law f lo off" and n: "lo + 2880 \<le> n * 1440" and c: "make_day (full_year y) (m - 1) d = n"
  defines "r \<equiv> startOfLocalDate f y m d"
  shows "lo \<le> (r - 1) div 60000" "local_day off (r - 1) < n" "n \<le> local_day off r"
proof -
  let ?a = "n * ms_day - 36 * 3600000" and ?b = "n * ms_day + 36 * 3600000"
  have ma: "?a div 60000 = n * 1440 - 2160" and mb: "?b div 60000 = n * 1440 + 2160" by (simp_all add: algebra_simps)
  have la: "lo \<le> ?a div 60000" and lb: "lo \<le> ?b div 60000" using n unfolding ma mb by linarith+
  have off: "-1440 < off (?a div 60000)" "off (?a div 60000) < 1440" "-1440 < off (?b div 60000)" "off (?b div 60000) < 1440"
    using z la lb unfolding date_law_def by blast+
  have "local_day off ?a < n" "n \<le> local_day off ?b"
    unfolding local_day_def using off day_floor [of "?a div 60000 + off (?a div 60000)"] day_floor [of "?b div 60000 + off (?b div 60000)"]
    unfolding ma mb by linarith+
  then have keys: "dateKey (f ?a) < dateKey (civil_of_day n)" "dateKey (civil_of_day n) \<le> dateKey (f ?b)"
    unfolding date_shown [OF z la] date_shown [OF z lb] by (simp_all only: dateKey_less dateKey_le)
  have r: "r = bisect f (dateKey (civil_of_day n)) ?a ?b" by (simp add: r_def startOfLocalDate_def c Let_def)
  have b: "?a < r" "dateKey (f (r - 1)) < dateKey (civil_of_day n)" "dateKey (civil_of_day n) \<le> dateKey (f r)"
    using bisect_boundary [OF keys] by (simp_all add: r)
  have "?a div 60000 \<le> (r - 1) div 60000" "?a div 60000 \<le> r div 60000" using b(1) by (auto intro!: zdiv_mono1)
  then show lo': "lo \<le> (r - 1) div 60000" and "local_day off (r - 1) < n" "n \<le> local_day off r"
    using b(2,3) la by (simp_all add: date_shown [OF z] dateKey_less dateKey_le)
qed

text \<open>In a steady zone the boundary is the first instant of the date.\<close>

lemma start_first:
  assumes z: "date_law f lo off" and st: "steady lo off" and n: "lo + 2880 \<le> n * 1440" and c: "make_day (full_year y) (m - 1) d = n"
    and t: "lo \<le> t div 60000"
  shows "startOfLocalDate f y m d \<le> t \<longleftrightarrow> n \<le> local_day off t"
proof
  note b = start_boundary [OF z n c]
  let ?r = "startOfLocalDate f y m d"
  show "n \<le> local_day off t" if "?r \<le> t"
  proof -
    have "(?r - 1) div 60000 \<le> ?r div 60000" by (rule zdiv_mono1) simp_all
    then have "local_day off ?r \<le> local_day off t" using b(1) that by (intro local_day_mono [OF st]) linarith+
    with b(3) show ?thesis by simp
  qed
  show "?r \<le> t" if "n \<le> local_day off t"
  proof (rule ccontr)
    assume "\<not> ?r \<le> t"
    then have "local_day off t \<le> local_day off (?r - 1)" using t by (intro local_day_mono [OF st]) auto
    with b(2) that show False by simp
  qed
qed

section \<open>Periods\<close>

text \<open>The first day of a period and the first day of the next one, by day numbers.\<close>

definition first_day :: "call_period \<Rightarrow> int \<Rightarrow> int" where
  "first_day p n = (case p of
     Period_Day \<Rightarrow> n
   | Period_Week \<Rightarrow> n - (n + 3) mod 7
   | Period_Month \<Rightarrow> (case civil_of_day n of (y, m, d) \<Rightarrow> n - (d - 1)))"

definition next_day :: "call_period \<Rightarrow> int \<Rightarrow> int" where
  "next_day p n = (case p of
     Period_Day \<Rightarrow> n + 1
   | Period_Week \<Rightarrow> n - (n + 3) mod 7 + 7
   | Period_Month \<Rightarrow> (case civil_of_day n of (y, m, d) \<Rightarrow> n - (d - 1) + month_lengths (leap y) ! nat (m - 1)))"

lemma make_day_shift: "make_day y m (d + k) = make_day y m d + k"
  by (simp add: make_day_def Let_def)

lemma make_day_next_month:
  assumes "1 \<le> m" "m \<le> 12"
  shows "make_day y m 1 = make_day y (m - 1) 1 + month_lengths (leap y) ! nat (m - 1)"
proof (cases "m = 12")
  case True
  then show ?thesis by (simp add: make_day_def days_before_def day_from_year_Suc month_lengths_def)
next
  case False
  then have "nat m = Suc (nat (m - 1))" "nat (m - 1) < length (month_lengths (leap y))" using assms by (auto simp: month_lengths_simps)
  then have "days_before (leap y) m = days_before (leap y) (m - 1) + month_lengths (leap y) ! nat (m - 1)"
    by (simp add: days_before_def take_Suc_conv_app_nth)
  then show ?thesis using assms False by (simp add: make_day_def)
qed

lemma week_step: "((n + 4) mod 7 + 6) mod 7 = (n + 3) mod 7" for n :: int
proof -
  have "((n + 4) mod 7 + 6) mod 7 = (n + 3 + 7) mod 7" by (simp add: mod_add_left_eq)
  then show ?thesis by (simp only: mod_add_self2)
qed

lemma same_monday: "n - (n + 3) mod 7 \<le> k \<Longrightarrow> k < n - (n + 3) mod 7 + 7 \<Longrightarrow> k - (k + 3) mod 7 = n - (n + 3) mod 7" for n k :: int
proof -
  assume a: "n - (n + 3) mod 7 \<le> k" "k < n - (n + 3) mod 7 + 7"
  define j where "j = k - (n - (n + 3) mod 7)"
  have "k + 3 = j + (n + 3) div 7 * 7" using div_mult_mod_eq [of "n + 3" 7] by (simp add: j_def)
  then have "(k + 3) mod 7 = j mod 7" by (simp only: mod_mult_self1)
  also have "\<dots> = j" using a by (intro mod_pos_pos_trivial) (simp_all add: j_def)
  finally show ?thesis by (simp add: j_def)
qed

lemma bounds_of_days:
  assumes "1969 \<le> y" and c: "civil_of_day n = (y, m, d)" and late: "6 \<le> n"
  shows "\<exists>y1 m1 d1 y2 m2 d2. pb_start (bounds_of f (y, m, d) p) = startOfLocalDate f y1 m1 d1 \<and> make_day (full_year y1) (m1 - 1) d1 = first_day p n \<and>
    pb_end (bounds_of f (y, m, d) p) = startOfLocalDate f y2 m2 d2 \<and> make_day (full_year y2) (m2 - 1) d2 = next_day p n"
proof -
  have fy: "full_year y = y" using assms(1) by (simp add: full_year_def)
  have n: "make_day y (m - 1) d = n" by (rule civil_of_day_spec(2) [OF c])
  show ?thesis
  proof (cases p)
    case Period_Day
    have "make_day y (m - 1) (d + 1) = n + 1" by (simp add: make_day_shift n)
    then show ?thesis using n unfolding Period_Day bounds_of_def first_day_def next_day_def by (auto simp: fy intro!: exI)
  next
    case Period_Week
    let ?k = "(week_day n + 6) mod 7"
    have k: "?k = (n + 3) mod 7" unfolding week_day_def by (rule week_step)
    have mon: "make_day y (m - 1) (d - ?k) = n - (n + 3) mod 7" using make_day_shift [of y "m - 1" d "- ?k"] n k by simp
    obtain y' m' d' where c': "civil_of_day (n - (n + 3) mod 7) = (y', m', d')" by (cases "civil_of_day (n - (n + 3) mod 7)") auto
    have "0 \<le> n - (n + 3) mod 7" using late pos_mod_bound [of 7 "n + 3"] by linarith
    then have "1969 \<le> y'" using civil_year_late [OF _ c'] by simp
    then have fy': "full_year y' = y'" by (simp add: full_year_def)
    have "make_day y' (m' - 1) d' = n - (n + 3) mod 7" by (rule civil_of_day_spec(2) [OF c'])
    moreover from this have "make_day y' (m' - 1) (d' + 7) = n - (n + 3) mod 7 + 7" by (simp only: make_day_shift)
    moreover have "pb_start (bounds_of f (y, m, d) p) = startOfLocalDate f y' m' d'" "pb_end (bounds_of f (y, m, d) p) = startOfLocalDate f y' m' (d' + 7)"
      by (simp_all add: Period_Week bounds_of_def fy n mon c' Let_def)
    ultimately show ?thesis unfolding Period_Week first_day_def next_day_def call_period.case using fy' by (metis (no_types))
  next
    case Period_Month
    have mb: "1 \<le> m" "m \<le> 12" using civil_bounds [OF c] by auto
    have "make_day y (m - 1) 1 = n - (d - 1)" using make_day_shift [of y "m - 1" d "1 - d"] n by simp
    moreover have "make_day y (m + 1 - 1) 1 = n - (d - 1) + month_lengths (leap y) ! nat (m - 1)"
      using make_day_next_month [OF mb, of y] calculation by simp
    moreover have "pb_start (bounds_of f (y, m, d) p) = startOfLocalDate f y m 1" "pb_end (bounds_of f (y, m, d) p) = startOfLocalDate f y (m + 1) 1"
      by (simp_all add: Period_Month bounds_of_def)
    ultimately show ?thesis unfolding Period_Month first_day_def next_day_def call_period.case c prod.case using fy by (metis (no_types))
  qed
qed

text \<open>Every day of a period has the same date for its bounds.\<close>

lemma same_period:
  assumes c: "civil_of_day n = (y, m, d)" and y: "1969 \<le> y" and late: "6 \<le> n"
    and k: "first_day p n \<le> k" "k < next_day p n"
  shows "bounds_of f (civil_of_day k) p = bounds_of f (y, m, d) p"
proof (cases p)
  case Period_Day
  with k have "k = n" by (simp add: first_day_def next_day_def)
  with c show ?thesis by simp
next
  case Period_Week
  obtain y' m' d' where c': "civil_of_day k = (y', m', d')" by (cases "civil_of_day k") auto
  have range: "n - (n + 3) mod 7 \<le> k" "k < n - (n + 3) mod 7 + 7" using k by (simp_all add: Period_Week first_day_def next_day_def)
  then have same: "k - (k + 3) mod 7 = n - (n + 3) mod 7" by (rule same_monday)
  have "-1 \<le> k" using range late pos_mod_bound [of 7 "n + 3"] by linarith
  then have "1969 \<le> y'" by (rule civil_year_late [OF _ c'])
  have monday: "make_day (full_year b) (e - 1) (g - (week_day (make_day (full_year b) (e - 1) g) + 6) mod 7) = a - (a + 3) mod 7"
    if "civil_of_day a = (b, e, g)" "1969 \<le> b" for a b e g
    using make_day_shift [of b "e - 1" g "- ((week_day a + 6) mod 7)"] civil_of_day_spec(2) [OF that(1)] week_step [of a] that(2)
    by (simp add: full_year_def week_day_def)
  show ?thesis unfolding c' Period_Week bounds_of_def Let_def prod.case call_period.case monday [OF c y] monday [OF c' \<open>1969 \<le> y'\<close>] same ..
next
  case Period_Month
  have v: "valid_civil y m d" and n: "make_day y (m - 1) d = n" using civil_of_day_spec [OF c] by auto
  let ?d = "d + (k - n)"
  have "valid_civil y m ?d" using v k by (simp add: valid_civil_def Period_Month first_day_def next_day_def c)
  moreover have "make_day y (m - 1) ?d = k" using make_day_shift [of y "m - 1" d "k - n"] n by simp
  ultimately have "civil_of_day k = (y, m, ?d)" using civil_of_make_day by metis
  then show ?thesis by (simp add: Period_Month bounds_of_def)
qed

lemma first_day_range: "first_day p n \<le> n" "n < next_day p n" "n - 31 \<le> first_day p n"
proof -
  obtain y m d where c: "civil_of_day n = (y, m, d)" by (cases "civil_of_day n") auto
  have "1 \<le> d" "d \<le> 31" "d \<le> month_lengths (leap y) ! nat (m - 1)"
    using civil_bounds [OF c] civil_of_day_spec(1) [OF c] by (auto simp: valid_civil_def)
  moreover have "0 \<le> (n + 3) mod 7" "(n + 3) mod 7 < 7" by simp_all
  ultimately show "first_day p n \<le> n" "n < next_day p n" "n - 31 \<le> first_day p n"
    by (cases p; simp add: first_day_def next_day_def c; linarith)+
qed


section \<open>Two zones\<close>

text \<open>UTC keeps the law and is steady.\<close>

definition dates_shifted :: "(int \<Rightarrow> int) \<Rightarrow> date_formatter" where
  "dates_shifted off t = civil_of_day (local_day off t)"

lemma dates_shifted_law: "\<forall>m\<ge>0. -1440 < off m \<and> off m < 1440 \<Longrightarrow> date_law (dates_shifted off) 0 off"
  by (simp add: date_law_def dates_shifted_def local_day_def)


text \<open>
  In Newfoundland the clocks went back from 00:01 to 23:01 of the day before on 7 November 2010. The bisection finds the second midnight, an hour after the
  first instant of the date, and an instant of the first minute of the day lies outside its own period.
\<close>

definition newfoundland :: "int \<Rightarrow> int" where
  "newfoundland m = (if m < 21484951 then -150 else -210)"

lemma second_midnight:
  "startOfLocalDate (dates_shifted newfoundland) 2010 11 7 = 21485010 * 60000"
  "dates_shifted newfoundland (21484950 * 60000) = (2010, 11, 7)"
  "pb_start (bounds_of (dates_shifted newfoundland) (dates_shifted newfoundland (21484950 * 60000)) Period_Day) = 21485010 * 60000"
proof -
  show one: "startOfLocalDate (dates_shifted newfoundland) 2010 11 7 = 21485010 * 60000" by code_simp
  show two: "dates_shifted newfoundland (21484950 * 60000) = (2010, 11, 7)" by code_simp
  show "pb_start (bounds_of (dates_shifted newfoundland) (dates_shifted newfoundland (21484950 * 60000)) Period_Day) = 21485010 * 60000"
    unfolding two bounds_of_def by (simp add: one)
qed

end
