(* ===== verification/Peer_Budget.thy ===== *)
theory Peer_Budget
  imports Js_Values
begin

text \<open>
  The reservations for outbound traffic between agents of \<^verbatim>\<open>packages/core/src/budget/peer.ts\<close>: per turn and peer, how many calls and tokens are
  reserved or spent, with rows older than a month folded into durable totals. The theorems say that folding changes no usage and that no
  sequence of operations, restarts included, lets a turn pass its ceilings. The identity of a call is a record of five strings, so of the checks on it
  those on the contents remain. Sums are integers: they never leave the range in which the code computes exactly.
\<close>

section \<open>Tables\<close>

datatype peer_state = Peer_Reserved | Peer_Spent | Peer_Cancelled

record peer_who =
  pw_person :: string
  pw_agent :: string
  pw_session :: string
  pw_turn :: string
  pw_peer :: string

record peer_limits =
  pl_peerCalls :: jsnum
  pl_turnCalls :: jsnum
  pl_peerTokens :: jsnum
  pl_turnTokens :: jsnum

record peer_row =
  pc_id :: string
  pc_person :: string
  pc_agent :: string
  pc_session :: string
  pc_turn :: string
  pc_peer :: string
  pc_tokens :: int
  pc_capacity :: int
  pc_state :: peer_state
  pc_ts :: int

type_synonym turn_key = "string \<times> string \<times> string \<times> string"

record peer_db =
  pd_calls :: "peer_row list"
  pd_totals :: "(turn_key \<times> (int \<times> int)) list"

datatype peer_error = Invalid_Peer_Input | Peer_Constraint

datatype peer_decision = Peer_Allow string | Peer_Refuse

definition peer_count :: "jsnum \<Rightarrow> bool" where
  "peer_count n \<longleftrightarrow> is_safe_integer n \<and> 0 \<le> n"

definition int_of :: "jsnum \<Rightarrow> int" where
  "int_of n = (case n of Fin q \<Rightarrow> \<lfloor>q\<rfloor> | _ \<Rightarrow> 0)"

definition CALL_RETENTION_MS :: int where
  "CALL_RETENTION_MS = 30 * 24 * 60 * 60 * 1000"

section \<open>Operations\<close>

definition row_key :: "peer_row \<Rightarrow> turn_key" where
  "row_key r = (pc_person r, pc_session r, pc_turn r, pc_peer r)"

definition row_live :: "peer_row \<Rightarrow> bool" where
  "row_live r \<longleftrightarrow> pc_state r \<noteq> Peer_Cancelled"

text \<open>Adding a group of calls and tokens to a table keyed by the group, as an insert that adds on conflict does.\<close>

definition total_add :: "'k \<times> (int \<times> int) \<Rightarrow> ('k \<times> (int \<times> int)) list \<Rightarrow> ('k \<times> (int \<times> int)) list" where
  "total_add e totals = (case e of (k, c, t) \<Rightarrow>
     (case map_of totals k of
        Some (c', t') \<Rightarrow> map_set k (c' + c, t' + t) totals
      | None \<Rightarrow> map_set k (c, t) totals))"

definition peer_compact :: "int \<Rightarrow> peer_db \<Rightarrow> peer_db" where
  "peer_compact now db =
    (let cutoff = now - CALL_RETENTION_MS;
         aged = filter (\<lambda>r. pc_ts r < cutoff \<and> row_live r) (pd_calls db)
     in \<lparr>pd_calls = filter (\<lambda>r. \<not> pc_ts r < cutoff) (pd_calls db),
         pd_totals = fold total_add (map (\<lambda>r. (row_key r, 1, pc_tokens r)) aged) (pd_totals db)\<rparr>)"

text \<open>The constructor compacts once.\<close>

definition peer_open :: "int \<Rightarrow> peer_db \<Rightarrow> peer_db" where
  "peer_open now db = peer_compact now db"

definition of_turn :: "string \<Rightarrow> string \<Rightarrow> string \<Rightarrow> turn_key \<Rightarrow> bool" where
  "of_turn p s t k = (case k of (p', s', t', _) \<Rightarrow> p' = p \<and> s' = s \<and> t' = t)"

text \<open>The calls and tokens of a turn, one entry for each peer.\<close>

definition turn_rows :: "peer_who \<Rightarrow> peer_db \<Rightarrow> (string \<times> (int \<times> int)) list" where
  "turn_rows who db =
    (let mine = of_turn (pw_person who) (pw_session who) (pw_turn who) in
     fold total_add
       (map (\<lambda>r. (pc_peer r, 1, pc_tokens r)) (filter (\<lambda>r. mine (row_key r) \<and> row_live r) (pd_calls db)) @
        map (\<lambda>((_, _, _, peer), v). (peer, v)) (filter (\<lambda>(k, v). mine k) (pd_totals db))) [])"

definition who_ok :: "peer_who \<Rightarrow> bool" where
  "who_ok who \<longleftrightarrow> list_all (\<lambda>v. v \<noteq> [] \<and> length v \<le> 512) [pw_person who, pw_agent who, pw_session who, pw_turn who, pw_peer who]"

definition limits_ok :: "peer_limits \<Rightarrow> bool" where
  "limits_ok l \<longleftrightarrow> list_all peer_count [pl_peerCalls l, pl_turnCalls l, pl_peerTokens l, pl_turnTokens l]"

text \<open>\<open>reserve\<close>. The clock is read for the compaction and for the row. An id that is taken violates the primary key, and the transaction is undone.\<close>

definition peer_reserve :: "string \<Rightarrow> int \<Rightarrow> int \<Rightarrow> peer_who \<Rightarrow> jsnum \<Rightarrow> peer_limits \<Rightarrow> peer_db \<Rightarrow> (peer_error + peer_decision) \<times> peer_db" where
  "peer_reserve newId now now2 who tokens limits db =
    (if \<not> who_ok who \<or> \<not> peer_count tokens \<or> \<not> limits_ok limits then (Inl Invalid_Peer_Input, db)
     else
       (let db1 = peer_compact now db;
            rows = turn_rows who db1;
            (calls, toks) = (case map_of rows (pw_peer who) of Some v \<Rightarrow> v | None \<Rightarrow> (0, 0))
        in if int_of (pl_peerCalls limits) \<le> calls \<or> int_of (pl_turnCalls limits) \<le> sum_list (map (fst \<circ> snd) rows) \<or>
              int_of (pl_peerTokens limits) < toks + int_of tokens \<or> int_of (pl_turnTokens limits) < sum_list (map (snd \<circ> snd) rows) + int_of tokens
           then (Inr Peer_Refuse, db1)
           else if newId \<in> set (map pc_id (pd_calls db1)) then (Inl Peer_Constraint, db)
           else (Inr (Peer_Allow newId),
                 db1\<lparr>pd_calls := pd_calls db1 @
                   [\<lparr>pc_id = newId, pc_person = pw_person who, pc_agent = pw_agent who, pc_session = pw_session who, pc_turn = pw_turn who,
                     pc_peer = pw_peer who, pc_tokens = int_of tokens, pc_capacity = int_of tokens, pc_state = Peer_Reserved, pc_ts = now2\<rparr>]\<rparr>)))"

definition peer_finish :: "string \<Rightarrow> jsnum \<Rightarrow> peer_db \<Rightarrow> (peer_error + unit) \<times> peer_db" where
  "peer_finish i tokens db =
    (if \<not> peer_count tokens then (Inl Invalid_Peer_Input, db)
     else (case List.find (\<lambda>r. pc_id r = i) (pd_calls db) of
             None \<Rightarrow> (Inl Invalid_Peer_Input, db)
           | Some row \<Rightarrow>
               if pc_capacity row < int_of tokens \<or> pc_state row = Peer_Cancelled \<or> pc_state row = Peer_Spent \<and> int_of tokens \<noteq> pc_tokens row
               then (Inl Invalid_Peer_Input, db)
               else (Inr (), db\<lparr>pd_calls := map (\<lambda>r. if pc_id r = i \<and> pc_state r = Peer_Reserved
                       then r\<lparr>pc_tokens := int_of tokens, pc_state := Peer_Spent\<rparr> else r) (pd_calls db)\<rparr>)))"

definition peer_cancel :: "string \<Rightarrow> peer_db \<Rightarrow> peer_db" where
  "peer_cancel i db = db\<lparr>pd_calls := map (\<lambda>r. if pc_id r = i \<and> pc_state r = Peer_Reserved then r\<lparr>pc_state := Peer_Cancelled\<rparr> else r) (pd_calls db)\<rparr>"

section \<open>Usage\<close>

text \<open>What counts against a set of keys: the live rows and the totals, by calls (\<open>fst\<close>) or by tokens (\<open>snd\<close>).\<close>

definition entries_sum :: "(int \<times> int \<Rightarrow> int) \<Rightarrow> ('k \<Rightarrow> bool) \<Rightarrow> ('k \<times> (int \<times> int)) list \<Rightarrow> int" where
  "entries_sum g P es = sum_list (map (\<lambda>(k, v). if P k then g v else 0) es)"

definition call_entries :: "peer_row list \<Rightarrow> (turn_key \<times> (int \<times> int)) list" where
  "call_entries rs = map (\<lambda>r. (row_key r, 1, pc_tokens r)) (filter row_live rs)"

definition peer_usage :: "(int \<times> int \<Rightarrow> int) \<Rightarrow> (turn_key \<Rightarrow> bool) \<Rightarrow> peer_db \<Rightarrow> int" where
  "peer_usage g P db = entries_sum g P (call_entries (pd_calls db)) + entries_sum g P (pd_totals db)"

lemma entries_sum_simps [simp]:
  "entries_sum g P [] = 0" "entries_sum g P (e # es) = (if P (fst e) then g (snd e) else 0) + entries_sum g P es"
  "entries_sum g P (es @ fs) = entries_sum g P es + entries_sum g P fs"
  by (auto simp: entries_sum_def split: prod.splits)

lemma call_entries_simps [simp]:
  "call_entries [] = []" "call_entries (r # rs) = (if row_live r then [(row_key r, 1, pc_tokens r)] else []) @ call_entries rs"
  "call_entries (rs @ qs) = call_entries rs @ call_entries qs"
  by (auto simp: call_entries_def)

lemma entries_sum_map_set:
  "distinct (map fst es) \<Longrightarrow>
    entries_sum g P (map_set k v es) = entries_sum g P es + (if P k then g v - (case map_of es k of Some v' \<Rightarrow> g v' | None \<Rightarrow> 0) else 0)"
proof (induction es)
  case Nil
  then show ?case by (simp add: map_set_def)
next
  case (Cons e es)
  show ?case
  proof (cases "fst e = k")
    case True
    have "k \<notin> fst ` set es" using Cons.prems True by auto
    then have "map (\<lambda>e. if fst e = k then (k, v) else e) es = es" by (induction es) auto
    then show ?thesis using True by (auto simp: map_set_def split: prod.splits)
  next
    case False
    then have "map_set k v (e # es) = e # map_set k v es" by (auto simp: map_set_def)
    then show ?thesis using Cons False by (cases e) auto
  qed
qed

definition adds :: "(int \<times> int \<Rightarrow> int) \<Rightarrow> bool" where
  "adds g \<longleftrightarrow> g = fst \<or> g = snd"

lemma total_add_sum: "adds g \<Longrightarrow> distinct (map fst es) \<Longrightarrow> entries_sum g P (total_add e es) = entries_sum g P es + (if P (fst e) then g (snd e) else 0)"
  by (cases e) (auto simp: total_add_def entries_sum_map_set adds_def split: option.splits prod.splits)

lemma total_add_distinct: "distinct (map fst es) \<Longrightarrow> distinct (map fst (total_add e es))"
  by (cases e) (auto simp: total_add_def map_set_distinct split: option.splits prod.splits)

lemma fold_total_add:
  "adds g \<Longrightarrow> distinct (map fst es) \<Longrightarrow> entries_sum g P (fold total_add xs es) = entries_sum g P es + entries_sum g P xs \<and> distinct (map fst (fold total_add xs es))"
  by (induction xs arbitrary: es) (auto simp: total_add_sum total_add_distinct)

lemma fold_total_distinct: "distinct (map fst es) \<Longrightarrow> distinct (map fst (fold total_add xs es))"
  by (induction xs arbitrary: es) (auto simp: total_add_distinct)

section \<open>Compaction and reading\<close>

lemma compact_usage:
  assumes "adds g" "distinct (map fst (pd_totals db))"
  shows "peer_usage g P (peer_compact now db) = peer_usage g P db" "distinct (map fst (pd_totals (peer_compact now db)))"
proof -
  let ?old = "\<lambda>r. pc_ts r < now - CALL_RETENTION_MS"
  have parts: "entries_sum g P (call_entries rs) =
      entries_sum g P (call_entries (filter (\<lambda>r. \<not> ?old r) rs)) + entries_sum g P (map (\<lambda>r. (row_key r, 1, pc_tokens r)) (filter (\<lambda>r. ?old r \<and> row_live r) rs))" for rs
    by (induction rs) auto
  show "peer_usage g P (peer_compact now db) = peer_usage g P db"
    using parts [of "pd_calls db"] fold_total_add [OF assms, of P] by (simp add: peer_usage_def peer_compact_def Let_def)
  show "distinct (map fst (pd_totals (peer_compact now db)))"
    by (simp add: peer_compact_def Let_def fold_total_distinct [OF assms(2)])
qed

lemma entries_sum_lookup:
  "distinct (map fst es) \<Longrightarrow> entries_sum g (\<lambda>k. k = x) es = (case map_of es x of Some v \<Rightarrow> g v | None \<Rightarrow> 0)"
proof (induction es)
  case (Cons e es)
  then have "map_of es (fst e) = None" by (auto simp: map_of_eq_None_iff)
  with Cons show ?case by (cases e) auto
qed simp

lemma entries_sum_all: "entries_sum g (\<lambda>_. True) es = sum_list (map (g \<circ> snd) es)"
  by (simp add: entries_sum_def case_prod_unfold comp_def)

definition key_peer :: "turn_key \<Rightarrow> string" where
  "key_peer k = snd (snd (snd k))"

lemma turn_rows_sum:
  assumes g: "adds g"
  shows "entries_sum g Q (turn_rows who db) = peer_usage g (\<lambda>k. of_turn (pw_person who) (pw_session who) (pw_turn who) k \<and> Q (key_peer k)) db"
    "distinct (map fst (turn_rows who db))"
proof -
  let ?mine = "of_turn (pw_person who) (pw_session who) (pw_turn who)"
  have "entries_sum g Q (map (\<lambda>r. (pc_peer r, 1, pc_tokens r)) (filter (\<lambda>r. ?mine (row_key r) \<and> row_live r) rs)) =
      entries_sum g (\<lambda>k. ?mine k \<and> Q (key_peer k)) (call_entries rs)" for rs
    by (induction rs) (auto simp: row_key_def key_peer_def)
  moreover have "entries_sum g Q (map (\<lambda>((_, _, _, peer), v). (peer, v)) (filter (\<lambda>(k, v). ?mine k) es)) = entries_sum g (\<lambda>k. ?mine k \<and> Q (key_peer k)) es" for es
    by (induction es) (auto simp: key_peer_def)
  ultimately show "entries_sum g Q (turn_rows who db) = peer_usage g (\<lambda>k. ?mine k \<and> Q (key_peer k)) db"
    using fold_total_add [OF g, of "[]" Q] by (simp add: turn_rows_def peer_usage_def Let_def del: fold_append)
  show "distinct (map fst (turn_rows who db))" by (simp add: turn_rows_def Let_def fold_total_distinct)
qed

lemma turn_rows_usage:
  assumes g: "adds g"
  shows "(case map_of (turn_rows who db) (pw_peer who) of Some v \<Rightarrow> g v | None \<Rightarrow> 0) =
      peer_usage g (\<lambda>k. k = (pw_person who, pw_session who, pw_turn who, pw_peer who)) db"
    "sum_list (map (g \<circ> snd) (turn_rows who db)) = peer_usage g (of_turn (pw_person who) (pw_session who) (pw_turn who)) db"
proof -
  have "(\<lambda>k. of_turn p s t k \<and> key_peer k = q) = (\<lambda>k. k = (p, s, t, q))" for p s t q
    by (auto simp: of_turn_def key_peer_def fun_eq_iff)
  then show "(case map_of (turn_rows who db) (pw_peer who) of Some v \<Rightarrow> g v | None \<Rightarrow> 0) =
      peer_usage g (\<lambda>k. k = (pw_person who, pw_session who, pw_turn who, pw_peer who)) db"
    using turn_rows_sum(1) [OF g, of "\<lambda>q. q = pw_peer who"] entries_sum_lookup [OF turn_rows_sum(2) [OF g]] by simp
  show "sum_list (map (g \<circ> snd) (turn_rows who db)) = peer_usage g (of_turn (pw_person who) (pw_session who) (pw_turn who)) db"
    using turn_rows_sum(1) [OF g, of "\<lambda>_. True" who db] by (simp add: entries_sum_all)
qed

section \<open>No turn passes its ceilings\<close>

definition row_ok :: "peer_row \<Rightarrow> bool" where
  "row_ok r \<longleftrightarrow> 0 \<le> pc_tokens r \<and> pc_tokens r \<le> pc_capacity r \<and> (pc_state r = Peer_Reserved \<longrightarrow> pc_tokens r = pc_capacity r)"

definition peer_inv :: "peer_db \<Rightarrow> bool" where
  "peer_inv db \<longleftrightarrow> distinct (map pc_id (pd_calls db)) \<and> distinct (map fst (pd_totals db)) \<and> list_all row_ok (pd_calls db)"

text \<open>The four ceilings: calls and tokens of a peer within a turn, calls and tokens of the turn.\<close>

type_synonym ceilings = "int \<times> int \<times> int \<times> int"

definition under :: "ceilings \<Rightarrow> peer_db \<Rightarrow> bool" where
  "under l db = (case l of (pc, tc, pt, tt) \<Rightarrow>
     (\<forall>k. peer_usage fst (\<lambda>k'. k' = k) db \<le> pc \<and> peer_usage snd (\<lambda>k'. k' = k) db \<le> pt) \<and>
     (\<forall>p s t. peer_usage fst (of_turn p s t) db \<le> tc \<and> peer_usage snd (of_turn p s t) db \<le> tt))"

lemma adds_simps [simp]: "adds fst" "adds snd"
  by (simp_all add: adds_def)

lemma compact_inv: "peer_inv db \<Longrightarrow> peer_inv (peer_compact now db)"
  using compact_usage(2) [of fst db now]
  by (auto simp: peer_inv_def peer_compact_def Let_def distinct_map_filter list_all_iff)

lemma compact_under: "peer_inv db \<Longrightarrow> under l (peer_compact now db) \<longleftrightarrow> under l db"
  by (simp add: under_def compact_usage(1) peer_inv_def)

text \<open>Rows that only shrink use no more.\<close>

lemma usage_shrinks:
  assumes "\<And>r. r \<in> set rs \<Longrightarrow> row_live (f r) \<Longrightarrow> row_live r \<and> row_key (f r) = row_key r \<and> pc_tokens (f r) \<le> pc_tokens r"
    and "list_all row_ok rs" "adds g"
  shows "entries_sum g P (call_entries (map f rs)) \<le> entries_sum g P (call_entries rs)"
  using assms
proof (induction rs)
  case (Cons r rs)
  have "entries_sum g P (call_entries (map f rs)) \<le> entries_sum g P (call_entries rs)" using Cons by auto
  moreover have "0 \<le> pc_tokens r" using Cons.prems(2) by (simp add: row_ok_def)
  moreover have "row_live (f r) \<longrightarrow> row_live r \<and> row_key (f r) = row_key r \<and> pc_tokens (f r) \<le> pc_tokens r" using Cons.prems(1) by simp
  ultimately show ?case using Cons.prems(3) by (auto simp: adds_def)
qed simp

lemma under_mono:
  assumes "under l db" "\<And>g P. adds g \<Longrightarrow> peer_usage g P db' \<le> peer_usage g P db"
  shows "under l db'"
proof -
  obtain pc tc pt tt where l: "l = (pc, tc, pt, tt)" by (cases l) auto
  show ?thesis using assms unfolding l under_def prod.case by (meson adds_simps order_trans)
qed

lemma ids_kept: "(\<And>r. pc_id (f r) = pc_id r) \<Longrightarrow> map pc_id (map f rs) = map pc_id rs"
  by (induction rs) auto

lemma inv_upd:
  assumes "peer_inv db" "\<And>r. pc_id (f r) = pc_id r" "\<And>r. r \<in> set (pd_calls db) \<Longrightarrow> row_ok r \<Longrightarrow> row_ok (f r)"
  shows "peer_inv (db\<lparr>pd_calls := map f (pd_calls db)\<rparr>)"
  using assms ids_kept [of f "pd_calls db", OF assms(2)] by (simp add: peer_inv_def list_all_iff del: map_map)

lemma peer_count_nonneg: "peer_count n \<Longrightarrow> 0 \<le> int_of n"
  by (auto simp: peer_count_def int_of_def zero_jsnum_def is_safe_integer_def split: jsnum.splits)

lemma cancel_keeps:
  assumes "peer_inv db" "under l db"
  shows "peer_inv (peer_cancel i db)" "under l (peer_cancel i db)"
proof -
  show "peer_inv (peer_cancel i db)" unfolding peer_cancel_def by (rule inv_upd [OF assms(1)]) (auto simp: row_ok_def)
  show "under l (peer_cancel i db)"
    by (rule under_mono [OF assms(2)])
      (use assms(1) in \<open>auto simp: peer_usage_def peer_cancel_def peer_inv_def row_live_def row_key_def intro!: usage_shrinks split: if_splits\<close>)
qed

lemma find_by_id: "distinct (map pc_id rs) \<Longrightarrow> List.find (\<lambda>r. pc_id r = i) rs = Some row \<Longrightarrow> r \<in> set rs \<Longrightarrow> pc_id r = i \<Longrightarrow> r = row"
  by (induction rs) (auto split: if_splits dest: find_SomeD)

lemma finish_keeps:
  assumes inv: "peer_inv db" and under: "under l db"
  shows "peer_inv (snd (peer_finish i n db))" "under l (snd (peer_finish i n db))"
proof -
  have "peer_inv (snd (peer_finish i n db)) \<and> under l (snd (peer_finish i n db))"
  proof (cases "snd (peer_finish i n db) = db")
    case False
    then obtain row where row: "List.find (\<lambda>r. pc_id r = i) (pd_calls db) = Some row" and cap: "int_of n \<le> pc_capacity row" and n: "peer_count n"
      and db': "snd (peer_finish i n db) = db\<lparr>pd_calls := map (\<lambda>r. if pc_id r = i \<and> pc_state r = Peer_Reserved
        then r\<lparr>pc_tokens := int_of n, pc_state := Peer_Spent\<rparr> else r) (pd_calls db)\<rparr>"
      by (auto simp: peer_finish_def split: if_splits option.splits)
    have n0: "0 \<le> int_of n" by (rule peer_count_nonneg [OF n])
    have "int_of n \<le> pc_tokens r \<and> int_of n \<le> pc_capacity r" if "r \<in> set (pd_calls db)" "pc_id r = i" "pc_state r = Peer_Reserved" for r
      using find_by_id [OF _ row that(1,2)] inv cap that by (auto simp: peer_inv_def row_ok_def list_all_iff)
    note less = this
    have "peer_inv (snd (peer_finish i n db))" unfolding db' using less n0 by (intro inv_upd [OF inv]) (auto simp: row_ok_def)
    moreover have "peer_usage g P (snd (peer_finish i n db)) \<le> peer_usage g P db" if "adds g" for g P
    proof -
      let ?f = "\<lambda>r. if pc_id r = i \<and> pc_state r = Peer_Reserved then r\<lparr>pc_tokens := int_of n, pc_state := Peer_Spent\<rparr> else r"
      have "entries_sum g P (call_entries (map ?f (pd_calls db))) \<le> entries_sum g P (call_entries (pd_calls db))"
        using less inv that by (intro usage_shrinks) (auto simp: peer_inv_def row_live_def row_key_def split: if_splits)
      then show ?thesis by (simp add: peer_usage_def db')
    qed
    ultimately show ?thesis using under_mono [OF under] by blast
  qed (use assms in simp)
  then show "peer_inv (snd (peer_finish i n db))" "under l (snd (peer_finish i n db))" by auto
qed

lemma reserve_cases:
  assumes "peer_reserve newId now now2 who tokens limits db = (res, db')" "peer_inv db"
  shows "db' = db \<or> db' = peer_compact now db \<or>
    (\<exists>row. db' = (peer_compact now db)\<lparr>pd_calls := pd_calls (peer_compact now db) @ [row]\<rparr> \<and>
       row_key row = (pw_person who, pw_session who, pw_turn who, pw_peer who) \<and> row_live row \<and> row_ok row \<and>
       pc_id row \<notin> set (map pc_id (pd_calls (peer_compact now db))) \<and>
       peer_usage fst (\<lambda>k. k = row_key row) db + 1 \<le> int_of (pl_peerCalls limits) \<and>
       peer_usage fst (of_turn (pw_person who) (pw_session who) (pw_turn who)) db + 1 \<le> int_of (pl_turnCalls limits) \<and>
       peer_usage snd (\<lambda>k. k = row_key row) db + pc_tokens row \<le> int_of (pl_peerTokens limits) \<and>
       peer_usage snd (of_turn (pw_person who) (pw_session who) (pw_turn who)) db + pc_tokens row \<le> int_of (pl_turnTokens limits))"
proof -
  let ?db = "peer_compact now db"
  let ?row = "\<lparr>pc_id = newId, pc_person = pw_person who, pc_agent = pw_agent who, pc_session = pw_session who, pc_turn = pw_turn who,
    pc_peer = pw_peer who, pc_tokens = int_of tokens, pc_capacity = int_of tokens, pc_state = Peer_Reserved, pc_ts = now2\<rparr>"
  obtain calls toks where v: "(case map_of (turn_rows who ?db) (pw_peer who) of Some v \<Rightarrow> v | None \<Rightarrow> (0, 0)) = (calls, toks)"
    by (cases "case map_of (turn_rows who ?db) (pw_peer who) of Some v \<Rightarrow> v | None \<Rightarrow> (0, 0)") auto
  have d: "distinct (map fst (pd_totals db))" using assms(2) by (simp add: peer_inv_def)
  have peer: "calls = peer_usage fst (\<lambda>k. k = row_key ?row) db" "toks = peer_usage snd (\<lambda>k. k = row_key ?row) db"
    using turn_rows_usage(1) [of fst who ?db] turn_rows_usage(1) [of snd who ?db] v compact_usage(1) [OF _ d]
    by (auto simp: row_key_def split: option.splits)
  have turn: "sum_list (map (fst \<circ> snd) (turn_rows who ?db)) = peer_usage fst (of_turn (pw_person who) (pw_session who) (pw_turn who)) db"
    "sum_list (map (snd \<circ> snd) (turn_rows who ?db)) = peer_usage snd (of_turn (pw_person who) (pw_session who) (pw_turn who)) db"
    using turn_rows_usage(2) [of fst who ?db] turn_rows_usage(2) [of snd who ?db] compact_usage(1) [OF _ d] by auto
  consider "db' = db" | "db' = ?db" |
    "peer_count tokens" "db' = ?db\<lparr>pd_calls := pd_calls ?db @ [?row]\<rparr>" "newId \<notin> set (map pc_id (pd_calls ?db))"
    "calls < int_of (pl_peerCalls limits)" "sum_list (map (fst \<circ> snd) (turn_rows who ?db)) < int_of (pl_turnCalls limits)"
    "toks + int_of tokens \<le> int_of (pl_peerTokens limits)" "sum_list (map (snd \<circ> snd) (turn_rows who ?db)) + int_of tokens \<le> int_of (pl_turnTokens limits)"
    using assms(1) unfolding peer_reserve_def Let_def v prod.case by (auto simp: not_le not_less split: if_splits)
  then show ?thesis
  proof cases
    case 3
    have "row_ok ?row" "row_live ?row" using peer_count_nonneg [OF 3(1)] by (simp_all add: row_ok_def row_live_def)
    moreover have "row_key ?row = (pw_person who, pw_session who, pw_turn who, pw_peer who)" by (simp add: row_key_def)
    ultimately show ?thesis using 3 unfolding peer turn by (intro disjI2 exI [of _ ?row]) simp
  qed blast+
qed

lemma usage_add_row:
  "row_live row \<Longrightarrow> peer_usage g P (db\<lparr>pd_calls := pd_calls db @ [row]\<rparr>) = peer_usage g P db + (if P (row_key row) then g (1, pc_tokens row) else 0)"
  by (simp add: peer_usage_def)

definition limits_under :: "ceilings \<Rightarrow> peer_limits \<Rightarrow> bool" where
  "limits_under l limits = (case l of (pc, tc, pt, tt) \<Rightarrow>
     int_of (pl_peerCalls limits) \<le> pc \<and> int_of (pl_turnCalls limits) \<le> tc \<and> int_of (pl_peerTokens limits) \<le> pt \<and> int_of (pl_turnTokens limits) \<le> tt)"

lemma reserve_keeps:
  assumes inv: "peer_inv db" and under: "under l db" and lim: "limits_under l limits"
  shows "peer_inv (snd (peer_reserve i now now2 who n limits db))" "under l (snd (peer_reserve i now now2 who n limits db))"
proof -
  obtain res db' where r: "peer_reserve i now now2 who n limits db = (res, db')" by (cases "peer_reserve i now now2 who n limits db") auto
  let ?db = "peer_compact now db"
  note ci = compact_inv [OF inv, of now] and cu = compact_under [OF inv, of l now]
  have d: "distinct (map fst (pd_totals db))" using inv by (simp add: peer_inv_def)
  have "peer_inv db' \<and> under l db'"
    using reserve_cases [OF r inv]
  proof (elim disjE exE conjE)
    fix row assume row: "db' = ?db\<lparr>pd_calls := pd_calls ?db @ [row]\<rparr>" "row_key row = (pw_person who, pw_session who, pw_turn who, pw_peer who)"
      "row_live row" "row_ok row" "pc_id row \<notin> set (map pc_id (pd_calls ?db))"
      and fits: "peer_usage fst (\<lambda>k. k = row_key row) db + 1 \<le> int_of (pl_peerCalls limits)"
      "peer_usage fst (of_turn (pw_person who) (pw_session who) (pw_turn who)) db + 1 \<le> int_of (pl_turnCalls limits)"
      "peer_usage snd (\<lambda>k. k = row_key row) db + pc_tokens row \<le> int_of (pl_peerTokens limits)"
      "peer_usage snd (of_turn (pw_person who) (pw_session who) (pw_turn who)) db + pc_tokens row \<le> int_of (pl_turnTokens limits)"
    have "peer_inv db'" using ci row(4,5) unfolding row(1) by (simp add: peer_inv_def)
    moreover have usage: "peer_usage g P db' = peer_usage g P db + (if P (row_key row) then g (1, pc_tokens row) else 0)" if "adds g" for g P
      using usage_add_row [OF row(3), of g P ?db] compact_usage(1) [OF that d] by (simp add: row(1))
    obtain pc tc pt tt where l: "l = (pc, tc, pt, tt)" by (cases l) auto
    note lims = lim [unfolded limits_under_def l prod.case] and old = under [unfolded under_def l prod.case]
    have "under l db'" unfolding l under_def prod.case
    proof (intro conjI allI)
      fix k
      have o: "peer_usage fst (\<lambda>k'. k' = k) db \<le> pc" "peer_usage snd (\<lambda>k'. k' = k) db \<le> pt" using old by blast+
      show "peer_usage fst (\<lambda>k'. k' = k) db' \<le> pc" "peer_usage snd (\<lambda>k'. k' = k) db' \<le> pt"
      proof (atomize (full), cases "k = row_key row")
        case True
        then show "peer_usage fst (\<lambda>k'. k' = k) db' \<le> pc \<and> peer_usage snd (\<lambda>k'. k' = k) db' \<le> pt"
          using fits(1,3) lims unfolding usage [OF adds_simps(1)] usage [OF adds_simps(2)] by auto
      next
        case False
        then show "peer_usage fst (\<lambda>k'. k' = k) db' \<le> pc \<and> peer_usage snd (\<lambda>k'. k' = k) db' \<le> pt"
          using o unfolding usage [OF adds_simps(1)] usage [OF adds_simps(2)] by auto
      qed
    next
      fix p s t
      have "of_turn p s t (row_key row) \<longleftrightarrow> p = pw_person who \<and> s = pw_session who \<and> t = pw_turn who" by (auto simp: of_turn_def row(2))
      moreover have "peer_usage fst (of_turn p s t) db \<le> tc" "peer_usage snd (of_turn p s t) db \<le> tt" using old by blast+
      ultimately show "peer_usage fst (of_turn p s t) db' \<le> tc" "peer_usage snd (of_turn p s t) db' \<le> tt"
        using lims fits(2,4) unfolding usage [OF adds_simps(1)] usage [OF adds_simps(2)] by auto
    qed
    ultimately show ?thesis by simp
  qed (use inv under ci cu in auto)
  then show "peer_inv (snd (peer_reserve i now now2 who n limits db))" "under l (snd (peer_reserve i now now2 who n limits db))" by (simp_all add: r)
qed

text \<open>A run: the store is opened again at any time, and calls are reserved, finished and cancelled.\<close>

datatype peer_op =
    Peer_Do_Open int
  | Peer_Do_Reserve string int int peer_who jsnum peer_limits
  | Peer_Do_Finish string jsnum
  | Peer_Do_Cancel string

fun peer_step :: "peer_op \<Rightarrow> peer_db \<Rightarrow> peer_db" where
  "peer_step (Peer_Do_Open now) db = peer_open now db"
| "peer_step (Peer_Do_Reserve i now now2 who n limits) db = snd (peer_reserve i now now2 who n limits db)"
| "peer_step (Peer_Do_Finish i n) db = snd (peer_finish i n db)"
| "peer_step (Peer_Do_Cancel i) db = peer_cancel i db"

fun op_under :: "ceilings \<Rightarrow> peer_op \<Rightarrow> bool" where
  "op_under l (Peer_Do_Reserve i now now2 who n limits) = limits_under l limits"
| "op_under l _ = True"

definition empty_peer_db :: peer_db where
  "empty_peer_db = \<lparr>pd_calls = [], pd_totals = []\<rparr>"

lemma peer_step_keeps: "peer_inv db \<Longrightarrow> under l db \<Longrightarrow> op_under l p \<Longrightarrow> peer_inv (peer_step p db) \<and> under l (peer_step p db)"
  by (cases p) (auto simp: peer_open_def compact_inv compact_under reserve_keeps finish_keeps cancel_keeps)

lemma peer_run_keeps: "peer_inv db \<Longrightarrow> under l db \<Longrightarrow> list_all (op_under l) ps \<Longrightarrow> peer_inv (fold peer_step ps db) \<and> under l (fold peer_step ps db)"
  by (induction ps arbitrary: db) (auto simp: peer_step_keeps)


definition sample_who :: peer_who where
  "sample_who = \<lparr>pw_person = ''ada'', pw_agent = ''planner'', pw_session = ''s1'', pw_turn = ''t1'', pw_peer = ''b''\<rparr>"

definition sample_limits :: peer_limits where
  "sample_limits = \<lparr>pl_peerCalls = Fin 2, pl_turnCalls = Fin 3, pl_peerTokens = Fin 100, pl_turnTokens = Fin 150\<rparr>"

definition sample_ops :: "peer_op list" where
  "sample_ops = [Peer_Do_Reserve ''1'' 0 0 sample_who (Fin 60) sample_limits, Peer_Do_Finish ''1'' (Fin 50), Peer_Do_Open 9000000000,
     Peer_Do_Reserve ''2'' 9000000000 9000000000 sample_who (Fin 50) sample_limits, Peer_Do_Reserve ''3'' 9000000001 9000000001 sample_who (Fin 1) sample_limits]"


end
