(* ===== verification/Call_Budget.thy ===== *)
theory Call_Budget
  imports Budget_Period Peer_Budget Policy_Decide
begin

text \<open>
  The budget port before every provider call, \<^verbatim>\<open>packages/core/src/budget/calls.ts\<close>, with the weight of cache reads from
  \<^verbatim>\<open>packages/core/src/budget/cache-read-weight.ts\<close>: limits per scope, period and metric, reservations, settlement and expiry. An operation
  returns its result, the database it leaves and the events it emits; one that raises leaves the database as it was and emits nothing.
  Requests are records, so the checks for unknown properties hold by construction. The stored weight is the number that its text prints. An operation reads
  the clock once.
\<close>

section \<open>Tables\<close>

datatype metric = M_Tokens | M_Images | M_VideoSeconds

datatype call_scope = Sc_Global | Sc_User | Sc_Project | Sc_Agent | Sc_Turn | Sc_Session

record amounts =
  am_tokens :: int
  am_images :: int
  am_video :: int

definition amount :: "amounts \<Rightarrow> metric \<Rightarrow> int" where
  "amount a m = (case m of M_Tokens \<Rightarrow> am_tokens a | M_Images \<Rightarrow> am_images a | M_VideoSeconds \<Rightarrow> am_video a)"

record call_row =
  bc_id :: string
  bc_principal :: string
  bc_project :: string
  bc_agent :: string
  bc_model :: string
  bc_provider :: string
  bc_turn :: string
  bc_session :: string
  bc_ts :: int
  bc_amounts :: amounts
  bc_settled :: bool

text \<open>A limit of this port, and one of the budget service, where either bound may be missing. A metric that is no longer known is \<open>None\<close>.\<close>

record call_limit =
  cl_scope :: call_scope
  cl_id :: string
  cl_period :: call_period
  cl_metric :: metric
  cl_hard :: "int option"
  cl_soft :: int

record own_limit =
  ol_scope :: call_scope
  ol_id :: string
  ol_period :: call_period
  ol_metric :: "metric option"
  ol_hard :: int
  ol_soft :: int

record service_limit =
  sv_agent :: "string option"
  sv_period :: call_period
  sv_metric :: "metric option"
  sv_hard :: "int option"
  sv_soft :: "int option"

record usage_event =
  ue_ts :: int
  ue_agent :: string
  ue_provider :: string
  ue_model :: string
  ue_input :: int
  ue_output :: int
  ue_cacheRead :: int
  ue_cacheWrite :: int
  ue_requestId :: "string option"
  ue_images :: int
  ue_video :: int

type_synonym notice_key = "call_scope \<times> string \<times> call_period \<times> metric \<times> string"

record call_db =
  cd_calls :: "call_row list"
  cd_own :: "own_limit list"
  cd_service :: "service_limit list"
  cd_events :: "usage_event list"
  cd_notices :: "notice_key list"
  cd_timezone :: "string option"
  cd_weight :: "jsnum option"

record call_env =
  cv_zones :: date_zones
  cv_defaultZone :: string
  cv_ttl :: int

datatype call_error = Bad_Input | Bad_Zone | Constraint | Usage_Pending string | Exceeded

record call_refusal =
  rf_scope :: call_scope
  rf_id :: string
  rf_metric :: metric
  rf_limit :: int
  rf_used :: int
  rf_estimate :: int
  rf_resetsAt :: int

datatype call_decision = Call_Allow string int | Call_Refuse call_refusal

datatype call_event =
    Ev_Warn call_scope string metric int int
  | Ev_Refuse call_refusal
  | Ev_Reserve string amounts
  | Ev_Settle string amounts "call_refusal list"
  | Ev_Release string
  | Ev_Expire string amounts int

section \<open>Checks and weights\<close>

definition id_char :: "char \<Rightarrow> bool" where
  "id_char c \<longleftrightarrow> is_letter c \<or> digit_in 10 c \<or> c \<in> set ''._:/@+=-''"

definition id_ok :: "string \<Rightarrow> bool" where
  "id_ok v \<longleftrightarrow> v \<noteq> [] \<and> (is_letter (hd v) \<or> digit_in 10 (hd v)) \<and> list_all id_char (tl v) \<and> length v \<le> 128"

definition count_ok :: "int \<Rightarrow> bool" where
  "count_ok n \<longleftrightarrow> 0 \<le> n \<and> n \<le> max_safe_integer"

definition opt_count :: "jsnum option \<Rightarrow> jsnum" where
  "opt_count v = (case v of Some n \<Rightarrow> n | None \<Rightarrow> Fin 0)"

definition MICROS :: int where
  "MICROS = 1000000"

definition js_round :: "rat \<Rightarrow> int" where
  "js_round q = \<lfloor>q + 1 / 2\<rfloor>"

definition validateCacheReadWeight :: "jsnum \<Rightarrow> rat option" where
  "validateCacheReadWeight w = (case w of
     Fin q \<Rightarrow> if q < 0 \<or> 1 < q then None else Some (of_int (js_round (q * of_int MICROS)) / of_int MICROS)
   | _ \<Rightarrow> None)"

definition storedCacheReadWeight :: "call_db \<Rightarrow> rat" where
  "storedCacheReadWeight db =
    (case cd_weight db of Some w \<Rightarrow> (case validateCacheReadWeight w of Some v \<Rightarrow> v | None \<Rightarrow> 1) | None \<Rightarrow> 1)"

definition countedTokens :: "int \<Rightarrow> int \<Rightarrow> rat \<Rightarrow> int" where
  "countedTokens inputOutput cacheReads weight =
    (let micros = js_round (weight * of_int MICROS);
         kept = (cacheReads * micros + (MICROS - 1)) div MICROS
     in inputOutput - cacheReads + kept)"

definition event_reads :: "usage_event \<Rightarrow> int" where
  "event_reads e = min (ue_cacheRead e) (ue_input e)"

section \<open>Limits and usage\<close>

definition column :: "call_scope \<Rightarrow> call_row \<Rightarrow> string" where
  "column sc r = (case sc of
     Sc_Global \<Rightarrow> [] | Sc_User \<Rightarrow> bc_principal r | Sc_Project \<Rightarrow> bc_project r | Sc_Agent \<Rightarrow> bc_agent r
   | Sc_Turn \<Rightarrow> bc_turn r | Sc_Session \<Rightarrow> bc_session r)"

definition applies :: "metric \<Rightarrow> amounts \<Rightarrow> bool" where
  "applies m a \<longleftrightarrow> m = M_Tokens \<or> 0 < amount a m"

definition own_to_limit :: "own_limit \<Rightarrow> call_limit option" where
  "own_to_limit l = map_option (\<lambda>m. \<lparr>cl_scope = ol_scope l, cl_id = ol_id l, cl_period = ol_period l, cl_metric = m,
     cl_hard = Some (ol_hard l), cl_soft = ol_soft l\<rparr>) (ol_metric l)"

definition default_soft :: "int \<Rightarrow> int" where
  "default_soft h = h * 8 div 10"

definition service_to_limit :: "service_limit \<Rightarrow> call_limit option" where
  "service_to_limit l = map_option (\<lambda>m.
     \<lparr>cl_scope = (if sv_agent l = None then Sc_Global else Sc_Agent), cl_id = (case sv_agent l of Some a \<Rightarrow> a | None \<Rightarrow> []), cl_period = sv_period l,
      cl_metric = m, cl_hard = sv_hard l,
      cl_soft = (case sv_soft l of Some s \<Rightarrow> s | None \<Rightarrow> default_soft (case sv_hard l of Some h \<Rightarrow> h | None \<Rightarrow> 0))\<rparr>) (sv_metric l)"

definition covers_row :: "call_limit \<Rightarrow> call_row \<Rightarrow> bool" where
  "covers_row l r \<longleftrightarrow> cl_scope l = Sc_Global \<or> column (cl_scope l) r \<noteq> [] \<and> column (cl_scope l) r = cl_id l"

definition call_limits :: "call_row \<Rightarrow> amounts \<Rightarrow> call_db \<Rightarrow> call_limit list" where
  "call_limits r a db =
    filter (\<lambda>l. covers_row l r)
      (filter (\<lambda>l. applies (cl_metric l) a) (List.map_filter own_to_limit (cd_own db) @ List.map_filter service_to_limit (cd_service db)))"

definition in_scope :: "call_limit \<Rightarrow> call_row \<Rightarrow> bool" where
  "in_scope l r \<longleftrightarrow> cl_scope l = Sc_Global \<or> column (cl_scope l) r = cl_id l"

definition event_amount :: "metric \<Rightarrow> usage_event \<Rightarrow> int" where
  "event_amount m e = (case m of M_Tokens \<Rightarrow> ue_input e + ue_output e | M_Images \<Rightarrow> ue_images e | M_VideoSeconds \<Rightarrow> ue_video e)"

definition LEDGER_PREFIX :: string where
  "LEDGER_PREFIX = ''budget-call:''"

definition call_reads :: "call_db \<Rightarrow> call_row \<Rightarrow> int" where
  "call_reads db r =
    (case List.find (\<lambda>e. ue_requestId e = Some (LEDGER_PREFIX @ bc_id r)) (cd_events db) of Some e \<Rightarrow> event_reads e | None \<Rightarrow> 0)"

definition zone :: "call_env \<Rightarrow> call_db \<Rightarrow> period_error + string" where
  "zone env db = validateTimeZone (cv_zones env) (case cd_timezone db of Some tz \<Rightarrow> tz | None \<Rightarrow> cv_defaultZone env)"

text \<open>The stretch of time that a limit counts, the key of its notices and when it resets.\<close>

definition limit_span :: "call_env \<Rightarrow> call_limit \<Rightarrow> int \<Rightarrow> call_db \<Rightarrow> call_error + (int \<times> int \<times> string)" where
  "limit_span env l ts db =
    (if cl_scope l = Sc_Turn \<or> cl_scope l = Sc_Session then Inr (0, 8640000000000000, cl_id l)
     else (case zone env db of
             Inl _ \<Rightarrow> Inl Bad_Zone
           | Inr tz \<Rightarrow> (case periodBounds (cv_zones env) (Fin (of_int ts)) tz (cl_period l) of
                          Inl _ \<Rightarrow> Inl Bad_Zone
                        | Inr b \<Rightarrow> Inr (pb_start b, pb_end b, pb_key b))))"

definition reserved_sum :: "call_env \<Rightarrow> call_limit \<Rightarrow> int \<Rightarrow> call_db \<Rightarrow> int" where
  "reserved_sum env l now db =
    sum_list (map (\<lambda>r. amount (bc_amounts r) (cl_metric l))
      (filter (\<lambda>r. \<not> bc_settled r \<and> now - cv_ttl env \<le> bc_ts r \<and> in_scope l r) (cd_calls db)))"

definition settled_sums :: "call_limit \<Rightarrow> int \<Rightarrow> int \<Rightarrow> bool \<Rightarrow> call_db \<Rightarrow> int \<times> int" where
  "settled_sums l start stop weighted db =
    (if cl_scope l = Sc_Global \<or> cl_scope l = Sc_Agent then
       (let es = filter (\<lambda>e. start \<le> ue_ts e \<and> ue_ts e < stop \<and> (cl_scope l = Sc_Agent \<longrightarrow> ue_agent e = cl_id l)) (cd_events db)
        in (sum_list (map (event_amount (cl_metric l)) es), if weighted then sum_list (map event_reads es) else 0))
     else
       (let rs = filter (\<lambda>r. bc_settled r \<and> start \<le> bc_ts r \<and> bc_ts r < stop \<and> in_scope l r) (cd_calls db)
        in (sum_list (map (\<lambda>r. amount (bc_amounts r) (cl_metric l)) rs), if weighted then sum_list (map (call_reads db) rs) else 0)))"

definition limit_used :: "call_env \<Rightarrow> call_limit \<Rightarrow> int \<Rightarrow> int \<Rightarrow> int \<Rightarrow> call_db \<Rightarrow> int" where
  "limit_used env l now start stop db =
    (let weight = (if cl_metric l = M_Tokens then storedCacheReadWeight db else 1);
         (n, reads) = settled_sums l start stop (weight < 1) db
     in reserved_sum env l now db + (if cl_metric l = M_Tokens then countedTokens n reads weight else n))"

definition usage :: "call_env \<Rightarrow> call_limit \<Rightarrow> int \<Rightarrow> int \<Rightarrow> call_db \<Rightarrow> call_error + (int \<times> string \<times> int)" where
  "usage env l ts now db =
    (case limit_span env l ts db of
       Inl e \<Rightarrow> Inl e
     | Inr (start, stop, key) \<Rightarrow>
         (let used = limit_used env l now start stop db in
          if count_ok used then Inr (used, key, stop) else Inl Bad_Input))"

fun collect_breaches :: "call_env \<Rightarrow> amounts option \<Rightarrow> int \<Rightarrow> int \<Rightarrow> call_db \<Rightarrow> call_limit list \<Rightarrow> call_error + call_refusal list" where
  "collect_breaches env add ts now db [] = Inr []"
| "collect_breaches env add ts now db (l # ls) =
     (case cl_hard l of
        None \<Rightarrow> collect_breaches env add ts now db ls
      | Some h \<Rightarrow>
          (case usage env l ts now db of
             Inl e \<Rightarrow> Inl e
           | Inr (used, key, stop) \<Rightarrow>
               (let n = (case add of Some a \<Rightarrow> amount a (cl_metric l) | None \<Rightarrow> 0) in
                case collect_breaches env add ts now db ls of
                  Inl e \<Rightarrow> Inl e
                | Inr found \<Rightarrow>
                    Inr (if n \<le> h - used then found
                         else \<lparr>rf_scope = cl_scope l, rf_id = cl_id l, rf_metric = cl_metric l, rf_limit = h, rf_used = used, rf_estimate = n,
                               rf_resetsAt = stop\<rparr> # found))))"

definition breaches :: "call_env \<Rightarrow> call_row \<Rightarrow> amounts \<Rightarrow> amounts option \<Rightarrow> int \<Rightarrow> int \<Rightarrow> call_db \<Rightarrow> call_error + call_refusal list" where
  "breaches env r uses add ts now db =
    (case collect_breaches env add ts now db (call_limits r uses db) of
       Inl e \<Rightarrow> Inl e
     | Inr found \<Rightarrow> Inr (sort_key (\<lambda>b. rf_limit b - rf_used b) found))"

fun collect_warnings :: "call_env \<Rightarrow> amounts option \<Rightarrow> int \<Rightarrow> int \<Rightarrow> call_limit list \<Rightarrow> call_db \<Rightarrow> call_event list \<Rightarrow> call_error + (call_db \<times> call_event list)" where
  "collect_warnings env add ts now [] db evs = Inr (db, evs)"
| "collect_warnings env add ts now (l # ls) db evs =
     (case usage env l ts now db of
        Inl e \<Rightarrow> Inl e
      | Inr (used, key, stop) \<Rightarrow>
          (let n = (case add of Some a \<Rightarrow> amount a (cl_metric l) | None \<Rightarrow> 0);
               nk = (cl_scope l, cl_id l, cl_period l, cl_metric l, key)
           in if cl_soft l \<le> used + n \<and> nk \<notin> set (cd_notices db)
              then collect_warnings env add ts now ls (db\<lparr>cd_notices := cd_notices db @ [nk]\<rparr>)
                     (evs @ [Ev_Warn (cl_scope l) (cl_id l) (cl_metric l) (used + n) (cl_soft l)])
              else collect_warnings env add ts now ls db evs))"

definition warnings :: "call_env \<Rightarrow> call_row \<Rightarrow> amounts \<Rightarrow> amounts option \<Rightarrow> int \<Rightarrow> int \<Rightarrow> call_db \<Rightarrow> call_event list \<Rightarrow> call_error + (call_db \<times> call_event list)" where
  "warnings env r uses add ts now db evs = collect_warnings env add ts now (call_limits r uses db) db evs"

section \<open>Operations\<close>

record call_request =
  rq_principal :: string
  rq_agent :: string
  rq_project :: string
  rq_model :: string
  rq_provider :: "string option"
  rq_estimatedInputTokens :: jsnum
  rq_maxOutputTokens :: jsnum
  rq_images :: "jsnum option"
  rq_videoSeconds :: "jsnum option"
  rq_turn :: "string option"
  rq_session :: "string option"

definition or_empty :: "string option \<Rightarrow> string" where
  "or_empty v = (case v of Some s \<Rightarrow> s | None \<Rightarrow> [])"

definition opt_id_ok :: "string option \<Rightarrow> bool" where
  "opt_id_ok v = (case v of Some s \<Rightarrow> id_ok s | None \<Rightarrow> True)"

definition request_ok :: "call_request \<Rightarrow> int \<Rightarrow> bool" where
  "request_ok rq now \<longleftrightarrow>
     list_all id_ok [rq_principal rq, rq_agent rq, rq_project rq, rq_model rq] \<and>
     list_all opt_id_ok [rq_provider rq, rq_turn rq, rq_session rq] \<and> count_ok now \<and>
     list_all peer_count [rq_estimatedInputTokens rq, rq_maxOutputTokens rq, opt_count (rq_images rq), opt_count (rq_videoSeconds rq)] \<and>
     count_ok (int_of (rq_estimatedInputTokens rq) + int_of (rq_maxOutputTokens rq))"

definition call_row_of :: "string \<Rightarrow> call_request \<Rightarrow> int \<Rightarrow> call_row" where
  "call_row_of newId rq now =
    \<lparr>bc_id = newId, bc_principal = rq_principal rq, bc_project = rq_project rq, bc_agent = rq_agent rq, bc_model = rq_model rq,
     bc_provider = or_empty (rq_provider rq), bc_turn = or_empty (rq_turn rq), bc_session = or_empty (rq_session rq), bc_ts = now,
     bc_amounts = \<lparr>am_tokens = int_of (rq_estimatedInputTokens rq) + int_of (rq_maxOutputTokens rq),
                   am_images = int_of (opt_count (rq_images rq)), am_video = int_of (opt_count (rq_videoSeconds rq))\<rparr>,
     bc_settled = False\<rparr>"

type_synonym 'a call_result = "(call_error + 'a) \<times> call_db \<times> call_event list"

definition checkBeforeCall :: "call_env \<Rightarrow> string \<Rightarrow> int \<Rightarrow> call_request \<Rightarrow> call_db \<Rightarrow> call_decision call_result" where
  "checkBeforeCall env newId now rq db =
    (if \<not> request_ok rq now then (Inl Bad_Input, db, [])
     else
       (let r = call_row_of newId rq now; want = bc_amounts r in
        case breaches env r want (Some want) now now db of
          Inl e \<Rightarrow> (Inl e, db, [])
        | Inr (refusal # _) \<Rightarrow> (Inr (Call_Refuse refusal), db, [Ev_Refuse refusal])
        | Inr [] \<Rightarrow>
            (case warnings env r want (Some want) now now db [] of
               Inl e \<Rightarrow> (Inl e, db, [])
             | Inr (db', evs) \<Rightarrow>
                 if newId \<in> set (map bc_id (cd_calls db)) then (Inl Constraint, db, [])
                 else (Inr (Call_Allow newId (am_tokens want)), db'\<lparr>cd_calls := cd_calls db' @ [r]\<rparr>, evs @ [Ev_Reserve newId want]))))"

record actual_usage =
  au_inputTokens :: jsnum
  au_outputTokens :: jsnum
  au_cacheReadTokens :: "jsnum option"
  au_cacheWriteTokens :: "jsnum option"
  au_images :: "jsnum option"
  au_videoSeconds :: "jsnum option"

record settlement =
  st_recorded :: bool
  st_overages :: "call_refusal list"

definition actual_ok :: "actual_usage \<Rightarrow> bool" where
  "actual_ok u \<longleftrightarrow> list_all peer_count [au_inputTokens u, au_outputTokens u, opt_count (au_cacheReadTokens u), opt_count (au_cacheWriteTokens u),
     opt_count (au_images u), opt_count (au_videoSeconds u)]"

definition actual_amounts :: "actual_usage \<Rightarrow> amounts" where
  "actual_amounts u = \<lparr>am_tokens = int_of (au_inputTokens u) + int_of (au_outputTokens u), am_images = int_of (opt_count (au_images u)),
     am_video = int_of (opt_count (au_videoSeconds u))\<rparr>"

definition settled_event :: "call_row \<Rightarrow> actual_usage \<Rightarrow> usage_event" where
  "settled_event r u =
    \<lparr>ue_ts = bc_ts r, ue_agent = bc_agent r, ue_provider = bc_provider r, ue_model = bc_model r,
     ue_input = int_of (au_inputTokens u), ue_output = int_of (au_outputTokens u), ue_cacheRead = int_of (opt_count (au_cacheReadTokens u)),
     ue_cacheWrite = int_of (opt_count (au_cacheWriteTokens u)), ue_requestId = Some (LEDGER_PREFIX @ bc_id r),
     ue_images = int_of (opt_count (au_images u)), ue_video = int_of (opt_count (au_videoSeconds u))\<rparr>"

definition settle_db :: "call_row \<Rightarrow> actual_usage \<Rightarrow> call_db \<Rightarrow> call_db" where
  "settle_db r u db = db\<lparr>cd_calls := map (\<lambda>q. if bc_id q = bc_id r then q\<lparr>bc_amounts := actual_amounts u, bc_settled := True\<rparr> else q) (cd_calls db),
     cd_events := cd_events db @ [settled_event r u]\<rparr>"

definition settle :: "call_env \<Rightarrow> string \<Rightarrow> actual_usage \<Rightarrow> int \<Rightarrow> call_db \<Rightarrow> settlement call_result" where
  "settle env rid u now db =
    (if \<not> id_ok rid \<or> \<not> actual_ok u then (Inl Bad_Input, db, [])
     else (case List.find (\<lambda>r. bc_id r = rid) (cd_calls db) of
             None \<Rightarrow> (Inl Bad_Input, db, [])
           | Some r \<Rightarrow>
               if bc_settled r then (Inr \<lparr>st_recorded = False, st_overages = []\<rparr>, db, [])
               else if \<not> count_ok (am_tokens (actual_amounts u)) then (Inl Bad_Input, db, [])
               else if Some (LEDGER_PREFIX @ bc_id r) \<in> set (map ue_requestId (cd_events db)) then (Inl Constraint, db, [])
               else
                 (let got = actual_amounts u; db1 = settle_db r u db;
                      uses = \<lparr>am_tokens = am_tokens got, am_images = max (am_images (bc_amounts r)) (am_images got),
                              am_video = max (am_video (bc_amounts r)) (am_video got)\<rparr>
                  in case warnings env r uses None (bc_ts r) now db1 [] of
                       Inl e \<Rightarrow> (Inl e, db, [])
                     | Inr (db2, evs) \<Rightarrow>
                         (case breaches env r uses None (bc_ts r) now db2 of
                            Inl e \<Rightarrow> (Inl e, db, [])
                          | Inr over \<Rightarrow> (Inr \<lparr>st_recorded = True, st_overages = over\<rparr>, db2, evs @ [Ev_Settle rid got over])))))"

definition releaseUnused :: "string \<Rightarrow> call_db \<Rightarrow> unit call_result" where
  "releaseUnused rid db =
    (if \<not> id_ok rid then (Inl Bad_Input, db, [])
     else if list_ex (\<lambda>r. bc_id r = rid \<and> \<not> bc_settled r) (cd_calls db)
     then (Inr (), db\<lparr>cd_calls := filter (\<lambda>r. \<not> (bc_id r = rid \<and> \<not> bc_settled r)) (cd_calls db)\<rparr>, [Ev_Release rid])
     else (Inr (), db, []))"

definition reconcileExpired :: "call_env \<Rightarrow> int \<Rightarrow> call_db \<Rightarrow> nat \<times> call_db \<times> call_event list" where
  "reconcileExpired env now db =
    (let stale = filter (\<lambda>r. \<not> bc_settled r \<and> bc_ts r < now - cv_ttl env) (cd_calls db) in
     (length stale, db\<lparr>cd_calls := filter (\<lambda>r. \<not> (\<not> bc_settled r \<and> bc_id r \<in> set (map bc_id stale))) (cd_calls db)\<rparr>,
      map (\<lambda>r. Ev_Expire (bc_id r) (bc_amounts r) (bc_ts r)) stale))"

definition setLimit :: "call_scope \<Rightarrow> string \<Rightarrow> call_period \<Rightarrow> metric \<Rightarrow> jsnum \<Rightarrow> jsnum option \<Rightarrow> call_db \<Rightarrow> (call_error + unit) \<times> call_db" where
  "setLimit sc i p m hard soft db =
    (if (if sc = Sc_Global then i \<noteq> [] else \<not> id_ok i) \<or> \<not> peer_count hard then (Inl Bad_Input, db)
     else (let s = (case soft of Some v \<Rightarrow> v | None \<Rightarrow> Fin (of_int (default_soft (int_of hard)))) in
           if \<not> peer_count s \<or> int_of hard < int_of s then (Inl Bad_Input, db)
           else (let row = \<lparr>ol_scope = sc, ol_id = i, ol_period = p, ol_metric = Some m, ol_hard = int_of hard, ol_soft = int_of s\<rparr>;
                     hit = (\<lambda>l. ol_scope l = sc \<and> ol_id l = i \<and> ol_period l = p \<and> ol_metric l = Some m)
                 in (Inr (), db\<lparr>cd_own := (if list_ex hit (cd_own db) then map (\<lambda>l. if hit l then row else l) (cd_own db) else cd_own db @ [row])\<rparr>))))"

definition clearLimit :: "call_scope \<Rightarrow> string \<Rightarrow> call_period \<Rightarrow> metric \<Rightarrow> call_db \<Rightarrow> call_db" where
  "clearLimit sc i p m db =
    db\<lparr>cd_own := filter (\<lambda>l. \<not> (ol_scope l = sc \<and> ol_id l = i \<and> ol_period l = p \<and> ol_metric l = Some m)) (cd_own db)\<rparr>"

definition reservation :: "call_env \<Rightarrow> string \<Rightarrow> int \<Rightarrow> call_db \<Rightarrow> call_error + (bool \<times> amounts \<times> bool) option" where
  "reservation env rid now db =
    (if \<not> id_ok rid then Inl Bad_Input
     else Inr (map_option (\<lambda>r. (bc_settled r, bc_amounts r, \<not> bc_settled r \<and> bc_ts r < now - cv_ttl env)) (List.find (\<lambda>r. bc_id r = rid) (cd_calls db))))"

definition pendingReservations :: "call_env \<Rightarrow> int \<Rightarrow> call_db \<Rightarrow> nat \<times> nat" where
  "pendingReservations env now db =
    (length (filter (\<lambda>r. \<not> bc_settled r \<and> now - cv_ttl env \<le> bc_ts r) (cd_calls db)),
     length (filter (\<lambda>r. \<not> bc_settled r \<and> bc_ts r < now - cv_ttl env) (cd_calls db)))"

text \<open>\<open>run\<close>: the answer of the provider comes between the two clock readings; a failure of the call or of the settlement leaves the reservation pending.\<close>

definition call_run :: "call_env \<Rightarrow> string \<Rightarrow> int \<Rightarrow> int \<Rightarrow> call_request \<Rightarrow> ('v \<times> actual_usage) option \<Rightarrow> call_db \<Rightarrow> 'v call_result" where
  "call_run env newId now now2 rq answer db =
    (case checkBeforeCall env newId now rq db of
       (Inl e, db1, evs) \<Rightarrow> (Inl e, db1, evs)
     | (Inr (Call_Refuse _), db1, evs) \<Rightarrow> (Inl Exceeded, db1, evs)
     | (Inr (Call_Allow rid _), db1, evs) \<Rightarrow>
         (case answer of
            None \<Rightarrow> (Inl (Usage_Pending rid), db1, evs)
          | Some (val, u) \<Rightarrow>
              (case settle env rid u now2 db1 of
                 (Inl _, db2, evs2) \<Rightarrow> (Inl (Usage_Pending rid), db2, evs @ evs2)
               | (Inr _, db2, evs2) \<Rightarrow> (Inr val, db2, evs @ evs2))))"

end
