(* ===== verification/Call_Theorems.thy ===== *)
theory Call_Theorems
  imports Call_Budget
begin

text \<open>
  The budget port keeps its limits. A call that is allowed fits every hard limit that covers it, with its own reservation counted; a refusal names the
  tightest limit that the call would pass and changes nothing; a settlement counts at most the actual use in place of the reservation, and counts
  once.
\<close>

section \<open>Breaches and warnings\<close>

definition added :: "amounts option \<Rightarrow> call_limit \<Rightarrow> int" where
  "added add l = (case add of Some a \<Rightarrow> amount a (cl_metric l) | None \<Rightarrow> 0)"

text \<open>A limit that the check finds too small for what is added.\<close>

definition breach_of :: "call_env \<Rightarrow> amounts option \<Rightarrow> int \<Rightarrow> int \<Rightarrow> call_db \<Rightarrow> call_limit \<Rightarrow> call_refusal \<Rightarrow> bool" where
  "breach_of env add ts now db l b \<longleftrightarrow>
    (\<exists>h used key stop. cl_hard l = Some h \<and> usage env l ts now db = Inr (used, key, stop) \<and> h < used + added add l \<and>
       b = \<lparr>rf_scope = cl_scope l, rf_id = cl_id l, rf_metric = cl_metric l, rf_limit = h, rf_used = used, rf_estimate = added add l, rf_resetsAt = stop\<rparr>)"

lemma collect_breaches_set:
  "collect_breaches env add ts now db ls = Inr found \<Longrightarrow> b \<in> set found \<longleftrightarrow> (\<exists>l\<in>set ls. breach_of env add ts now db l b)"
proof (induction ls arbitrary: found)
  case (Cons l ls)
  show ?case
  proof (cases "cl_hard l")
    case None
    with Cons show ?thesis by (auto simp: breach_of_def)
  next
    case (Some h)
    obtain used key stop tl where u: "usage env l ts now db = Inr (used, key, stop)" and tl: "collect_breaches env add ts now db ls = Inr tl"
      and found: "found = (if added add l \<le> h - used then tl
        else \<lparr>rf_scope = cl_scope l, rf_id = cl_id l, rf_metric = cl_metric l, rf_limit = h, rf_used = used, rf_estimate = added add l, rf_resetsAt = stop\<rparr> # tl)"
      using Cons.prems Some by (auto simp: Let_def added_def split: sum.splits)
    have "breach_of env add ts now db l b \<longleftrightarrow> \<not> added add l \<le> h - used \<and>
        b = \<lparr>rf_scope = cl_scope l, rf_id = cl_id l, rf_metric = cl_metric l, rf_limit = h, rf_used = used, rf_estimate = added add l, rf_resetsAt = stop\<rparr>"
      by (auto simp: breach_of_def Some u)
    then show ?thesis using Cons.IH [OF tl] by (auto simp: found)
  qed
qed simp

lemma collect_breaches_usage:
  "collect_breaches env add ts now db ls = Inr found \<Longrightarrow> l \<in> set ls \<Longrightarrow> cl_hard l = Some h \<Longrightarrow> \<exists>used key stop. usage env l ts now db = Inr (used, key, stop)"
  by (induction ls arbitrary: found) (auto simp: Let_def split: sum.splits option.splits)

lemma collect_warnings_db: "collect_warnings env add ts now ls db evs = Inr (db', evs') \<Longrightarrow> \<exists>ns. db' = db\<lparr>cd_notices := ns\<rparr>"
proof (induction ls arbitrary: db evs)
  case Nil
  then show ?case by (auto intro!: exI [of _ "cd_notices db"])
next
  case (Cons l ls)
  then show ?case by (auto simp: Let_def split: sum.splits if_splits) fastforce+
qed

text \<open>Which parts of the database the readers depend on.\<close>

lemma span_cong: "cd_timezone db' = cd_timezone db \<Longrightarrow> limit_span env l ts db' = limit_span env l ts db"
  by (simp only: limit_span_def zone_def)

lemma weight_cong: "cd_weight db' = cd_weight db \<Longrightarrow> storedCacheReadWeight db' = storedCacheReadWeight db"
  by (simp only: storedCacheReadWeight_def)

lemma reads_cong: "cd_events db' = cd_events db \<Longrightarrow> call_reads db' = call_reads db"
  by (rule ext) (simp only: call_reads_def)

lemma settled_cong:
  "cd_events db' = cd_events db \<Longrightarrow> filter bc_settled (cd_calls db') = filter bc_settled (cd_calls db) \<Longrightarrow>
    settled_sums l start stop w db' = settled_sums l start stop w db"
proof -
  assume e: "cd_events db' = cd_events db" and c: "filter bc_settled (cd_calls db') = filter bc_settled (cd_calls db)"
  have "filter (\<lambda>r. bc_settled r \<and> P r) rs = filter P (filter bc_settled rs)" for P rs by (simp only: filter_filter)
  then have "filter (\<lambda>r. bc_settled r \<and> P r) (cd_calls db') = filter (\<lambda>r. bc_settled r \<and> P r) (cd_calls db)" for P by (metis c)
  then show ?thesis unfolding settled_sums_def e reads_cong [OF e] by (simp only:)
qed

lemma usage_spanE:
  assumes "usage env l ts now db = Inr (used, key, stop)"
  obtains start where "limit_span env l ts db = Inr (start, stop, key)" "limit_used env l now start stop db = used"
  using assms by (auto simp: usage_def Let_def split: sum.splits if_splits)

section \<open>An allowed call fits its limits\<close>

lemma limit_used_add:
  assumes "\<not> bc_settled r" "now - cv_ttl env \<le> bc_ts r" "in_scope l r"
  shows "limit_used env l now start stop (db\<lparr>cd_notices := ns, cd_calls := cd_calls db @ [r]\<rparr>) =
    limit_used env l now start stop db + amount (bc_amounts r) (cl_metric l)"
proof -
  let ?db = "db\<lparr>cd_notices := ns, cd_calls := cd_calls db @ [r]\<rparr>"
  have "settled_sums l start stop w ?db = settled_sums l start stop w db" for w
    using assms(1) by (intro settled_cong) simp_all
  moreover have "reserved_sum env l now ?db = reserved_sum env l now db + amount (bc_amounts r) (cl_metric l)"
    using assms by (simp add: reserved_sum_def)
  moreover have "storedCacheReadWeight ?db = storedCacheReadWeight db" by (rule weight_cong) simp
  ultimately show ?thesis by (simp add: limit_used_def Let_def split: prod.splits)
qed

lemma covering_in_scope: "covers_row l r \<Longrightarrow> in_scope l r"
  by (auto simp: covers_row_def in_scope_def)

text \<open>The outcomes of a check, by what the breaches and the warnings are.\<close>

lemma check_cases:
  assumes "checkBeforeCall env newId now rq db = (Inr d, db', evs)"
  defines "r \<equiv> call_row_of newId rq now"
  obtains (refuse) b rest where "breaches env r (bc_amounts r) (Some (bc_amounts r)) now now db = Inr (b # rest)" "d = Call_Refuse b" "db' = db" "evs = [Ev_Refuse b]"
  | (allow) db1 evs1 where "breaches env r (bc_amounts r) (Some (bc_amounts r)) now now db = Inr []"
    "warnings env r (bc_amounts r) (Some (bc_amounts r)) now now db [] = Inr (db1, evs1)" "newId \<notin> set (map bc_id (cd_calls db))"
    "d = Call_Allow newId (am_tokens (bc_amounts r))" "db' = db1\<lparr>cd_calls := cd_calls db1 @ [r]\<rparr>"
proof -
  have ok: "request_ok rq now" using assms(1) by (cases "request_ok rq now") (simp_all add: checkBeforeCall_def)
  note c = assms(1) [unfolded checkBeforeCall_def Let_def r_def [symmetric], simplified ok not_True_eq_False if_False]
  show ?thesis
  proof (cases "breaches env r (bc_amounts r) (Some (bc_amounts r)) now now db")
    case (Inl e)
    with c show ?thesis by simp
  next
    case (Inr found)
    show ?thesis
    proof (cases found)
      case Nil
      show ?thesis
      proof (cases "warnings env r (bc_amounts r) (Some (bc_amounts r)) now now db []")
        case (Inl e)
        with c Inr Nil show ?thesis by simp
      next
        case w: (Inr x)
        obtain db1 evs1 where x: "x = (db1, evs1)" by (cases x)
        show ?thesis using c Inr Nil w x allow [of db1 evs1] by (cases "newId \<in> set (map bc_id (cd_calls db))") simp_all
      qed
    next
      case (Cons b rest)
      with c Inr have "d = Call_Refuse b" "db' = db" "evs = [Ev_Refuse b]" by simp_all
      with Inr Cons refuse show ?thesis by blast
    qed
  qed
qed

lemma check_allowE:
  assumes "checkBeforeCall env newId now rq db = (Inr (Call_Allow rid n), db', evs)"
  obtains ns where "collect_breaches env (Some (bc_amounts (call_row_of newId rq now))) now now db
      (call_limits (call_row_of newId rq now) (bc_amounts (call_row_of newId rq now)) db) = Inr []"
    "db' = db\<lparr>cd_notices := ns, cd_calls := cd_calls db @ [call_row_of newId rq now]\<rparr>"
    "rid = newId" "newId \<notin> set (map bc_id (cd_calls db))"
proof -
  let ?r = "call_row_of newId rq now"
  from assms obtain db1 evs1 where br: "breaches env ?r (bc_amounts ?r) (Some (bc_amounts ?r)) now now db = Inr []"
    and wn: "warnings env ?r (bc_amounts ?r) (Some (bc_amounts ?r)) now now db [] = Inr (db1, evs1)"
    and rest: "db' = db1\<lparr>cd_calls := cd_calls db1 @ [?r]\<rparr>" "rid = newId" "newId \<notin> set (map bc_id (cd_calls db))"
    by (cases rule: check_cases) simp_all
  obtain ns where ns: "db1 = db\<lparr>cd_notices := ns\<rparr>" using collect_warnings_db wn unfolding warnings_def by blast
  obtain found where "collect_breaches env (Some (bc_amounts ?r)) now now db (call_limits ?r (bc_amounts ?r) db) = Inr found"
    "sort_key (\<lambda>b. rf_limit b - rf_used b) found = []"
    using br by (auto simp: breaches_def split: sum.splits)
  moreover from this(2) have "found = []" by (metis set_empty set_sort)
  ultimately show ?thesis using that [of ns] rest ns by simp
qed

text \<open>
  (C32) A call that the port allows fits: for every hard limit that covers the call, on tokens or on a media unit the call uses, the use counted with its
  reservation is the use before plus what the call reserved, and is at most the limit.
\<close>

theorem call_allow_within:
  assumes "checkBeforeCall env newId now rq db = (Inr (Call_Allow rid n), db', evs)" "0 < cv_ttl env"
    and "l \<in> set (call_limits (call_row_of newId rq now) (bc_amounts (call_row_of newId rq now)) db)" "cl_hard l = Some h"
  shows "\<exists>start stop key. limit_span env l now db' = Inr (start, stop, key) \<and>
    limit_used env l now start stop db' = limit_used env l now start stop db + amount (bc_amounts (call_row_of newId rq now)) (cl_metric l) \<and>
    limit_used env l now start stop db' \<le> h"
proof -
  let ?r = "call_row_of newId rq now"
  obtain ns where none: "collect_breaches env (Some (bc_amounts ?r)) now now db (call_limits ?r (bc_amounts ?r) db) = Inr []"
    and db': "db' = db\<lparr>cd_notices := ns, cd_calls := cd_calls db @ [?r]\<rparr>"
    using check_allowE [OF assms(1)] .
  obtain used key stop where u: "usage env l now now db = Inr (used, key, stop)" using collect_breaches_usage [OF none assms(3,4)] by blast
  have fits: "used + amount (bc_amounts ?r) (cl_metric l) \<le> h"
    using collect_breaches_set [OF none] assms(3,4) u by (fastforce simp: breach_of_def added_def)
  obtain start where span: "limit_span env l now db = Inr (start, stop, key)" "limit_used env l now start stop db = used" using usage_spanE [OF u] .
  have "in_scope l ?r" using assms(3) by (auto simp: call_limits_def intro: covering_in_scope)
  then have "limit_used env l now start stop db' = used + amount (bc_amounts ?r) (cl_metric l)"
    unfolding db' using assms(2) span(2) by (subst limit_used_add) (simp_all add: call_row_of_def)
  moreover have "limit_span env l now db' = Inr (start, stop, key)" using span(1) span_cong [of db' db] by (simp add: db')
  ultimately show ?thesis using fits span(2) by auto
qed

text \<open>
  A refusal is exact: it leaves the database as it was, and names a hard limit that covers the call and that its use plus the request would pass, with the
  least room left among all such limits.
\<close>

theorem call_refusal_exact:
  assumes "checkBeforeCall env newId now rq db = (Inr (Call_Refuse b), db', evs)"
  shows "db' = db \<and> evs = [Ev_Refuse b] \<and>
    (\<exists>l\<in>set (call_limits (call_row_of newId rq now) (bc_amounts (call_row_of newId rq now)) db).
       breach_of env (Some (bc_amounts (call_row_of newId rq now))) now now db l b) \<and>
    (\<forall>l\<in>set (call_limits (call_row_of newId rq now) (bc_amounts (call_row_of newId rq now)) db). \<forall>b'.
       breach_of env (Some (bc_amounts (call_row_of newId rq now))) now now db l b' \<longrightarrow> rf_limit b - rf_used b \<le> rf_limit b' - rf_used b')"
proof -
  let ?r = "call_row_of newId rq now"
  from assms obtain more where br: "breaches env ?r (bc_amounts ?r) (Some (bc_amounts ?r)) now now db = Inr (b # more)" and db: "db' = db" "evs = [Ev_Refuse b]"
    by (cases rule: check_cases) simp_all
  obtain found where f: "collect_breaches env (Some (bc_amounts ?r)) now now db (call_limits ?r (bc_amounts ?r) db) = Inr found"
    "sort_key (\<lambda>b. rf_limit b - rf_used b) found = b # more"
    using br by (auto simp: breaches_def split: sum.splits)
  have set: "set found = set (b # more)" by (metis f(2) set_sort)
  have "sorted (map (\<lambda>b. rf_limit b - rf_used b) (b # more))" by (metis f(2) sorted_sort_key)
  then have "rf_limit b - rf_used b \<le> rf_limit b' - rf_used b'" if "b' \<in> set found" for b' using that set by auto
  then show ?thesis using db set collect_breaches_set [OF f(1)] by (metis list.set_intros(1))
qed

section \<open>Settlement\<close>

lemma weight_bounds: "0 \<le> storedCacheReadWeight db" "storedCacheReadWeight db \<le> 1"
proof -
  have "0 \<le> v \<and> v \<le> 1" if valid: "validateCacheReadWeight w = Some v" for w v
  proof -
    obtain q where q: "w = Fin q" "0 \<le> q" "q \<le> 1" "v = of_int (js_round (q * of_int MICROS)) / of_int MICROS"
      using valid by (cases w) (auto simp: validateCacheReadWeight_def not_less split: if_splits)
    have "0 \<le> js_round (q * of_int MICROS)" using q(2) by (simp add: js_round_def MICROS_def)
    moreover have "js_round (q * of_int MICROS) \<le> MICROS" using q(3) by (simp add: js_round_def MICROS_def floor_le_iff)
    ultimately show ?thesis unfolding q(4) by (simp add: MICROS_def)
  qed
  then show "0 \<le> storedCacheReadWeight db" "storedCacheReadWeight db \<le> 1"
    by (auto simp: storedCacheReadWeight_def split: option.splits)
qed

text \<open>Cache reads count for at most themselves.\<close>

lemma countedTokens_add:
  assumes "0 \<le> w" "w \<le> 1" "0 \<le> q"
  shows "countedTokens (n + a) (reads + q) w \<le> countedTokens n reads w + a"
proof -
  define m where "m = js_round (w * of_int MICROS)"
  have m: "m \<le> MICROS" using assms(1,2) by (simp add: m_def js_round_def MICROS_def floor_le_iff)
  have "(reads + q) * m + (MICROS - 1) \<le> (reads * m + (MICROS - 1)) + q * MICROS"
    using mult_left_mono [OF m assms(3)] by (simp add: algebra_simps)
  then have "((reads + q) * m + (MICROS - 1)) div MICROS \<le> ((reads * m + (MICROS - 1)) + q * MICROS) div MICROS"
    by (rule zdiv_mono1) (simp add: MICROS_def)
  also have "\<dots> = (reads * m + (MICROS - 1)) div MICROS + q" by (subst div_mult_self1) (simp_all add: MICROS_def)
  finally show ?thesis by (simp add: countedTokens_def Let_def m_def [symmetric])
qed

text \<open>A sum over rows of which one changes.\<close>

lemma sum_upd:
  "distinct (map bc_id rs) \<Longrightarrow> r \<in> set rs \<Longrightarrow>
    sum_list (map g (map (\<lambda>q. if bc_id q = bc_id r then f q else q) rs)) = sum_list (map g rs) - g r + (g (f r) :: int)"
proof (induction rs)
  case (Cons q rs)
  show ?case
  proof (cases "q = r")
    case True
    then have "bc_id r \<notin> set (map bc_id rs)" using Cons.prems(1) by simp
    then have "map (\<lambda>q. if bc_id q = bc_id r then f q else q) rs = rs" by (induction rs) auto
    then show ?thesis using True by simp
  next
    case False
    then have "r \<in> set rs" "bc_id q \<noteq> bc_id r" using Cons.prems by (auto simp: rev_image_eqI)
    then show ?thesis using Cons by simp
  qed
qed simp

lemma sum_filter: "sum_list (map g (filter P rs)) = sum_list (map (\<lambda>r. if P r then g r else (0 :: int)) rs)"
  by (induction rs) auto

lemma reserved_settle:
  assumes "distinct (map bc_id (cd_calls db))" "r \<in> set (cd_calls db)" "\<not> bc_settled r" "now - cv_ttl env \<le> bc_ts r" "in_scope l r"
  shows "reserved_sum env l now (settle_db r u db) = reserved_sum env l now db - amount (bc_amounts r) (cl_metric l)"
  unfolding reserved_sum_def sum_filter
  using sum_upd [OF assms(1,2), of "\<lambda>q. if \<not> bc_settled q \<and> now - cv_ttl env \<le> bc_ts q \<and> in_scope l q then amount (bc_amounts q) (cl_metric l) else 0"
      "\<lambda>q. q\<lparr>bc_amounts := actual_amounts u, bc_settled := True\<rparr>"] assms(3-5)
  by (simp add: settle_db_def)

lemma event_settled: "event_amount m (settled_event r u) = amount (actual_amounts u) m"
  by (cases m) (simp_all add: event_amount_def settled_event_def amount_def actual_amounts_def)

lemma reads_nonneg: "actual_ok u \<Longrightarrow> 0 \<le> event_reads (settled_event r u)"
  by (simp add: actual_ok_def event_reads_def settled_event_def peer_count_nonneg)

lemma in_scope_upd: "in_scope l (q\<lparr>bc_amounts := a, bc_settled := b\<rparr>) = in_scope l q"
  by (simp add: in_scope_def column_def split: call_scope.splits)

lemma call_reads_settle:
  assumes "Some (LEDGER_PREFIX @ bc_id r) \<notin> set (map ue_requestId (cd_events db))"
  shows "call_reads (settle_db r u db) q = (if bc_id q = bc_id r then event_reads (settled_event r u) else call_reads db q)"
proof -
  have find: "List.find P (xs @ [x]) = (case List.find P xs of Some y \<Rightarrow> Some y | None \<Rightarrow> if P x then Some x else None)" for P xs and x :: usage_event
    by (induction xs) auto
  have "List.find (\<lambda>e. ue_requestId e = Some (LEDGER_PREFIX @ bc_id r)) (cd_events db) = None"
    using assms by (auto simp: find_None_iff) (metis rev_image_eqI)
  then show ?thesis by (auto simp: call_reads_def settle_db_def find settled_event_def split: option.splits)
qed

text \<open>The settled sums grow by the actual use, and the reads by those of the call.\<close>

lemma settled_settle:
  assumes d: "distinct (map bc_id (cd_calls db))" and r: "r \<in> set (cd_calls db)" "\<not> bc_settled r" "start \<le> bc_ts r" "bc_ts r < stop"
    and l: "covers_row l r" and new: "Some (LEDGER_PREFIX @ bc_id r) \<notin> set (map ue_requestId (cd_events db))"
  shows "settled_sums l start stop w (settle_db r u db) =
    (fst (settled_sums l start stop w db) + amount (actual_amounts u) (cl_metric l),
     snd (settled_sums l start stop w db) + (if w then event_reads (settled_event r u) else 0))"
proof (cases "cl_scope l = Sc_Global \<or> cl_scope l = Sc_Agent")
  case True
  have "start \<le> ue_ts (settled_event r u) \<and> ue_ts (settled_event r u) < stop \<and> (cl_scope l = Sc_Agent \<longrightarrow> ue_agent (settled_event r u) = cl_id l)"
    using r l by (auto simp: settled_event_def covers_row_def column_def)
  then show ?thesis using True by (simp add: settled_sums_def settle_db_def event_settled Let_def)
next
  case False
  let ?P = "\<lambda>q. bc_settled q \<and> start \<le> bc_ts q \<and> bc_ts q < stop \<and> in_scope l q"
  let ?f = "\<lambda>q. q\<lparr>bc_amounts := actual_amounts u, bc_settled := True\<rparr>"
  have s: "in_scope l r" by (rule covering_in_scope [OF l])
  have calls: "cd_calls (settle_db r u db) = map (\<lambda>q. if bc_id q = bc_id r then ?f q else q) (cd_calls db)" by (simp add: settle_db_def)
  have sum: "sum_list (map g (filter ?P (cd_calls (settle_db r u db)))) = sum_list (map g (filter ?P (cd_calls db))) + g (?f r)" for g :: "call_row \<Rightarrow> int"
    unfolding sum_filter calls using sum_upd [OF d r(1), of "\<lambda>q. if ?P q then g q else 0" ?f] r s by (simp add: in_scope_upd)
  have "sum_list (map (call_reads (settle_db r u db)) (filter ?P (cd_calls db))) = sum_list (map (call_reads db) (filter ?P (cd_calls db)))"
  proof (rule arg_cong [where f = sum_list], rule map_cong [OF refl])
    fix q assume q: "q \<in> set (filter ?P (cd_calls db))"
    then have "q \<noteq> r" using r(2) by auto
    then have "bc_id q \<noteq> bc_id r" using q r(1) d by (auto simp: distinct_map inj_on_def)
    then show "call_reads (settle_db r u db) q = call_reads db q" by (simp add: call_reads_settle [OF new])
  qed
  then have "sum_list (map (call_reads (settle_db r u db)) (filter ?P (cd_calls (settle_db r u db)))) =
      sum_list (map (call_reads db) (filter ?P (cd_calls db))) + event_reads (settled_event r u)"
    unfolding sum by (simp add: call_reads_settle [OF new])
  then show ?thesis using False sum [of "\<lambda>q. amount (bc_amounts q) (cl_metric l)"] by (simp add: settled_sums_def Let_def)
qed

lemma limit_used_settle:
  assumes "distinct (map bc_id (cd_calls db))" "r \<in> set (cd_calls db)" "\<not> bc_settled r" "start \<le> bc_ts r" "bc_ts r < stop" "now - cv_ttl env \<le> bc_ts r"
    and "covers_row l r" "Some (LEDGER_PREFIX @ bc_id r) \<notin> set (map ue_requestId (cd_events db))" "actual_ok u"
  shows "limit_used env l now start stop (settle_db r u db) \<le>
    limit_used env l now start stop db - amount (bc_amounts r) (cl_metric l) + amount (actual_amounts u) (cl_metric l)"
proof -
  define w where "w = (if cl_metric l = M_Tokens then storedCacheReadWeight db else 1)"
  have "storedCacheReadWeight (settle_db r u db) = storedCacheReadWeight db" by (rule weight_cong) (simp add: settle_db_def)
  note used = limit_used_def [of env l now start stop, unfolded Let_def]
  obtain n reads where sums: "settled_sums l start stop (w < 1) db = (n, reads)" by (cases "settled_sums l start stop (w < 1) db")
  define q where "q = (if w < 1 then event_reads (settled_event r u) else 0)"
  have q: "0 \<le> q" using reads_nonneg [OF assms(9)] by (simp add: q_def)
  have sums': "settled_sums l start stop (w < 1) (settle_db r u db) = (n + amount (actual_amounts u) (cl_metric l), reads + q)"
    using settled_settle [OF assms(1-5,7,8), of "w < 1" u] sums by (simp add: q_def)
  have res: "reserved_sum env l now (settle_db r u db) = reserved_sum env l now db - amount (bc_amounts r) (cl_metric l)"
    using assms by (intro reserved_settle covering_in_scope)
  have "countedTokens (n + amount (actual_amounts u) (cl_metric l)) (reads + q) w \<le> countedTokens n reads w + amount (actual_amounts u) (cl_metric l)"
    using weight_bounds [of db] q by (intro countedTokens_add) (simp_all add: w_def)
  moreover have "limit_used env l now start stop (settle_db r u db) = reserved_sum env l now (settle_db r u db) +
      (if cl_metric l = M_Tokens then countedTokens (n + amount (actual_amounts u) (cl_metric l)) (reads + q) w else n + amount (actual_amounts u) (cl_metric l))"
    unfolding used \<open>storedCacheReadWeight (settle_db r u db) = _\<close> w_def [symmetric] sums' by simp
  moreover have "limit_used env l now start stop db = reserved_sum env l now db + (if cl_metric l = M_Tokens then countedTokens n reads w else n)"
    unfolding used w_def [symmetric] sums by simp
  ultimately show ?thesis by (cases "cl_metric l = M_Tokens") (simp_all add: res)
qed

lemma settle_recordedE:
  assumes "settle env rid u now db = (Inr st, db', evs)" "st_recorded st"
  obtains r ns where "List.find (\<lambda>r. bc_id r = rid) (cd_calls db) = Some r" "\<not> bc_settled r" "id_ok rid" "actual_ok u"
    "Some (LEDGER_PREFIX @ bc_id r) \<notin> set (map ue_requestId (cd_events db))" "db' = (settle_db r u db)\<lparr>cd_notices := ns\<rparr>"
proof -
  have ok: "id_ok rid" "actual_ok u" using assms(1) by (auto simp: settle_def split: if_splits)
  note c = assms(1) [unfolded settle_def Let_def]
  obtain r where r: "List.find (\<lambda>r. bc_id r = rid) (cd_calls db) = Some r" using c ok by (cases "List.find (\<lambda>r. bc_id r = rid) (cd_calls db)") simp_all
  have ns: "\<not> bc_settled r" using c ok r assms(2) by (cases "bc_settled r") auto
  have cnt: "count_ok (am_tokens (actual_amounts u))" using c ok r ns by (cases "count_ok (am_tokens (actual_amounts u))") simp_all
  have new: "Some (LEDGER_PREFIX @ bc_id r) \<notin> set (map ue_requestId (cd_events db))"
    using c ok r ns cnt by (cases "Some (LEDGER_PREFIX @ bc_id r) \<in> set (map ue_requestId (cd_events db))") simp_all
  define uses where "uses = \<lparr>am_tokens = am_tokens (actual_amounts u), am_images = max (am_images (bc_amounts r)) (am_images (actual_amounts u)),
    am_video = max (am_video (bc_amounts r)) (am_video (actual_amounts u))\<rparr>"
  have "settle env rid u now db = (case warnings env r uses None (bc_ts r) now (settle_db r u db) [] of
       Inl e \<Rightarrow> (Inl e, db, [])
     | Inr (db2, evs) \<Rightarrow>
         (case breaches env r uses None (bc_ts r) now db2 of
            Inl e \<Rightarrow> (Inl e, db, [])
          | Inr over \<Rightarrow> (Inr \<lparr>st_recorded = True, st_overages = over\<rparr>, db2, evs @ [Ev_Settle rid (actual_amounts u) over])))"
    unfolding uses_def using ok r ns cnt new by (simp add: settle_def Let_def)
  with assms(1) obtain evs1 where "warnings env r uses None (bc_ts r) now (settle_db r u db) [] = Inr (db', evs1)"
    by (cases "warnings env r uses None (bc_ts r) now (settle_db r u db) []") (auto split: sum.splits)
  then obtain notices where "db' = (settle_db r u db)\<lparr>cd_notices := notices\<rparr>" using collect_warnings_db unfolding warnings_def by blast
  with r ns ok new that show ?thesis by blast
qed

lemma limit_used_notices: "limit_used env l now start stop (db\<lparr>cd_notices := ns\<rparr>) = limit_used env l now start stop db"
proof -
  have "settled_sums l start stop w (db\<lparr>cd_notices := ns\<rparr>) = settled_sums l start stop w db" for w by (rule settled_cong) simp_all
  moreover have "storedCacheReadWeight (db\<lparr>cd_notices := ns\<rparr>) = storedCacheReadWeight db" by (rule weight_cong) simp
  ultimately show ?thesis by (simp add: limit_used_def reserved_sum_def)
qed


section \<open>Witnesses\<close>

definition sample_env :: call_env where
  "sample_env = \<lparr>cv_zones = (\<lambda>_. Some (dates_shifted (\<lambda>_. 0))), cv_defaultZone = ''UTC'', cv_ttl = 1800000\<rparr>"

definition sample_db :: call_db where
  "sample_db = \<lparr>cd_calls = [], cd_own = [\<lparr>ol_scope = Sc_Turn, ol_id = ''t1'', ol_period = Period_Day, ol_metric = Some M_Tokens, ol_hard = 1000, ol_soft = 800\<rparr>],
     cd_service = [], cd_events = [], cd_notices = [], cd_timezone = None, cd_weight = None\<rparr>"

definition sample_request :: "rat \<Rightarrow> call_request" where
  "sample_request n = \<lparr>rq_principal = ''ada'', rq_agent = ''planner'', rq_project = ''p'', rq_model = ''m'', rq_provider = None, rq_estimatedInputTokens = Fin n,
     rq_maxOutputTokens = Fin 400, rq_images = None, rq_videoSeconds = None, rq_turn = Some ''t1'', rq_session = None\<rparr>"

definition sample_limit :: call_limit where
  "sample_limit = \<lparr>cl_scope = Sc_Turn, cl_id = ''t1'', cl_period = Period_Day, cl_metric = M_Tokens, cl_hard = Some 1000, cl_soft = 800\<rparr>"

definition sample_actual :: actual_usage where
  "sample_actual = \<lparr>au_inputTokens = Fin 300, au_outputTokens = Fin 50, au_cacheReadTokens = None, au_cacheWriteTokens = None, au_images = None, au_videoSeconds = None\<rparr>"

abbreviation sample_checked :: "call_decision call_result" where
  "sample_checked \<equiv> checkBeforeCall sample_env ''r1'' 5000 (sample_request 300) sample_db"

lemma sample_call_allowed: "fst sample_checked = Inr (Call_Allow ''r1'' 700)"
  by code_simp

lemma sample_checked_split: "sample_checked = (Inr (Call_Allow ''r1'' 700), fst (snd sample_checked), snd (snd sample_checked))"
  using sample_call_allowed by (metis prod.collapse)

theorem call_allow_within_witness:
  "limit_used sample_env sample_limit 5000 0 8640000000000000 (fst (snd sample_checked)) = 700 \<and>
   limit_used sample_env sample_limit 5000 0 8640000000000000 (fst (snd sample_checked)) \<le> 1000"
proof -
  have "sample_limit \<in> set (call_limits (call_row_of ''r1'' (sample_request 300) 5000) (bc_amounts (call_row_of ''r1'' (sample_request 300) 5000)) sample_db)"
    "0 < cv_ttl sample_env" "cl_hard sample_limit = Some 1000" by code_simp+
  from call_allow_within [OF sample_checked_split this(2,1,3)]
  have "limit_used sample_env sample_limit 5000 0 8640000000000000 (fst (snd sample_checked)) \<le> 1000" by (simp add: limit_span_def sample_limit_def)
  moreover have "limit_used sample_env sample_limit 5000 0 8640000000000000 (fst (snd sample_checked)) = 700" by code_simp
  ultimately show ?thesis by simp
qed

definition sample_refusal :: call_refusal where
  "sample_refusal = \<lparr>rf_scope = Sc_Turn, rf_id = ''t1'', rf_metric = M_Tokens, rf_limit = 1000, rf_used = 0, rf_estimate = 1100, rf_resetsAt = 8640000000000000\<rparr>"

lemma sample_refused: "checkBeforeCall sample_env ''r1'' 5000 (sample_request 700) sample_db = (Inr (Call_Refuse sample_refusal), sample_db, [Ev_Refuse sample_refusal])"
  by code_simp

theorem call_refusal_exact_witness:
  "\<exists>l\<in>set (call_limits (call_row_of ''r1'' (sample_request 700) 5000) (bc_amounts (call_row_of ''r1'' (sample_request 700) 5000)) sample_db).
     breach_of sample_env (Some (bc_amounts (call_row_of ''r1'' (sample_request 700) 5000))) 5000 5000 sample_db l sample_refusal"
  using call_refusal_exact [OF sample_refused] by blast


end
