(* ===== verification/Budget_Service.thy ===== *)
theory Budget_Service
  imports Call_Theorems "HOL-Library.List_Lexorder" "HOL-Library.Char_ord"
begin

text \<open>
  The budget service, \<^verbatim>\<open>packages/core/src/budget/service.ts\<close>: usage accounting, soft and hard limits, the check before a model call, settings and the status
  report, on the tables it shares with the call port of \<open>Call_Budget\<close>; and the report of \<^verbatim>\<open>budget/cache-report.ts\<close>. An operation returns its result, the
  database it leaves and the events it emits; one that raises leaves the database as it was. Reports and estimates are records, so
  the checks for unknown properties hold by construction. The time of a notice is stored and never read, and is left out.
\<close>

section \<open>Tables\<close>

datatype notice_kind = N_Soft | N_Hard

type_synonym service_notice = "notice_kind \<times> string option \<times> call_period \<times> metric \<times> string"

record service_db =
  sd_base :: call_db
  sd_notices :: "service_notice list"

record budget_env =
  se_zones :: date_zones
  se_defaultZone :: string

record limit_row =
  lw_agent :: "string option"
  lw_period :: call_period
  lw_metric :: metric
  lw_soft :: "int option"
  lw_hard :: "int option"

record budget_event =
  be_kind :: notice_kind
  be_row :: limit_row
  be_limit :: int
  be_used :: int
  be_key :: string

record svc_breach =
  sb_row :: limit_row
  sb_limit :: int
  sb_used :: int
  sb_estimate :: int
  sb_key :: string
  sb_resetsAt :: int

record svc_warning =
  sw_row :: limit_row
  sw_limit :: int
  sw_used :: int
  sw_estimate :: int
  sw_key :: string
  sw_notified :: bool

record check_decision =
  dc_allowed :: bool
  dc_breaches :: "svc_breach list"
  dc_warnings :: "svc_warning list"

datatype service_error = Svc_Input | Svc_Period period_error | Svc_Weight | Svc_Exceeded check_decision

type_synonym 'a service_result = "(service_error + 'a) \<times> service_db \<times> budget_event list"

section \<open>Sums of the ledger\<close>

record usage_row =
  ur_n :: int
  ur_i :: int
  ur_o :: int
  ur_cr :: int
  ur_cw :: int
  ur_im :: int
  ur_vs :: int
  ur_ri :: int
  ur_fresh :: int

definition ZERO_ROW :: usage_row where
  "ZERO_ROW = \<lparr>ur_n = 0, ur_i = 0, ur_o = 0, ur_cr = 0, ur_cw = 0, ur_im = 0, ur_vs = 0, ur_ri = 0, ur_fresh = 0\<rparr>"

definition row_add :: "usage_row \<Rightarrow> usage_row \<Rightarrow> usage_row" where
  "row_add a b =
    \<lparr>ur_n = ur_n a + ur_n b, ur_i = ur_i a + ur_i b, ur_o = ur_o a + ur_o b, ur_cr = ur_cr a + ur_cr b, ur_cw = ur_cw a + ur_cw b,
     ur_im = ur_im a + ur_im b, ur_vs = ur_vs a + ur_vs b, ur_ri = ur_ri a + ur_ri b, ur_fresh = ur_fresh a + ur_fresh b\<rparr>"

definition row_of :: "usage_event list \<Rightarrow> usage_row" where
  "row_of es =
    \<lparr>ur_n = int (length es), ur_i = sum_list (map ue_input es), ur_o = sum_list (map ue_output es), ur_cr = sum_list (map ue_cacheRead es),
     ur_cw = sum_list (map ue_cacheWrite es), ur_im = sum_list (map ue_images es), ur_vs = sum_list (map ue_video es),
     ur_ri = sum_list (map event_reads es), ur_fresh = sum_list (map (\<lambda>e. max 0 (ue_input e - ue_cacheRead e - ue_cacheWrite e)) es)\<rparr>"

definition span_events :: "int \<Rightarrow> int \<Rightarrow> string option \<Rightarrow> call_db \<Rightarrow> usage_event list" where
  "span_events start stop agent db =
    filter (\<lambda>e. start \<le> ue_ts e \<and> ue_ts e < stop \<and> (case agent of Some a \<Rightarrow> ue_agent e = a | None \<Rightarrow> True)) (cd_events db)"

definition ledger_sums :: "int \<Rightarrow> int \<Rightarrow> string option \<Rightarrow> call_db \<Rightarrow> usage_row" where
  "ledger_sums start stop agent db = row_of (span_events start stop agent db)"

record usage_totals =
  ut_row :: usage_row
  ut_countedTokens :: int

definition totals :: "usage_row \<Rightarrow> rat \<Rightarrow> usage_totals" where
  "totals r w = \<lparr>ut_row = r, ut_countedTokens = countedTokens (ur_i r + ur_o r) (ur_ri r) w\<rparr>"

definition USED :: "metric \<Rightarrow> usage_row \<Rightarrow> rat \<Rightarrow> int" where
  "USED m r w = (case m of M_Tokens \<Rightarrow> countedTokens (ur_i r + ur_o r) (ur_ri r) w | M_Images \<Rightarrow> ur_im r | M_VideoSeconds \<Rightarrow> ur_vs r)"

section \<open>Limits\<close>

definition getTz :: "budget_env \<Rightarrow> call_db \<Rightarrow> string" where
  "getTz env db = (case cd_timezone db of
     None \<Rightarrow> se_defaultZone env
   | Some v \<Rightarrow> (case validateTimeZone (se_zones env) v of Inr tz \<Rightarrow> tz | Inl _ \<Rightarrow> se_defaultZone env))"

definition usedFor :: "budget_env \<Rightarrow> limit_row \<Rightarrow> int \<Rightarrow> string \<Rightarrow> rat \<Rightarrow> call_db \<Rightarrow> period_error + int \<times> period_bounds" where
  "usedFor env l ts tz w db =
    (case periodBounds (se_zones env) (Fin (of_int ts)) tz (lw_period l) of
       Inl e \<Rightarrow> Inl e
     | Inr b \<Rightarrow> Inr (USED (lw_metric l) (ledger_sums (pb_start b) (pb_end b) (lw_agent l) db) w, b))"

definition to_row :: "service_limit \<Rightarrow> limit_row option" where
  "to_row l = map_option (\<lambda>m. \<lparr>lw_agent = sv_agent l, lw_period = sv_period l, lw_metric = m, lw_soft = sv_soft l, lw_hard = sv_hard l\<rparr>) (sv_metric l)"

definition period_text :: "call_period \<Rightarrow> string" where
  "period_text p = (case p of Period_Day \<Rightarrow> ''day'' | Period_Week \<Rightarrow> ''week'' | Period_Month \<Rightarrow> ''month'')"

definition metric_text :: "metric \<Rightarrow> string" where
  "metric_text m = (case m of M_Tokens \<Rightarrow> ''tokens'' | M_Images \<Rightarrow> ''images'' | M_VideoSeconds \<Rightarrow> ''videoSeconds'')"

definition row_order :: "limit_row \<Rightarrow> string list" where
  "row_order r = (case lw_agent r of Some a \<Rightarrow> [''agent'', a] | None \<Rightarrow> [''global'', []]) @ [period_text (lw_period r), metric_text (lw_metric r)]"

definition token_limit :: "limit_row \<Rightarrow> bool" where
  "token_limit r \<longleftrightarrow> lw_metric r = M_Tokens"

definition limitRows :: "string option \<Rightarrow> (limit_row \<Rightarrow> bool) \<Rightarrow> call_db \<Rightarrow> limit_row list" where
  "limitRows agent which db = sort_key row_order
    (filter (\<lambda>r. which r \<and> (case agent of Some a \<Rightarrow> lw_agent r = None \<or> lw_agent r = Some a | None \<Rightarrow> True))
      (List.map_filter to_row (cd_service db)))"

definition notice_key_of :: "notice_kind \<Rightarrow> limit_row \<Rightarrow> string \<Rightarrow> service_notice" where
  "notice_key_of kind r key = (kind, lw_agent r, lw_period r, lw_metric r, key)"

definition firstNotice :: "notice_kind \<Rightarrow> limit_row \<Rightarrow> string \<Rightarrow> service_notice list \<Rightarrow> bool \<times> service_notice list" where
  "firstNotice kind r key ns = (if notice_key_of kind r key \<in> set ns then (False, ns) else (True, ns @ [notice_key_of kind r key]))"

definition eventFor :: "notice_kind \<Rightarrow> limit_row \<Rightarrow> int \<Rightarrow> int \<Rightarrow> string \<Rightarrow> budget_event" where
  "eventFor kind r limit used key = \<lparr>be_kind = kind, be_row = r, be_limit = limit, be_used = used, be_key = key\<rparr>"

section \<open>The check before a call\<close>

record usage_estimate =
  es_provider :: "string option"
  es_input :: jsnum
  es_output :: "jsnum option"

definition estimate_ok :: "string \<Rightarrow> string \<Rightarrow> usage_estimate \<Rightarrow> bool" where
  "estimate_ok agent model est \<longleftrightarrow>
     id_ok agent \<and> id_ok model \<and> peer_count (es_input est) \<and> peer_count (opt_count (es_output est)) \<and> opt_id_ok (es_provider est)"

definition estimate_of :: "usage_estimate \<Rightarrow> int" where
  "estimate_of est = int_of (es_input est) + int_of (opt_count (es_output est))"

definition soft_pending :: "limit_row \<Rightarrow> int \<Rightarrow> int \<Rightarrow> period_bounds \<Rightarrow> (limit_row \<times> int \<times> int \<times> string) list" where
  "soft_pending r used est b = (case lw_soft r of Some s \<Rightarrow> if s < used + est then [(r, s, used, pb_key b)] else [] | None \<Rightarrow> [])"

text \<open>The loop over the limits: the breaches, and the soft limits passed, each with its bound, use and period.\<close>

fun scan :: "(limit_row \<Rightarrow> period_error + int \<times> period_bounds) \<Rightarrow> int \<Rightarrow> limit_row list \<Rightarrow> period_error + svc_breach list \<times> (limit_row \<times> int \<times> int \<times> string) list" where
  "scan use est [] = Inr ([], [])"
| "scan use est (r # rs) =
     (case use r of
        Inl e \<Rightarrow> Inl e
      | Inr (used, b) \<Rightarrow>
          (case scan use est rs of
             Inl e \<Rightarrow> Inl e
           | Inr (brs, pend) \<Rightarrow>
               (case lw_hard r of
                  Some h \<Rightarrow>
                    if h < used + est
                    then Inr (\<lparr>sb_row = r, sb_limit = h, sb_used = used, sb_estimate = est, sb_key = pb_key b, sb_resetsAt = pb_end b\<rparr> # brs, pend)
                    else Inr (brs, soft_pending r used est b @ pend)
                | None \<Rightarrow> Inr (brs, soft_pending r used est b @ pend))))"

definition warning_of :: "int \<Rightarrow> bool \<Rightarrow> limit_row \<times> int \<times> int \<times> string \<Rightarrow> svc_warning" where
  "warning_of est notified p = (case p of (r, s, used, key) \<Rightarrow>
     \<lparr>sw_row = r, sw_limit = s, sw_used = used, sw_estimate = est, sw_key = key, sw_notified = notified\<rparr>)"

text \<open>Every soft limit that an allowed call passes is announced once.\<close>

fun notify :: "int \<Rightarrow> (limit_row \<times> int \<times> int \<times> string) list \<Rightarrow> service_notice list \<Rightarrow> service_notice list \<times> svc_warning list \<times> budget_event list" where
  "notify est [] ns = (ns, [], [])"
| "notify est (p # ps) ns =
     (case p of (r, s, used, key) \<Rightarrow>
        (let (first, ns1) = firstNotice N_Soft r key ns;
             (ns2, ws, evs) = notify est ps ns1
         in (ns2, warning_of est first p # ws, (if first then [eventFor N_Soft r s used key] else []) @ evs)))"

definition use_at :: "budget_env \<Rightarrow> int \<Rightarrow> call_db \<Rightarrow> limit_row \<Rightarrow> period_error + int \<times> period_bounds" where
  "use_at env ts db r = usedFor env r ts (getTz env db) (storedCacheReadWeight db) db"

definition checked :: "budget_env \<Rightarrow> int \<Rightarrow> string \<Rightarrow> string \<Rightarrow> usage_estimate \<Rightarrow> service_db \<Rightarrow> check_decision service_result" where
  "checked env now agent model est db =
    (if \<not> estimate_ok agent model est then (Inl Svc_Input, db, [])
     else (case scan (use_at env now (sd_base db)) (estimate_of est) (limitRows (Some agent) token_limit (sd_base db)) of
             Inl e \<Rightarrow> (Inl (Svc_Period e), db, [])
           | Inr (brs, pend) \<Rightarrow>
               if brs \<noteq> [] then (Inr \<lparr>dc_allowed = False, dc_breaches = brs, dc_warnings = map (warning_of (estimate_of est) False) pend\<rparr>, db, [])
               else (let (ns, ws, evs) = notify (estimate_of est) pend (sd_notices db)
                     in (Inr \<lparr>dc_allowed = True, dc_breaches = [], dc_warnings = ws\<rparr>, db\<lparr>sd_notices := ns\<rparr>, evs))))"

definition enforce :: "budget_env \<Rightarrow> int \<Rightarrow> string \<Rightarrow> string \<Rightarrow> usage_estimate \<Rightarrow> service_db \<Rightarrow> check_decision service_result" where
  "enforce env now agent model est db =
    (case checked env now agent model est db of
       (Inr d, db', evs) \<Rightarrow> (if dc_allowed d then Inr d else Inl (Svc_Exceeded d), db', evs)
     | other \<Rightarrow> other)"

section \<open>Recording\<close>

record usage_report =
  rp_agent :: string
  rp_model :: string
  rp_provider :: "string option"
  rp_input :: jsnum
  rp_output :: jsnum
  rp_cacheRead :: "jsnum option"
  rp_cacheWrite :: "jsnum option"
  rp_ts :: "jsnum option"
  rp_requestId :: "string option"

definition MAX_TS :: int where
  "MAX_TS = 8640000000000000"

definition report_ts :: "int \<Rightarrow> usage_report \<Rightarrow> int" where
  "report_ts now u = (case rp_ts u of Some t \<Rightarrow> int_of t | None \<Rightarrow> now)"

definition report_ok :: "int \<Rightarrow> usage_report \<Rightarrow> bool" where
  "report_ok now u \<longleftrightarrow>
     id_ok (rp_agent u) \<and> id_ok (rp_model u) \<and> opt_id_ok (rp_provider u) \<and> opt_id_ok (rp_requestId u) \<and>
     list_all peer_count [rp_input u, rp_output u, opt_count (rp_cacheRead u), opt_count (rp_cacheWrite u)] \<and>
     (case rp_ts u of Some t \<Rightarrow> peer_count t | None \<Rightarrow> True) \<and> report_ts now u \<le> MAX_TS \<and>
     int_of (rp_input u) + int_of (rp_output u) \<le> max_safe_integer"

definition report_event :: "int \<Rightarrow> usage_report \<Rightarrow> usage_event" where
  "report_event now u =
    \<lparr>ue_ts = report_ts now u, ue_agent = rp_agent u, ue_provider = or_empty (rp_provider u), ue_model = rp_model u,
     ue_input = int_of (rp_input u), ue_output = int_of (rp_output u), ue_cacheRead = int_of (opt_count (rp_cacheRead u)),
     ue_cacheWrite = int_of (opt_count (rp_cacheWrite u)), ue_requestId = rp_requestId u, ue_images = 0, ue_video = 0\<rparr>"

definition announce_soft :: "limit_row \<Rightarrow> int \<Rightarrow> string \<Rightarrow> service_notice list \<Rightarrow> service_notice list \<times> budget_event list" where
  "announce_soft r used key ns =
    (case lw_soft r of
       Some s \<Rightarrow>
         if s < used then (let (first, ns1) = firstNotice N_Soft r key ns in (ns1, if first then [eventFor N_Soft r s used key] else []))
         else (ns, [])
     | None \<Rightarrow> (ns, []))"

definition announce_one :: "limit_row \<Rightarrow> int \<Rightarrow> string \<Rightarrow> service_notice list \<Rightarrow> service_notice list \<times> budget_event list" where
  "announce_one r used key ns =
    (case lw_hard r of
       Some h \<Rightarrow>
         if h < used
         then (let ns1 = (if lw_soft r = None then ns else snd (firstNotice N_Soft r key ns));
                   (first, ns2) = firstNotice N_Hard r key ns1
               in (ns2, if first then [eventFor N_Hard r h used key] else []))
         else announce_soft r used key ns
     | None \<Rightarrow> announce_soft r used key ns)"

fun announce_limits :: "(limit_row \<Rightarrow> period_error + int \<times> period_bounds) \<Rightarrow> limit_row list \<Rightarrow> service_notice list \<Rightarrow> period_error + service_notice list \<times> budget_event list" where
  "announce_limits use [] ns = Inr (ns, [])"
| "announce_limits use (r # rs) ns =
     (case use r of
        Inl e \<Rightarrow> Inl e
      | Inr (used, b) \<Rightarrow>
          (let (ns1, evs) = announce_one r used (pb_key b) ns in
           case announce_limits use rs ns1 of Inl e \<Rightarrow> Inl e | Inr (ns2, evs2) \<Rightarrow> Inr (ns2, evs @ evs2)))"

text \<open>A report whose request id is in the ledger is ignored.\<close>

definition recordUsage :: "budget_env \<Rightarrow> int \<Rightarrow> usage_report \<Rightarrow> service_db \<Rightarrow> bool service_result" where
  "recordUsage env now u db =
    (if \<not> report_ok now u then (Inl Svc_Input, db, [])
     else if rp_requestId u \<noteq> None \<and> rp_requestId u \<in> set (map ue_requestId (cd_events (sd_base db))) then (Inr False, db, [])
     else
       (let base = (sd_base db)\<lparr>cd_events := cd_events (sd_base db) @ [report_event now u]\<rparr> in
        case announce_limits (use_at env (report_ts now u) base) (limitRows (Some (rp_agent u)) token_limit base) (sd_notices db) of
          Inl e \<Rightarrow> (Inl (Svc_Period e), db, [])
        | Inr (ns, evs) \<Rightarrow> (Inr True, \<lparr>sd_base = base, sd_notices = ns\<rparr>, evs)))"

section \<open>Settings\<close>

datatype bound_update = Bound_Keep | Bound_Clear | Bound_Set jsnum

record limit_update =
  lu_global :: bool
  lu_agentId :: "string option"
  lu_period :: call_period
  lu_metric :: metric
  lu_soft :: bound_update
  lu_hard :: bound_update

definition bound_ok :: "bound_update \<Rightarrow> bool" where
  "bound_ok v = (case v of Bound_Set n \<Rightarrow> peer_count n | _ \<Rightarrow> True)"

definition next_bound :: "bound_update \<Rightarrow> int option \<Rightarrow> int option" where
  "next_bound v cur = (case v of Bound_Keep \<Rightarrow> cur | Bound_Clear \<Rightarrow> None | Bound_Set n \<Rightarrow> Some (int_of n))"

definition update_ok :: "limit_update \<Rightarrow> bool" where
  "update_ok l \<longleftrightarrow> lu_period l \<noteq> Period_Week \<and> (if lu_global l then lu_agentId l = None else (case lu_agentId l of Some a \<Rightarrow> id_ok a | None \<Rightarrow> False)) \<and>
     bound_ok (lu_soft l) \<and> bound_ok (lu_hard l)"

definition limit_hit :: "limit_update \<Rightarrow> service_limit \<Rightarrow> bool" where
  "limit_hit l r \<longleftrightarrow> sv_agent r = lu_agentId l \<and> sv_period r = lu_period l \<and> sv_metric r = Some (lu_metric l)"

definition storeLimit :: "limit_update \<Rightarrow> call_db \<Rightarrow> (service_error + limit_row option) \<times> call_db" where
  "storeLimit l db =
    (if \<not> update_ok l then (Inl Svc_Input, db)
     else
       (let cur = List.find (limit_hit l) (cd_service db);
            soft = next_bound (lu_soft l) (Option.bind cur sv_soft);
            hard = next_bound (lu_hard l) (Option.bind cur sv_hard);
            row = \<lparr>sv_agent = lu_agentId l, sv_period = lu_period l, sv_metric = Some (lu_metric l), sv_hard = hard, sv_soft = soft\<rparr>
        in if soft = None \<and> hard = None then (Inr None, db\<lparr>cd_service := filter (\<lambda>r. \<not> limit_hit l r) (cd_service db)\<rparr>)
           else if (case (soft, hard) of (Some s, Some h) \<Rightarrow> h < s | _ \<Rightarrow> False) then (Inl Svc_Input, db)
           else (Inr (to_row row),
                 db\<lparr>cd_service := (if cur = None then cd_service db @ [row] else map (\<lambda>r. if limit_hit l r then row else r) (cd_service db))\<rparr>)))"

definition storeTimeZone :: "budget_env \<Rightarrow> string \<Rightarrow> call_db \<Rightarrow> (service_error + string) \<times> call_db" where
  "storeTimeZone env tz db = (case validateTimeZone (se_zones env) tz of
     Inl e \<Rightarrow> (Inl (Svc_Period e), db) | Inr v \<Rightarrow> (Inr v, db\<lparr>cd_timezone := Some v\<rparr>))"

definition writeCacheReadWeight :: "jsnum \<Rightarrow> call_db \<Rightarrow> (service_error + rat) \<times> call_db" where
  "writeCacheReadWeight w db = (case validateCacheReadWeight w of
     None \<Rightarrow> (Inl Svc_Weight, db) | Some v \<Rightarrow> (Inr v, db\<lparr>cd_weight := Some (Fin v)\<rparr>))"

record budget_settings =
  bs_limit :: "limit_update option"
  bs_timeZone :: "string option"
  bs_weight :: "jsnum option"

definition maybe_do :: "'a option \<Rightarrow> ('a \<Rightarrow> call_db \<Rightarrow> (service_error + 'b) \<times> call_db) \<Rightarrow> call_db \<Rightarrow> service_error + 'b option \<times> call_db" where
  "maybe_do x f db = (case x of None \<Rightarrow> Inr (None, db) | Some a \<Rightarrow> (case f a db of (Inl e, _) \<Rightarrow> Inl e | (Inr b, db') \<Rightarrow> Inr (Some b, db')))"

definition updateSettings ::
    "budget_env \<Rightarrow> budget_settings \<Rightarrow> call_db \<Rightarrow> (service_error + string \<times> rat \<times> limit_row option option \<times> limit_row list) \<times> call_db" where
  "updateSettings env st db =
    (case maybe_do (bs_limit st) storeLimit db of
       Inl e \<Rightarrow> (Inl e, db)
     | Inr (stored, db1) \<Rightarrow>
         (case maybe_do (bs_timeZone st) (storeTimeZone env) db1 of
            Inl e \<Rightarrow> (Inl e, db)
          | Inr (_, db2) \<Rightarrow>
              (case maybe_do (bs_weight st) writeCacheReadWeight db2 of
                 Inl e \<Rightarrow> (Inl e, db)
               | Inr (_, db3) \<Rightarrow> (Inr (getTz env db3, storedCacheReadWeight db3, stored, limitRows None (\<lambda>_. True) db3), db3))))"

definition prune_usage :: "jsnum \<Rightarrow> call_db \<Rightarrow> (service_error + nat) \<times> call_db" where
  "prune_usage beforeTs db =
    (if \<not> peer_count beforeTs then (Inl Svc_Input, db)
     else (Inr (length (filter (\<lambda>e. ue_ts e < int_of beforeTs) (cd_events db))),
           db\<lparr>cd_events := filter (\<lambda>e. \<not> ue_ts e < int_of beforeTs) (cd_events db)\<rparr>))"

section \<open>Reports\<close>

definition groups :: "(usage_event \<Rightarrow> string list) \<Rightarrow> usage_event list \<Rightarrow> (string list \<times> usage_event list) list" where
  "groups key es = map (\<lambda>k. (k, filter (\<lambda>e. key e = k) es)) (sort (remdups (map key es)))"

definition agent_model :: "usage_event \<Rightarrow> string list" where
  "agent_model e = [ue_agent e, ue_model e]"

record agent_report =
  ar_row :: usage_row
  ar_models :: "(string \<times> usage_totals) list"

text \<open>The rows of a period, agent by agent: model totals as they come, and the unrounded sums of the agent.\<close>

definition add_model :: "rat \<Rightarrow> string list \<times> usage_row \<Rightarrow> (string \<times> agent_report) list \<Rightarrow> (string \<times> agent_report) list" where
  "add_model w g agents = (case g of (k, r) \<Rightarrow>
     (let a = (case map_of agents (k ! 0) of Some a \<Rightarrow> a | None \<Rightarrow> \<lparr>ar_row = ZERO_ROW, ar_models = []\<rparr>)
      in map_set (k ! 0) \<lparr>ar_row = row_add (ar_row a) r, ar_models = ar_models a @ [(k ! 1, totals r w)]\<rparr> agents))"

record status_period =
  sp_period :: call_period
  sp_key :: string
  sp_start :: int
  sp_stop :: int
  sp_total :: usage_totals
  sp_agents :: "(string \<times> usage_totals \<times> (string \<times> usage_totals) list) list"

definition status_period_of :: "budget_env \<Rightarrow> int \<Rightarrow> string option \<Rightarrow> call_db \<Rightarrow> call_period \<Rightarrow> period_error + status_period" where
  "status_period_of env now agent db period =
    (case periodBounds (se_zones env) (Fin (of_int now)) (getTz env db) period of
       Inl e \<Rightarrow> Inl e
     | Inr b \<Rightarrow>
         (let w = storedCacheReadWeight db;
              es = span_events (pb_start b) (pb_end b) agent db;
              agents = fold (add_model w) (map (\<lambda>(k, g). (k, row_of g)) (groups agent_model es)) []
          in Inr \<lparr>sp_period = period, sp_key = pb_key b, sp_start = pb_start b, sp_stop = pb_end b,
                  sp_total = totals (ledger_sums (pb_start b) (pb_end b) agent db) w,
                  sp_agents = map (\<lambda>(a, r). (a, totals (ar_row r) w, ar_models r)) agents\<rparr>))"

datatype limit_state = L_Ok | L_Soft | L_Hard

definition limit_state_of :: "limit_row \<Rightarrow> int \<Rightarrow> limit_state" where
  "limit_state_of r used =
    (if (case lw_hard r of Some h \<Rightarrow> h \<le> used | None \<Rightarrow> False) then L_Hard
     else if (case lw_soft r of Some s \<Rightarrow> s \<le> used | None \<Rightarrow> False) then L_Soft else L_Ok)"

fun status_limits :: "(limit_row \<Rightarrow> period_error + int \<times> period_bounds) \<Rightarrow> limit_row list \<Rightarrow> period_error + (limit_row \<times> int \<times> limit_state) list" where
  "status_limits use [] = Inr []"
| "status_limits use (r # rs) =
     (case use r of
        Inl e \<Rightarrow> Inl e
      | Inr (used, _) \<Rightarrow> (case status_limits use rs of Inl e \<Rightarrow> Inl e | Inr ls \<Rightarrow> Inr ((r, used, limit_state_of r used) # ls)))"

definition status :: "budget_env \<Rightarrow> int \<Rightarrow> string option \<Rightarrow> call_db \<Rightarrow> service_error + status_period list \<times> (limit_row \<times> int \<times> limit_state) list" where
  "status env now agent db =
    (if \<not> opt_id_ok agent then Inl Svc_Input
     else (case status_period_of env now agent db Period_Day of
             Inl e \<Rightarrow> Inl (Svc_Period e)
           | Inr day \<Rightarrow>
               (case status_period_of env now agent db Period_Month of
                  Inl e \<Rightarrow> Inl (Svc_Period e)
                | Inr month \<Rightarrow>
                    (case status_limits (use_at env now db) (limitRows agent (\<lambda>_. True) db) of
                       Inl e \<Rightarrow> Inl (Svc_Period e)
                     | Inr ls \<Rightarrow> Inr ([day, month], ls)))))"

record cache_usage_row =
  cu_key :: "string list"
  cu_calls :: int
  cu_uncached :: int
  cu_input :: int
  cu_output :: int
  cu_cacheRead :: int
  cu_cacheWrite :: int
  cu_cachingInput :: int
  cu_hitRatio :: rat
  cu_hitRatioCaching :: rat

definition ratio :: "int \<Rightarrow> int \<Rightarrow> rat" where
  "ratio n d = (if d = 0 then 0 else min 1 (of_int n / of_int d))"

definition uses_cache :: "usage_event \<Rightarrow> bool" where
  "uses_cache e \<longleftrightarrow> 0 < ue_cacheRead e \<or> 0 < ue_cacheWrite e"

definition cache_row :: "string list \<Rightarrow> usage_event list \<Rightarrow> cache_usage_row" where
  "cache_row k es =
    (let inp = sum_list (map ue_input es); reads = sum_list (map ue_cacheRead es);
         caching = sum_list (map (\<lambda>e. if uses_cache e then ue_input e else 0) es)
     in \<lparr>cu_key = k, cu_calls = int (length es),
         cu_uncached = sum_list (map (\<lambda>e. if ue_cacheRead e = 0 \<and> ue_cacheWrite e = 0 then 1 else 0) es), cu_input = inp,
         cu_output = sum_list (map ue_output es), cu_cacheRead = reads, cu_cacheWrite = sum_list (map ue_cacheWrite es), cu_cachingInput = caching,
         cu_hitRatio = ratio reads inp, cu_hitRatioCaching = ratio reads caching\<rparr>)"

definition summarizeCacheUsage :: "int \<Rightarrow> int \<Rightarrow> string option \<Rightarrow> call_db \<Rightarrow> cache_usage_row list" where
  "summarizeCacheUsage since until agent db =
    map (\<lambda>(k, es). cache_row k es) (groups (\<lambda>e. [ue_provider e, ue_agent e, ue_model e]) (span_events since until agent db))"

definition cacheUsage :: "jsnum \<Rightarrow> jsnum \<Rightarrow> string option \<Rightarrow> call_db \<Rightarrow> service_error + cache_usage_row list" where
  "cacheUsage since until agent db =
    (if \<not> peer_count since \<or> \<not> peer_count until \<or> until < since \<or> \<not> opt_id_ok agent then Inl Svc_Input
     else Inr (summarizeCacheUsage (int_of since) (int_of until) agent db))"

end
