(* ===== verification/Service_Budget_Theorems.thy ===== *)
theory Service_Budget_Theorems
  imports Budget_Service
begin

text \<open>
  Theorems about the budget service: the call port and the service count alike, a call that \<open>enforce\<close> lets through keeps the hard limits once its use is
  recorded, every threshold is announced once, and the status report of an agent is the sum of its ledger.
\<close>

section \<open>The two enforcement points agree\<close>

lemma countedTokens_full: "countedTokens n reads 1 = n"
proof -
  have "js_round (1 * of_int MICROS) = MICROS" by (simp add: js_round_def floor_eq_iff)
  moreover have "(reads * MICROS + (MICROS - 1)) div MICROS = reads"
    by (subst div_mult_self3) (simp_all add: MICROS_def)
  ultimately show ?thesis unfolding countedTokens_def Let_def by simp
qed

lemma used_settled:
  assumes "cl_scope l = (case a of Some _ \<Rightarrow> Sc_Agent | None \<Rightarrow> Sc_Global)" "cl_id l = or_empty a"
  shows "USED (cl_metric l) (ledger_sums start stop a db) (storedCacheReadWeight db) =
    (let weight = (if cl_metric l = M_Tokens then storedCacheReadWeight db else 1); (n, reads) = settled_sums l start stop (weight < 1) db
     in if cl_metric l = M_Tokens then countedTokens n reads weight else n)"
proof -
  have evs: "span_events start stop a db = filter (\<lambda>e. start \<le> ue_ts e \<and> ue_ts e < stop \<and> (cl_scope l = Sc_Agent \<longrightarrow> ue_agent e = cl_id l)) (cd_events db)"
    using assms by (cases a) (simp_all add: span_events_def or_empty_def)
  have sum: "sum_list (map ue_input es) + sum_list (map ue_output es) = sum_list (map (event_amount M_Tokens) es)" for es
    by (induction es) (simp_all add: event_amount_def)
  have media: "event_amount M_Images = ue_images" "event_amount M_VideoSeconds = ue_video" by (simp_all add: event_amount_def fun_eq_iff)
  have scope: "cl_scope l = Sc_Global \<or> cl_scope l = Sc_Agent" using assms by (cases a) simp_all
  note defs = USED_def ledger_sums_def row_of_def settled_sums_def evs sum media Let_def
  show ?thesis
  proof (cases "storedCacheReadWeight db < 1")
    case True
    then show ?thesis using scope by (cases "cl_metric l") (simp_all add: defs)
  next
    case False
    then have "storedCacheReadWeight db = 1" using weight_bounds(2) [of db] by linarith
    then show ?thesis using scope by (cases "cl_metric l") (simp_all add: defs countedTokens_full)
  qed
qed


section \<open>An enforced call keeps the hard limits\<close>

lemma scan_no_breach:
  assumes "scan use est rs = Inr ([], pend)" "r \<in> set rs"
  shows "\<exists>used b. use r = Inr (used, b) \<and> (\<forall>h. lw_hard r = Some h \<longrightarrow> used + est \<le> h)"
  using assms
proof (induction rs arbitrary: pend)
  case (Cons q rs)
  obtain used b where u: "use q = Inr (used, b)" using Cons.prems(1) by (cases "use q") auto
  obtain brs p where s: "scan use est rs = Inr (brs, p)" using Cons.prems(1) u by (cases "scan use est rs") auto
  have "brs = []" "\<forall>h. lw_hard q = Some h \<longrightarrow> used + est \<le> h" using Cons.prems(1) u s by (auto split: option.splits if_splits)
  with Cons u s show ?case by auto
qed simp

lemma checked_allowE:
  assumes "checked env now agent model est db = (Inr d, db', evs)" "dc_allowed d"
  obtains pend ns where "scan (use_at env now (sd_base db)) (estimate_of est) (limitRows (Some agent) token_limit (sd_base db)) = Inr ([], pend)"
    "db' = db\<lparr>sd_notices := ns\<rparr>"
proof -
  have ok: "estimate_ok agent model est" using assms(1) by (auto simp: checked_def split: if_splits)
  note c = assms(1) [unfolded checked_def]
  obtain brs pend where s: "scan (use_at env now (sd_base db)) (estimate_of est) (limitRows (Some agent) token_limit (sd_base db)) = Inr (brs, pend)"
    using c ok by (cases "scan (use_at env now (sd_base db)) (estimate_of est) (limitRows (Some agent) token_limit (sd_base db))") auto
  have "brs = []" using c ok s assms(2) by (cases "brs = []") auto
  moreover obtain ns where "db' = db\<lparr>sd_notices := ns\<rparr>" using c ok s \<open>brs = []\<close> by (auto split: prod.splits)
  ultimately show ?thesis using that s by blast
qed

lemma recordedE:
  assumes "recordUsage env now u db = (Inr True, db', evs)"
  shows "report_ok now u" "sd_base db' = (sd_base db)\<lparr>cd_events := cd_events (sd_base db) @ [report_event now u]\<rparr>"
  using assms by (auto simp: recordUsage_def Let_def split: if_splits sum.splits prod.splits)

lemma use_after_record:
  assumes "report_ok now u" "use_at env ts db r = Inr (used, b)" "lw_metric r = M_Tokens"
    and "use_at env ts (db\<lparr>cd_events := cd_events db @ [report_event now u]\<rparr>) r = Inr (used', b')"
  shows "used' \<le> used + int_of (rp_input u) + int_of (rp_output u)"
proof -
  let ?e = "report_event now u" and ?db = "db\<lparr>cd_events := cd_events db @ [report_event now u]\<rparr>"
  have w: "storedCacheReadWeight ?db = storedCacheReadWeight db" by (rule weight_cong) simp
  have tz: "getTz env ?db = getTz env db" by (simp add: getTz_def)
  have b: "b' = b" using assms(2,4) by (auto simp: use_at_def usedFor_def tz split: sum.splits)
  let ?R = "ledger_sums (pb_start b) (pb_end b) (lw_agent r)"
  define q where "q = (if pb_start b \<le> ue_ts ?e \<and> ue_ts ?e < pb_end b \<and> (case lw_agent r of Some a \<Rightarrow> ue_agent ?e = a | None \<Rightarrow> True) then 1 else 0 :: int)"
  have e: "ue_input ?e = int_of (rp_input u)" "ue_output ?e = int_of (rp_output u)" by (simp_all add: report_event_def)
  have rows: "ur_i (?R ?db) = ur_i (?R db) + q * int_of (rp_input u)" "ur_o (?R ?db) = ur_o (?R db) + q * int_of (rp_output u)"
    "ur_ri (?R ?db) = ur_ri (?R db) + q * event_reads ?e"
    by (simp_all add: ledger_sums_def row_of_def span_events_def q_def e)
  have nonneg: "0 \<le> int_of (rp_input u)" "0 \<le> int_of (rp_output u)" "0 \<le> event_reads ?e" "0 \<le> q" "q \<le> 1"
    using assms(1) by (auto simp: report_ok_def event_reads_def report_event_def peer_count_nonneg q_def)
  have "used' = countedTokens (ur_i (?R ?db) + ur_o (?R ?db)) (ur_ri (?R ?db)) (storedCacheReadWeight db)"
    "used = countedTokens (ur_i (?R db) + ur_o (?R db)) (ur_ri (?R db)) (storedCacheReadWeight db)"
    using assms(2-4) by (auto simp: use_at_def usedFor_def tz w b USED_def split: sum.splits)
  moreover have "countedTokens (ur_i (?R db) + ur_o (?R db) + q * (int_of (rp_input u) + int_of (rp_output u))) (ur_ri (?R db) + q * event_reads ?e) (storedCacheReadWeight db)
      \<le> countedTokens (ur_i (?R db) + ur_o (?R db)) (ur_ri (?R db)) (storedCacheReadWeight db) + q * (int_of (rp_input u) + int_of (rp_output u))"
    using weight_bounds [of db] nonneg by (intro countedTokens_add) auto
  moreover have "q * (int_of (rp_input u) + int_of (rp_output u)) \<le> int_of (rp_input u) + int_of (rp_output u)"
    using nonneg mult_right_mono [of q 1 "int_of (rp_input u) + int_of (rp_output u)"] by simp
  ultimately show ?thesis by (simp add: rows algebra_simps)
qed


section \<open>Every threshold is announced once\<close>

definition event_notice :: "budget_event \<Rightarrow> service_notice" where
  "event_notice e = notice_key_of (be_kind e) (be_row e) (be_key e)"

text \<open>What a step may do to the notices: it adds to them, and announces only new ones, each once.\<close>

definition fresh_announced :: "service_notice list \<Rightarrow> service_notice list \<Rightarrow> budget_event list \<Rightarrow> bool" where
  "fresh_announced ns ns' evs \<longleftrightarrow>
     set ns \<subseteq> set ns' \<and> distinct (map event_notice evs) \<and> event_notice ` set evs \<subseteq> set ns' - set ns"

lemma fresh_refl: "fresh_announced ns ns []"
  by (simp add: fresh_announced_def)

lemma fresh_trans: "fresh_announced a b xs \<Longrightarrow> fresh_announced b c ys \<Longrightarrow> fresh_announced a c (xs @ ys)"
  unfolding fresh_announced_def map_append distinct_append set_append image_Un set_map by blast

lemma fresh_first: "firstNotice kind r key ns = (first, ns') \<Longrightarrow> fresh_announced ns ns' (if first then [eventFor kind r l used key] else [])"
  by (auto simp: firstNotice_def fresh_announced_def event_notice_def eventFor_def split: if_splits)

lemma fresh_silent: "fresh_announced ns (snd (firstNotice kind r key ns)) []"
  by (auto simp: firstNotice_def fresh_announced_def)

lemma notify_fresh: "notify est ps ns = (ns', ws, evs) \<Longrightarrow> fresh_announced ns ns' evs"
proof (induction ps arbitrary: ns ns' ws evs)
  case (Cons p ps)
  obtain r s used key where p: "p = (r, s, used, key)" by (cases p) auto
  obtain first ns1 where f: "firstNotice N_Soft r key ns = (first, ns1)" by (cases "firstNotice N_Soft r key ns")
  obtain ns2 ws2 evs2 where n: "notify est ps ns1 = (ns2, ws2, evs2)" by (cases "notify est ps ns1") auto
  have "ns' = ns2" "evs = (if first then [eventFor N_Soft r s used key] else []) @ evs2" using Cons.prems by (simp_all add: p f n)
  then show ?case using fresh_trans [OF fresh_first [OF f] Cons.IH [OF n]] by simp
qed (simp add: fresh_refl)

lemma announce_soft_fresh: "announce_soft r used key ns = (ns', evs) \<Longrightarrow> fresh_announced ns ns' evs"
  by (auto simp: announce_soft_def fresh_refl dest!: fresh_first split: option.splits if_splits prod.splits)

lemma announce_one_fresh: "announce_one r used key ns = (ns', evs) \<Longrightarrow> fresh_announced ns ns' evs"
proof (cases "\<exists>h. lw_hard r = Some h \<and> h < used")
  case True
  assume a: "announce_one r used key ns = (ns', evs)"
  from True obtain h where h: "lw_hard r = Some h" "h < used" by blast
  let ?ns1 = "if lw_soft r = None then ns else snd (firstNotice N_Soft r key ns)"
  obtain first ns2 where f: "firstNotice N_Hard r key ?ns1 = (first, ns2)" by (cases "firstNotice N_Hard r key ?ns1")
  have "ns' = ns2" "evs = (if first then [eventFor N_Hard r h used key] else [])" using a h f by (simp_all add: announce_one_def Let_def split: prod.splits)
  moreover have "fresh_announced ns ?ns1 []" by (simp add: fresh_refl fresh_silent)
  ultimately show ?thesis using fresh_trans [OF _ fresh_first [OF f]] by fastforce
next
  case False
  assume "announce_one r used key ns = (ns', evs)"
  with False show ?thesis by (auto simp: announce_one_def intro: announce_soft_fresh split: option.splits if_splits)
qed

lemma announce_fresh: "announce_limits use rs ns = Inr (ns', evs) \<Longrightarrow> fresh_announced ns ns' evs"
proof (induction rs arbitrary: ns ns' evs)
  case (Cons r rs)
  obtain used b where u: "use r = Inr (used, b)" using Cons.prems by (cases "use r") auto
  obtain ns1 e1 where o1: "announce_one r used (pb_key b) ns = (ns1, e1)" by (cases "announce_one r used (pb_key b) ns")
  obtain e2 where o2: "announce_limits use rs ns1 = Inr (ns', e2)" "evs = e1 @ e2" using Cons.prems u o1 by (auto split: sum.splits)
  show ?case unfolding o2(2) by (rule fresh_trans [OF announce_one_fresh [OF o1] Cons.IH [OF o2(1)]])
qed (simp add: fresh_refl)

datatype service_op =
    Sv_Check int string string usage_estimate
  | Sv_Enforce int string string usage_estimate
  | Sv_Record int usage_report
  | Sv_Settings budget_settings
  | Sv_Prune jsnum

fun service_step :: "budget_env \<Rightarrow> service_op \<Rightarrow> service_db \<Rightarrow> service_db \<times> budget_event list" where
  "service_step env (Sv_Check now agent model est) db = snd (checked env now agent model est db)"
| "service_step env (Sv_Enforce now agent model est) db = snd (enforce env now agent model est db)"
| "service_step env (Sv_Record now u) db = snd (recordUsage env now u db)"
| "service_step env (Sv_Settings st) db = (db\<lparr>sd_base := snd (updateSettings env st (sd_base db))\<rparr>, [])"
| "service_step env (Sv_Prune t) db = (db\<lparr>sd_base := snd (prune_usage t (sd_base db))\<rparr>, [])"

fun service_run :: "budget_env \<Rightarrow> service_op list \<Rightarrow> service_db \<Rightarrow> service_db \<times> budget_event list" where
  "service_run env [] db = (db, [])"
| "service_run env (p # ps) db =
     (let (db1, evs) = service_step env p db; (db2, evs2) = service_run env ps db1 in (db2, evs @ evs2))"

lemma checked_fresh: "snd (checked env now agent model est db) = (db', evs) \<Longrightarrow> fresh_announced (sd_notices db) (sd_notices db') evs"
  by (auto simp: checked_def fresh_refl dest!: notify_fresh split: if_splits sum.splits prod.splits)

lemma enforce_state: "snd (enforce env now agent model est db) = snd (checked env now agent model est db)"
  by (auto simp: enforce_def split: prod.splits sum.splits)

lemma service_step_fresh: "service_step env p db = (db', evs) \<Longrightarrow> fresh_announced (sd_notices db) (sd_notices db') evs"
proof (cases p)
  case (Sv_Record now u)
  assume "service_step env p db = (db', evs)"
  with Sv_Record show ?thesis
    by (auto simp: recordUsage_def Let_def fresh_refl dest!: announce_fresh split: if_splits sum.splits prod.splits)
qed (auto simp: fresh_refl enforce_state checked_fresh)

text \<open>
  (C38) Across any sequence of checks, reports, settings and prunings, restarts included, each threshold of a limit is announced at most once in each period, and nothing is
  announced that the store already recorded as announced.
\<close>

theorem thresholds_announced_once:
  "service_run env ps db = (db', evs) \<Longrightarrow> distinct (map event_notice evs) \<and> event_notice ` set evs \<inter> set (sd_notices db) = {} \<and> event_notice ` set evs \<subseteq> set (sd_notices db')"
proof -
  have "service_run env ps db = (db', evs) \<Longrightarrow> fresh_announced (sd_notices db) (sd_notices db') evs"
  proof (induction ps arbitrary: db db' evs)
    case (Cons p ps)
    obtain db1 e1 where s: "service_step env p db = (db1, e1)" by (cases "service_step env p db")
    obtain e2 where r: "service_run env ps db1 = (db', e2)" "evs = e1 @ e2" using Cons.prems s by (auto split: prod.splits)
    show ?case unfolding r(2) by (rule fresh_trans [OF service_step_fresh [OF s] Cons.IH [OF r(1)]])
  qed (simp add: fresh_refl)
  then show "service_run env ps db = (db', evs) \<Longrightarrow> distinct (map event_notice evs) \<and> event_notice ` set evs \<inter> set (sd_notices db) = {} \<and> event_notice ` set evs \<subseteq> set (sd_notices db')"
    by (fastforce simp: fresh_announced_def)
qed

section \<open>The status report adds up\<close>

text \<open>A column of a usage row, with the number that each event contributes to it.\<close>

definition counts :: "(usage_row \<Rightarrow> int) \<Rightarrow> (usage_event \<Rightarrow> int) \<Rightarrow> bool" where
  "counts col f \<longleftrightarrow> (\<forall>es. col (row_of es) = sum_list (map f es)) \<and> (\<forall>a b. col (row_add a b) = col a + col b) \<and> col ZERO_ROW = 0"

lemma counts_columns:
  "counts ur_n (\<lambda>_. 1)" "counts ur_i ue_input" "counts ur_o ue_output" "counts ur_cr ue_cacheRead" "counts ur_cw ue_cacheWrite"
  "counts ur_im ue_images" "counts ur_vs ue_video" "counts ur_ri event_reads"
  "counts ur_fresh (\<lambda>e. max 0 (ue_input e - ue_cacheRead e - ue_cacheWrite e))"
  by (simp_all add: counts_def row_of_def row_add_def ZERO_ROW_def sum_list_triv)

definition agent_column :: "(usage_row \<Rightarrow> int) \<Rightarrow> (string \<times> agent_report) list \<Rightarrow> string \<Rightarrow> int" where
  "agent_column col agents a = (case map_of agents a of Some r \<Rightarrow> col (ar_row r) | None \<Rightarrow> 0)"

lemma add_model_column:
  "counts col f \<Longrightarrow> agent_column col (add_model w (k, r) agents) a = agent_column col agents a + (if k ! 0 = a then col r else 0)"
  by (auto simp: agent_column_def add_model_def map_set_lookup counts_def split: option.splits)

lemma fold_add_model:
  "counts col f \<Longrightarrow> agent_column col (fold (add_model w) gs agents) a = agent_column col agents a + sum_list (map (\<lambda>(k, r). if k ! 0 = a then col r else 0) gs)"
  by (induction gs arbitrary: agents) (auto simp: add_model_column)

lemma fold_add_model_distinct: "distinct (map fst agents) \<Longrightarrow> distinct (map fst (fold (add_model w) gs agents))"
  by (induction gs arbitrary: agents) (auto simp: add_model_def Let_def map_set_distinct)

lemma sum_one_key: "distinct ks \<Longrightarrow> sum_list (map (\<lambda>k. if k = x then (c :: int) else 0) ks) = (if x \<in> set ks then c else 0)"
  by (induction ks) auto

lemma sum_by_key:
  assumes "distinct ks"
  shows "sum_list (map (\<lambda>k. if P k then sum_list (map f (filter (\<lambda>e. key e = k) es)) else 0) ks) =
    (sum_list (map (\<lambda>e. if key e \<in> set ks \<and> P (key e) then f e else 0) es) :: int)"
proof (induction es)
  case (Cons e es)
  have "(if P k then sum_list (map f (filter (\<lambda>e. key e = k) (e # es))) else 0) =
      (if P k then sum_list (map f (filter (\<lambda>e. key e = k) es)) else 0) + (if k = key e then if P (key e) then f e else 0 else 0)" for k
    by auto
  then have "sum_list (map (\<lambda>k. if P k then sum_list (map f (filter (\<lambda>e. key e = k) (e # es))) else 0) ks) =
      sum_list (map (\<lambda>k. if P k then sum_list (map f (filter (\<lambda>e. key e = k) es)) else 0) ks) +
      sum_list (map (\<lambda>k. if k = key e then if P (key e) then f e else 0 else 0) ks)"
    by (simp only: sum_list_addf)
  then show ?case by (simp add: Cons sum_one_key [OF assms])
next
  case Nil
  show ?case by (induction ks) simp_all
qed

lemma agent_sum:
  assumes "counts col f"
  shows "agent_column col (fold (add_model w) (map (\<lambda>(k, g). (k, row_of g)) (groups agent_model es)) []) a = col (row_of (filter (\<lambda>e. ue_agent e = a) es))"
proof -
  let ?ks = "sort (remdups (map agent_model es))"
  have "agent_column col (fold (add_model w) (map (\<lambda>(k, g). (k, row_of g)) (groups agent_model es)) []) a =
      sum_list (map (\<lambda>k. if k ! 0 = a then sum_list (map f (filter (\<lambda>e. agent_model e = k) es)) else 0) ?ks)"
    unfolding fold_add_model [OF assms] using assms
    by (auto simp: agent_column_def groups_def counts_def comp_def intro!: arg_cong [where f = sum_list])
  also have "\<dots> = sum_list (map (\<lambda>e. if agent_model e \<in> set ?ks \<and> agent_model e ! 0 = a then f e else 0) es)" by (rule sum_by_key) simp
  also have "\<dots> = sum_list (map (\<lambda>e. if ue_agent e = a then f e else 0) es)"
    by (rule arg_cong [where f = sum_list], rule map_cong) (auto simp: agent_model_def)
  also have "\<dots> = col (row_of (filter (\<lambda>e. ue_agent e = a) es))" using assms by (simp add: counts_def sum_list_map_filter')
  finally show ?thesis .
qed

text \<open>
  In the status report of a period the total of each agent, which is built by adding up the rows of its models, is exactly the total of the ledger of that agent: no
  rounding of the models shows in it.
\<close>

lemma status_agent_totals:
  assumes "status_period_of env now agent db period = Inr sp" "(a, tot, models) \<in> set (sp_agents sp)"
  shows "tot = totals (row_of (filter (\<lambda>e. ue_agent e = a) (span_events (sp_start sp) (sp_stop sp) agent db))) (storedCacheReadWeight db)"
proof -
  obtain b where b: "periodBounds (se_zones env) (Fin (of_int now)) (getTz env db) period = Inr b"
    using assms(1) by (cases "periodBounds (se_zones env) (Fin (of_int now)) (getTz env db) period") (simp_all add: status_period_of_def)
  have sp: "sp_start sp = pb_start b" "sp_stop sp = pb_end b" and agents: "sp_agents sp =
      map (\<lambda>(a, r). (a, totals (ar_row r) (storedCacheReadWeight db), ar_models r))
        (fold (add_model (storedCacheReadWeight db)) (map (\<lambda>(k, g). (k, row_of g)) (groups agent_model (span_events (pb_start b) (pb_end b) agent db))) [])"
    using assms(1) b by (auto simp: status_period_of_def Let_def)
  let ?es = "span_events (pb_start b) (pb_end b) agent db"
  let ?agents = "fold (add_model (storedCacheReadWeight db)) (map (\<lambda>(k, g). (k, row_of g)) (groups agent_model ?es)) []"
  from assms(2) obtain r where r: "(a, r) \<in> set ?agents" "tot = totals (ar_row r) (storedCacheReadWeight db)" by (auto simp: agents)
  have "map_of ?agents a = Some r" using r(1) fold_add_model_distinct [of "[]"] by (simp add: map_of_is_SomeI)
  then have col: "col (ar_row r) = col (row_of (filter (\<lambda>e. ue_agent e = a) ?es))" if "counts col f" for col f
    using agent_sum [OF that, of "storedCacheReadWeight db" ?es a] by (simp add: agent_column_def)
  have "ar_row r = row_of (filter (\<lambda>e. ue_agent e = a) ?es)"
    by (rule usage_row.equality) (simp_all add: counts_columns [THEN col])
  then show ?thesis by (simp add: r(2) sp)
qed

section \<open>Settings\<close>

text \<open>The table of limits: one row for a key, with a bound, and the soft one below the hard one.\<close>

definition limit_table_ok :: "call_db \<Rightarrow> bool" where
  "limit_table_ok db \<longleftrightarrow> distinct (map (\<lambda>r. (sv_agent r, sv_period r, sv_metric r)) (cd_service db)) \<and>
     list_all (\<lambda>r. (sv_soft r \<noteq> None \<or> sv_hard r \<noteq> None) \<and> (\<forall>s h. sv_soft r = Some s \<longrightarrow> sv_hard r = Some h \<longrightarrow> s \<le> h)) (cd_service db)"

lemma storeLimit_table: "limit_table_ok db \<Longrightarrow> limit_table_ok (snd (storeLimit l db))"
proof -
  assume ok: "limit_table_ok db"
  let ?key = "\<lambda>r. (sv_agent r, sv_period r, sv_metric r)"
  have hit: "limit_hit l r \<longleftrightarrow> ?key r = (lu_agentId l, lu_period l, Some (lu_metric l))" for r by (auto simp: limit_hit_def)
  have same: "map ?key (map (\<lambda>r. if limit_hit l r then row else r) rs) = map ?key rs" if "?key row = (lu_agentId l, lu_period l, Some (lu_metric l))" for row rs
    using that by (induction rs) (auto simp: hit)
  have new: "(lu_agentId l, lu_period l, Some (lu_metric l)) \<notin> set (map ?key rs)" if "List.find (limit_hit l) rs = None" for rs
    using that by (force simp: find_None_iff hit)
  let ?cur = "List.find (limit_hit l) (cd_service db)"
  define soft hard where b: "soft = next_bound (lu_soft l) (Option.bind ?cur sv_soft)" "hard = next_bound (lu_hard l) (Option.bind ?cur sv_hard)"
  define row where "row = \<lparr>sv_agent = lu_agentId l, sv_period = lu_period l, sv_metric = Some (lu_metric l), sv_hard = hard, sv_soft = soft\<rparr>"
  let ?rows = "if ?cur = None then cd_service db @ [row] else map (\<lambda>r. if limit_hit l r then row else r) (cd_service db)"
  let ?bad = "case (soft, hard) of (Some s, Some h) \<Rightarrow> h < s | _ \<Rightarrow> False"
  note store = storeLimit_def [of l db, unfolded Let_def, folded b row_def]
  have "snd (storeLimit l db) = (if \<not> update_ok l \<or> (soft \<noteq> None \<or> hard \<noteq> None) \<and> ?bad then db
      else if soft = None \<and> hard = None then db\<lparr>cd_service := filter (\<lambda>r. \<not> limit_hit l r) (cd_service db)\<rparr> else db\<lparr>cd_service := ?rows\<rparr>)"
    unfolding store by (cases "update_ok l"; cases "soft = None"; cases "hard = None"; cases ?bad) (auto simp: row_def)
  then consider "snd (storeLimit l db) = db" | "snd (storeLimit l db) = db\<lparr>cd_service := filter (\<lambda>r. \<not> limit_hit l r) (cd_service db)\<rparr>"
    | "snd (storeLimit l db) = db\<lparr>cd_service := ?rows\<rparr>" "soft \<noteq> None \<or> hard \<noteq> None" "\<not> ?bad"
    by argo
  then show ?thesis
  proof cases
    case 3
    have key: "?key row = (lu_agentId l, lu_period l, Some (lu_metric l))" by (simp add: row_def)
    have keys: "distinct (map ?key ?rows)"
    proof (cases "?cur = None")
      case True
      then show ?thesis using ok new [OF True] key by (simp add: limit_table_ok_def)
    next
      case False
      show ?thesis unfolding if_not_P [OF False] same [OF key] using ok by (simp add: limit_table_ok_def)
    qed
    have "set ?rows \<subseteq> set (cd_service db) \<union> {row}" by auto
    moreover have "(sv_soft row \<noteq> None \<or> sv_hard row \<noteq> None) \<and> (\<forall>s h. sv_soft row = Some s \<longrightarrow> sv_hard row = Some h \<longrightarrow> s \<le> h)"
      using 3(2,3) by (auto simp: row_def split: option.splits)
    ultimately show ?thesis unfolding 3(1) using ok keys by (auto simp: limit_table_ok_def list_all_iff)
  qed (use ok in \<open>auto simp: limit_table_ok_def list_all_iff distinct_map_filter\<close>)
qed

lemma weight_read_back: "writeCacheReadWeight w db = (Inr v, db') \<Longrightarrow> storedCacheReadWeight db' = v"
proof -
  assume "writeCacheReadWeight w db = (Inr v, db')"
  then obtain q where q: "0 \<le> q" "q \<le> 1" "v = of_int (js_round (q * of_int MICROS)) / of_int MICROS" and db': "db' = db\<lparr>cd_weight := Some (Fin v)\<rparr>"
    by (cases w) (auto simp: writeCacheReadWeight_def validateCacheReadWeight_def not_less split: if_splits)
  define n where "n = js_round (q * of_int MICROS)"
  have n: "0 \<le> n" "n \<le> MICROS" using q(1,2) by (simp_all add: n_def js_round_def MICROS_def floor_le_iff)
  have "v * of_int MICROS = of_int n" by (simp add: q(3) n_def MICROS_def)
  then have "js_round (v * of_int MICROS) = n" by (simp add: js_round_def floor_eq_iff)
  moreover have "0 \<le> v" "v \<le> 1" using n unfolding q(3) n_def [symmetric] by (simp_all add: MICROS_def)
  ultimately show ?thesis by (simp add: storedCacheReadWeight_def validateCacheReadWeight_def db' q(3) n_def)
qed

section \<open>Witnesses\<close>

text \<open>A zone that prints the dates around the epoch.\<close>

definition three_days :: date_formatter where
  "three_days t = (if t < 0 then (1969, 12, 31) else if t < 86400000 then (1970, 1, 1) else (1970, 1, 2))"

definition service_sample_env :: budget_env where
  "service_sample_env = \<lparr>se_zones = (\<lambda>_. Some three_days), se_defaultZone = ''UTC''\<rparr>"

definition port_sample_env :: call_env where
  "port_sample_env = \<lparr>cv_zones = (\<lambda>_. Some three_days), cv_defaultZone = ''UTC'', cv_ttl = 1800000\<rparr>"

definition sample_service_limit :: service_limit where
  "sample_service_limit = \<lparr>sv_agent = Some ''planner'', sv_period = Period_Day, sv_metric = Some M_Tokens, sv_hard = Some 1000, sv_soft = Some 500\<rparr>"

definition sample_service_db :: service_db where
  "sample_service_db = \<lparr>sd_base = sample_db\<lparr>cd_calls := [call_row_of ''r1'' (sample_request 300) 5000], cd_service := [sample_service_limit]\<rparr>, sd_notices = []\<rparr>"

definition sample_estimate :: usage_estimate where
  "sample_estimate = \<lparr>es_provider = None, es_input = Fin 600, es_output = Some (Fin 100)\<rparr>"

definition sample_report :: "rat \<Rightarrow> usage_report" where
  "sample_report n = \<lparr>rp_agent = ''planner'', rp_model = ''m'', rp_provider = None, rp_input = Fin n, rp_output = Fin 50, rp_cacheRead = None,
     rp_cacheWrite = None, rp_ts = None, rp_requestId = None\<rparr>"

abbreviation sample_enforced :: "check_decision service_result" where
  "sample_enforced \<equiv> enforce service_sample_env 5000 ''planner'' ''m'' sample_estimate sample_service_db"

abbreviation sample_recorded :: "bool service_result" where
  "sample_recorded \<equiv> recordUsage service_sample_env 6000 (sample_report 600) (fst (snd sample_enforced))"

definition sample_ledger :: call_db where
  "sample_ledger = (sd_base sample_service_db)\<lparr>cd_events := [report_event 6000 (sample_report 600)]\<rparr>"

abbreviation sample_read_use :: "period_error + int \<times> period_bounds" where
  "sample_read_use \<equiv> use_at service_sample_env 7000 sample_ledger (the (to_row sample_service_limit))"

lemma sample_used: "fst (projr sample_read_use) = 650 \<and> \<not> isl sample_read_use"
  by code_simp


lemma sample_enforced_ok: "(case fst sample_enforced of Inr d \<Rightarrow> dc_allowed d | Inl _ \<Rightarrow> False) \<and> fst sample_recorded = Inr True"
  by code_simp


abbreviation sample_service_run :: "service_db \<times> budget_event list" where
  "sample_service_run \<equiv> service_run service_sample_env [Sv_Record 6000 (sample_report 600), Sv_Record 7000 (sample_report 600), Sv_Record 8000 (sample_report 600)] sample_service_db"

theorem thresholds_announced_once_witness:
  "map be_kind (snd sample_service_run) = [N_Soft, N_Hard] \<and> distinct (map event_notice (snd sample_service_run))"
proof -
  have "map be_kind (snd sample_service_run) = [N_Soft, N_Hard]" by code_simp
  then show ?thesis using thresholds_announced_once [OF prod.collapse [symmetric], of service_sample_env] by metis
qed

end
