(* ===== verification/Context_Budget.thy ===== *)
theory Context_Budget
  imports Call_Budget
begin

text \<open>
  Three pure helpers of the budget package: the split of a model's context window over the zones of a prompt (\<^verbatim>\<open>packages/core/src/budget/context.ts\<close>), the
  cap on the result of a subagent (\<^verbatim>\<open>budget/subagent.ts\<close>) and the units of a media call (\<^verbatim>\<open>budget/media.ts\<close>). The product of a window and a share is
  rounded by the platform; the product is a parameter and the theorems hold whatever it rounds to. The tokenizer, the serialisation of a value and
  the store for full results are parameters of the cap.
\<close>

section \<open>The context window\<close>

datatype zone_name = Z_Tools | Z_System | Z_Memory | Z_Conversation | Z_Volatile

definition ZONES :: "zone_name list" where
  "ZONES = [Z_Tools, Z_System, Z_Memory, Z_Conversation, Z_Volatile]"

record zone_rule =
  zr_minShare :: jsnum
  zr_maxShare :: jsnum
  zr_maxTokens :: "jsnum option"

type_synonym zone_policy = "zone_name \<Rightarrow> zone_rule option"

definition DEFAULT_ZONE_POLICY :: zone_policy where
  "DEFAULT_ZONE_POLICY z = Some (case z of
     Z_Memory \<Rightarrow> \<lparr>zr_minShare = Fin 0, zr_maxShare = Fin (1 / 4), zr_maxTokens = Some (Fin 4250)\<rparr>
   | Z_Conversation \<Rightarrow> \<lparr>zr_minShare = Fin 0, zr_maxShare = Fin (4 / 5), zr_maxTokens = None\<rparr>
   | _ \<Rightarrow> \<lparr>zr_minShare = Fin 0, zr_maxShare = Fin (1 / 5), zr_maxTokens = None\<rparr>)"

datatype zone_error = Invalid_Window | Invalid_Zone_Policy zone_name | Invalid_Zone_Counts

text \<open>A zone with the tokens it has and the most it may have.\<close>

type_synonym zone_share = "zone_name \<times> int \<times> int"

datatype context_allocation = Allocated "(zone_name \<times> int) list" int | Infeasible_Zone zone_name | Infeasible_Sum

definition zone_rule_ok :: "zone_rule \<Rightarrow> bool" where
  "zone_rule_ok p \<longleftrightarrow> is_finite (zr_minShare p) \<and> is_finite (zr_maxShare p) \<and> 0 \<le> zr_minShare p \<and> zr_maxShare p \<le> Fin 1 \<and>
     zr_minShare p \<le> zr_maxShare p \<and> (case zr_maxTokens p of Some t \<Rightarrow> peer_count t | None \<Rightarrow> True)"

definition rat_of :: "jsnum \<Rightarrow> rat" where
  "rat_of x = (case x of Fin q \<Rightarrow> q | _ \<Rightarrow> 0)"

definition zone_min :: "(int \<Rightarrow> rat \<Rightarrow> rat) \<Rightarrow> int \<Rightarrow> zone_rule \<Rightarrow> int" where
  "zone_min mul w p = \<lceil>mul w (rat_of (zr_minShare p))\<rceil>"

definition zone_max :: "(int \<Rightarrow> rat \<Rightarrow> rat) \<Rightarrow> int \<Rightarrow> zone_rule \<Rightarrow> int" where
  "zone_max mul w p = min \<lfloor>mul w (rat_of (zr_maxShare p))\<rfloor> (case zr_maxTokens p of Some t \<Rightarrow> int_of t | None \<Rightarrow> w)"

text \<open>The first loop: the minimum and the maximum of each zone, up to the first invalid or infeasible one.\<close>

fun zone_ranges :: "(int \<Rightarrow> rat \<Rightarrow> rat) \<Rightarrow> int \<Rightarrow> zone_policy \<Rightarrow> zone_name list \<Rightarrow> zone_error + (zone_name + zone_share list)" where
  "zone_ranges mul w policy [] = Inr (Inr [])"
| "zone_ranges mul w policy (z # zs) =
     (case policy z of
        None \<Rightarrow> Inl (Invalid_Zone_Policy z)
      | Some p \<Rightarrow>
          if \<not> zone_rule_ok p then Inl (Invalid_Zone_Policy z)
          else if zone_max mul w p < zone_min mul w p then Inr (Inl z)
          else (case zone_ranges mul w policy zs of
                  Inr (Inr shs) \<Rightarrow> Inr (Inr ((z, zone_min mul w p, zone_max mul w p) # shs))
                | other \<Rightarrow> other))"

text \<open>One round of the second loop: every zone with room gets the share, as far as its room and the rest allow.\<close>

fun hand_out :: "int \<Rightarrow> int \<Rightarrow> zone_share list \<Rightarrow> zone_share list \<times> int" where
  "hand_out share rest [] = ([], rest)"
| "hand_out share rest ((z, b, mx) # shs) =
     (let add = (if b < mx then min rest (min share (mx - b)) else 0);
          (shs', rest') = hand_out share (rest - add) shs
      in ((z, b + add, mx) # shs', rest'))"

definition with_room :: "zone_share list \<Rightarrow> zone_share list" where
  "with_room shs = filter (\<lambda>(z, b, mx). b < mx) shs"

definition even_share :: "int \<Rightarrow> zone_share list \<Rightarrow> int" where
  "even_share rest shs = max 1 (rest div int (length (with_room shs)))"

definition shares_sum :: "zone_share list \<Rightarrow> int" where
  "shares_sum shs = sum_list (map (\<lambda>(z, b, mx). b) shs)"

lemma hand_out_rest: "1 \<le> share \<Longrightarrow> 0 \<le> rest \<Longrightarrow> 0 \<le> snd (hand_out share rest shs) \<and> snd (hand_out share rest shs) \<le> rest"
  by (induction share rest shs rule: hand_out.induct) (fastforce simp: Let_def split: prod.splits if_splits)+

lemma hand_out_progress:
  "1 \<le> share \<Longrightarrow> 0 < rest \<Longrightarrow> with_room shs \<noteq> [] \<Longrightarrow> snd (hand_out share rest shs) < rest"
proof (induction shs arbitrary: rest)
  case (Cons e shs)
  obtain z b mx where e: "e = (z, b, mx)" by (cases e) auto
  show ?case
  proof (cases "b < mx")
    case True
    let ?add = "min rest (min share (mx - b))"
    have "0 < ?add" "0 \<le> rest - ?add" using True Cons.prems by auto
    then have "snd (hand_out share (rest - ?add) shs) < rest" using hand_out_rest [OF Cons.prems(1), of "rest - ?add" shs] by linarith
    then show ?thesis using True by (simp add: e Let_def case_prod_unfold)
  next
    case False
    then have "snd (hand_out share rest shs) < rest" using Cons by (simp add: with_room_def e)
    then show ?thesis using False by (simp add: e Let_def case_prod_unfold)
  qed
qed (simp add: with_room_def)

function spread :: "int \<Rightarrow> zone_share list \<Rightarrow> zone_share list \<times> int" where
  "spread rest shs =
    (if 0 < rest \<and> with_room shs \<noteq> [] then (let (shs', rest') = hand_out (even_share rest shs) rest shs in spread rest' shs') else (shs, rest))"
  by auto
termination
proof (relation "measure (\<lambda>(rest, shs). nat rest)")
  fix rest :: int and shs x y z
  assume "0 < rest \<and> with_room shs \<noteq> []" and x: "x = hand_out (even_share rest shs) rest shs" "(y, z) = x"
  then have "z < rest" "0 < rest" using hand_out_progress [of "even_share rest shs" rest shs] by (auto simp: even_share_def) (metis snd_conv)
  then show "((z, y), rest, shs) \<in> measure (\<lambda>(rest, shs). nat rest)" by simp
qed simp

declare spread.simps [simp del]

definition allocateContext :: "(int \<Rightarrow> rat \<Rightarrow> rat) \<Rightarrow> jsnum \<Rightarrow> zone_policy \<Rightarrow> zone_error + context_allocation" where
  "allocateContext mul modelWindow policy =
    (if \<not> peer_count modelWindow then Inl Invalid_Window
     else (case zone_ranges mul (int_of modelWindow) policy ZONES of
             Inl e \<Rightarrow> Inl e
           | Inr (Inl z) \<Rightarrow> Inr (Infeasible_Zone z)
           | Inr (Inr shs) \<Rightarrow>
               (let rest = int_of modelWindow - shares_sum shs in
                if rest < 0 then Inr Infeasible_Sum
                else (case spread rest shs of (shs', unallocated) \<Rightarrow> Inr (Allocated (map (\<lambda>(z, b, mx). (z, b)) shs') unallocated)))))"

definition checkZones :: "(zone_name \<Rightarrow> jsnum) \<Rightarrow> (zone_name \<Rightarrow> jsnum option) \<Rightarrow> zone_error + (zone_name \<times> jsnum \<times> jsnum) list" where
  "checkZones budgets used =
    (if \<not> list_all (\<lambda>z. peer_count (opt_count (used z)) \<and> peer_count (budgets z)) ZONES then Inl Invalid_Zone_Counts
     else Inr (map (\<lambda>z. (z, budgets z, opt_count (used z))) (filter (\<lambda>z. budgets z < opt_count (used z)) ZONES)))"

section \<open>The cap on a subagent result\<close>

datatype cap_error = Invalid_Cap | Not_Serialisable | Invalid_Token_Count | No_Marker_Room | Invalid_Pointer

datatype capped_result = Cap_Complete | Capped string string int

definition cap_count :: "(string \<Rightarrow> jsnum) \<Rightarrow> string \<Rightarrow> cap_error + int" where
  "cap_count tokens s = (if peer_count (tokens s) then Inr (int_of (tokens s)) else Inl Invalid_Token_Count)"

definition estimateResultTokens :: "string \<Rightarrow> jsnum" where
  "estimateResultTokens text = Fin (of_nat (byte_length text))"

definition pointer_ok :: "string \<Rightarrow> bool" where
  "pointer_ok v \<longleftrightarrow> v \<noteq> [] \<and> (is_letter (hd v) \<or> digit_in 10 (hd v)) \<and> list_all id_char (tl v) \<and> length v \<le> 256"

definition newline :: char where
  "newline = CHR 0x0A"

definition cap_marker :: "string \<Rightarrow> string" where
  "cap_marker pointer = newline # ''[truncated; full result: '' @ pointer @ '']''"

text \<open>The longest beginning that the loop over the characters reaches before the count passes the limit.\<close>

fun fitting :: "(string \<Rightarrow> jsnum) \<Rightarrow> int \<Rightarrow> string \<Rightarrow> string \<Rightarrow> string \<Rightarrow> cap_error + string" where
  "fitting tokens limit marker pre [] = Inr pre"
| "fitting tokens limit marker pre (c # rs) =
     (case cap_count tokens (pre @ [c] @ marker) of
        Inl e \<Rightarrow> Inl e
      | Inr n \<Rightarrow> if limit < n then Inr pre else fitting tokens limit marker (pre @ [c]) rs)"

definition lastIndexOf :: "string \<Rightarrow> string \<Rightarrow> int" where
  "lastIndexOf pat s = (case filter (\<lambda>i. prefix pat (drop i s)) (rev [0..<Suc (length s)]) of [] \<Rightarrow> - 1 | i # _ \<Rightarrow> int i)"

definition at_boundary :: "string \<Rightarrow> string" where
  "at_boundary pre =
    (let boundary = max (lastIndexOf [newline, newline] pre) (max (lastIndexOf [newline] pre) (lastIndexOf '' '' pre))
     in if 0 < boundary then take (nat boundary) pre else pre)"

function shrink :: "(string \<Rightarrow> jsnum) \<Rightarrow> int \<Rightarrow> string \<Rightarrow> string \<Rightarrow> cap_error + string" where
  "shrink tokens limit marker pre =
    (case cap_count tokens (pre @ marker) of
       Inl e \<Rightarrow> Inl e
     | Inr n \<Rightarrow> if limit < n \<and> pre \<noteq> [] then shrink tokens limit marker (butlast pre) else Inr pre)"
  by auto
termination
  by (relation "measure (\<lambda>(tokens, limit, marker, pre). length pre)") auto

declare shrink.simps [simp del]

definition cap_with_pointer :: "(string \<Rightarrow> jsnum) \<Rightarrow> string \<Rightarrow> int \<Rightarrow> int \<Rightarrow> string option \<Rightarrow> cap_error + capped_result" where
  "cap_with_pointer tokens text cap originalTokens stored =
    (case stored of
       None \<Rightarrow> Inl Invalid_Pointer
     | Some pointer \<Rightarrow>
         if \<not> pointer_ok pointer then Inl Invalid_Pointer
         else (case cap_count tokens (cap_marker pointer) of
                 Inl e \<Rightarrow> Inl e
               | Inr n \<Rightarrow>
                   if cap < n then Inl No_Marker_Room
                   else (case fitting tokens cap (cap_marker pointer) [] text of
                           Inl e \<Rightarrow> Inl e
                         | Inr pre \<Rightarrow>
                             (case shrink tokens cap (cap_marker pointer) (at_boundary pre) of
                                Inl e \<Rightarrow> Inl e
                              | Inr p \<Rightarrow> Inr (Capped (p @ cap_marker pointer) pointer originalTokens)))))"

text \<open>
  The serialised value is \<open>None\<close> where it cannot be serialised; \<open>store\<close> answers \<open>None\<close> for something that is not a string. The second component says whether the
  full value was stored.
\<close>

definition capSubagentResult :: "(string \<Rightarrow> jsnum) \<Rightarrow> string option \<Rightarrow> jsnum option \<Rightarrow> string option \<Rightarrow> (cap_error + capped_result) \<times> bool" where
  "capSubagentResult tokens serialised limit stored =
    (let cap = (case limit of Some l \<Rightarrow> l | None \<Rightarrow> Fin 2000) in
     if \<not> is_safe_integer cap \<or> cap < Fin 1 then (Inl Invalid_Cap, False)
     else (case serialised of
             None \<Rightarrow> (Inl Not_Serialisable, False)
           | Some text \<Rightarrow>
               (case cap_count tokens text of
                  Inl e \<Rightarrow> (Inl e, False)
                | Inr originalTokens \<Rightarrow>
                    if originalTokens \<le> int_of cap then (Inr Cap_Complete, False)
                    else (case cap_count tokens ''[truncated; full result: ]'' of
                            Inl e \<Rightarrow> (Inl e, False)
                          | Inr least \<Rightarrow>
                              if int_of cap < least then (Inl No_Marker_Room, False)
                              else (cap_with_pointer tokens text (int_of cap) originalTokens stored, True)))))"

section \<open>Media units\<close>

datatype media_unit = Unit_Image | Unit_VideoSecond

definition mediaCallUnits :: "(media_unit \<times> jsnum) option \<Rightarrow> unit + (int option \<times> int option)" where
  "mediaCallUnits u = (case u of
     None \<Rightarrow> Inr (None, None)
   | Some (kind, quantity) \<Rightarrow>
       if \<not> is_finite quantity \<or> quantity < 0 then Inl ()
       else Inr (if kind = Unit_Image then (Some \<lceil>rat_of quantity\<rceil>, None) else (None, Some \<lceil>rat_of quantity\<rceil>)))"

section \<open>The allocation uses the whole window\<close>

definition share_ok :: "(int \<Rightarrow> rat \<Rightarrow> rat) \<Rightarrow> int \<Rightarrow> zone_policy \<Rightarrow> zone_share \<Rightarrow> bool" where
  "share_ok mul w policy e = (case e of (z, b, mx) \<Rightarrow>
     \<exists>p. policy z = Some p \<and> mx = zone_max mul w p \<and> zone_min mul w p \<le> b \<and> b \<le> mx)"

lemma zone_ranges_ok: "zone_ranges mul w policy zs = Inr (Inr shs) \<Longrightarrow> map fst shs = zs \<and> list_all (share_ok mul w policy) shs"
proof (induction zs arbitrary: shs)
  case (Cons z zs)
  then show ?case by (auto simp: share_ok_def split: option.splits if_splits sum.splits)
qed simp

lemma hand_out_keeps:
  assumes "1 \<le> share" "0 \<le> rest" "list_all (share_ok mul w policy) shs" "hand_out share rest shs = (shs', rest')"
  shows "map fst shs' = map fst shs \<and> list_all (share_ok mul w policy) shs' \<and> shares_sum shs' + rest' = shares_sum shs + rest \<and> 0 \<le> rest'"
  using assms
proof (induction shs arbitrary: rest shs' rest')
  case (Cons e shs)
  obtain z b mx where e: "e = (z, b, mx)" by (cases e) auto
  let ?add = "if b < mx then min rest (min share (mx - b)) else 0"
  obtain rs q where h: "hand_out share (rest - ?add) shs = (rs, q)" by (cases "hand_out share (rest - ?add) shs")
  have "shs' = (z, b + ?add, mx) # rs" "rest' = q" using Cons.prems(4) h by (simp_all add: e Let_def split: prod.splits)
  moreover have "0 \<le> ?add" "0 \<le> rest - ?add" "b + ?add \<le> max b mx" using Cons.prems by auto
  moreover have "share_ok mul w policy (z, b + ?add, mx)"
    using Cons.prems(3) \<open>0 \<le> ?add\<close> \<open>b + ?add \<le> max b mx\<close> by (fastforce simp: share_ok_def e)
  moreover have "map fst rs = map fst shs \<and> list_all (share_ok mul w policy) rs \<and> shares_sum rs + q = shares_sum shs + (rest - ?add) \<and> 0 \<le> q"
    using Cons.IH [OF Cons.prems(1) _ _ h] Cons.prems(3) \<open>0 \<le> rest - ?add\<close> by simp
  ultimately show ?case by (simp add: e shares_sum_def)
qed simp

lemma spread_keeps:
  assumes "0 \<le> rest" "list_all (share_ok mul w policy) shs" "spread rest shs = (shs', rest')"
  shows "map fst shs' = map fst shs \<and> list_all (share_ok mul w policy) shs' \<and> shares_sum shs' + rest' = shares_sum shs + rest \<and> 0 \<le> rest' \<and> (0 < rest' \<longrightarrow> with_room shs' = [])"
  using assms
proof (induction rest shs arbitrary: shs' rest' rule: spread.induct)
  case (1 rest shs)
  show ?case
  proof (cases "0 < rest \<and> with_room shs \<noteq> []")
    case True
    obtain rs q where h: "hand_out (even_share rest shs) rest shs = (rs, q)" by (cases "hand_out (even_share rest shs) rest shs")
    have step: "spread q rs = (shs', rest')" using 1(4) h True by (simp add: spread.simps [of rest])
    have "map fst rs = map fst shs \<and> list_all (share_ok mul w policy) rs \<and> shares_sum rs + q = shares_sum shs + rest \<and> 0 \<le> q"
      using hand_out_keeps [OF _ 1(2,3) h] by (simp add: even_share_def)
    with 1(1) [OF True h [symmetric] refl _ _ step] show ?thesis by simp
  next
    case False
    then have "shs' = shs" "rest' = rest" using 1(4) by (auto simp: spread.simps [of rest])
    with False 1(2,3) show ?thesis by auto
  qed
qed

text \<open>
  (C39) When the context window is allocated, every zone has its budget, in order, between its minimum and its maximum; budgets and the unallocated rest add up to
  the window exactly; and a rest is left only when every zone is at its maximum. This holds however the platform rounds the product of a window and a share.
\<close>

theorem allocate_exact:
  assumes "allocateContext mul window policy = Inr (Allocated budgets unallocated)"
  shows "map fst budgets = ZONES \<and> sum_list (map snd budgets) + unallocated = int_of window \<and> 0 \<le> unallocated \<and>
    (\<forall>(z, b)\<in>set budgets. \<exists>p. policy z = Some p \<and> zone_min mul (int_of window) p \<le> b \<and> b \<le> zone_max mul (int_of window) p \<and>
       (0 < unallocated \<longrightarrow> b = zone_max mul (int_of window) p))"
proof -
  let ?w = "int_of window"
  obtain shs shs' where shs: "zone_ranges mul ?w policy ZONES = Inr (Inr shs)" "0 \<le> ?w - shares_sum shs" "spread (?w - shares_sum shs) shs = (shs', unallocated)"
    and budgets: "budgets = map (\<lambda>(z, b, mx). (z, b)) shs'"
    using assms by (auto simp: allocateContext_def Let_def split: if_splits sum.splits prod.splits)
  note zb = zone_ranges_ok [OF shs(1)]
  have keeps: "map fst shs' = ZONES" "list_all (share_ok mul ?w policy) shs'" "shares_sum shs' + unallocated = ?w" "0 \<le> unallocated"
    "0 < unallocated \<longrightarrow> with_room shs' = []"
    using spread_keeps [OF shs(2) _ shs(3)] zb by auto
  have "map fst budgets = ZONES" using keeps(1) by (simp add: budgets case_prod_unfold comp_def)
  moreover have "sum_list (map snd budgets) = shares_sum shs'" by (simp add: budgets shares_sum_def case_prod_unfold comp_def)
  moreover have "\<exists>p. policy z = Some p \<and> zone_min mul ?w p \<le> b \<and> b \<le> zone_max mul ?w p \<and> (0 < unallocated \<longrightarrow> b = zone_max mul ?w p)"
    if "(z, b) \<in> set budgets" for z b
  proof -
    from that obtain mx where mem: "(z, b, mx) \<in> set shs'" by (auto simp: budgets)
    have full: "mx \<le> b" if "0 < unallocated" using keeps(5) mem that by (auto simp: with_room_def filter_empty_conv)
    from mem keeps(2) show ?thesis using full by (fastforce simp: share_ok_def list_all_iff)
  qed
  ultimately show ?thesis using keeps(3,4) by auto
qed

definition sample_policy :: zone_policy where
  "sample_policy z = Some \<lparr>zr_minShare = Fin (1 / 10), zr_maxShare = Fin (1 / 2), zr_maxTokens = (if z = Z_Memory then Some (Fin 12) else None)\<rparr>"

definition exact_product :: "int \<Rightarrow> rat \<Rightarrow> rat" where
  "exact_product w q = of_int w * q"

lemma sample_policy_allocated:
  "allocateContext exact_product (Fin 103) sample_policy = Inr (Allocated [(Z_Tools, 23), (Z_System, 23), (Z_Memory, 12), (Z_Conversation, 23), (Z_Volatile, 22)] 0)"
  by code_simp

theorem allocate_exact_witness:
  "23 + 23 + 12 + 23 + 22 = (103 :: int) \<and> 12 \<le> zone_max exact_product 103 (the (sample_policy Z_Memory))"
  using allocate_exact [OF sample_policy_allocated] by (auto simp: int_of_def sample_policy_def)

text \<open>The default policy is never infeasible, and its conversation zone may take most of the window.\<close>

lemma default_policy_feasible:
  assumes "peer_count window" "\<And>q. mul (int_of window) 0 = 0" "\<And>q. 0 \<le> q \<Longrightarrow> 0 \<le> mul (int_of window) q"
  shows "\<exists>budgets rest. allocateContext mul window DEFAULT_ZONE_POLICY = Inr (Allocated budgets rest)"
proof -
  have w: "0 \<le> int_of window" by (rule peer_count_nonneg [OF assms(1)])
  have ok: "zone_rule_ok (the (DEFAULT_ZONE_POLICY z))" for z
    by (cases z) (simp_all add: DEFAULT_ZONE_POLICY_def zone_rule_ok_def zero_jsnum_def peer_count_def is_safe_integer_def max_safe_integer_def)
  have mn: "zone_min mul (int_of window) (the (DEFAULT_ZONE_POLICY z)) = 0" for z
    by (cases z) (simp_all add: DEFAULT_ZONE_POLICY_def zone_min_def rat_of_def assms(2))
  have mx: "0 \<le> zone_max mul (int_of window) (the (DEFAULT_ZONE_POLICY z))" for z
    using w assms(3) by (cases z) (simp_all add: DEFAULT_ZONE_POLICY_def zone_max_def rat_of_def int_of_def)
  have "\<exists>shs. zone_ranges mul (int_of window) DEFAULT_ZONE_POLICY zs = Inr (Inr shs) \<and> shares_sum shs = 0" for zs
  proof (induction zs)
    case (Cons z zs)
    obtain p where p: "DEFAULT_ZONE_POLICY z = Some p" by (simp add: DEFAULT_ZONE_POLICY_def)
    have "zone_rule_ok p" "zone_min mul (int_of window) p = 0" "0 \<le> zone_max mul (int_of window) p" using ok [of z] mn [of z] mx [of z] p by simp_all
    with Cons p show ?case by (auto simp: shares_sum_def)
  qed (simp add: shares_sum_def)
  then obtain shs where "zone_ranges mul (int_of window) DEFAULT_ZONE_POLICY ZONES = Inr (Inr shs)" "shares_sum shs = 0" by blast
  with assms(1) w show ?thesis by (auto simp: allocateContext_def Let_def split: prod.splits)
qed

section \<open>A capped result fits\<close>

lemma fitting_prefix: "fitting tokens limit marker pre rs = Inr p \<Longrightarrow> prefix p (pre @ rs)"
  by (induction tokens limit marker pre rs rule: fitting.induct) (auto split: sum.splits if_splits)

lemma at_boundary_prefix: "prefix (at_boundary pre) pre"
  by (simp add: at_boundary_def Let_def take_is_prefix)

lemma shrink_fits:
  "shrink tokens limit marker pre = Inr p \<Longrightarrow> prefix p pre \<and> (\<exists>n. cap_count tokens (p @ marker) = Inr n \<and> (n \<le> limit \<or> p = []))"
proof (induction tokens limit marker pre rule: shrink.induct)
  case (1 tokens limit marker pre)
  then obtain n where n: "cap_count tokens (pre @ marker) = Inr n" by (auto simp: shrink.simps [of tokens limit marker pre] split: sum.splits)
  show ?case
  proof (cases "limit < n \<and> pre \<noteq> []")
    case True
    then have "shrink tokens limit marker (butlast pre) = Inr p" using 1(2) n by (simp add: shrink.simps [of tokens limit marker pre])
    with 1(1) [OF n True] show ?thesis using prefix_order.trans [OF _ prefixeq_butlast] by blast
  next
    case False
    then have "p = pre" using 1(2) n by (simp add: shrink.simps [of tokens limit marker pre] split: if_splits)
    with False n show ?thesis by auto
  qed
qed

lemma cap_with_pointerE:
  assumes "cap_with_pointer tokens text cap n stored = Inr (Capped shown pointer m)"
  obtains p k where "stored = Some pointer" "pointer_ok pointer" "m = n" "prefix p text" "shown = p @ cap_marker pointer"
    "cap_count tokens shown = Inr k" "k \<le> cap"
proof -
  note a = assms [unfolded cap_with_pointer_def]
  obtain q where q: "stored = Some q" "pointer_ok q" using a by (cases stored) (auto split: if_splits)
  obtain k0 where k0: "cap_count tokens (cap_marker q) = Inr k0" "k0 \<le> cap" using a q by (cases "cap_count tokens (cap_marker q)") (auto split: if_splits)
  obtain pre where pre: "fitting tokens cap (cap_marker q) [] text = Inr pre" using a q k0 by (cases "fitting tokens cap (cap_marker q) [] text") auto
  obtain p where p: "shrink tokens cap (cap_marker q) (at_boundary pre) = Inr p" using a q k0 pre by (cases "shrink tokens cap (cap_marker q) (at_boundary pre)") auto
  have shown: "shown = p @ cap_marker q" "pointer = q" "m = n" using a q k0 pre p by auto
  obtain k where k: "prefix p (at_boundary pre)" "cap_count tokens (p @ cap_marker q) = Inr k" "k \<le> cap \<or> p = []" using shrink_fits [OF p] by blast
  have "prefix p text" using k(1) at_boundary_prefix [of pre] fitting_prefix [OF pre] by (auto intro: prefix_order.trans)
  moreover have "k \<le> cap" using k k0 by auto
  ultimately show ?thesis using that q shown k(2) by blast
qed

text \<open>
  (C40) A subagent result is capped only when it is longer than the limit; what is shown is then a beginning of the result followed by the marker with a valid pointer,
  the full value has been stored, and the shown text is within the limit, whatever the tokenizer counts.
\<close>

theorem capped_fits:
  assumes "capSubagentResult tokens serialised limit stored = (Inr (Capped shown pointer originalTokens), saved)"
  shows "saved \<and> stored = Some pointer \<and> pointer_ok pointer \<and>
    (\<exists>body p n. serialised = Some body \<and> prefix p body \<and> shown = p @ cap_marker pointer \<and> cap_count tokens body = Inr originalTokens \<and>
       cap_count tokens shown = Inr n \<and> n \<le> int_of (case limit of Some l \<Rightarrow> l | None \<Rightarrow> Fin 2000) \<and>
       int_of (case limit of Some l \<Rightarrow> l | None \<Rightarrow> Fin 2000) < originalTokens)"
proof -
  define cap where "cap = (case limit of Some l \<Rightarrow> l | None \<Rightarrow> Fin 2000)"
  have valid: "\<not> (\<not> is_safe_integer cap \<or> cap < Fin 1)" using assms by (auto simp: capSubagentResult_def cap_def Let_def split: if_splits)
  note a = assms [unfolded capSubagentResult_def Let_def, folded cap_def]
  obtain body where body: "serialised = Some body" using a valid by (cases serialised) auto
  obtain n where n: "cap_count tokens body = Inr n" using a valid body by (cases "cap_count tokens body") auto
  have long: "int_of cap < n" using a valid body n by (cases "n \<le> int_of cap") auto
  obtain least where least: "cap_count tokens ''[truncated; full result: ]'' = Inr least" "least \<le> int_of cap"
    using a valid body n long by (cases "cap_count tokens ''[truncated; full result: ]''") (auto split: if_splits)
  have "cap_with_pointer tokens body (int_of cap) n stored = Inr (Capped shown pointer originalTokens)" saved
    using a valid body n long least by auto
  then show ?thesis using cap_with_pointerE body n long unfolding cap_def by (metis (no_types, lifting))
qed

lemma sample_capped:
  "capSubagentResult estimateResultTokens (Some ''one two three four five six seven eight nine ten eleven'') (Some (Fin 40)) (Some ''r/7'') =
   (Inr (Capped (''one two'' @ cap_marker ''r/7'') ''r/7'' 55), True)"
  by code_simp

theorem capped_fits_witness:
  "\<exists>n. cap_count estimateResultTokens (''one two'' @ cap_marker ''r/7'') = Inr n \<and> n \<le> 40"
  using capped_fits [OF sample_capped] by (auto simp: int_of_def)

lemma media_units_cover: "mediaCallUnits (Some (kind, Fin q)) = Inr (i, v) \<Longrightarrow> (i = Some n \<or> v = Some n) \<Longrightarrow> q \<le> of_int n \<and> of_int n < q + 1 \<and> 0 \<le> n"
  by (auto simp: mediaCallUnits_def rat_of_def zero_jsnum_def split: if_splits; linarith)

end
