(* ===== verification/Retry_Budget.thy ===== *)
theory Retry_Budget
  imports Peer_Budget
begin

text \<open>
  The retry budget of a turn, \<^verbatim>\<open>packages/core/src/budget/retry.ts\<close>: attempts and tokens per class of failure, tokens of all classes together, and
  tickets that are settled once. An operation that raises still returns the state it leaves: a settlement over budget is kept although it raises.
\<close>

section \<open>Model\<close>

record retry_rule =
  rr_maxAttempts :: jsnum
  rr_maxTokens :: jsnum

type_synonym retry_policy = "(string \<times> retry_rule) list"

definition RETRY_CLASSES :: "string list" where
  "RETRY_CLASSES = [''rate_limit'', ''overloaded'', ''network'', ''timeout'', ''tool_call_invalid'']"

definition DEFAULT_RETRY_POLICY :: retry_policy where
  "DEFAULT_RETRY_POLICY =
    [(''rate_limit'', \<lparr>rr_maxAttempts = Fin 3, rr_maxTokens = Fin 200000\<rparr>), (''overloaded'', \<lparr>rr_maxAttempts = Fin 2, rr_maxTokens = Fin 200000\<rparr>),
     (''network'', \<lparr>rr_maxAttempts = Fin 2, rr_maxTokens = Fin 100000\<rparr>), (''timeout'', \<lparr>rr_maxAttempts = Fin 1, rr_maxTokens = Fin 200000\<rparr>),
     (''tool_call_invalid'', \<lparr>rr_maxAttempts = Fin 1, rr_maxTokens = Fin 100000\<rparr>)]"

definition DEFAULT_RETRY_TURN_TOKENS :: jsnum where
  "DEFAULT_RETRY_TURN_TOKENS = Fin 400000"

datatype retry_error = Invalid_Policy | Invalid_Turn_Tokens | Invalid_Reservation | Unknown_Class | Over_Attempts string | Over_Tokens string
  | Invalid_Actual | Unknown_Ticket | Token_Overflow | Type_Error

record retry_turn =
  rt_total :: int
  rt_classes :: "(string \<times> (int \<times> int)) list"

record retry_ticket =
  tk_turn :: string
  tk_class :: string
  tk_reserved :: int
  tk_settled :: bool

record retry_budget =
  rb_policy :: retry_policy
  rb_maxTurn :: jsnum
  rb_turns :: "(string \<times> retry_turn) list"
  rb_tickets :: "(int \<times> retry_ticket) list"
  rb_nextTicket :: int

definition retry_create :: "retry_policy \<Rightarrow> jsnum \<Rightarrow> retry_error + retry_budget" where
  "retry_create policy maxTurn =
    (if \<not> list_all (\<lambda>k. case map_of policy k of Some r \<Rightarrow> peer_count (rr_maxAttempts r) \<and> peer_count (rr_maxTokens r) | None \<Rightarrow> False) RETRY_CLASSES
     then Inl Invalid_Policy
     else if \<not> peer_count maxTurn then Inl Invalid_Turn_Tokens
     else Inr \<lparr>rb_policy = policy, rb_maxTurn = maxTurn, rb_turns = [], rb_tickets = [], rb_nextTicket = 0\<rparr>)"

definition turn_of :: "retry_budget \<Rightarrow> string \<Rightarrow> retry_turn" where
  "turn_of b turnId = (case map_of (rb_turns b) turnId of Some t \<Rightarrow> t | None \<Rightarrow> \<lparr>rt_total = 0, rt_classes = []\<rparr>)"

definition retry_class_of :: "retry_turn \<Rightarrow> string \<Rightarrow> int \<times> int" where
  "retry_class_of t c = (case map_of (rt_classes t) c of Some v \<Rightarrow> v | None \<Rightarrow> (0, 0))"

abbreviation num :: "int \<Rightarrow> jsnum" where
  "num n \<equiv> Fin (of_int n)"

definition retry_consume :: "string \<Rightarrow> string \<Rightarrow> jsnum \<Rightarrow> retry_budget \<Rightarrow> (retry_error + int) \<times> retry_budget" where
  "retry_consume turnId c est b =
    (if turnId = [] \<or> \<not> peer_count est then (Inl Invalid_Reservation, b)
     else (case map_of (rb_policy b) c of
             None \<Rightarrow> (Inl Unknown_Class, b)
           | Some r \<Rightarrow>
               (let turn = turn_of b turnId; (attempts, tokens) = retry_class_of turn c in
                if rr_maxAttempts r \<le> num attempts then (Inl (Over_Attempts c), b)
                else if rr_maxTokens r - num tokens < est \<or> rb_maxTurn b - num (rt_total turn) < est then (Inl (Over_Tokens c), b)
                else
                  (let ticket = rb_nextTicket b + 1;
                       turn' = \<lparr>rt_total = rt_total turn + int_of est, rt_classes = map_set c (attempts + 1, tokens + int_of est) (rt_classes turn)\<rparr>
                   in (Inr ticket, b\<lparr>rb_turns := map_set turnId turn' (rb_turns b), rb_nextTicket := ticket,
                         rb_tickets := map_set ticket \<lparr>tk_turn = turnId, tk_class = c, tk_reserved = int_of est, tk_settled = False\<rparr> (rb_tickets b)\<rparr>)))))"

definition safe :: "int \<Rightarrow> bool" where
  "safe n \<longleftrightarrow> \<bar>n\<bar> \<le> max_safe_integer"

definition retry_settle :: "int \<Rightarrow> jsnum \<Rightarrow> retry_budget \<Rightarrow> (retry_error + bool) \<times> retry_budget" where
  "retry_settle ticket actual b =
    (if \<not> peer_count actual then (Inl Invalid_Actual, b)
     else (case map_of (rb_tickets b) ticket of
             None \<Rightarrow> (Inl Unknown_Ticket, b)
           | Some e \<Rightarrow>
               if tk_settled e then (Inr False, b)
               else
                 (case map_of (rb_turns b) (tk_turn e) of
                    None \<Rightarrow> (Inl Type_Error, b)
                  | Some turn \<Rightarrow>
                      (case map_of (rt_classes turn) (tk_class e) of
                         None \<Rightarrow> (Inl Type_Error, b)
                       | Some (attempts, tokens) \<Rightarrow>
                           (let delta = int_of actual - tk_reserved e in
                            if \<not> safe (rt_total turn + delta) \<or> \<not> safe (tokens + delta) then (Inl Token_Overflow, b)
                            else
                              (let turn' = \<lparr>rt_total = rt_total turn + delta, rt_classes = map_set (tk_class e) (attempts, tokens + delta) (rt_classes turn)\<rparr>;
                                   b' = b\<lparr>rb_turns := map_set (tk_turn e) turn' (rb_turns b),
                                          rb_tickets := map_set ticket (e\<lparr>tk_settled := True\<rparr>) (rb_tickets b)\<rparr>
                               in (case map_of (rb_policy b) (tk_class e) of
                                     None \<Rightarrow> (if rb_maxTurn b < num (rt_total turn') then Inl (Over_Tokens (tk_class e)) else Inl Type_Error, b')
                                   | Some r \<Rightarrow>
                                       (if rb_maxTurn b < num (rt_total turn') \<or> rr_maxTokens r < num (tokens + delta)
                                        then Inl (Over_Tokens (tk_class e)) else Inr True, b'))))))))"

definition endTurn :: "string \<Rightarrow> retry_budget \<Rightarrow> retry_budget" where
  "endTurn turnId b = b\<lparr>rb_turns := map_delete turnId (rb_turns b), rb_tickets := filter (\<lambda>(k, e). tk_turn e \<noteq> turnId) (rb_tickets b)\<rparr>"

section \<open>The budget holds\<close>

datatype retry_op = Do_Consume string string jsnum | Do_Settle int jsnum | Do_End string

fun retry_step :: "retry_op \<Rightarrow> retry_budget \<Rightarrow> retry_budget" where
  "retry_step (Do_Consume t c n) b = snd (retry_consume t c n b)"
| "retry_step (Do_Settle k n) b = snd (retry_settle k n b)"
| "retry_step (Do_End t) b = endTurn t b"

text \<open>A settlement that reports no more than the retry reserved.\<close>

fun modest :: "retry_op \<Rightarrow> retry_budget \<Rightarrow> bool" where
  "modest (Do_Settle k n) b = (case map_of (rb_tickets b) k of Some e \<Rightarrow> int_of n \<le> tk_reserved e | None \<Rightarrow> True)"
| "modest _ b = True"

fun modest_run :: "retry_op list \<Rightarrow> retry_budget \<Rightarrow> bool" where
  "modest_run [] b = True"
| "modest_run (p # ps) b = (modest p b \<and> modest_run ps (retry_step p b))"

text \<open>What holds of a turn: attempts always, tokens while settlements are modest.\<close>

definition turn_within :: "retry_budget \<Rightarrow> bool \<Rightarrow> retry_turn \<Rightarrow> bool" where
  "turn_within b tokens t \<longleftrightarrow>
    (tokens \<longrightarrow> num (rt_total t) \<le> rb_maxTurn b) \<and>
    (\<forall>c r. map_of (rb_policy b) c = Some r \<longrightarrow> c \<in> set RETRY_CLASSES \<longrightarrow>
       num (fst (retry_class_of t c)) \<le> rr_maxAttempts r \<and> (tokens \<longrightarrow> num (snd (retry_class_of t c)) \<le> rr_maxTokens r))"

definition policy_ok :: "retry_budget \<Rightarrow> bool" where
  "policy_ok b \<longleftrightarrow> peer_count (rb_maxTurn b) \<and>
    (\<forall>c r. map_of (rb_policy b) c = Some r \<longrightarrow> c \<in> set RETRY_CLASSES \<longrightarrow> peer_count (rr_maxAttempts r) \<and> peer_count (rr_maxTokens r))"

definition retry_inv :: "bool \<Rightarrow> retry_budget \<Rightarrow> bool" where
  "retry_inv tokens b \<longleftrightarrow> policy_ok b \<and> (\<forall>t. turn_within b tokens (turn_of b t))"

lemma peer_count_num: "peer_count x \<Longrightarrow> x = num (int_of x) \<and> 0 \<le> int_of x"
  using peer_count_nonneg [of x] by (auto simp: peer_count_def is_safe_integer_def int_of_def split: jsnum.splits)

lemma num_less [simp]: "num a \<le> num b \<longleftrightarrow> a \<le> b" "num a < num b \<longleftrightarrow> a < b" "num a - num b = num (a - b)"
  by simp_all

lemma num_trans: "num a \<le> x \<Longrightarrow> b \<le> a \<Longrightarrow> num b \<le> x"
  by (cases x) auto

lemma turn_of_set: "turn_of (b\<lparr>rb_turns := map_set t v (rb_turns b), rb_tickets := ts\<rparr>) t' = (if t' = t then v else turn_of b t')"
  by (simp add: turn_of_def map_set_lookup)

lemma within_upd:
  assumes "turn_within b tok t" "tok \<longrightarrow> num n \<le> rb_maxTurn b"
    and "\<And>r. map_of (rb_policy b) c = Some r \<Longrightarrow> c \<in> set RETRY_CLASSES \<Longrightarrow> num a \<le> rr_maxAttempts r \<and> (tok \<longrightarrow> num k \<le> rr_maxTokens r)"
  shows "turn_within b tok \<lparr>rt_total = n, rt_classes = map_set c (a, k) (rt_classes t)\<rparr>"
  using assms unfolding turn_within_def by (auto simp: retry_class_of_def map_set_lookup)

lemma within_policy: "rb_policy b' = rb_policy b \<Longrightarrow> rb_maxTurn b' = rb_maxTurn b \<Longrightarrow> turn_within b' tok t \<longleftrightarrow> turn_within b tok t"
  by (simp add: turn_within_def)

lemma policy_cong: "rb_policy b' = rb_policy b \<Longrightarrow> rb_maxTurn b' = rb_maxTurn b \<Longrightarrow> policy_ok b' \<longleftrightarrow> policy_ok b"
  by (simp add: policy_ok_def)

lemma retry_consumeE:
  assumes "retry_consume t c est b = (res, b')"
  obtains (same) "b' = b"
  | (taken) r where "peer_count est" "map_of (rb_policy b) c = Some r" "\<not> rr_maxAttempts r \<le> num (fst (retry_class_of (turn_of b t) c))"
    "\<not> rr_maxTokens r - num (snd (retry_class_of (turn_of b t) c)) < est" "\<not> rb_maxTurn b - num (rt_total (turn_of b t)) < est"
    "b' = b\<lparr>rb_turns := map_set t \<lparr>rt_total = rt_total (turn_of b t) + int_of est,
        rt_classes = map_set c (fst (retry_class_of (turn_of b t) c) + 1, snd (retry_class_of (turn_of b t) c) + int_of est) (rt_classes (turn_of b t))\<rparr> (rb_turns b),
      rb_nextTicket := rb_nextTicket b + 1,
      rb_tickets := map_set (rb_nextTicket b + 1) \<lparr>tk_turn = t, tk_class = c, tk_reserved = int_of est, tk_settled = False\<rparr> (rb_tickets b)\<rparr>"
proof (cases "map_of (rb_policy b) c")
  case None
  then show ?thesis using assms same by (simp add: retry_consume_def split: if_splits)
next
  case (Some r)
  let ?t = "turn_of b t"
  let ?stop = "t = [] \<or> \<not> peer_count est \<or> rr_maxAttempts r \<le> num (fst (retry_class_of ?t c)) \<or> rr_maxTokens r - num (snd (retry_class_of ?t c)) < est \<or>
    rb_maxTurn b - num (rt_total ?t) < est"
  obtain a k where v: "retry_class_of ?t c = (a, k)" by (cases "retry_class_of ?t c")
  show ?thesis
  proof (cases ?stop)
    case True
    then have "b' = b" using assms Some v unfolding retry_consume_def Let_def by (auto split: if_splits)
    then show ?thesis by (rule same)
  next
    case False
    then have "b' = b\<lparr>rb_turns := map_set t \<lparr>rt_total = rt_total ?t + int_of est, rt_classes = map_set c (a + 1, k + int_of est) (rt_classes ?t)\<rparr> (rb_turns b),
      rb_nextTicket := rb_nextTicket b + 1,
      rb_tickets := map_set (rb_nextTicket b + 1) \<lparr>tk_turn = t, tk_class = c, tk_reserved = int_of est, tk_settled = False\<rparr> (rb_tickets b)\<rparr>"
      using assms Some v by (simp add: retry_consume_def Let_def)
    with False Some v taken show ?thesis by simp
  qed
qed

lemma consume_inv:
  assumes inv: "retry_inv tok b" and res: "retry_consume t c est b = (res, b')"
  shows "retry_inv tok b'"
  using res
proof (cases rule: retry_consumeE)
  case (taken r)
  let ?t = "turn_of b t"
  obtain n where n: "est = num n" "int_of est = n" using peer_count_num [OF taken(1)] by metis
  obtain m where m: "rb_maxTurn b = num m" using inv peer_count_num by (metis retry_inv_def policy_ok_def)
  have total: "num (rt_total ?t + n) \<le> rb_maxTurn b" using taken(5) by (simp add: m n(1) not_less)
  have cls: "num (fst (retry_class_of ?t c) + 1) \<le> rr_maxAttempts r \<and> num (snd (retry_class_of ?t c) + n) \<le> rr_maxTokens r" if "c \<in> set RETRY_CLASSES"
  proof -
    have "peer_count (rr_maxAttempts r)" "peer_count (rr_maxTokens r)" using inv taken(2) that by (auto simp: retry_inv_def policy_ok_def)
    then obtain a k where "rr_maxAttempts r = num a" "rr_maxTokens r = num k" using peer_count_num by metis
    then show ?thesis using taken(3,4) by (simp add: n(1) not_less not_le)
  qed
  have "turn_within b tok \<lparr>rt_total = rt_total ?t + n, rt_classes = map_set c (fst (retry_class_of ?t c) + 1, snd (retry_class_of ?t c) + n) (rt_classes ?t)\<rparr>"
    using inv total cls taken(2) by (intro within_upd) (auto simp: retry_inv_def)
  moreover have "rb_policy b' = rb_policy b" "rb_maxTurn b' = rb_maxTurn b" by (simp_all add: taken(6))
  moreover have "turn_of b' t' = (if t' = t then \<lparr>rt_total = rt_total ?t + n,
      rt_classes = map_set c (fst (retry_class_of ?t c) + 1, snd (retry_class_of ?t c) + n) (rt_classes ?t)\<rparr> else turn_of b t')" for t'
    unfolding taken(6) n(2) by (simp add: turn_of_def map_set_lookup)
  ultimately show ?thesis using inv unfolding retry_inv_def by (simp add: within_policy [of b' b] policy_cong [of b' b])
qed (use inv in simp)

lemma settleE:
  assumes "retry_settle k actual b = (res, b')"
  obtains (same) "b' = b"
  | (settled) e turn a n where "map_of (rb_tickets b) k = Some e" "map_of (rb_turns b) (tk_turn e) = Some turn" "map_of (rt_classes turn) (tk_class e) = Some (a, n)"
    "b' = b\<lparr>rb_turns := map_set (tk_turn e) \<lparr>rt_total = rt_total turn + (int_of actual - tk_reserved e),
        rt_classes = map_set (tk_class e) (a, n + (int_of actual - tk_reserved e)) (rt_classes turn)\<rparr> (rb_turns b),
      rb_tickets := map_set k (e\<lparr>tk_settled := True\<rparr>) (rb_tickets b)\<rparr>"
proof (cases "b' = b")
  case False
  obtain e where e: "map_of (rb_tickets b) k = Some e" "\<not> tk_settled e" "peer_count actual"
    using assms False by (cases "map_of (rb_tickets b) k") (auto simp: retry_settle_def split: if_splits)
  obtain turn where turn: "map_of (rb_turns b) (tk_turn e) = Some turn"
    using assms False e by (cases "map_of (rb_turns b) (tk_turn e)") (simp_all add: retry_settle_def)
  obtain a n where cls: "map_of (rt_classes turn) (tk_class e) = Some (a, n)"
    using assms False e turn by (cases "map_of (rt_classes turn) (tk_class e)") (auto simp: retry_settle_def)
  have "b' = b\<lparr>rb_turns := map_set (tk_turn e) \<lparr>rt_total = rt_total turn + (int_of actual - tk_reserved e),
        rt_classes = map_set (tk_class e) (a, n + (int_of actual - tk_reserved e)) (rt_classes turn)\<rparr> (rb_turns b),
      rb_tickets := map_set k (e\<lparr>tk_settled := True\<rparr>) (rb_tickets b)\<rparr>"
    using assms False e turn cls by (cases "map_of (rb_policy b) (tk_class e)") (simp_all add: retry_settle_def Let_def split: if_splits)
  with e turn cls settled show ?thesis by blast
qed (rule same)

lemma settle_inv:
  assumes inv: "retry_inv tok b" and res: "retry_settle k actual b = (res, b')" and mod: "tok \<longrightarrow> modest (Do_Settle k actual) b"
  shows "retry_inv tok b'"
  using res
proof (cases rule: settleE)
  case (settled e turn a n)
  define d where "d = int_of actual - tk_reserved e"
  have d: "tok \<longrightarrow> d \<le> 0" using mod settled(1) by (simp add: d_def)
  have turn: "turn_of b (tk_turn e) = turn" using settled(2) by (simp add: turn_of_def)
  have w: "turn_within b tok turn" using inv turn by (metis retry_inv_def)
  have cls: "retry_class_of turn (tk_class e) = (a, n)" using settled(3) by (simp add: retry_class_of_def)
  have "turn_within b tok \<lparr>rt_total = rt_total turn + d, rt_classes = map_set (tk_class e) (a, n + d) (rt_classes turn)\<rparr>"
  proof (rule within_upd [OF w])
    show "tok \<longrightarrow> num (rt_total turn + d) \<le> rb_maxTurn b" using num_trans [of "rt_total turn" "rb_maxTurn b" "rt_total turn + d"] w d unfolding turn_within_def by auto
    show "num a \<le> rr_maxAttempts r \<and> (tok \<longrightarrow> num (n + d) \<le> rr_maxTokens r)"
      if "map_of (rb_policy b) (tk_class e) = Some r" "tk_class e \<in> set RETRY_CLASSES" for r
      using num_trans [of n "rr_maxTokens r" "n + d"] w d cls that unfolding turn_within_def by fastforce
  qed
  moreover have "rb_policy b' = rb_policy b" "rb_maxTurn b' = rb_maxTurn b" by (simp_all add: settled(4))
  moreover have "turn_of b' t' = (if t' = tk_turn e then \<lparr>rt_total = rt_total turn + d, rt_classes = map_set (tk_class e) (a, n + d) (rt_classes turn)\<rparr> else turn_of b t')" for t'
    unfolding settled(4) d_def by (rule turn_of_set)
  ultimately show ?thesis using inv unfolding retry_inv_def by (simp add: within_policy [of b' b] policy_cong [of b' b])
qed (use inv in simp)

lemma empty_within: "policy_ok b \<Longrightarrow> turn_within b tok \<lparr>rt_total = 0, rt_classes = []\<rparr>"
proof -
  assume p: "policy_ok b"
  have "num 0 \<le> x" if "peer_count x" for x using peer_count_num [OF that] num_less(1) [of 0 "int_of x"] by metis
  then show ?thesis using p by (auto simp: turn_within_def policy_ok_def retry_class_of_def)
qed

lemma end_inv: "retry_inv tok b \<Longrightarrow> retry_inv tok (endTurn t b)"
proof -
  assume inv: "retry_inv tok b"
  have "turn_of (endTurn t b) t' = (if t' = t then \<lparr>rt_total = 0, rt_classes = []\<rparr> else turn_of b t')" for t'
    by (simp add: turn_of_def endTurn_def map_delete_lookup)
  moreover have "rb_policy (endTurn t b) = rb_policy b" "rb_maxTurn (endTurn t b) = rb_maxTurn b" by (simp_all add: endTurn_def)
  ultimately show ?thesis using inv empty_within [of b tok]
    unfolding retry_inv_def by (simp add: within_policy [of "endTurn t b" b] policy_cong [of "endTurn t b" b])
qed

lemma run_inv: "retry_inv tok b \<Longrightarrow> tok \<longrightarrow> modest_run ps b \<Longrightarrow> retry_inv tok (fold retry_step ps b)"
proof (induction ps arbitrary: b)
  case (Cons p ps)
  have "retry_inv tok (retry_step p b)"
  proof (cases p)
    case (Do_Consume t c n)
    then show ?thesis using consume_inv [OF Cons.prems(1), of t c n "fst (retry_consume t c n b)"] by simp
  next
    case (Do_Settle k n)
    then show ?thesis using settle_inv [OF Cons.prems(1), of k n "fst (retry_settle k n b)"] Cons.prems(2) by simp
  next
    case (Do_End t)
    then show ?thesis using end_inv [OF Cons.prems(1)] by simp
  qed
  then show ?case using Cons by simp
qed simp


text \<open>Three retries of one class are allowed; the fourth is refused, and the tokens of the first settled for less are free again.\<close>

definition sample_retries :: "retry_op list" where
  "sample_retries = [Do_Consume ''t'' ''rate_limit'' (Fin 90000), Do_Settle 1 (Fin 50000), Do_Consume ''t'' ''rate_limit'' (Fin 60000),
     Do_Consume ''t'' ''rate_limit'' (Fin 70000), Do_Consume ''t'' ''rate_limit'' (Fin 1)]"

definition sample_budget :: retry_budget where
  "sample_budget = \<lparr>rb_policy = DEFAULT_RETRY_POLICY, rb_maxTurn = DEFAULT_RETRY_TURN_TOKENS, rb_turns = [], rb_tickets = [], rb_nextTicket = 0\<rparr>"


end
