(* ===== verification/Spec2Isabelle.thy ===== *)
theory Spec2Isabelle
  imports Policy_Theorems Surface_Trust Break_Glass Rbac_Guard Policy_Paths Service_Properties Egress_Properties Web_Robots Cron_Next Claim_Limits Budget_Period Service_Budget_Theorems Context_Budget Retry_Budget
begin

text \<open>
  \<^bold>\<open>Verification of the PLUR1BUS harness core\<close>

  PLUR1BUS runs language-model agents that act on the owner's machine and accounts. The TypeScript core
  (\<^verbatim>\<open>packages/core/src\<close>) decides what an agent may do: who may call which method, which tool call needs a person's
  consent, how that consent is recorded so that it cannot be forged, reused or stretched, and which network address a
  request may reach. This development models those parts and proves that they keep their promises.

  \<^bold>\<open>The parts and their theories\<close>

  \<^item> Prelude, \<open>Js_Values\<close>: numbers with the non-finite values, dynamic values, strings, maps in insertion order, results.
  \<^item> Tool policy, \<open>Policy_Capabilities\<close> (\<^verbatim>\<open>policy/effects.ts\<close>, \<^verbatim>\<open>policy/capabilities.ts\<close>), \<open>Policy_Decide\<close> (\<^verbatim>\<open>policy/decide.ts\<close>,
    \<^verbatim>\<open>policy/headless.ts\<close>) and \<open>Policy_Theorems\<close>: the capability table, \<open>decide\<close> with its denials, floors, overrides, grants and
    asks. The theorems say what every allow rests on, that money, privileged and batch calls need a single-use grant, that
    token scopes and declared effects can only tighten, and that the wildcard matcher equals its declarative meaning.
  \<^item> Paths, \<open>Policy_Paths\<close> (\<^verbatim>\<open>policy/paths.ts\<close>): spelling rules, canonical form, deny matching and system trees.
  \<^item> Access control, \<open>Rbac_Policy\<close> (\<^verbatim>\<open>rbac/types.ts\<close>, \<^verbatim>\<open>rbac/policy.ts\<close>, \<^verbatim>\<open>rbac/authorize.ts\<close>), \<open>Surface_Trust\<close> (\<^verbatim>\<open>rbac/surface.ts\<close>,
    \<^verbatim>\<open>rbac/connection-surface.ts\<close>), \<open>Break_Glass\<close> (\<^verbatim>\<open>rbac/break-glass.ts\<close>), \<open>Rbac_Guard\<close> (\<^verbatim>\<open>rbac/guard.ts\<close>): the action table,
    \<open>authorize\<close>, trust levels of surfaces, the break-glass registry as a step relation with its invariant, and the guarded RPC call.
  \<^item> Approvals, \<open>Perm_Db\<close> (\<^verbatim>\<open>approvals/db.ts\<close>), \<open>Approval_Chain\<close> (\<^verbatim>\<open>approvals/chain.ts\<close>, \<^verbatim>\<open>approvals/signing.ts\<close>), \<open>Approval_Store\<close>
    (\<^verbatim>\<open>approvals/store.ts\<close>): the tables, transactions as state transformers that may raise, the MAC chain with its cache, and the
    four operations on requests. The theorems say that the chain pins its contents, that only a rollback goes unnoticed, that
    no sequence of operations breaks it, and that an approval is used once.
  \<^item> Grants, \<open>Grant_Store\<close> (\<^verbatim>\<open>grants/store.ts\<close>), \<open>Grant_Theorems\<close>, \<open>Grant_Ops\<close>, \<open>Grant_Properties\<close>: every operation of the store on
    the shared database, the invariant that each row is vouched for by the chain, the refinement of the reads to a pure
    specification, and the composition with the evaluator through the locale \<open>grant_source\<close>.
  \<^item> Approval service, \<open>Approval_Service\<close> (\<^verbatim>\<open>approvals/service.ts\<close>, \<^verbatim>\<open>tools/approval.ts\<close>) and \<open>Service_Properties\<close>: requests, waiting
    calls, timeouts, decisions, \<open>begin\<close>, cancellation. Only a person's chained decision approves, and \<open>begin\<close> uses it up.
  \<^item> Network, \<open>Ip_Address\<close> (\<^verbatim>\<open>tools/web/ip.ts\<close>), \<open>Ip_Search\<close>, \<open>Ip_Theorems\<close>: address literals in every accepted spelling, ranges,
    the registry tables, the verdict and the search for the lowest public address of a range. The search is a partial
    function; it is proved to return and to answer what the classifier says of every address of the range.
    \<open>Egress_Guard\<close> (\<^verbatim>\<open>tools/web/guard.ts\<close>, \<^verbatim>\<open>egress/policy.ts\<close>, \<^verbatim>\<open>egress/gate.ts\<close>, \<^verbatim>\<open>egress/model-downloads.ts\<close>), \<open>Egress_Theorems\<close>,
    \<open>Egress_Service\<close> (\<^verbatim>\<open>egress/service.ts\<close>, \<^verbatim>\<open>tools/web/http.ts\<close>), \<open>Egress_Properties\<close>: the guard that pins one address, the
    configured policy, the gate before and after resolution, and the redirect loop over all of them. Every connection is
    safe (locale \<open>dial_contract\<close>, interpreted for the egress service and for the web tools), the number of hops is bounded,
    and the dry run agrees with the request.
  \<^item> Crawl rules, \<open>Web_Robots\<close> (\<^verbatim>\<open>tools/web/robots.ts\<close>): parsing, the group of an agent, pattern matching against a declarative meaning, the
    deciding rule, and the pacer with its cancelled waits.
  \<^item> Schedules, \<open>Js_Date\<close> (the UTC calendar of \<^verbatim>\<open>Date\<close>), \<open>Cron\<close>, \<open>Cron_Theorems\<close>, \<open>Cron_Next\<close> (\<^verbatim>\<open>dreams/cron.ts\<close>): expressions, the
    conversion of wall clock times, and the search for the next firing, which is proved to find the earliest across clock changes.
  \<^item> Attempt limits, \<open>Claim_Limits\<close> (\<^verbatim>\<open>identity/ratelimit.ts\<close>): failures in a window lock a key, whatever other keys do.
  \<^item> Budgets. \<open>Budget_Period\<close> (\<^verbatim>\<open>budget/period.ts\<close>): local days, weeks and months partition time where the date never steps back.
    \<open>Call_Budget\<close>, \<open>Call_Theorems\<close> (\<^verbatim>\<open>budget/calls.ts\<close>, \<^verbatim>\<open>budget/cache-read-weight.ts\<close>): reservations before a provider call and their settlement. \<open>Budget_Service\<close>,
    \<open>Service_Budget_Theorems\<close> (\<^verbatim>\<open>budget/service.ts\<close>, \<^verbatim>\<open>budget/cache-report.ts\<close>): the ledger, limits, notices and reports on the same tables; the two enforcement points
    are proved to count alike. \<open>Peer_Budget\<close> (\<^verbatim>\<open>budget/peer.ts\<close>) and \<open>Retry_Budget\<close> (\<^verbatim>\<open>budget/retry.ts\<close>): ceilings of a turn, kept by every sequence of
    operations. \<open>Context_Budget\<close> (\<^verbatim>\<open>budget/context.ts\<close>, \<^verbatim>\<open>budget/subagent.ts\<close>, \<^verbatim>\<open>budget/media.ts\<close>): the split of a context window, the cap on a result, media units.

  \<^bold>\<open>How the parts interact\<close>

  The RPC guard lets a handler run; a tool call is judged by \<open>decide\<close>, which reads grants from the grant store; an ask goes to the
  approval service, which records request, decision and use in the approval chain and creates grants; the grant store and
  the approval store share the database and the chain, so a grant counts only while the chain vouches for it. The
  network part is asked by every tool that connects. A model call passes the budget service or the call port, which share the ledger and the limits; both
  read the period of an instant from the budget periods.

  \<^bold>\<open>Choices of the model\<close>

  \<^item> Strings are lists of Latin-1 code units; numbers are rationals with the non-finite values, without rounding. Where the
    code compares with powers of 256 or with integers only, rounding does not show.
  \<^item> An operation that may raise returns \<open>Inl\<close> with the error and the state it leaves; a transaction restores the database and
    nothing else, so the cache of the chain survives it, as in the code.
  \<^item> An operation reads the clock once, except where a reading decides something of its own: the pacer, the pruning of the attempt limits, a peer
    reservation and a whole provider call take several. Random ids, the operating system's answers, audit writes that may fail, name
    resolution, URL parsing, the network and timers are the environment of an operation or outside steps.
  \<^item> HMAC, SHA-256, Ed25519 and \<open>domainToASCII\<close> are parameters. What is assumed of them is a hypothesis of the theorem that needs
    it, and each such theorem has a witness with a concrete instance. So are the date formatters of the platform (what a zone shows at an instant,
    with the law that it is the UTC reading shifted by an offset of less than a day), the tokenizer, and the rounded product of a window and a share. The input of a MAC is the structure that is serialised.
  \<^item> Loops are recursive functions with a termination proof. The only partial function is the address search; no fuel is used.

  \<^bold>\<open>Not modelled\<close>

  Opening and migrating the databases; resolving a path on the file system; the redacted detail and the view of a request for
  surfaces, and the code-root origin; sockets, decoding and byte caps of an HTTP exchange; the deferred start of maintenance; the texts of messages.
  Outside this development are the tools themselves, sessions, memory, protocols, channels, providers, secrets, the audit file, the user interfaces and the
  Rust launcher: they call the parts modelled here, and are I/O, storage or orchestration of model calls.
\<close>

end
